(* ===== verification/Bson_Prelude.thy ===== *)
theory Bson_Prelude
  imports Main "HOL-Library.Word"
begin

unbundle bit_operations_syntax

text \<open>
  Shared vocabulary of the development: the machine types of the C sources, the outcome of a C
  function (a value, an abort by a failed \<open>BSON_ASSERT\<close>, an access outside a memory object, or the
  fuel of a loop used up),
  reads and writes of byte memory, little-endian integers, C strings, and the generic lemmas the
  component theories use.

  Memory objects are byte lists. A pointer argument \<open>const T *p\<close> is modelled by the bytes that
  are readable from \<open>p\<close> on; the model of a read past them is \<open>Fault\<close>, so a theorem that a function
  returns \<open>Ret\<close> is also a proof that it stays inside its memory.
\<close>

section \<open>Machine types and outcomes\<close>

type_synonym byte = "8 word"
type_synonym u32 = "32 word"
type_synonym u64 = "64 word"

datatype 'a outcome = Ret 'a | Abort | Fault | Timeout

primrec cbind :: "'a outcome \<Rightarrow> ('a \<Rightarrow> 'b outcome) \<Rightarrow> 'b outcome" where
  "cbind (Ret x) k = k x"
| "cbind Abort k = Abort"
| "cbind Fault k = Fault"
| "cbind Timeout k = Timeout"

definition c_assert :: "bool \<Rightarrow> 'a outcome \<Rightarrow> 'a outcome" where
  "c_assert b k = (if b then k else Abort)"

named_theorems c_mem \<comment> \<open>definitions of the memory accesses, for evaluation\<close>
named_theorems word_nat \<comment> \<open>reading of word arithmetic as arithmetic on \<open>nat\<close>\<close>

lemma c_assert_True [simp]: "c_assert True k = k"
  and c_assert_False [simp]: "c_assert False k = Abort"
  by (simp_all add: c_assert_def)

lemma cbind_eq_Ret: "cbind m k = Ret y \<longleftrightarrow> (\<exists>x. m = Ret x \<and> k x = Ret y)"
  by (cases m) simp_all

lemma cbind_RetE [elim!]:
  assumes "cbind m k = Ret y"
  obtains x where "m = Ret x" "k x = Ret y"
  using assms by (auto simp: cbind_eq_Ret)

lemma cbind_assoc: "cbind (cbind m f) g = cbind m (\<lambda>x. cbind (f x) g)"
  by (cases m) simp_all

section \<open>Byte memory\<close>

definition rd8 :: "byte list \<Rightarrow> nat \<Rightarrow> byte outcome" where
  [c_mem]: "rd8 m i = (if i < length m then Ret (m ! i) else Fault)"

text \<open>\<open>memcpy\<close> of \<open>n\<close> bytes out of a memory object, and into one.\<close>

definition rdn :: "byte list \<Rightarrow> nat \<Rightarrow> nat \<Rightarrow> byte list outcome" where
  [c_mem]: "rdn m i n = (if i + n \<le> length m then Ret (take n (drop i m)) else Fault)"

definition wrn :: "byte list \<Rightarrow> nat \<Rightarrow> byte list \<Rightarrow> byte list outcome" where
  [c_mem]: "wrn m i bs =
     (if i + length bs \<le> length m then Ret (take i m @ bs @ drop (i + length bs) m) else Fault)"

text \<open>
  A heap buffer is modelled by its initialised prefix and its capacity, so that no content is
  invented for freshly allocated bytes. \<open>bput cap buf pos bs\<close> stores \<open>bs\<close> at \<open>pos\<close>: it stays within
  the capacity and extends the initialised prefix without a gap, or it is a \<open>Fault\<close>.
\<close>

definition bput :: "nat \<Rightarrow> byte list \<Rightarrow> nat \<Rightarrow> byte list \<Rightarrow> byte list outcome" where
  [c_mem]: "bput cap buf pos bs =
     (if pos \<le> length buf \<and> pos + length bs \<le> cap
      then Ret (take pos buf @ bs @ drop (pos + length bs) buf) else Fault)"

text \<open>\<open>strlen\<close>: the terminator has to be inside the object.\<close>

definition c_strlen :: "byte list \<Rightarrow> nat outcome" where
  [c_mem]: "c_strlen m =
     (if 0 \<in> set m then Ret (length (takeWhile (\<lambda>b. b \<noteq> 0) m)) else Fault)"

text \<open>The sign of \<open>memcmp\<close> on two objects of the same size.\<close>

fun c_memcmp :: "byte list \<Rightarrow> byte list \<Rightarrow> int" where
  "c_memcmp (x # xs) (y # ys) = (if x < y then - 1 else if y < x then 1 else c_memcmp xs ys)"
| "c_memcmp _ _ = 0"

lemma c_memcmp_eq_0: "length xs = length ys \<Longrightarrow> c_memcmp xs ys = 0 \<longleftrightarrow> xs = ys"
  by (induction xs ys rule: c_memcmp.induct) auto

lemma rd8_append_mid [simp]: "rd8 (xs @ b # ys) (length xs) = Ret b"
  by (simp add: rd8_def)

lemma rd8_eq_Ret: "rd8 m i = Ret b \<longleftrightarrow> i < length m \<and> m ! i = b"
  by (simp add: rd8_def)

lemma rdn_append_mid: "length bs = n \<Longrightarrow> rdn (xs @ bs @ ys) (length xs) n = Ret bs"
  by (simp add: rdn_def)

lemma rdn_eq_Ret: "rdn m i n = Ret bs \<longleftrightarrow> i + n \<le> length m \<and> take n (drop i m) = bs"
  by (simp add: rdn_def)

lemma length_wrn: "wrn m i bs = Ret m' \<Longrightarrow> length m' = length m"
  by (auto simp: wrn_def split: if_splits)

lemma takeWhile_terminated: "0 \<notin> set s \<Longrightarrow> takeWhile (\<lambda>b. b \<noteq> (0::byte)) (s @ 0 # rest) = s"
  by (induction s) auto

lemma c_strlen_terminated: "0 \<notin> set s \<Longrightarrow> c_strlen (s @ 0 # rest) = Ret (length s)"
  by (simp add: c_strlen_def takeWhile_terminated)

section \<open>Little-endian integers\<close>

definition le_bytes :: "nat \<Rightarrow> 'a::len word \<Rightarrow> byte list" where
  "le_bytes n w = map (\<lambda>i. ucast (drop_bit (8 * i) w)) [0..<n]"

primrec from_le :: "byte list \<Rightarrow> 'a::len word" where
  "from_le [] = 0"
| "from_le (b # bs) = ucast b OR push_bit 8 (from_le bs)"

abbreviation le32 :: "u32 \<Rightarrow> byte list" where "le32 \<equiv> le_bytes 4"
abbreviation le64 :: "u64 \<Rightarrow> byte list" where "le64 \<equiv> le_bytes 8"

lemma length_le_bytes [simp]: "length (le_bytes n w) = n"
  by (simp add: le_bytes_def)

lemma le32_eq:
  "le32 w = [ucast w, ucast (drop_bit 8 w), ucast (drop_bit 16 w), ucast (drop_bit 24 w)]"
  by (simp add: le_bytes_def eval_nat_numeral)

lemma bit_from_le:
  "bit (from_le bs :: 'a::len word) i \<longleftrightarrow>
     i < LENGTH('a) \<and> i < 8 * length bs \<and> bit (bs ! (i div 8)) (i mod 8)"
proof (induction bs arbitrary: i)
  case Nil
  then show ?case by simp
next
  case (Cons b bs)
  show ?case
  proof (cases "i < 8")
    case True
    then show ?thesis by (auto simp: bit_or_iff bit_ucast_iff bit_push_bit_iff)
  next
    case False
    then have "i div 8 = Suc ((i - 8) div 8)" and "i mod 8 = (i - 8) mod 8"
      by (simp_all add: le_div_geq le_mod_geq)
    with False Cons.IH [of "i - 8"] show ?thesis
      by (auto simp: bit_or_iff bit_ucast_iff bit_push_bit_iff dest: bit_imp_le_length)
  qed
qed

lemma bit_le_bytes:
  assumes "i < n"
  shows "bit (le_bytes n (w :: 'a::len word) ! i) j \<longleftrightarrow> j < 8 \<and> bit w (8 * i + j)"
  using assms by (simp add: le_bytes_def bit_ucast_iff bit_drop_bit_eq)

lemma from_le_le_bytes:
  assumes "LENGTH('a) = 8 * n"
  shows "from_le (le_bytes n (w :: 'a::len word)) = w"
proof (rule bit_word_eqI)
  fix i assume "i < LENGTH('a)"
  with assms show "bit (from_le (le_bytes n w) :: 'a word) i = bit w i"
    by (simp add: bit_from_le bit_le_bytes less_mult_imp_div_less mult.commute)
qed

lemma le_bytes_from_le:
  assumes "LENGTH('a) = 8 * length bs"
  shows "le_bytes (length bs) (from_le bs :: 'a::len word) = bs"
proof (rule nth_equalityI)
  fix i assume "i < length (le_bytes (length bs) (from_le bs :: 'a word))"
  then have i: "i < length bs" by simp
  show "le_bytes (length bs) (from_le bs :: 'a word) ! i = bs ! i"
  proof (rule bit_word_eqI)
    fix j assume "j < LENGTH(8)"
    then have "(8 * i + j) div 8 = i" and "(8 * i + j) mod 8 = j" and "j < 8"
      and "8 * i + j < 8 * length bs"
      using i by auto
    with i assms show "bit (le_bytes (length bs) (from_le bs :: 'a word) ! i) j = bit (bs ! i) j"
      by (simp add: bit_le_bytes bit_from_le)
  qed
qed simp

lemma from_le32 [simp]: "from_le (le32 w) = w"
  by (rule from_le_le_bytes) simp

lemma from_le64 [simp]: "from_le (le64 w) = w"
  by (rule from_le_le_bytes) simp

lemma le32_from_le: "length bs = 4 \<Longrightarrow> le32 (from_le bs) = bs"
  using le_bytes_from_le [of bs, where 'a = 32] by simp

lemma le64_from_le: "length bs = 8 \<Longrightarrow> le64 (from_le bs) = bs"
  using le_bytes_from_le [of bs, where 'a = 64] by simp

definition rd32 :: "byte list \<Rightarrow> nat \<Rightarrow> u32 outcome" where
  [c_mem]: "rd32 m i = cbind (rdn m i 4) (\<lambda>bs. Ret (from_le bs))"

definition rd64 :: "byte list \<Rightarrow> nat \<Rightarrow> u64 outcome" where
  [c_mem]: "rd64 m i = cbind (rdn m i 8) (\<lambda>bs. Ret (from_le bs))"

lemma rd32_append_mid [simp]: "rd32 (xs @ le32 w @ ys) (length xs) = Ret w"
  by (simp add: rd32_def rdn_append_mid)

lemma rd64_append_mid [simp]: "rd64 (xs @ le64 w @ ys) (length xs) = Ret w"
  by (simp add: rd64_def rdn_append_mid)

lemma rd32_in_range: "i + 4 \<le> length m \<Longrightarrow> rd32 m i = Ret (from_le (take 4 (drop i m)))"
  by (simp add: rd32_def rdn_def)

section \<open>Words as naturals\<close>

lemma unat_add_small [word_nat]:
  "unat a + unat b < 2 ^ LENGTH('a) \<Longrightarrow> unat (a + b :: 'a::len word) = unat a + unat b"
  by (simp add: unat_word_ariths)

lemma unat_sub_le [word_nat]:
  "unat b \<le> unat a \<Longrightarrow> unat (a - b :: 'a::len word) = unat a - unat b"
  by (simp add: unat_sub word_le_nat_alt)

lemma unat_u32_less: "unat (a :: u32) < 4294967296"
  by (rule order.strict_trans2 [OF unsigned_less]) simp

lemma unat_ucast_u64 [word_nat]: "unat (ucast (a :: u32) :: u64) = unat a"
  using unat_u32_less [of a] by (simp add: unsigned_ucast_eq take_bit_nat_eq_self)

lemmas word_compare_nat [word_nat] = word_less_nat_alt word_le_nat_alt

section \<open>Bits\<close>

lemma word_eq_bits: "x = y \<longleftrightarrow> (\<forall>n<LENGTH('a). bit x n = bit (y :: 'a::len word) n)"
  by (auto intro: bit_word_eqI)

lemma all_less_8:
  "(\<forall>n<8. P n) \<longleftrightarrow> P 0 \<and> P (1::nat) \<and> P 2 \<and> P 3 \<and> P 4 \<and> P 5 \<and> P 6 \<and> P 7"
  by (simp add: numeral_eq_Suc All_less_Suc) blast

lemma all_less_32:
  "(\<forall>n<32. P n) \<longleftrightarrow>
     (\<forall>n<8. P (n::nat)) \<and> (\<forall>n<8. P (8 + n)) \<and> (\<forall>n<8. P (16 + n)) \<and> (\<forall>n<8. P (24 + n))"
  (is "?L \<longleftrightarrow> ?R")
proof
  assume R: ?R
  have *: "P (8 * q + r)" if "q < 4" "r < 8" for q r
  proof -
    have "q = 0 \<or> q = 1 \<or> q = 2 \<or> q = 3" using that(1) by auto
    with R that(2) show ?thesis by auto
  qed
  have "P n" if "n < 32" for n
    using * [of "n div 8" "n mod 8"] that by auto
  then show ?L by blast
qed auto

text \<open>Equality of bytes by bits: with these rules the simplifier evaluates masks and shifts.\<close>

lemmas byte_bits =
  word_eq_bits all_less_8 bit_and_iff bit_or_iff bit_ucast_iff bit_drop_bit_eq bit_push_bit_iff

lemma bit_above_iff: "(\<exists>j\<ge>i. bit x j) \<longleftrightarrow> 2 ^ i \<le> unat (x :: 'a::len word)"
proof -
  have "(\<exists>j\<ge>i. bit x j) \<longleftrightarrow> drop_bit i x \<noteq> 0"
    using bit_imp_le_length
    by (fastforce simp: bit_eq_iff [of "drop_bit i x" 0] bit_drop_bit_eq le_iff_add)
  also have "\<dots> \<longleftrightarrow> unat x div 2 ^ i \<noteq> 0"
    by (simp only: unat_eq_0 [symmetric] unat_drop_bit_eq drop_bit_eq_div [of i "unat x"])
  finally show ?thesis by (simp add: div_eq_0_iff not_less)
qed

lemma unat_power_of_two: "k < LENGTH('a) \<Longrightarrow> unat (2 ^ k :: 'a::len word) = 2 ^ k"
proof -
  assume "k < LENGTH('a)"
  then have "unat (of_nat (2 ^ k) :: 'a word) = 2 ^ k"
    by (subst unat_of_nat) simp
  then show ?thesis by simp
qed

lemma bit_below_bound: "unat (x :: 'a::len word) < 2 ^ k \<Longrightarrow> k \<le> n \<Longrightarrow> \<not> bit x n"
  using bit_above_iff [of k x] by auto

end
