(* ===== verification/Bson_Types.thy ===== *)
theory Bson_Types
  imports Bson_Prelude
begin

text \<open>
  The declarations of \<open>bson-types.h\<close> and \<open>bson-private.h\<close> that the BSON components share: type
  codes, the \<open>bson_flags_t\<close> bits of a \<open>bson_t\<close>, and the power-of-two helpers with the proof that
  the bit-smearing computation is the least power of two above its argument.
\<close>

section \<open>Type codes\<close>

definition BSON_TYPE_EOD :: byte where "BSON_TYPE_EOD = 0x00"
definition BSON_TYPE_DOUBLE :: byte where "BSON_TYPE_DOUBLE = 0x01"
definition BSON_TYPE_UTF8 :: byte where "BSON_TYPE_UTF8 = 0x02"
definition BSON_TYPE_DOCUMENT :: byte where "BSON_TYPE_DOCUMENT = 0x03"
definition BSON_TYPE_ARRAY :: byte where "BSON_TYPE_ARRAY = 0x04"
definition BSON_TYPE_BINARY :: byte where "BSON_TYPE_BINARY = 0x05"
definition BSON_TYPE_UNDEFINED :: byte where "BSON_TYPE_UNDEFINED = 0x06"
definition BSON_TYPE_OID :: byte where "BSON_TYPE_OID = 0x07"
definition BSON_TYPE_BOOL :: byte where "BSON_TYPE_BOOL = 0x08"
definition BSON_TYPE_DATE_TIME :: byte where "BSON_TYPE_DATE_TIME = 0x09"
definition BSON_TYPE_NULL :: byte where "BSON_TYPE_NULL = 0x0A"
definition BSON_TYPE_REGEX :: byte where "BSON_TYPE_REGEX = 0x0B"
definition BSON_TYPE_DBPOINTER :: byte where "BSON_TYPE_DBPOINTER = 0x0C"
definition BSON_TYPE_CODE :: byte where "BSON_TYPE_CODE = 0x0D"
definition BSON_TYPE_SYMBOL :: byte where "BSON_TYPE_SYMBOL = 0x0E"
definition BSON_TYPE_CODEWSCOPE :: byte where "BSON_TYPE_CODEWSCOPE = 0x0F"
definition BSON_TYPE_INT32 :: byte where "BSON_TYPE_INT32 = 0x10"
definition BSON_TYPE_TIMESTAMP :: byte where "BSON_TYPE_TIMESTAMP = 0x11"
definition BSON_TYPE_INT64 :: byte where "BSON_TYPE_INT64 = 0x12"
definition BSON_TYPE_DECIMAL128 :: byte where "BSON_TYPE_DECIMAL128 = 0x13"
definition BSON_TYPE_MAXKEY :: byte where "BSON_TYPE_MAXKEY = 0x7F"
definition BSON_TYPE_MINKEY :: byte where "BSON_TYPE_MINKEY = 0xFF"

definition BSON_SUBTYPE_BINARY :: byte where "BSON_SUBTYPE_BINARY = 0x00"
definition BSON_SUBTYPE_BINARY_DEPRECATED :: byte where "BSON_SUBTYPE_BINARY_DEPRECATED = 0x02"

lemmas bson_type_defs =
  BSON_TYPE_EOD_def BSON_TYPE_DOUBLE_def BSON_TYPE_UTF8_def BSON_TYPE_DOCUMENT_def
  BSON_TYPE_ARRAY_def BSON_TYPE_BINARY_def BSON_TYPE_UNDEFINED_def BSON_TYPE_OID_def
  BSON_TYPE_BOOL_def BSON_TYPE_DATE_TIME_def BSON_TYPE_NULL_def BSON_TYPE_REGEX_def
  BSON_TYPE_DBPOINTER_def BSON_TYPE_CODE_def BSON_TYPE_SYMBOL_def BSON_TYPE_CODEWSCOPE_def
  BSON_TYPE_INT32_def BSON_TYPE_TIMESTAMP_def BSON_TYPE_INT64_def BSON_TYPE_DECIMAL128_def
  BSON_TYPE_MAXKEY_def BSON_TYPE_MINKEY_def

lemmas bson_subtype_defs = BSON_SUBTYPE_BINARY_def BSON_SUBTYPE_BINARY_DEPRECATED_def

definition INT32_MAX :: nat where "INT32_MAX = 2147483647"
definition BSON_MAX_SIZE :: nat where "BSON_MAX_SIZE = 2147483647"

section \<open>Powers of two\<close>

definition bson_next_power_of_two :: "u64 \<Rightarrow> u64" where
  "bson_next_power_of_two v =
     (let v = v - 1;
          v = v OR drop_bit 1 v;
          v = v OR drop_bit 2 v;
          v = v OR drop_bit 4 v;
          v = v OR drop_bit 8 v;
          v = v OR drop_bit 16 v;
          v = v OR drop_bit 32 v
      in v + 1)"

definition bson_is_power_of_two :: "u32 \<Rightarrow> bool" where
  "bson_is_power_of_two v \<longleftrightarrow> v \<noteq> 0 \<and> v AND (v - 1) = 0"

text \<open>After the step with shift \<open>k\<close>, bit \<open>i\<close> is set when one of the bits \<open>i, \<dots>, i + 2k - 1\<close> was.\<close>

definition smeared :: "'a::len word \<Rightarrow> nat \<Rightarrow> 'a word \<Rightarrow> bool" where
  "smeared x k y \<longleftrightarrow> (\<forall>i. bit y i \<longleftrightarrow> (\<exists>j<k. bit x (i + j)))"

lemma smeared_step:
  assumes "smeared x k y"
  shows "smeared x (2 * k) (y OR drop_bit k y)"
  unfolding smeared_def
proof
  fix i
  have "(\<exists>j<2*k. bit x (i + j)) \<longleftrightarrow> (\<exists>j<k. bit x (i + j)) \<or> (\<exists>j<k. bit x (k + i + j))"
  proof (intro iffI; elim disjE exE conjE)
    fix j assume "j < 2 * k" "bit x (i + j)"
    then show "(\<exists>j<k. bit x (i + j)) \<or> (\<exists>j<k. bit x (k + i + j))"
    proof (cases "j < k")
      case False
      with \<open>j < 2 * k\<close> \<open>bit x (i + j)\<close> have "j - k < k \<and> bit x (k + i + (j - k))" by (simp add: ac_simps)
      then show ?thesis by blast
    qed auto
  next
    fix j assume "j < k" "bit x (k + i + j)"
    then show "\<exists>j<2*k. bit x (i + j)" by (intro exI [of _ "k + j"]) (simp add: ac_simps)
  next
    fix j assume "j < k" "bit x (i + j)"
    then show "\<exists>j<2*k. bit x (i + j)" by (intro exI [of _ j]) simp
  qed
  with assms show "bit (y OR drop_bit k y) i \<longleftrightarrow> (\<exists>j<2*k. bit x (i + j))"
    by (simp add: smeared_def bit_or_iff bit_drop_bit_eq)
qed

lemma smeared_all:
  assumes "smeared x LENGTH('a) (y :: 'a::len word)" "unat x < 2 ^ k"
    "k = 0 \<or> 2 ^ (k - 1) \<le> unat x"
  shows "y = mask k"
proof (rule bit_word_eqI)
  fix i assume i: "i < LENGTH('a)"
  have "bit y i \<longleftrightarrow> (\<exists>j\<ge>i. bit x j)"
    using assms(1) unfolding smeared_def le_iff_add
    by (metis add_lessD1 bit_imp_le_length add.commute)
  also have "\<dots> \<longleftrightarrow> 2 ^ i \<le> unat x" by (rule bit_above_iff)
  also have "\<dots> \<longleftrightarrow> i < k"
  proof
    assume "2 ^ i \<le> unat x"
    with assms(2) have "(2::nat) ^ i < 2 ^ k" by (rule le_less_trans [rotated])
    then show "i < k" by simp
  next
    assume "i < k"
    with assms(3) have "(2::nat) ^ i \<le> 2 ^ (k - 1)" and "2 ^ (k - 1) \<le> unat x" by auto
    then show "2 ^ i \<le> unat x" by (rule le_trans)
  qed
  finally show "bit y i = bit (mask k :: 'a word) i" using i by (simp add: bit_mask_iff)
qed

lemma bit_length_ex: "\<exists>k. (n::nat) < 2 ^ k \<and> (k = 0 \<or> 2 ^ (k - 1) \<le> n)"
proof -
  have "n < 2 ^ n" by (rule less_exp)
  then have "\<exists>k. n < 2 ^ k" by (rule exI)
  then obtain k where k: "n < 2 ^ k" and least: "\<forall>m<k. \<not> n < 2 ^ m"
    unfolding exists_least_iff [of "\<lambda>k. n < 2 ^ k"] by (elim exE conjE)
  have "2 ^ (k - 1) \<le> n" if "k \<noteq> 0"
    using least [rule_format, of "k - 1"] that by simp
  with k show ?thesis by (intro exI [of _ k] conjI) (cases "k = 0"; simp)+
qed

lemma bson_next_power_of_two_is_power:
  assumes "1 \<le> unat v" "unat v \<le> 2 ^ 63"
  shows "\<exists>k\<le>63. unat (bson_next_power_of_two v) = 2 ^ k \<and> unat v \<le> 2 ^ k \<and> 2 ^ k < 2 * unat v"
proof -
  define x where "x = v - 1"
  obtain k where k: "unat x < 2 ^ k" "k = 0 \<or> 2 ^ (k - 1) \<le> unat x"
    using bit_length_ex by blast
  have x: "unat x = unat v - 1" using assms(1) by (simp add: x_def word_nat)
  have "k \<le> 63"
  proof (rule ccontr)
    assume "\<not> k \<le> 63"
    then have "(2::nat) ^ 63 \<le> 2 ^ (k - 1)" by (intro power_increasing) auto
    with k(2) x assms \<open>\<not> k \<le> 63\<close> show False by auto
  qed
  have "smeared x 1 x" by (simp add: smeared_def)
  from this [THEN smeared_step, THEN smeared_step, THEN smeared_step, THEN smeared_step,
      THEN smeared_step, THEN smeared_step]
  have "bson_next_power_of_two v = mask k + 1"
    unfolding bson_next_power_of_two_def Let_def x_def [symmetric]
    by (simp add: smeared_all [OF _ k])
  then have "bson_next_power_of_two v = 2 ^ k" by (simp add: mask_eq_exp_minus_1)
  then have r: "unat (bson_next_power_of_two v) = 2 ^ k"
    using \<open>k \<le> 63\<close> by (simp add: unat_power_of_two)
  have "2 ^ k < 2 * unat v"
    using k(2) x assms(1) by (cases k) auto
  moreover have "unat v \<le> 2 ^ k" using k(1) x assms(1) by simp
  ultimately show ?thesis using r \<open>k \<le> 63\<close> by auto
qed

end
