(* ===== verification/Bson_Utf8.thy ===== *)
theory Bson_Utf8
  imports Bson_Prelude
begin

text \<open>
  \<open>bson-utf8.c\<close>: sequence lengths, validation, decoding of one character and encoding of one
  code point. A \<open>const char *\<close> into a string is the memory of the string and an index into it.
  The loop counter of \<open>bson_utf8_validate\<close> is an \<open>unsigned\<close>; it is modelled by a \<open>nat\<close>, which
  agrees with it for every string shorter than 4 GiB (BSON strings are shorter than 2 GiB).
\<close>

section \<open>Decoding and encoding one character\<close>

definition utf8_get_sequence :: "byte \<Rightarrow> nat \<times> byte" where
  "utf8_get_sequence c =
     (if c AND 0x80 = 0 then (1, 0x7F)
      else if c AND 0xE0 = 0xC0 then (2, 0x1F)
      else if c AND 0xF0 = 0xE0 then (3, 0x0F)
      else if c AND 0xF8 = 0xF0 then (4, 0x07)
      else (0, 0))"

text \<open>The loop of \<open>bson_utf8_get_char\<close> over \<open>k\<close> further bytes, starting at index \<open>j\<close>.\<close>

fun utf8_get_rest :: "byte list \<Rightarrow> nat \<Rightarrow> nat \<Rightarrow> u32 \<Rightarrow> u32 outcome" where
  "utf8_get_rest s j 0 c = Ret c"
| "utf8_get_rest s j (Suc k) c =
     cbind (rd8 s j) (\<lambda>b. utf8_get_rest s (Suc j) k (push_bit 6 c OR ucast (b AND 0x3F)))"

definition bson_utf8_get_char :: "byte list \<Rightarrow> nat \<Rightarrow> u32 outcome" where
  "bson_utf8_get_char s i =
     cbind (rd8 s i) (\<lambda>b.
       let (num, mask) = utf8_get_sequence b
       in utf8_get_rest s (Suc i) (num - 1) (ucast (b AND mask)))"

definition bson_utf8_next_char :: "byte list \<Rightarrow> nat \<Rightarrow> nat outcome" where
  "bson_utf8_next_char s i = cbind (rd8 s i) (\<lambda>b. Ret (i + fst (utf8_get_sequence b)))"

text \<open>The bytes stored in \<open>utf8\<close>; their number is \<open>*len\<close>.\<close>

definition bson_utf8_from_unichar :: "u32 \<Rightarrow> byte list" where
  "bson_utf8_from_unichar c =
     (if c \<le> 0x7F then [ucast c]
      else if c \<le> 0x7FF then
        [ucast (0xC0 OR (drop_bit 6 c AND 0x3F)), ucast (0x80 OR (c AND 0x3F))]
      else if c \<le> 0xFFFF then
        [ucast (0xE0 OR (drop_bit 12 c AND 0xF)), ucast (0x80 OR (drop_bit 6 c AND 0x3F)),
         ucast (0x80 OR (c AND 0x3F))]
      else if c \<le> 0x1FFFFF then
        [ucast (0xF0 OR (drop_bit 18 c AND 0x7)), ucast (0x80 OR (drop_bit 12 c AND 0x3F)),
         ucast (0x80 OR (drop_bit 6 c AND 0x3F)), ucast (0x80 OR (c AND 0x3F))]
      else [])"

section \<open>Validation\<close>

text \<open>
  The inner loop over the continuation bytes (\<open>None\<close>: a byte without the bits \<open>10\<close> on top, the
  function returns false), and the scan for NUL bytes.
\<close>

fun utf8_check_rest :: "byte list \<Rightarrow> nat \<Rightarrow> nat \<Rightarrow> u32 \<Rightarrow> u32 option outcome" where
  "utf8_check_rest s j 0 c = Ret (Some c)"
| "utf8_check_rest s j (Suc k) c =
     cbind (rd8 s j) (\<lambda>b.
       if b AND 0xC0 \<noteq> 0x80 then Ret None
       else utf8_check_rest s (Suc j) k (push_bit 6 c OR ucast (b AND 0x3F)))"

fun utf8_no_null :: "byte list \<Rightarrow> nat \<Rightarrow> nat \<Rightarrow> nat \<Rightarrow> bool outcome" where
  "utf8_no_null s len i 0 = Ret True"
| "utf8_no_null s len i (Suc k) =
     (if i > len then Ret False
      else cbind (rd8 s i) (\<lambda>b. if b = 0 then Ret False else utf8_no_null s len (Suc i) k))"

definition utf8_shortest_form :: "nat \<Rightarrow> u32 \<Rightarrow> bool \<Rightarrow> bool" where
  "utf8_shortest_form n c allow_null =
     (if n = 1 then c \<le> 0x7F
      else if n = 2 then
        (if 0x80 \<le> c \<and> c \<le> 0x7FF then True else if c = 0 then allow_null else False)
      else if n = 3 then (0x800 \<le> c \<and> c \<le> 0xFFF) \<or> (0x1000 \<le> c \<and> c \<le> 0xFFFF)
      else if n = 4 then
        (0x10000 \<le> c \<and> c \<le> 0x3FFFF) \<or> (0x40000 \<le> c \<and> c \<le> 0xFFFFF) \<or>
        (0x100000 \<le> c \<and> c \<le> 0x10FFFF)
      else False)"

text \<open>One iteration of the outer loop: the length to advance by, or \<open>None\<close> for \<open>return false\<close>.\<close>

definition utf8_check_char :: "byte list \<Rightarrow> nat \<Rightarrow> bool \<Rightarrow> nat \<Rightarrow> nat option outcome" where
  "utf8_check_char s len allow_null i =
     cbind (rd8 s i) (\<lambda>b.
       let (n, mask) = utf8_get_sequence b in
       if n = 0 then Ret None
       else if len - i < n then Ret None
       else cbind (utf8_check_rest s (Suc i) (n - 1) (ucast (b AND mask))) (\<lambda>r.
         case r of
           None \<Rightarrow> Ret None
         | Some c \<Rightarrow>
             cbind (if allow_null then Ret True else utf8_no_null s len i n) (\<lambda>ok.
               if \<not> ok then Ret None
               else if c > 0x0010FFFF then Ret None
               else if c AND 0xFFFFF800 = 0xD800 then Ret None
               else if utf8_shortest_form n c allow_null then Ret (Some n)
               else Ret None)))"

lemma utf8_check_char_pos: "utf8_check_char s len an i = Ret (Some n) \<Longrightarrow> 0 < n"
  by (auto simp: utf8_check_char_def Let_def split: prod.splits if_splits option.splits)

function utf8_validate_from :: "byte list \<Rightarrow> nat \<Rightarrow> bool \<Rightarrow> nat \<Rightarrow> bool outcome" where
  "utf8_validate_from s len allow_null i =
     (if i < len then
        (case utf8_check_char s len allow_null i of
           Ret None \<Rightarrow> Ret False
         | Ret (Some n) \<Rightarrow> utf8_validate_from s len allow_null (i + n)
         | Abort \<Rightarrow> Abort
         | Fault \<Rightarrow> Fault | Timeout \<Rightarrow> Timeout)
      else Ret True)"
  by pat_completeness auto
termination
  by (relation "measure (\<lambda>(s, len, an, i). len - i)") (auto dest: utf8_check_char_pos)

declare utf8_validate_from.simps [simp del]

definition bson_utf8_validate :: "byte list \<Rightarrow> nat \<Rightarrow> bool \<Rightarrow> bool outcome" where
  "bson_utf8_validate utf8 utf8_len allow_null = utf8_validate_from utf8 utf8_len allow_null 0"

section \<open>The specification: Unicode scalar values\<close>

definition unicode_scalar :: "u32 \<Rightarrow> bool" where
  "unicode_scalar c \<longleftrightarrow> c \<le> 0x10FFFF \<and> \<not> (0xD800 \<le> c \<and> c \<le> 0xDFFF)"

text \<open>
  What a valid string is made of: the encodings of scalar values, NUL only when it is allowed, and
  then also the two-byte form of NUL.
\<close>

definition utf8_unit :: "bool \<Rightarrow> byte list \<Rightarrow> bool" where
  "utf8_unit allow_null u \<longleftrightarrow>
     (\<exists>c. unicode_scalar c \<and> (c = 0 \<longrightarrow> allow_null) \<and> u = bson_utf8_from_unichar c) \<or>
     allow_null \<and> u = [0xC0, 0x80]"

section \<open>Lead bytes and continuation bytes\<close>

lemma lead_bits:
  "(b :: byte) AND 0x80 = 0 \<longleftrightarrow> \<not> bit b 7"
  "b AND 0xE0 = 0xC0 \<longleftrightarrow> bit b 7 \<and> bit b 6 \<and> \<not> bit b 5"
  "b AND 0xF0 = 0xE0 \<longleftrightarrow> bit b 7 \<and> bit b 6 \<and> bit b 5 \<and> \<not> bit b 4"
  "b AND 0xF8 = 0xF0 \<longleftrightarrow> bit b 7 \<and> bit b 6 \<and> bit b 5 \<and> bit b 4 \<and> \<not> bit b 3"
  "b AND 0xC0 = 0x80 \<longleftrightarrow> bit b 7 \<and> \<not> bit b 6"
  by (auto simp: byte_bits)

lemmas u32_bits = byte_bits all_less_32

section \<open>Bit-level inverses\<close>

lemma surrogate_mask: "(c :: u32) AND 0xFFFFF800 = 0xD800 \<longleftrightarrow> 0xD800 \<le> c \<and> c \<le> 0xDFFF"
proof -
  have "\<not> bit c n" if "32 \<le> n" for n
    using bit_imp_le_length [of c n] that by auto
  then have "c AND 0xFFFFF800 = 0xD800 \<longleftrightarrow> drop_bit 11 c = 0x1B"
    by (auto simp: u32_bits)
  also have "\<dots> \<longleftrightarrow> unat (drop_bit 11 c) = unat (0x1B :: u32)" by (rule word_unat_eq_iff)
  also have "\<dots> \<longleftrightarrow> unat c div 2048 = 27"
    by (simp only: unat_drop_bit_eq drop_bit_eq_div [of 11 "unat c"]) simp
  also have "\<dots> \<longleftrightarrow> 0xD800 \<le> c \<and> c \<le> 0xDFFF"
    by (simp add: word_nat) arith
  finally show ?thesis .
qed

lemma lead_decoded_2:
  assumes "b0 AND 0xE0 = 0xC0" "b1 AND 0xC0 = 0x80"
    "(c :: u32) = push_bit 6 (ucast (b0 AND 0x1F)) OR ucast (b1 AND 0x3F)"
  shows "ucast (0xC0 OR (drop_bit 6 c AND 0x3F)) = (b0 :: byte)" "ucast (0x80 OR (c AND 0x3F)) = (b1 :: byte)"
  using assms(1,2) by (auto simp: assms(3) lead_bits byte_bits)

lemma encode_decoded_2:
  assumes "b0 AND 0xE0 = 0xC0" "b1 AND 0xC0 = 0x80"
    "c = push_bit 6 (ucast (b0 AND 0x1F)) OR ucast (b1 AND 0x3F)" "0x80 \<le> c" "c \<le> 0x7FF"
  shows "bson_utf8_from_unichar c = [b0, b1]"
  using lead_decoded_2 [OF assms(1-3)] assms(4,5) by (auto simp: bson_utf8_from_unichar_def word_nat)

lemma encode_decoded_3:
  assumes "b0 AND 0xF0 = 0xE0" "b1 AND 0xC0 = 0x80" "b2 AND 0xC0 = 0x80"
    "c = push_bit 6 (push_bit 6 (ucast (b0 AND 0x0F)) OR ucast (b1 AND 0x3F)) OR ucast (b2 AND 0x3F)"
    "0x800 \<le> c" "c \<le> 0xFFFF"
  shows "bson_utf8_from_unichar c = [b0, b1, b2]"
proof -
  have "ucast (0xE0 OR (drop_bit 12 c AND 0xF)) = b0" "ucast (0x80 OR (drop_bit 6 c AND 0x3F)) = b1"
    "ucast (0x80 OR (c AND 0x3F)) = b2"
    using assms(1-3) by (auto simp: assms(4) lead_bits byte_bits)
  with assms(5,6) show ?thesis by (auto simp: bson_utf8_from_unichar_def word_nat)
qed

lemma encode_decoded_4:
  assumes "b0 AND 0xF8 = 0xF0" "b1 AND 0xC0 = 0x80" "b2 AND 0xC0 = 0x80" "b3 AND 0xC0 = 0x80"
    "c = push_bit 6 (push_bit 6 (push_bit 6 (ucast (b0 AND 0x07)) OR ucast (b1 AND 0x3F))
           OR ucast (b2 AND 0x3F)) OR ucast (b3 AND 0x3F)"
    "0x10000 \<le> c" "c \<le> 0x10FFFF"
  shows "bson_utf8_from_unichar c = [b0, b1, b2, b3]"
proof -
  have "ucast (0xF0 OR (drop_bit 18 c AND 0x7)) = b0" "ucast (0x80 OR (drop_bit 12 c AND 0x3F)) = b1"
    "ucast (0x80 OR (drop_bit 6 c AND 0x3F)) = b2" "ucast (0x80 OR (c AND 0x3F)) = b3"
    using assms(1-4) by (auto simp: assms(5) lead_bits byte_bits)
  with assms(6,7) show ?thesis by (auto simp: bson_utf8_from_unichar_def word_nat)
qed

lemma decode_encoded_2:
  assumes "(c :: u32) \<le> 0x7FF"
    "b0 = (ucast (0xC0 OR (drop_bit 6 c AND 0x3F)) :: byte)" "b1 = (ucast (0x80 OR (c AND 0x3F)) :: byte)"
  shows "b0 AND 0xE0 = 0xC0" "b1 AND 0xC0 = 0x80"
    "push_bit 6 (ucast (b0 AND 0x1F)) OR ucast (b1 AND 0x3F) = c"
proof -
  have z: "\<not> bit c n" if "11 \<le> n" for n
    using bit_below_bound [of c 11 n] assms(1) that by (simp add: word_nat)
  show "b0 AND 0xE0 = 0xC0" "b1 AND 0xC0 = 0x80" by (auto simp: assms(2,3) z byte_bits)
  show "push_bit 6 (ucast (b0 AND 0x1F)) OR ucast (b1 AND 0x3F) = c"
    by (auto simp: assms(2,3) z u32_bits)
qed

lemma decode_encoded_3:
  assumes "(c :: u32) \<le> 0xFFFF"
    "b0 = (ucast (0xE0 OR (drop_bit 12 c AND 0xF)) :: byte)"
    "b1 = (ucast (0x80 OR (drop_bit 6 c AND 0x3F)) :: byte)"
    "b2 = (ucast (0x80 OR (c AND 0x3F)) :: byte)"
  shows "b0 AND 0xF0 = 0xE0" "b1 AND 0xC0 = 0x80" "b2 AND 0xC0 = 0x80"
    "push_bit 6 (push_bit 6 (ucast (b0 AND 0x0F)) OR ucast (b1 AND 0x3F)) OR ucast (b2 AND 0x3F) = c"
proof -
  have z: "\<not> bit c n" if "16 \<le> n" for n
    using bit_below_bound [of c 16 n] assms(1) that by (simp add: word_nat)
  show "b0 AND 0xF0 = 0xE0" "b1 AND 0xC0 = 0x80" "b2 AND 0xC0 = 0x80"
    by (auto simp: assms(2-4) z byte_bits)
  show "push_bit 6 (push_bit 6 (ucast (b0 AND 0x0F)) OR ucast (b1 AND 0x3F)) OR ucast (b2 AND 0x3F) = c"
    by (auto simp: assms(2-4) z u32_bits)
qed

lemma decode_encoded_4:
  assumes "(c :: u32) \<le> 0x1FFFFF"
    "b0 = (ucast (0xF0 OR (drop_bit 18 c AND 0x7)) :: byte)"
    "b1 = (ucast (0x80 OR (drop_bit 12 c AND 0x3F)) :: byte)"
    "b2 = (ucast (0x80 OR (drop_bit 6 c AND 0x3F)) :: byte)"
    "b3 = (ucast (0x80 OR (c AND 0x3F)) :: byte)"
  shows "b0 AND 0xF8 = 0xF0" "b1 AND 0xC0 = 0x80" "b2 AND 0xC0 = 0x80" "b3 AND 0xC0 = 0x80"
    "push_bit 6 (push_bit 6 (push_bit 6 (ucast (b0 AND 0x07)) OR ucast (b1 AND 0x3F))
       OR ucast (b2 AND 0x3F)) OR ucast (b3 AND 0x3F) = c"
proof -
  have z: "\<not> bit c n" if "21 \<le> n" for n
    using bit_below_bound [of c 21 n] assms(1) that by (simp add: word_nat)
  show "b0 AND 0xF8 = 0xF0" "b1 AND 0xC0 = 0x80" "b2 AND 0xC0 = 0x80" "b3 AND 0xC0 = 0x80"
    by (auto simp: assms(2-5) z byte_bits)
  show "push_bit 6 (push_bit 6 (push_bit 6 (ucast (b0 AND 0x07)) OR ucast (b1 AND 0x3F))
       OR ucast (b2 AND 0x3F)) OR ucast (b3 AND 0x3F) = c"
    by (auto simp: assms(2-5) z u32_bits)
qed
section \<open>One character\<close>

lemma take_drop_rd8: "rd8 s i = Ret b \<Longrightarrow> take (Suc k) (drop i s) = b # take k (drop (Suc i) s)"
  by (auto simp: rd8_def Cons_nth_drop_Suc [symmetric] split: if_splits)

lemma cont_nonzero: "b AND 0xC0 = 0x80 \<Longrightarrow> b \<noteq> (0 :: byte)"
  by auto

lemma utf8_get_sequence_cases:
  obtains (one) "utf8_get_sequence b = (1, 0x7F)" "b AND 0x80 = 0"
  | (two) "utf8_get_sequence b = (2, 0x1F)" "b AND 0xE0 = 0xC0"
  | (three) "utf8_get_sequence b = (3, 0x0F)" "b AND 0xF0 = 0xE0"
  | (four) "utf8_get_sequence b = (4, 0x07)" "b AND 0xF8 = 0xF0"
  | (none) "utf8_get_sequence b = (0, 0)"
  by (cases "b AND 0x80 = 0"; cases "b AND 0xE0 = 0xC0"; cases "b AND 0xF0 = 0xE0";
      cases "b AND 0xF8 = 0xF0") (auto simp: utf8_get_sequence_def)

lemma utf8_check_rest_Ret: "j + k \<le> length s \<Longrightarrow> \<exists>r. utf8_check_rest s j k c = Ret r"
  by (induction s j k c rule: utf8_check_rest.induct) (auto simp: rd8_def)

lemma utf8_no_null_Ret: "i + k \<le> length s \<Longrightarrow> \<exists>r. utf8_no_null s len i k = Ret r"
  by (induction s len i k rule: utf8_no_null.induct) (auto simp: rd8_def)

lemma utf8_no_null_iff:
  "i + k \<le> length s \<Longrightarrow> i + k \<le> len \<Longrightarrow>
   utf8_no_null s len i k = Ret (0 \<notin> set (take k (drop i s)))"
proof (induction s len i k rule: utf8_no_null.induct)
  case (2 s len i k)
  then have "rd8 s i = Ret (s ! i)" by (simp add: rd8_def)
  with 2 show ?case by (auto simp: take_drop_rd8)
qed simp

lemma utf8_check_char_Ret:
  assumes "i < len" "len \<le> length s"
  shows "\<exists>r. utf8_check_char s len an i = Ret r"
proof -
  obtain n m where seq: "utf8_get_sequence (s ! i) = (n, m)" by fastforce
  have b: "rd8 s i = Ret (s ! i)" using assms by (simp add: rd8_def)
  show ?thesis
  proof (cases "n = 0 \<or> len - i < n")
    case False
    then have "Suc i + (n - 1) \<le> length s" "i + n \<le> length s" using assms by auto
    then obtain r r' where "utf8_check_rest s (Suc i) (n - 1) (ucast (s ! i AND m)) = Ret r"
      "utf8_no_null s len i n = Ret r'"
      using utf8_check_rest_Ret utf8_no_null_Ret by metis
    with b seq False show ?thesis by (auto simp: utf8_check_char_def split: option.split)
  qed (use b seq in \<open>auto simp: utf8_check_char_def\<close>)
qed

lemma utf8_check_charD:
  assumes "utf8_check_char s len an i = Ret (Some n)" "len \<le> length s" "i < len"
  obtains b m c where "rd8 s i = Ret b" "utf8_get_sequence b = (n, m)" "n \<noteq> 0" "i + n \<le> len"
    "utf8_check_rest s (Suc i) (n - 1) (ucast (b AND m)) = Ret (Some c)"
    "an \<or> 0 \<notin> set (take n (drop i s))" "unicode_scalar c" "utf8_shortest_form n c an"
  using assms
  by (auto simp: utf8_check_char_def unicode_scalar_def surrogate_mask utf8_no_null_iff not_less
      split: prod.splits if_splits option.splits)

lemma utf8_check_char_sound:
  assumes ok: "utf8_check_char s len an i = Ret (Some n)" "len \<le> length s" "i < len"
  shows "utf8_unit an (take n (drop i s)) \<and> i + n \<le> len"
proof -
  from ok obtain b m c where b: "rd8 s i = Ret b" and seq: "utf8_get_sequence b = (n, m)"
    and n: "n \<noteq> 0" "i + n \<le> len"
    and rest: "utf8_check_rest s (Suc i) (n - 1) (ucast (b AND m)) = Ret (Some c)"
    and nn: "an \<or> 0 \<notin> set (take n (drop i s))"
    and sc: "unicode_scalar c" and sh: "utf8_shortest_form n c an"
    by (rule utf8_check_charD)
  have "utf8_unit an (take n (drop i s))"
  proof (cases b rule: utf8_get_sequence_cases)
    case one
    then have "b AND 0x7F = b" by (auto simp: lead_bits byte_bits)
    with one seq rest have "n = 1" "c = ucast b" by auto
    moreover have "c \<le> 0x7F" using sh \<open>n = 1\<close> by (simp add: utf8_shortest_form_def)
    moreover have "ucast (ucast b :: u32) = b" by (auto simp: byte_bits)
    moreover from this \<open>c = ucast b\<close> have "c = 0 \<Longrightarrow> b = 0" by simp
    ultimately show ?thesis
      using b nn sc by (auto simp: utf8_unit_def bson_utf8_from_unichar_def take_drop_rd8 intro!: exI [of _ c])
  next
    case two
    with seq rest b obtain b1 where "rd8 s (Suc i) = Ret b1" "b1 AND 0xC0 = 0x80" "n = Suc (Suc 0)"
      and c: "c = push_bit 6 (ucast (b AND 0x1F)) OR ucast (b1 AND 0x3F)"
      by (auto simp: numeral_2_eq_2 split: if_splits)
    then have u: "take n (drop i s) = [b, b1]" using b by (simp add: take_drop_rd8)
    show ?thesis
    proof (cases "c = 0")
      case True
      then have "b = 0xC0" "b1 = 0x80"
        using lead_decoded_2 [OF \<open>b AND 0xE0 = 0xC0\<close> \<open>b1 AND 0xC0 = 0x80\<close> c] by simp_all
      moreover have an using sh True \<open>n = Suc (Suc 0)\<close> by (simp add: utf8_shortest_form_def)
      ultimately show ?thesis using u by (simp add: utf8_unit_def)
    next
      case False
      then have "0x80 \<le> c" "c \<le> 0x7FF"
        using sh \<open>n = Suc (Suc 0)\<close> by (auto simp: utf8_shortest_form_def split: if_splits)
      then have "bson_utf8_from_unichar c = [b, b1]"
        by (rule encode_decoded_2 [OF \<open>b AND 0xE0 = 0xC0\<close> \<open>b1 AND 0xC0 = 0x80\<close> c])
      with u sc False show ?thesis by (auto simp: utf8_unit_def intro!: exI [of _ c])
    qed
  next
    case three
    with seq rest b obtain b1 b2 where "rd8 s (Suc i) = Ret b1" "rd8 s (Suc (Suc i)) = Ret b2"
      and cont: "b1 AND 0xC0 = 0x80" "b2 AND 0xC0 = 0x80" and "n = Suc (Suc (Suc 0))"
      and c: "c = push_bit 6 (push_bit 6 (ucast (b AND 0x0F)) OR ucast (b1 AND 0x3F)) OR ucast (b2 AND 0x3F)"
      by (auto simp: numeral_3_eq_3 split: if_splits)
    then have u: "take n (drop i s) = [b, b1, b2]" using b by (simp add: take_drop_rd8)
    have r: "0x800 \<le> c" "c \<le> 0xFFFF"
      using sh \<open>n = Suc (Suc (Suc 0))\<close> by (auto simp: utf8_shortest_form_def word_nat)
    then have "bson_utf8_from_unichar c = [b, b1, b2]"
      by (rule encode_decoded_3 [OF \<open>b AND 0xF0 = 0xE0\<close> cont c])
    moreover have "c \<noteq> 0" using r by auto
    ultimately show ?thesis using u sc by (auto simp: utf8_unit_def intro!: exI [of _ c])
  next
    case four
    with seq rest b obtain b1 b2 b3 where "rd8 s (Suc i) = Ret b1" "rd8 s (Suc (Suc i)) = Ret b2"
      "rd8 s (Suc (Suc (Suc i))) = Ret b3"
      and cont: "b1 AND 0xC0 = 0x80" "b2 AND 0xC0 = 0x80" "b3 AND 0xC0 = 0x80"
      and "n = Suc (Suc (Suc (Suc 0)))"
      and c: "c = push_bit 6 (push_bit 6 (push_bit 6 (ucast (b AND 0x07)) OR ucast (b1 AND 0x3F))
           OR ucast (b2 AND 0x3F)) OR ucast (b3 AND 0x3F)"
      by (auto simp: eval_nat_numeral split: if_splits)
    then have u: "take n (drop i s) = [b, b1, b2, b3]" using b by (simp add: take_drop_rd8)
    have r: "0x10000 \<le> c" "c \<le> 0x10FFFF"
      using sh \<open>n = Suc (Suc (Suc (Suc 0)))\<close> by (auto simp: utf8_shortest_form_def word_nat)
    then have "bson_utf8_from_unichar c = [b, b1, b2, b3]"
      by (rule encode_decoded_4 [OF \<open>b AND 0xF8 = 0xF0\<close> cont c])
    moreover have "c \<noteq> 0" using r by auto
    ultimately show ?thesis using u sc by (auto simp: utf8_unit_def intro!: exI [of _ c])
  next
    case none
    with seq n show ?thesis by simp
  qed
  with n show ?thesis by simp
qed

lemma utf8_seq_of_lead:
  "b AND 0x80 = 0 \<Longrightarrow> utf8_get_sequence b = (1, 0x7F)"
  "b AND 0xE0 = 0xC0 \<Longrightarrow> utf8_get_sequence b = (2, 0x1F)"
  "b AND 0xF0 = 0xE0 \<Longrightarrow> utf8_get_sequence b = (3, 0x0F)"
  "b AND 0xF8 = 0xF0 \<Longrightarrow> utf8_get_sequence b = (4, 0x07)"
  by (auto simp: utf8_get_sequence_def lead_bits)

lemma rd8_append_Suc:
  "rd8 (pre @ a # b # post) (Suc (length pre)) = Ret b"
  "rd8 (pre @ a # a' # b # post) (Suc (Suc (length pre))) = Ret b"
  "rd8 (pre @ a # a' # a'' # b # post) (Suc (Suc (Suc (length pre)))) = Ret b"
  by (simp_all add: rd8_def nth_append)

lemma utf8_encodingE:
  assumes "c \<le> 0x1FFFFF"
  obtains (one) b where "bson_utf8_from_unichar c = [b]" "c \<le> 0x7F" "b AND 0x80 = 0"
      "ucast (b AND 0x7F) = c"
  | (two) b b1 where "bson_utf8_from_unichar c = [b, b1]" "0x80 \<le> c" "c \<le> 0x7FF"
      "b AND 0xE0 = 0xC0" "b1 AND 0xC0 = 0x80"
      "push_bit 6 (ucast (b AND 0x1F)) OR ucast (b1 AND 0x3F) = c"
  | (three) b b1 b2 where "bson_utf8_from_unichar c = [b, b1, b2]" "0x800 \<le> c" "c \<le> 0xFFFF"
      "b AND 0xF0 = 0xE0" "b1 AND 0xC0 = 0x80" "b2 AND 0xC0 = 0x80"
      "push_bit 6 (push_bit 6 (ucast (b AND 0x0F)) OR ucast (b1 AND 0x3F)) OR ucast (b2 AND 0x3F) = c"
  | (four) b b1 b2 b3 where "bson_utf8_from_unichar c = [b, b1, b2, b3]" "0x10000 \<le> c"
      "b AND 0xF8 = 0xF0" "b1 AND 0xC0 = 0x80" "b2 AND 0xC0 = 0x80" "b3 AND 0xC0 = 0x80"
      "push_bit 6 (push_bit 6 (push_bit 6 (ucast (b AND 0x07)) OR ucast (b1 AND 0x3F))
         OR ucast (b2 AND 0x3F)) OR ucast (b3 AND 0x3F) = c"
proof -
  consider "c \<le> 0x7F" | "\<not> c \<le> 0x7F" "c \<le> 0x7FF" | "\<not> c \<le> 0x7F" "\<not> c \<le> 0x7FF" "c \<le> 0xFFFF"
    | "\<not> c \<le> 0x7F" "\<not> c \<le> 0x7FF" "\<not> c \<le> 0xFFFF" by blast
  then show thesis
  proof cases
    case 1
    have "\<not> bit c n" if "7 \<le> n" for n
      using bit_below_bound [of c 7 n] 1 that by (simp add: word_nat)
    then have "ucast c AND 0x80 = (0::byte)" "ucast (ucast c AND 0x7F :: byte) = c"
      by (auto simp: u32_bits)
    with 1 show thesis by (intro one [of "ucast c"]) (simp_all add: bson_utf8_from_unichar_def)
  next
    case 2
    show thesis
      by (rule two [OF _ _ _ decode_encoded_2 [OF 2(2) refl refl]])
        (use 2 in \<open>auto simp: bson_utf8_from_unichar_def word_nat\<close>)
  next
    case 3
    show thesis
      by (rule three [OF _ _ _ decode_encoded_3 [OF 3(3) refl refl refl]])
        (use 3 in \<open>auto simp: bson_utf8_from_unichar_def word_nat\<close>)
  next
    case 4
    show thesis
      by (rule four [OF _ _ decode_encoded_4 [OF assms refl refl refl refl]])
        (use 4 assms in \<open>auto simp: bson_utf8_from_unichar_def word_nat\<close>)
  qed
qed

text \<open>Every code point that has an encoding is decoded back, whatever surrounds it.\<close>

lemma utf8_get_char_from_unichar:
  assumes "c \<le> 0x1FFFFF"
  shows "bson_utf8_get_char (pre @ bson_utf8_from_unichar c @ post) (length pre) = Ret c"
  using assms
  by (cases c rule: utf8_encodingE)
    (auto simp: bson_utf8_get_char_def utf8_seq_of_lead rd8_append_Suc eval_nat_numeral)

lemma utf8_check_char_complete:
  assumes "utf8_unit an u"
  shows "u \<noteq> [] \<and> utf8_check_char (pre @ u @ post) (length (pre @ u @ post)) an (length pre) = Ret (Some (length u))"
proof -
  consider (null) an "u = [0xC0, 0x80]"
    | (enc) c where "unicode_scalar c" "c = 0 \<longrightarrow> an" "u = bson_utf8_from_unichar c"
    using assms by (auto simp: utf8_unit_def)
  then show ?thesis
  proof cases
    case null
    then show ?thesis
      by (simp add: utf8_check_char_def utf8_seq_of_lead rd8_append_Suc utf8_shortest_form_def)
  next
    case enc
    then have "c \<le> 0x1FFFFF" and s: "\<not> 0x10FFFF < c" "\<not> (c AND 0xFFFFF800 = 0xD800)"
      by (auto simp: unicode_scalar_def word_nat surrogate_mask)
    then show ?thesis
    proof (cases c rule: utf8_encodingE)
      case (one b)
      then have "b = 0 \<longrightarrow> c = 0" by auto
      with one enc s show ?thesis
        by (auto simp: utf8_check_char_def utf8_seq_of_lead rd8_append_Suc utf8_shortest_form_def)
    next
      case (two b b1)
      then have "b \<noteq> 0" "b1 \<noteq> 0" by auto
      with two enc s show ?thesis
        by (auto simp: utf8_check_char_def utf8_seq_of_lead rd8_append_Suc utf8_shortest_form_def
            numeral_2_eq_2)
    next
      case (three b b1 b2)
      then have "b \<noteq> 0" "b1 \<noteq> 0" "b2 \<noteq> 0" by auto
      with three enc s show ?thesis
        by (auto simp: utf8_check_char_def utf8_seq_of_lead rd8_append_Suc utf8_shortest_form_def
            numeral_3_eq_3 word_nat)
    next
      case (four b b1 b2 b3)
      then have "b \<noteq> 0" "b1 \<noteq> 0" "b2 \<noteq> 0" "b3 \<noteq> 0" by auto
      with four enc s show ?thesis
        by (auto simp: utf8_check_char_def utf8_seq_of_lead rd8_append_Suc utf8_shortest_form_def
            utf8_no_null_iff numeral_3_eq_3 word_nat)
    qed
  qed
qed

section \<open>Validation is exactly well-formedness\<close>

lemma utf8_validate_from_sound:
  "utf8_validate_from s len an i = Ret True \<Longrightarrow> len \<le> length s \<Longrightarrow> i \<le> len \<Longrightarrow>
   \<exists>us. (\<forall>u\<in>set us. utf8_unit an u) \<and> take (len - i) (drop i s) = concat us"
proof (induction s len an i rule: utf8_validate_from.induct)
  case (1 s len an i)
  show ?case
  proof (cases "i < len")
    case True
    with 1(2) obtain n where n: "utf8_check_char s len an i = Ret (Some n)"
      and rest: "utf8_validate_from s len an (i + n) = Ret True"
      by (subst (asm) utf8_validate_from.simps) (auto split: outcome.splits option.splits)
    from utf8_check_char_sound [OF n 1(3) True]
    have u: "utf8_unit an (take n (drop i s))" and le: "i + n \<le> len" by auto
    from 1(1) [OF True n refl rest 1(3) le] obtain us where us: "\<forall>u\<in>set us. utf8_unit an u"
      "take (len - (i + n)) (drop (i + n) s) = concat us" by blast
    have "take (len - i) (drop i s) = take (n + (len - (i + n))) (drop i s)" using le by simp
    also have "\<dots> = take n (drop i s) @ take (len - (i + n)) (drop (i + n) s)"
      by (simp only: take_add drop_drop add.commute)
    finally have "take (len - i) (drop i s) = take n (drop i s) @ take (len - (i + n)) (drop (i + n) s)" .
    with us u show ?thesis by (intro exI [of _ "take n (drop i s) # us"]) auto
  qed (auto intro: exI [of _ "[]"])
qed

lemma utf8_validate_from_complete:
  "\<forall>u\<in>set us. utf8_unit an u \<Longrightarrow>
   utf8_validate_from (pre @ concat us) (length (pre @ concat us)) an (length pre) = Ret True"
proof (induction us arbitrary: pre)
  case Nil
  then show ?case by (subst utf8_validate_from.simps) simp
next
  case (Cons u us)
  from Cons.prems have "utf8_unit an u" by simp
  from utf8_check_char_complete [OF this, of pre "concat us"]
  have "u \<noteq> []" "utf8_check_char (pre @ u @ concat us) (length (pre @ u @ concat us)) an (length pre)
      = Ret (Some (length u))" by auto
  with Cons.IH [of "pre @ u"] Cons.prems show ?case
    by (subst utf8_validate_from.simps) simp
qed

lemma utf8_validate_from_Ret: "len \<le> length s \<Longrightarrow> \<exists>r. utf8_validate_from s len an i = Ret r"
proof (induction s len an i rule: utf8_validate_from.induct)
  case (1 s len an i)
  show ?case
  proof (cases "i < len")
    case True
    then obtain r where r: "utf8_check_char s len an i = Ret r"
      using utf8_check_char_Ret 1(2) by blast
    with 1 True show ?thesis
      by (subst utf8_validate_from.simps) (auto split: option.split)
  qed (auto simp: utf8_validate_from.simps [of s len])
qed

lemma utf8_units_iff:
  "bson_utf8_validate s (length s) an = Ret True \<longleftrightarrow>
     (\<exists>us. (\<forall>u\<in>set us. utf8_unit an u) \<and> s = concat us)"
  using utf8_validate_from_sound [of s "length s" an 0] utf8_validate_from_complete [of _ an "[]"]
  by (auto simp: bson_utf8_validate_def)


lemma utf8_check_rest_append: "j + k \<le> length s \<Longrightarrow> utf8_check_rest (s @ t) j k c = utf8_check_rest s j k c"
  by (induction s j k c rule: utf8_check_rest.induct) (auto simp: rd8_def nth_append)

lemma utf8_no_null_append: "i + k \<le> length s \<Longrightarrow> utf8_no_null (s @ t) len i k = utf8_no_null s len i k"
  by (induction s len i k rule: utf8_no_null.induct) (auto simp: rd8_def nth_append)

lemma utf8_check_char_append:
  assumes "i < length s"
  shows "utf8_check_char (s @ t) (length s) an i = utf8_check_char s (length s) an i"
proof -
  have "rd8 (s @ t) i = Ret (s ! i)" "rd8 s i = Ret (s ! i)"
    using assms by (simp_all add: rd8_def nth_append)
  with assms show ?thesis
    by (auto simp: utf8_check_char_def utf8_check_rest_append utf8_no_null_append split: prod.split)
qed

lemma utf8_validate_from_append:
  "len = length s \<Longrightarrow> utf8_validate_from (s @ t) len an i = utf8_validate_from s len an i"
proof (induction s len an i rule: utf8_validate_from.induct)
  case (1 s len an i)
  then show ?case
    by (subst (1 2) utf8_validate_from.simps)
      (auto simp: utf8_check_char_append split: outcome.split option.split)
qed


end
