(* ===== verification/Bson_String.thy ===== *)
theory Bson_String
  imports Bson_Types Bson_Utf8
begin

text \<open>
  \<open>bson-string.c\<close>: the growable string \<open>bson_string_t\<close>, and \<open>bson_utf8_escape_for_json\<close> of
  \<open>bson-utf8.c\<close>, which is written on top of it. The record keeps the initialised prefix of the
  allocation, the length and the allocated size at their 32-bit width: the size computation wraps
  for strings beyond 1 GiB and the theorems say where.
\<close>

record bson_string =
  bs_str :: "byte list"
  bs_len :: u32
  bs_alloc :: u32

definition round_up_alloc :: "u32 \<Rightarrow> u32" where
  "round_up_alloc a = (if bson_is_power_of_two a then a else ucast (bson_next_power_of_two (ucast a)))"

definition bson_string_new :: "byte list option \<Rightarrow> bson_string outcome" where
  "bson_string_new str =
     cbind (case str of None \<Rightarrow> Ret 0 | Some t \<Rightarrow> c_strlen t) (\<lambda>n.
       let len = of_nat n :: u32;
           alloc = round_up_alloc (len + 1)
       in c_assert (1 \<le> alloc)
         (cbind (case str of None \<Rightarrow> Ret [] | Some t \<Rightarrow> bput (unat alloc) [] 0 (take (unat len) t)) (\<lambda>buf.
          cbind (bput (unat alloc) buf (unat len) [0]) (\<lambda>buf.
            Ret \<lparr>bs_str = buf, bs_len = len, bs_alloc = alloc\<rparr>))))"

text \<open>\<open>bson_realloc\<close> to a new size keeps the bytes that still fit.\<close>

definition bson_string_append :: "bson_string \<Rightarrow> byte list \<Rightarrow> bson_string outcome" where
  "bson_string_append s str =
     cbind (c_strlen str) (\<lambda>n.
       let len = of_nat n :: u32;
           alloc = (if bs_alloc s - bs_len s - 1 < len then round_up_alloc (bs_alloc s + len) else bs_alloc s);
           buf = take (unat alloc) (bs_str s)
       in cbind (bput (unat alloc) buf (unat (bs_len s)) (take (unat len) str)) (\<lambda>buf.
          cbind (bput (unat alloc) buf (unat (bs_len s + len)) [0]) (\<lambda>buf.
            Ret \<lparr>bs_str = buf, bs_len = bs_len s + len, bs_alloc = alloc\<rparr>)))"

definition bson_string_append_c :: "bson_string \<Rightarrow> byte \<Rightarrow> bson_string outcome" where
  "bson_string_append_c s c =
     (if bs_alloc s = bs_len s + 1 then bson_string_append s [c, 0]
      else cbind (bput (unat (bs_alloc s)) (bs_str s) (unat (bs_len s)) [c]) (\<lambda>buf.
           cbind (bput (unat (bs_alloc s)) buf (unat (bs_len s + 1)) [0]) (\<lambda>buf.
             Ret (s\<lparr>bs_str := buf, bs_len := bs_len s + 1\<rparr>))))"

definition bson_string_append_unichar :: "bson_string \<Rightarrow> u32 \<Rightarrow> bson_string outcome" where
  "bson_string_append_unichar s unichar =
     c_assert (unichar \<noteq> 0)
       (let str = bson_utf8_from_unichar unichar
        in if length str \<le> 6 then bson_string_append s (str @ [0]) else Ret s)"

definition bson_string_truncate :: "bson_string \<Rightarrow> u32 \<Rightarrow> bson_string outcome" where
  "bson_string_truncate s len =
     c_assert (unat len < INT32_MAX)
       (let alloc = round_up_alloc (if len + 1 < 16 then 16 else len + 1)
        in cbind (bput (unat alloc) (take (unat alloc) (bs_str s)) (unat len) [0]) (\<lambda>buf.
             Ret \<lparr>bs_str = buf, bs_len = len, bs_alloc = alloc\<rparr>))"

section \<open>Escaping for JSON\<close>

text \<open>ASCII bytes of the escape sequences, and \<open>printf\<close>'s \<open>\u%04x\<close> for a code point below 32.\<close>

definition hex_digit :: "nat \<Rightarrow> byte" where
  "hex_digit d = (if d < 10 then 0x30 + of_nat d else 0x57 + of_nat d)"

definition fmt_u04x :: "u32 \<Rightarrow> byte list" where
  "fmt_u04x c = [0x5C, 0x75] @ map (\<lambda>k. hex_digit (unat (drop_bit (4 * k) c AND 0xF))) [3, 2, 1, 0]"

definition escape_append :: "bson_string \<Rightarrow> u32 \<Rightarrow> bson_string outcome" where
  "escape_append str c =
     (if c = 0x5C \<or> c = 0x22 then
        cbind (bson_string_append_c str 0x5C) (\<lambda>str. bson_string_append_unichar str c)
      else if c = 0x08 then bson_string_append str [0x5C, 0x62, 0]
      else if c = 0x0C then bson_string_append str [0x5C, 0x66, 0]
      else if c = 0x0A then bson_string_append str [0x5C, 0x6E, 0]
      else if c = 0x0D then bson_string_append str [0x5C, 0x72, 0]
      else if c = 0x09 then bson_string_append str [0x5C, 0x74, 0]
      else if c < 0x20 then bson_string_append str (fmt_u04x c @ [0])
      else bson_string_append_unichar str c)"

lemma utf8_get_char_zero_sequence:
  "bson_utf8_get_char s i = Ret c \<Longrightarrow> c \<noteq> 0 \<Longrightarrow> bson_utf8_next_char s i = Ret j \<Longrightarrow> i < j"
  by (auto simp: bson_utf8_get_char_def bson_utf8_next_char_def utf8_get_sequence_def split: if_splits)

function escape_from :: "byte list \<Rightarrow> nat \<Rightarrow> bool \<Rightarrow> nat \<Rightarrow> bson_string \<Rightarrow> bson_string option outcome" where
  "escape_from utf8 end length_provided i str =
     (if i < end then
        (case bson_utf8_get_char utf8 i of
           Ret c \<Rightarrow>
             (case escape_append str c of
                Ret str' \<Rightarrow>
                  (if c \<noteq> 0 then
                     (case bson_utf8_next_char utf8 i of
                        Ret j \<Rightarrow> escape_from utf8 end length_provided j str'
                      | Abort \<Rightarrow> Abort | Fault \<Rightarrow> Fault
                      | Timeout \<Rightarrow> Timeout)
                   else if length_provided \<and> rd8 utf8 i = Ret 0
                   then escape_from utf8 end length_provided (i + 1) str'
                   else Ret None)
              | Abort \<Rightarrow> Abort | Fault \<Rightarrow> Fault
                      | Timeout \<Rightarrow> Timeout)
         | Abort \<Rightarrow> Abort | Fault \<Rightarrow> Fault
                      | Timeout \<Rightarrow> Timeout)
      else Ret (Some str))"
  by pat_completeness auto
termination
  by (relation "measure (\<lambda>(utf8, end, lp, i, str). end - i)")
    (auto dest: utf8_get_char_zero_sequence)

declare escape_from.simps [simp del]

text \<open>\<open>utf8_len < 0\<close> asks for \<open>strlen\<close>; \<open>None\<close> is the \<open>NULL\<close> returned for invalid UTF-8.\<close>

definition bson_utf8_escape_for_json :: "byte list \<Rightarrow> int \<Rightarrow> byte list option outcome" where
  "bson_utf8_escape_for_json utf8 utf8_len =
     cbind (bson_string_new None) (\<lambda>str.
     cbind (if utf8_len < 0 then c_strlen utf8 else Ret (nat utf8_len)) (\<lambda>end.
     cbind (escape_from utf8 end (0 \<le> utf8_len) 0 str) (\<lambda>r.
       Ret (map_option bs_str r))))"

section \<open>Sizes\<close>

lemma top_bit: "2 ^ k \<le> unat v \<Longrightarrow> unat v < 2 ^ Suc k \<Longrightarrow> bit (v :: 'a::len word) k"
  using bit_above_iff [of k v] bit_above_iff [of "Suc k" v] by (metis le_antisym not_less not_less_eq_eq)

lemma bson_is_power_of_two_iff: "bson_is_power_of_two v \<longleftrightarrow> (\<exists>k. unat v = 2 ^ k)"
proof
  assume p: "bson_is_power_of_two v"
  obtain k where k: "unat v < 2 ^ k" "k = 0 \<or> 2 ^ (k - 1) \<le> unat v"
    using bit_length_ex by blast
  have "v \<noteq> 0" and z: "v AND (v - 1) = 0" using p by (auto simp: bson_is_power_of_two_def)
  then have v1: "1 \<le> unat v" by (simp add: Suc_le_eq unat_gt_0)
  with k obtain j where j: "2 ^ j \<le> unat v" "unat v < 2 ^ Suc j" by (cases k) auto
  have "unat v = 2 ^ j"
  proof (rule ccontr)
    assume "unat v \<noteq> 2 ^ j"
    with j v1 have "2 ^ j \<le> unat (v - 1)" "unat (v - 1) < 2 ^ Suc j"
      by (auto simp: word_nat)
    with j have "bit (v AND (v - 1)) j" by (simp add: bit_and_iff top_bit)
    with z show False by simp
  qed
  then show "\<exists>k. unat v = 2 ^ k" by blast
next
  assume "\<exists>k. unat v = 2 ^ k"
  then obtain k where k: "unat v = 2 ^ k" by blast
  have "unat v < 2 ^ 32" using unat_u32_less [of v] by simp
  with k have "k < 32" using power_less_imp_less_exp [of "2::nat" k 32] by simp
  have "v = 2 ^ k" using k \<open>k < 32\<close> by (simp add: word_unat_eq_iff unat_power_of_two)
  then have "v AND (v - 1) = 2 ^ k AND (2 ^ k - 1)" by simp
  also have "\<dots> = 0"
    by (auto simp: word_eq_bits [of _ 0] bit_and_iff bit_exp_iff bit_mask_iff simp flip: mask_eq_exp_minus_1)
  finally have "v AND (v - 1) = 0" .
  with k show "bson_is_power_of_two v" by (auto simp: bson_is_power_of_two_def)
qed

lemma round_up_alloc_power:
  assumes "1 \<le> unat a" "unat a \<le> 2 ^ 31"
  shows "\<exists>k\<le>31. unat (round_up_alloc a) = 2 ^ k \<and> unat a \<le> 2 ^ k \<and> 2 ^ k < 2 * unat a"
proof (cases "bson_is_power_of_two a")
  case True
  then obtain k where k: "unat a = 2 ^ k" by (auto simp: bson_is_power_of_two_iff)
  with assms(2) have "k \<le> 31" using power_increasing_iff [of "2::nat" k 31] by simp
  with True k show ?thesis by (auto simp: round_up_alloc_def)
next
  case False
  have u: "unat (ucast a :: u64) = unat a" by (rule unat_ucast_u64)
  with assms obtain k where k: "unat (bson_next_power_of_two (ucast a)) = 2 ^ k" "unat a \<le> 2 ^ k"
    "2 ^ k < 2 * unat a"
    using bson_next_power_of_two_is_power [of "ucast a"] by auto
  then have "2 ^ k < (2::nat) ^ 32" using assms(2) by simp
  then have "k < 32" by (rule power_less_imp_less_exp [rotated]) simp
  then have "unat (ucast (bson_next_power_of_two (ucast a)) :: u32) = 2 ^ k"
    using k(1) \<open>2 ^ k < 2 ^ 32\<close> by (simp add: unsigned_ucast_eq take_bit_nat_eq_self)
  with False k \<open>k < 32\<close> show ?thesis by (auto simp: round_up_alloc_def intro!: exI [of _ k])
qed

lemma round_up_alloc_overflow:
  assumes "2 ^ 31 < unat a"
  shows "round_up_alloc a = 0"
proof -
  have a: "unat a < 2 ^ 32" using unat_u32_less [of a] by simp
  have np: "\<not> bson_is_power_of_two a"
  proof
    assume "bson_is_power_of_two a"
    then obtain k where "unat a = 2 ^ k" by (auto simp: bson_is_power_of_two_iff)
    with assms a have "31 < k" "k < 32"
      using power_less_imp_less_exp [of "2::nat" 31 k] power_less_imp_less_exp [of "2::nat" k 32] by auto
    then show False by simp
  qed
  have u: "unat (ucast a :: u64) = unat a"
    by (rule unat_ucast_u64)
  with assms a obtain k where k: "unat (bson_next_power_of_two (ucast a)) = 2 ^ k" "unat a \<le> 2 ^ k"
    using bson_next_power_of_two_is_power [of "ucast a"] by auto
  from assms k(2) have "(2::nat) ^ 31 < 2 ^ k" by (rule less_le_trans)
  then have "32 \<le> k" using power_less_imp_less_exp [of "2::nat" 31 k] by simp
  then have "unat (ucast (bson_next_power_of_two (ucast a)) :: u32) = 0"
    using k(1) le_imp_power_dvd [of 32 k "2::nat"] by (simp add: unsigned_ucast_eq take_bit_eq_mod)
  then have "ucast (bson_next_power_of_two (ucast a)) = (0 :: u32)" by (simp add: unat_eq_0)
  with np show ?thesis by (simp add: round_up_alloc_def)
qed


section \<open>The string invariant\<close>

text \<open>\<open>s\<close> holds the content \<open>c\<close>, NUL-terminated, in an allocation of a power-of-two size.\<close>

definition bson_string_ok :: "bson_string \<Rightarrow> byte list \<Rightarrow> bool" where
  "bson_string_ok s c \<longleftrightarrow>
     unat (bs_len s) = length c \<and> length c < unat (bs_alloc s) \<and> (\<exists>k\<le>31. unat (bs_alloc s) = 2 ^ k) \<and>
     take (Suc (length c)) (bs_str s) = c @ [0] \<and> length (bs_str s) \<le> unat (bs_alloc s)"

lemma bson_string_okD:
  assumes "bson_string_ok s c"
  shows "unat (bs_len s) = length c" "length c < unat (bs_alloc s)" "unat (bs_alloc s) \<le> 2 ^ 31"
    "length c < length (bs_str s)" "take (length c) (bs_str s) = c"
proof -
  from assms obtain k where k: "k \<le> 31" "unat (bs_alloc s) = 2 ^ k" by (auto simp: bson_string_ok_def)
  then show "unat (bs_alloc s) \<le> 2 ^ 31" by (simp only: k(2)) (rule power_increasing, simp_all)
  from assms have t: "take (Suc (length c)) (bs_str s) = c @ [0]" by (simp add: bson_string_ok_def)
  from arg_cong [OF t, of length] show "length c < length (bs_str s)" by simp
  from arg_cong [OF t, of "take (length c)"] show "take (length c) (bs_str s) = c"
    by (simp add: min_def)
qed (use assms in \<open>auto simp: bson_string_ok_def\<close>)

lemma bson_string_new_ok: "\<exists>s. bson_string_new None = Ret s \<and> bson_string_ok s [] \<and> unat (bs_alloc s) = 1"
  by (simp add: bson_string_new_def round_up_alloc_def bson_is_power_of_two_def bput_def
      bson_string_ok_def exI [of _ 0])

text \<open>Storing \<open>bs\<close> and a terminator behind the content \<open>c\<close>.\<close>

lemma bput_content:
  assumes "take (length c) buf = c" "length c \<le> length buf" "length c + length bs < cap"
  shows "\<exists>buf1 buf2. bput cap buf (length c) bs = Ret buf1 \<and>
    bput cap buf1 (length c + length bs) [0] = Ret buf2 \<and>
    take (Suc (length c + length bs)) buf2 = (c @ bs) @ [0] \<and> length buf2 \<le> max cap (length buf)"
  using assms by (auto simp: bput_def)

lemma bson_string_append_ok:
  assumes ok: "bson_string_ok s c" and n: "c_strlen t = Ret n" and fits: "unat (bs_alloc s) + n \<le> 2 ^ 31"
  shows "\<exists>s'. bson_string_append s t = Ret s' \<and> bson_string_ok s' (c @ take n t) \<and>
    (unat (bs_alloc s') = unat (bs_alloc s) \<or> unat (bs_alloc s') < 2 * (length c + 2 * n))"
proof -
  note o = bson_string_okD [OF ok]
  define l where "l = (of_nat n :: u32)"
  have l: "unat l = n" using fits by (simp add: l_def unat_of_nat)
  have nt: "n \<le> length t" using n by (auto simp: c_strlen_def length_takeWhile_le split: if_splits)
  define a where "a = (if bs_alloc s - bs_len s - 1 < l then round_up_alloc (bs_alloc s + l) else bs_alloc s)"
  have free: "unat (bs_alloc s - bs_len s - 1) = unat (bs_alloc s) - length c - 1"
    using o by (simp add: word_nat)
  have sum: "unat (bs_alloc s + l) = unat (bs_alloc s) + n"
    using fits l by (simp add: word_nat)
  have a: "length c + n < unat a \<and> (\<exists>k\<le>31. unat a = 2 ^ k) \<and> unat (bs_alloc s) \<le> unat a \<and>
      (unat a = unat (bs_alloc s) \<or> unat a < 2 * (length c + 2 * n))"
  proof (cases "bs_alloc s - bs_len s - 1 < l")
    case True
    then have grow: "unat (bs_alloc s) - length c - 1 < n" using free l by (simp add: word_nat)
    have "1 \<le> unat (bs_alloc s + l)" "unat (bs_alloc s + l) \<le> 2 ^ 31" using sum fits o by auto
    from round_up_alloc_power [OF this] sum
    obtain k where "k \<le> 31" "unat (round_up_alloc (bs_alloc s + l)) = 2 ^ k"
      "unat (bs_alloc s) + n \<le> 2 ^ k" "2 ^ k < 2 * (unat (bs_alloc s) + n)" by auto
    with True grow o show ?thesis by (auto simp: a_def)
  next
    case False
    with free l o have "length c + n < unat (bs_alloc s)" by (simp add: word_nat)
    with False ok show ?thesis by (auto simp: a_def bson_string_ok_def)
  qed
  have len': "unat (bs_len s + l) = length c + n"
    using o l a fits by (simp add: word_nat)
  define buf where "buf = take (unat a) (bs_str s)"
  have "length (bs_str s) \<le> unat a" using ok a by (auto simp: bson_string_ok_def)
  then have buf: "buf = bs_str s" by (simp add: buf_def)
  obtain buf1 buf2 where
    "bput (unat a) buf (length c) (take n t) = Ret buf1" "bput (unat a) buf1 (length c + n) [0] = Ret buf2"
    "take (Suc (length c + n)) buf2 = (c @ take n t) @ [0]" "length buf2 \<le> max (unat a) (length buf)"
    using bput_content [of c buf "take n t" "unat a"] o a nt buf by auto
  moreover have "bson_string_append s t =
      cbind (bput (unat a) buf (unat (bs_len s)) (take (unat l) t)) (\<lambda>buf.
      cbind (bput (unat a) buf (unat (bs_len s + l)) [0]) (\<lambda>buf.
        Ret \<lparr>bs_str = buf, bs_len = bs_len s + l, bs_alloc = a\<rparr>))"
    unfolding bson_string_append_def Let_def n cbind.simps l_def [symmetric] a_def [symmetric]
      buf_def [symmetric] ..
  ultimately have "bson_string_append s t = Ret \<lparr>bs_str = buf2, bs_len = bs_len s + l, bs_alloc = a\<rparr>"
    "bson_string_ok \<lparr>bs_str = buf2, bs_len = bs_len s + l, bs_alloc = a\<rparr> (c @ take n t)"
    using l o len' a nt buf \<open>length (bs_str s) \<le> unat a\<close> by (simp_all add: bson_string_ok_def)
  with a show ?thesis by (intro exI [of _ "\<lparr>bs_str = buf2, bs_len = bs_len s + l, bs_alloc = a\<rparr>"]) simp
qed

lemma bson_string_append_c_ok:
  assumes ok: "bson_string_ok s c" and "b \<noteq> 0" and fits: "unat (bs_alloc s) + 1 \<le> 2 ^ 31"
  shows "\<exists>s'. bson_string_append_c s b = Ret s' \<and> bson_string_ok s' (c @ [b]) \<and>
    (unat (bs_alloc s') = unat (bs_alloc s) \<or> unat (bs_alloc s') < 2 * (length c + 2))"
proof (cases "bs_alloc s = bs_len s + 1")
  case True
  have "c_strlen [b, 0] = Ret 1" using \<open>b \<noteq> 0\<close> by (simp add: c_strlen_def)
  from bson_string_append_ok [OF ok this fits] True show ?thesis
    by (simp add: bson_string_append_c_def)
next
  case False
  note o = bson_string_okD [OF ok]
  have l1: "unat (bs_len s + 1) = length c + 1" using o fits by (simp add: word_nat)
  have "length c + 1 < unat (bs_alloc s)"
    using False o l1 by (metis Suc_eq_plus1 Suc_leI le_neq_implies_less word_unat_eq_iff)
  then obtain buf1 buf2 where
    "bput (unat (bs_alloc s)) (bs_str s) (length c) [b] = Ret buf1"
    "bput (unat (bs_alloc s)) buf1 (Suc (length c)) [0] = Ret buf2"
    "take (Suc (Suc (length c))) buf2 = (c @ [b]) @ [0]"
    "length buf2 \<le> max (unat (bs_alloc s)) (length (bs_str s))"
    using bput_content [of c "bs_str s" "[b]" "unat (bs_alloc s)"] o by auto
  with False ok o l1 \<open>length c + 1 < unat (bs_alloc s)\<close> show ?thesis
    by (simp add: bson_string_append_c_def bson_string_ok_def)
qed

section \<open>Escaping is the character-wise JSON escape\<close>

definition json_escape :: "u32 \<Rightarrow> byte list" where
  "json_escape c =
     (if c = 0x5C \<or> c = 0x22 then [0x5C, ucast c]
      else if c = 0x08 then [0x5C, 0x62] else if c = 0x0C then [0x5C, 0x66]
      else if c = 0x0A then [0x5C, 0x6E] else if c = 0x0D then [0x5C, 0x72]
      else if c = 0x09 then [0x5C, 0x74]
      else if c < 0x20 then fmt_u04x c
      else bson_utf8_from_unichar c)"

lemma c_strlen_snoc0: "0 \<notin> set t \<Longrightarrow> c_strlen (t @ [0]) = Ret (length t)"
  by (rule c_strlen_terminated)

lemma hex_digit_nonzero: "d < 16 \<Longrightarrow> hex_digit d \<noteq> 0"
proof -
  assume "d < 16"
  then have "unat (of_nat d :: byte) = d" by (simp add: unat_of_nat)
  with \<open>d < 16\<close> have "unat (hex_digit d) = (if d < 10 then 0x30 + d else 0x57 + d)"
    by (simp add: hex_digit_def word_nat)
  then show ?thesis by (auto split: if_splits)
qed

lemma fmt_u04x_nonzero: "0 \<notin> set (fmt_u04x c)"
proof -
  have "unat (x AND 0xF :: u32) < 16" for x
    using word_and_le1 [of x "0xF"] by (simp add: word_le_nat_alt)
  then show ?thesis using hex_digit_nonzero by (auto simp: fmt_u04x_def)
qed

lemma from_unichar_length: "length (bson_utf8_from_unichar c) \<le> 4"
  by (simp add: bson_utf8_from_unichar_def)

lemma from_unichar_nonzero:
  assumes "c \<le> 0x1FFFFF" "c \<noteq> 0"
  shows "0 \<notin> set (bson_utf8_from_unichar c)"
  using assms(1) by (cases c rule: utf8_encodingE) (use assms(2) in auto)

lemma json_escape_length: "length (json_escape c) \<le> 6"
  using from_unichar_length [of c] by (simp add: json_escape_def fmt_u04x_def)

text \<open>The allocation never exceeds twice the content by more than a constant.\<close>

definition escape_inv :: "bson_string \<Rightarrow> byte list \<Rightarrow> bool" where
  "escape_inv s c \<longleftrightarrow> bson_string_ok s c \<and> unat (bs_alloc s) \<le> 2 * length c + 24"

lemma escape_inv_append:
  assumes "escape_inv s c" "0 \<notin> set t" "length t \<le> 6" "2 * length c + 30 \<le> 2 ^ 31"
  shows "\<exists>s'. bson_string_append s (t @ [0]) = Ret s' \<and> escape_inv s' (c @ t)"
  using bson_string_append_ok [of s c "t @ [0]" "length t"] assms c_strlen_snoc0 [of t]
  by (fastforce simp: escape_inv_def)

lemma escape_inv_unichar:
  assumes "escape_inv s c" "u \<noteq> 0" "u \<le> 0x1FFFFF" "2 * length c + 30 \<le> 2 ^ 31"
  shows "\<exists>s'. bson_string_append_unichar s u = Ret s' \<and> escape_inv s' (c @ bson_utf8_from_unichar u)"
  using escape_inv_append [OF assms(1) from_unichar_nonzero [OF assms(3,2)] _ assms(4)]
    from_unichar_length [of u] assms(2)
  by (simp add: bson_string_append_unichar_def)

lemma escape_inv_append_c:
  assumes "escape_inv s c" "b \<noteq> 0" "2 * length c + 30 \<le> 2 ^ 31"
  shows "\<exists>s'. bson_string_append_c s b = Ret s' \<and> escape_inv s' (c @ [b])"
  using bson_string_append_c_ok [of s c b] assms by (fastforce simp: escape_inv_def)

lemma escape_append_ok:
  assumes inv: "escape_inv s c" and u: "u \<le> 0x10FFFF" and fits: "2 * length c + 32 \<le> 2 ^ 31"
  shows "\<exists>s'. escape_append s u = Ret s' \<and> escape_inv s' (c @ json_escape u)"
proof (cases "u = 0x5C \<or> u = 0x22")
  case True
  obtain s1 where s1: "bson_string_append_c s 0x5C = Ret s1" "escape_inv s1 (c @ [0x5C])"
    using escape_inv_append_c [OF inv, of "0x5C"] fits by auto
  have enc: "bson_utf8_from_unichar u = [ucast u]" using True by (auto simp: bson_utf8_from_unichar_def)
  have "u \<noteq> 0" "u \<le> 0x1FFFFF" using True by auto
  with escape_inv_unichar [OF s1(2), of u] fits enc obtain s2
    where "bson_string_append_unichar s1 u = Ret s2" "escape_inv s2 ((c @ [0x5C]) @ [ucast u])" by auto
  with True s1 show ?thesis by (auto simp: escape_append_def json_escape_def)
next
  case False
  have "2 * length c + 30 \<le> 2 ^ 31" using fits by simp
  note ap = escape_inv_append [OF inv _ _ this]
  have un: "\<exists>s'. bson_string_append_unichar s u = Ret s' \<and> escape_inv s' (c @ bson_utf8_from_unichar u)"
    if "\<not> u < 0x20"
  proof (rule escape_inv_unichar [OF inv])
    show "u \<noteq> 0" using that by auto
  qed (use u fits in \<open>auto simp: word_nat\<close>)
  show ?thesis
    using ap [of "[0x5C, 0x62]"] ap [of "[0x5C, 0x66]"] ap [of "[0x5C, 0x6E]"] ap [of "[0x5C, 0x72]"]
      ap [of "[0x5C, 0x74]"] ap [OF fmt_u04x_nonzero [of u]]
      un False
    by (auto simp: escape_append_def json_escape_def fmt_u04x_def)
qed

lemma utf8_next_char_from_unichar:
  assumes "c \<le> 0x1FFFFF"
  shows "bson_utf8_next_char (pre @ bson_utf8_from_unichar c @ post) (length pre) =
    Ret (length pre + length (bson_utf8_from_unichar c))"
  using assms
  by (cases c rule: utf8_encodingE) (auto simp: bson_utf8_next_char_def utf8_seq_of_lead)

lemma escape_from_correct:
  assumes "list_all unicode_scalar cs" "escape_inv str out"
    "2 * (length out + 6 * length cs) + 32 \<le> 2 ^ 31"
  shows "\<exists>str'. escape_from (pre @ concat (map bson_utf8_from_unichar cs))
      (length (pre @ concat (map bson_utf8_from_unichar cs))) True (length pre) str = Ret (Some str') \<and>
    escape_inv str' (out @ concat (map json_escape cs))"
  using assms
proof (induction cs arbitrary: pre str out)
  case Nil
  then show ?case by (auto simp: escape_from.simps)
next
  case (Cons c cs)
  let ?e = "bson_utf8_from_unichar c"
  let ?s = "pre @ ?e @ concat (map bson_utf8_from_unichar cs)"
  have c: "c \<le> 0x1FFFFF" "c \<le> 0x10FFFF" "?e \<noteq> []"
    using Cons.prems(1) by (auto simp: unicode_scalar_def word_nat bson_utf8_from_unichar_def)
  obtain str1 where s1: "escape_append str c = Ret str1" "escape_inv str1 (out @ json_escape c)"
    using escape_append_ok [OF Cons.prems(2) c(2)] Cons.prems(3) by auto
  have len: "2 * (length (out @ json_escape c) + 6 * length cs) + 32 \<le> 2 ^ 31"
    using Cons.prems(3) json_escape_length [of c] by simp
  note IH = Cons.IH [of str1 "out @ json_escape c" "pre @ ?e", OF _ s1(2) len]
  have get: "bson_utf8_get_char ?s (length pre) = Ret c"
    using utf8_get_char_from_unichar [OF c(1)] .
  have step: "escape_from ?s (length ?s) True (length pre) str =
      escape_from ?s (length ?s) True (length pre + length ?e) str1"
  proof (cases "c = 0")
    case True
    then have "?e = [0]" by (simp add: bson_utf8_from_unichar_def)
    with True get s1 show ?thesis by (subst escape_from.simps) simp
  next
    case False
    with get s1 c(3) utf8_next_char_from_unichar [OF c(1)] show ?thesis
      by (subst escape_from.simps) simp
  qed
  from IH Cons.prems(1) show ?case by (simp add: step [simplified] ac_simps)
qed



text \<open>
  C15. When \<open>bson_string_append\<close> has to grow an allocation and the sum of the old size and the
  appended length passes 2^31, the rounded-up 32-bit size is 0 and the copy overruns the buffer.
\<close>

theorem bson_string_append_size_wraps:
  assumes "bson_string_ok s c" "c_strlen t = Ret n" "unat (bs_alloc s) \<le> length c + n"
    "2 ^ 31 < unat (bs_alloc s) + n" "unat (bs_alloc s) + n < 2 ^ 32"
  shows "bson_string_append s t = Fault"
proof -
  note o = bson_string_okD [OF assms(1)]
  define l where "l = (of_nat n :: u32)"
  have l: "unat l = n" using assms(5) by (simp add: l_def unat_of_nat)
  have "unat (bs_alloc s + l) = unat (bs_alloc s) + n" using l assms(5) by (simp add: word_nat)
  then have "round_up_alloc (bs_alloc s + l) = 0" using assms(4) by (simp add: round_up_alloc_overflow)
  moreover have "bs_alloc s - bs_len s - 1 < l" using o l assms(3) by (simp add: word_nat)
  ultimately show ?thesis
    using assms(2,4) o l unfolding bson_string_append_def Let_def assms(2) cbind.simps l_def [symmetric]
    by (simp add: bput_def)
qed

theorem bson_string_append_size_wraps_witness:
  "bson_string_append \<lparr>bs_str = [0], bs_len = 0, bs_alloc = 1\<rparr> (replicate 2147483649 0x41 @ [0]) = Fault"
proof (rule bson_string_append_size_wraps)
  show "bson_string_ok \<lparr>bs_str = [0], bs_len = 0, bs_alloc = 1\<rparr> []"
    by (simp add: bson_string_ok_def exI [of _ 0])
  show "c_strlen (replicate 2147483649 0x41 @ [0]) = Ret 2147483649"
    by (subst c_strlen_snoc0) simp_all
qed simp_all

end
