(* ===== verification/Bson_Oid.thy ===== *)
theory Bson_Oid
  imports Bson_Types
begin

text \<open>
  ObjectIDs: \<open>bson-oid.c\<close>, the inline functions of \<open>bson-oid.h\<close>, and the generator state of
  \<open>bson-context.c\<close>. An \<open>oid\<close> is the 12-byte array \<open>bson_oid_t.bytes\<close>. What the generator takes
  from the operating system (clock, process id, host name, \<open>rand_r\<close>) is an argument of the
  definitions, packed in the record \<open>os_env\<close>.
\<close>

type_synonym oid = "byte list"

section \<open>Printing, parsing and comparing\<close>

text \<open>The little-endian half of \<open>gHexCharPairs\<close>: two ASCII digits per byte value.\<close>

definition gHexCharPairs :: "16 word list" where
  "gHexCharPairs = [
    12336, 12592, 12848, 13104, 13360, 13616, 13872, 14128, 14384, 14640, 24880, 25136, 25392,
    25648, 25904, 26160, 12337, 12593, 12849, 13105, 13361, 13617, 13873, 14129, 14385, 14641,
    24881, 25137, 25393, 25649, 25905, 26161, 12338, 12594, 12850, 13106, 13362, 13618, 13874,
    14130, 14386, 14642, 24882, 25138, 25394, 25650, 25906, 26162, 12339, 12595, 12851, 13107,
    13363, 13619, 13875, 14131, 14387, 14643, 24883, 25139, 25395, 25651, 25907, 26163, 12340,
    12596, 12852, 13108, 13364, 13620, 13876, 14132, 14388, 14644, 24884, 25140, 25396, 25652,
    25908, 26164, 12341, 12597, 12853, 13109, 13365, 13621, 13877, 14133, 14389, 14645, 24885,
    25141, 25397, 25653, 25909, 26165, 12342, 12598, 12854, 13110, 13366, 13622, 13878, 14134,
    14390, 14646, 24886, 25142, 25398, 25654, 25910, 26166, 12343, 12599, 12855, 13111, 13367,
    13623, 13879, 14135, 14391, 14647, 24887, 25143, 25399, 25655, 25911, 26167, 12344, 12600,
    12856, 13112, 13368, 13624, 13880, 14136, 14392, 14648, 24888, 25144, 25400, 25656, 25912,
    26168, 12345, 12601, 12857, 13113, 13369, 13625, 13881, 14137, 14393, 14649, 24889, 25145,
    25401, 25657, 25913, 26169, 12385, 12641, 12897, 13153, 13409, 13665, 13921, 14177, 14433,
    14689, 24929, 25185, 25441, 25697, 25953, 26209, 12386, 12642, 12898, 13154, 13410, 13666,
    13922, 14178, 14434, 14690, 24930, 25186, 25442, 25698, 25954, 26210, 12387, 12643, 12899,
    13155, 13411, 13667, 13923, 14179, 14435, 14691, 24931, 25187, 25443, 25699, 25955, 26211,
    12388, 12644, 12900, 13156, 13412, 13668, 13924, 14180, 14436, 14692, 24932, 25188, 25444,
    25700, 25956, 26212, 12389, 12645, 12901, 13157, 13413, 13669, 13925, 14181, 14437, 14693,
    24933, 25189, 25445, 25701, 25957, 26213, 12390, 12646, 12902, 13158, 13414, 13670, 13926,
    14182, 14438, 14694, 24934, 25190, 25446, 25702, 25958, 26214]"

definition bson_oid_to_string :: "oid \<Rightarrow> byte list" where
  "bson_oid_to_string oid =
     concat (map (\<lambda>i. le_bytes 2 (gHexCharPairs ! unat (oid ! i))) [0..<12]) @ [0]"

definition bson_oid_parse_hex_char :: "byte \<Rightarrow> byte" where
  "bson_oid_parse_hex_char hex =
     (if hex = 0x30 then 0 else if hex = 0x31 then 1 else if hex = 0x32 then 2
      else if hex = 0x33 then 3 else if hex = 0x34 then 4 else if hex = 0x35 then 5
      else if hex = 0x36 then 6 else if hex = 0x37 then 7 else if hex = 0x38 then 8
      else if hex = 0x39 then 9
      else if hex = 0x61 \<or> hex = 0x41 then 0xA
      else if hex = 0x62 \<or> hex = 0x42 then 0xB
      else if hex = 0x63 \<or> hex = 0x43 then 0xC
      else if hex = 0x64 \<or> hex = 0x44 then 0xD
      else if hex = 0x65 \<or> hex = 0x45 then 0xE
      else if hex = 0x66 \<or> hex = 0x46 then 0xF
      else 0)"

text \<open>The loop over \<open>i < 12\<close>; \<open>n\<close> bytes are left to parse from the remaining string.\<close>

fun oid_parse_loop :: "nat \<Rightarrow> byte list \<Rightarrow> oid outcome" where
  "oid_parse_loop 0 str = Ret []"
| "oid_parse_loop (Suc n) str =
     cbind (rd8 str 0) (\<lambda>hi. cbind (rd8 str 1) (\<lambda>lo.
     cbind (oid_parse_loop n (drop 2 str)) (\<lambda>rest.
       Ret ((push_bit 4 (bson_oid_parse_hex_char hi) OR bson_oid_parse_hex_char lo) # rest))))"

definition bson_oid_init_from_string :: "byte list \<Rightarrow> oid outcome" where
  "bson_oid_init_from_string str = oid_parse_loop 12 str"

definition bson_oid_init_from_data :: "byte list \<Rightarrow> oid outcome" where
  "bson_oid_init_from_data data = rdn data 0 12"

definition oid_hex_char :: "byte \<Rightarrow> bool" where
  "oid_hex_char c \<longleftrightarrow> c \<in> set [0x30, 0x31, 0x32, 0x33, 0x34, 0x35, 0x36, 0x37, 0x38, 0x39,
     0x61, 0x62, 0x63, 0x64, 0x65, 0x66, 0x41, 0x42, 0x43, 0x44, 0x45, 0x46]"

fun oid_valid_loop :: "nat \<Rightarrow> byte list \<Rightarrow> nat \<Rightarrow> bool outcome" where
  "oid_valid_loop 0 str i = Ret True"
| "oid_valid_loop (Suc n) str i =
     cbind (rd8 str i) (\<lambda>c. if oid_hex_char c then oid_valid_loop n str (Suc i) else Ret False)"

definition bson_oid_is_valid :: "byte list \<Rightarrow> nat \<Rightarrow> bool outcome" where
  "bson_oid_is_valid str len =
     cbind (if len = 25 then cbind (rd8 str 24) (\<lambda>c. Ret (if c = 0 then 24 else len)) else Ret len)
       (\<lambda>len. if len = 24 then oid_valid_loop 24 str 0 else Ret False)"

definition bson_oid_hash :: "oid \<Rightarrow> u32" where
  "bson_oid_hash oid =
     foldl (\<lambda>hash b. (push_bit 5 hash + hash) + ucast b) 5381 oid"

definition bson_oid_compare :: "oid \<Rightarrow> oid \<Rightarrow> int" where
  "bson_oid_compare oid1 oid2 = c_memcmp oid1 oid2"

definition bson_oid_equal :: "oid \<Rightarrow> oid \<Rightarrow> bool" where
  "bson_oid_equal oid1 oid2 \<longleftrightarrow> c_memcmp oid1 oid2 = 0"

definition bson_oid_copy :: "oid \<Rightarrow> oid" where
  "bson_oid_copy src = take 12 src"

text \<open>\<open>BSON_UINT32_FROM_BE\<close> of the first four bytes, converted to \<open>time_t\<close>.\<close>

definition bson_oid_get_time_t :: "oid \<Rightarrow> u64" where
  "bson_oid_get_time_t oid = ucast (from_le (rev (take 4 oid)) :: u32)"

section \<open>The generator\<close>

datatype seq_fn = Seq_Plain | Seq_Threadsafe

record bson_context =
  ctx_flags :: u32
  ctx_seq32 :: u32
  ctx_seq64 :: u64
  ctx_rand :: "byte list"
  ctx_pid :: "16 word"
  ctx_oid_set_seq32 :: seq_fn
  ctx_oid_set_seq64 :: seq_fn

record os_env =
  os_time :: u64
  os_pid :: u32
  os_tv_sec :: u64
  os_tv_usec :: u64
  os_hostname :: "byte list" \<comment> \<open>the \<open>HOST_NAME_MAX\<close> bytes after \<open>gethostname\<close>\<close>
  os_rand_r :: "u32 \<Rightarrow> u32 \<times> u32" \<comment> \<open>seed to result and next seed\<close>

definition BSON_CONTEXT_THREAD_SAFE :: u32 where "BSON_CONTEXT_THREAD_SAFE = 1"
definition BSON_CONTEXT_DISABLE_PID_CACHE :: u32 where "BSON_CONTEXT_DISABLE_PID_CACHE = 4"

text \<open>
  \<open>context->seq32++\<close> yields the old value; the thread-safe version uses
  \<open>__sync_add_and_fetch\<close>, which yields the new one. Both store the big-endian bytes 1 to 3.
\<close>

definition bson_context_set_oid_seq32 ::
    "bson_context \<Rightarrow> oid \<Rightarrow> (bson_context \<times> oid) outcome" where
  "bson_context_set_oid_seq32 ctx oid =
     (let seq = ctx_seq32 ctx; ctx = ctx\<lparr>ctx_seq32 := ctx_seq32 ctx + 1\<rparr>
      in cbind (wrn oid 9 (drop 1 (rev (le32 seq)))) (\<lambda>oid. Ret (ctx, oid)))"

definition bson_context_set_oid_seq32_threadsafe ::
    "bson_context \<Rightarrow> oid \<Rightarrow> (bson_context \<times> oid) outcome" where
  "bson_context_set_oid_seq32_threadsafe ctx oid =
     (let ctx = ctx\<lparr>ctx_seq32 := ctx_seq32 ctx + 1\<rparr>; seq = ctx_seq32 ctx
      in cbind (wrn oid 9 (drop 1 (rev (le32 seq)))) (\<lambda>oid. Ret (ctx, oid)))"

definition bson_context_set_oid_seq64 ::
    "bson_context \<Rightarrow> oid \<Rightarrow> (bson_context \<times> oid) outcome" where
  "bson_context_set_oid_seq64 ctx oid =
     (let seq = ctx_seq64 ctx; ctx = ctx\<lparr>ctx_seq64 := ctx_seq64 ctx + 1\<rparr>
      in cbind (wrn oid 4 (rev (le64 seq))) (\<lambda>oid. Ret (ctx, oid)))"

definition bson_context_set_oid_seq64_threadsafe ::
    "bson_context \<Rightarrow> oid \<Rightarrow> (bson_context \<times> oid) outcome" where
  "bson_context_set_oid_seq64_threadsafe ctx oid =
     (let ctx = ctx\<lparr>ctx_seq64 := ctx_seq64 ctx + 1\<rparr>; seq = ctx_seq64 ctx
      in cbind (wrn oid 4 (rev (le64 seq))) (\<lambda>oid. Ret (ctx, oid)))"

text \<open>The calls through the function pointers of the context.\<close>

definition oid_set_seq32 :: "bson_context \<Rightarrow> oid \<Rightarrow> (bson_context \<times> oid) outcome" where
  "oid_set_seq32 ctx oid = (case ctx_oid_set_seq32 ctx of
       Seq_Plain \<Rightarrow> bson_context_set_oid_seq32 ctx oid
     | Seq_Threadsafe \<Rightarrow> bson_context_set_oid_seq32_threadsafe ctx oid)"

definition oid_set_seq64 :: "bson_context \<Rightarrow> oid \<Rightarrow> (bson_context \<times> oid) outcome" where
  "oid_set_seq64 ctx oid = (case ctx_oid_set_seq64 ctx of
       Seq_Plain \<Rightarrow> bson_context_set_oid_seq64 ctx oid
     | Seq_Threadsafe \<Rightarrow> bson_context_set_oid_seq64_threadsafe ctx oid)"

definition bson_getpid :: "os_env \<Rightarrow> 16 word" where
  "bson_getpid env = ucast (os_pid env)"

definition bson_context_get_hostname :: "os_env \<Rightarrow> byte list" where
  "bson_context_get_hostname env = (os_hostname env)[length (os_hostname env) - 1 := 0]"

fun seed_hostname :: "u32 \<Rightarrow> byte list \<Rightarrow> u32" where
  "seed_hostname seed chars =
     (if chars = [] then seed else seed_hostname (seed XOR from_le (take 4 chars)) (drop 4 chars))"

declare seed_hostname.simps [simp del]

definition bson_context_init_random ::
    "os_env \<Rightarrow> bson_context \<Rightarrow> bool \<Rightarrow> bson_context outcome" where
  "bson_context_init_random env ctx init_sequence =
     (let seed = 0 XOR ucast (os_tv_sec env) XOR ucast (os_tv_usec env) XOR ucast (ctx_pid ctx);
          hostname = bson_context_get_hostname env
      in cbind (c_strlen hostname) (\<lambda>n.
         let seed = seed_hostname seed (take n hostname);
             (ctx, seed) =
               (if init_sequence then
                  let (r, seed) = os_rand_r env seed
                  in (ctx\<lparr>ctx_seq32 := r AND 0x007FFFF0\<rparr>, seed)
                else (ctx, seed));
             (r1, seed) = os_rand_r env seed;
             (r2, seed) = os_rand_r env seed;
             rand_bytes = push_bit 32 (scast r1 :: u64) OR scast r2
         in Ret (ctx\<lparr>ctx_rand := take 5 (le64 rand_bytes)\<rparr>)))"

definition bson_context_set_oid_rand ::
    "os_env \<Rightarrow> bson_context \<Rightarrow> oid \<Rightarrow> (bson_context \<times> oid) outcome" where
  "bson_context_set_oid_rand env ctx oid =
     cbind (if ctx_flags ctx AND BSON_CONTEXT_DISABLE_PID_CACHE \<noteq> 0 then
              let pid = bson_getpid env
              in if pid \<noteq> ctx_pid ctx
                 then bson_context_init_random env (ctx\<lparr>ctx_pid := pid\<rparr>) False
                 else Ret ctx
            else Ret ctx)
       (\<lambda>ctx. cbind (wrn oid 4 (ctx_rand ctx)) (\<lambda>oid. Ret (ctx, oid)))"

text \<open>\<open>bson_malloc0\<close> gives the zeroed context that \<open>_bson_context_init\<close> fills in.\<close>

definition bson_context_init :: "os_env \<Rightarrow> bson_context \<Rightarrow> u32 \<Rightarrow> bson_context outcome" where
  "bson_context_init env ctx flags =
     (let ctx = ctx\<lparr>ctx_flags := flags, ctx_oid_set_seq32 := Seq_Plain,
                     ctx_oid_set_seq64 := Seq_Plain\<rparr>;
          ctx = (if flags AND BSON_CONTEXT_THREAD_SAFE \<noteq> 0
                 then ctx\<lparr>ctx_oid_set_seq32 := Seq_Threadsafe, ctx_oid_set_seq64 := Seq_Threadsafe\<rparr>
                 else ctx);
          ctx = ctx\<lparr>ctx_pid := bson_getpid env\<rparr>
      in bson_context_init_random env ctx True)"

definition bson_context_new :: "os_env \<Rightarrow> u32 \<Rightarrow> bson_context outcome" where
  "bson_context_new env flags =
     bson_context_init env
       \<lparr>ctx_flags = 0, ctx_seq32 = 0, ctx_seq64 = 0, ctx_rand = replicate 5 0, ctx_pid = 0,
        ctx_oid_set_seq32 = Seq_Plain, ctx_oid_set_seq64 = Seq_Plain\<rparr> flags"

text \<open>The context argument is the one the caller passes or the default context.\<close>

definition bson_oid_init :: "os_env \<Rightarrow> bson_context \<Rightarrow> oid \<Rightarrow> (bson_context \<times> oid) outcome" where
  "bson_oid_init env ctx oid =
     (let now = ucast (os_time env) :: u32
      in cbind (wrn oid 0 (rev (le32 now))) (\<lambda>oid.
         cbind (bson_context_set_oid_rand env ctx oid) (\<lambda>(ctx, oid).
         oid_set_seq32 ctx oid)))"

definition bson_oid_init_sequence ::
    "os_env \<Rightarrow> bson_context \<Rightarrow> oid \<Rightarrow> (bson_context \<times> oid) outcome" where
  "bson_oid_init_sequence env ctx oid =
     (let now = ucast (os_time env) :: u32
      in cbind (wrn oid 0 (rev (le32 now))) (\<lambda>oid. oid_set_seq64 ctx oid))"

section \<open>Printing and parsing\<close>

definition hex_digits :: "16 word list" where
  "hex_digits = [0x30, 0x31, 0x32, 0x33, 0x34, 0x35, 0x36, 0x37, 0x38, 0x39,
                 0x61, 0x62, 0x63, 0x64, 0x65, 0x66]"

lemma gHexCharPairs_product:
  "gHexCharPairs = map (\<lambda>(h, l). h OR push_bit 8 l) (List.product hex_digits hex_digits)"
  by (simp add: gHexCharPairs_def hex_digits_def push_bit_eq_mult)

definition hex_digit_ok :: "nat \<Rightarrow> 16 word \<Rightarrow> bool" where
  "hex_digit_ok n d \<longleftrightarrow> drop_bit 8 d = 0 \<and> oid_hex_char (ucast d) \<and>
     bson_oid_parse_hex_char (ucast d) = of_nat n"

lemma hex_digits_ok: "list_all (\<lambda>(n, d). hex_digit_ok n d) (zip [0..<16] hex_digits)"
  by code_simp

lemma hex_digits_nth: "n < 16 \<Longrightarrow> hex_digit_ok n (hex_digits ! n)"
proof -
  assume "n < 16"
  then have "(n, hex_digits ! n) \<in> set (zip [0..<16] hex_digits)"
    by (auto simp: set_zip hex_digits_def intro!: exI [of _ n])
  with hex_digits_ok show ?thesis by (auto simp: list_all_iff)
qed

definition hex_pair_ok :: "byte \<Rightarrow> 16 word \<Rightarrow> bool" where
  "hex_pair_ok b p = (let hi = ucast p; lo = ucast (drop_bit 8 p) in
     oid_hex_char hi \<and> oid_hex_char lo \<and>
     push_bit 4 (bson_oid_parse_hex_char hi) OR bson_oid_parse_hex_char lo = b)"

lemma nibbles: "push_bit 4 (of_nat (unat b div 16)) OR of_nat (unat b mod 16) = (b :: byte)"
proof -
  have "of_nat (unat b div 16) = drop_bit 4 b"
    by (simp add: word_unat_eq_iff unat_drop_bit_eq drop_bit_eq_div unat_of_nat unat_div
        unsigned_less [of b, simplified] order.strict_trans1 [OF div_le_dividend])
  moreover have "of_nat (unat b mod 16) = take_bit 4 b"
    by (simp add: word_unat_eq_iff unsigned_take_bit_eq take_bit_eq_mod unat_of_nat unat_mod)
  ultimately show ?thesis
    by (auto simp: byte_bits bit_take_bit_iff)
qed

lemma gHexCharPairs_nth: "hex_pair_ok b (gHexCharPairs ! unat (b :: byte))"
proof -
  let ?h = "hex_digits ! (unat b div 16)" and ?l = "hex_digits ! (unat b mod 16)"
  have b: "unat b < 256" using unsigned_less [of b] by simp
  have len: "length hex_digits = 16" by (simp add: hex_digits_def)
  have p: "gHexCharPairs ! unat b = ?h OR push_bit 8 ?l"
    using b by (simp add: gHexCharPairs_product product_nth len)
  have h: "hex_digit_ok (unat b div 16) ?h" and l: "hex_digit_ok (unat b mod 16) ?l"
    using b by (auto intro: hex_digits_nth)
  have "ucast (?h OR push_bit 8 ?l) = (ucast ?h :: byte)"
    by (auto simp: byte_bits)
  moreover have "ucast (drop_bit 8 (?h OR push_bit 8 ?l)) = (ucast ?l :: byte)"
    using h by (auto simp: byte_bits hex_digit_ok_def bit_eq_iff [of "drop_bit 8 _"])
  ultimately show ?thesis
    using h l nibbles [of b] by (simp add: hex_pair_ok_def hex_digit_ok_def p)
qed

lemma le_bytes_2: "le_bytes 2 w = [ucast w, ucast (drop_bit 8 w)]"
  by (simp add: le_bytes_def numeral_2_eq_2)

definition hex_text :: "byte list \<Rightarrow> byte list" where
  "hex_text bs = concat (map (\<lambda>b. le_bytes 2 (gHexCharPairs ! unat b)) bs)"

lemma to_string_hex_text: "length oid = 12 \<Longrightarrow> bson_oid_to_string oid = hex_text oid @ [0]"
  by (metis (no_types, lifting) bson_oid_to_string_def hex_text_def map_map map_nth comp_apply map_cong)

lemma hex_text_Cons:
  "hex_text (b # bs) = ucast (gHexCharPairs ! unat b) # ucast (drop_bit 8 (gHexCharPairs ! unat b)) # hex_text bs"
  by (simp add: hex_text_def le_bytes_2)

lemma hex_text_Nil [simp]: "hex_text [] = []"
  by (simp add: hex_text_def)

lemma length_hex_text [simp]: "length (hex_text bs) = 2 * length bs"
  by (induction bs) (simp_all add: hex_text_Cons)

lemma parse_hex_text: "oid_parse_loop (length bs) (hex_text bs @ rest) = Ret bs"
proof (induction bs)
  case (Cons b bs)
  with gHexCharPairs_nth [of b] show ?case
    by (simp add: hex_text_Cons rd8_def hex_pair_ok_def Let_def)
qed simp

lemma hex_text_digits: "c \<in> set (hex_text bs) \<Longrightarrow> oid_hex_char c"
proof (induction bs)
  case (Cons b bs)
  with gHexCharPairs_nth [of b] show ?case
    by (auto simp: hex_text_Cons hex_pair_ok_def Let_def)
qed simp

lemma oid_valid_loop_iff:
  "i + n \<le> length str \<Longrightarrow>
   oid_valid_loop n str i = Ret (\<forall>c \<in> set (take n (drop i str)). oid_hex_char c)"
proof (induction n arbitrary: i)
  case (Suc n)
  then have "drop i str = str ! i # drop (Suc i) str" by (simp add: Cons_nth_drop_Suc)
  with Suc show ?case by (simp add: rd8_def)
qed simp

text \<open>
  C17. For every ObjectID, \<open>bson_oid_to_string\<close> fills the 25-byte buffer with a text that
  \<open>bson_oid_is_valid\<close> accepts with and without its terminator, and
  \<open>bson_oid_init_from_string\<close> reads the same ObjectID back from it.
\<close>

theorem oid_string_roundtrip:
  assumes "length oid = 12"
  shows "length (bson_oid_to_string oid) = 25 \<and>
    bson_oid_is_valid (bson_oid_to_string oid) 24 = Ret True \<and>
    bson_oid_is_valid (bson_oid_to_string oid) 25 = Ret True \<and>
    bson_oid_init_from_string (bson_oid_to_string oid) = Ret oid"
proof -
  note str = to_string_hex_text [OF assms]
  have "oid_valid_loop 24 (hex_text oid @ [0]) 0 = Ret True"
    using assms hex_text_digits by (auto simp: oid_valid_loop_iff)
  then have "bson_oid_is_valid (bson_oid_to_string oid) 24 = Ret True"
    and "bson_oid_is_valid (bson_oid_to_string oid) 25 = Ret True"
    using assms by (simp_all add: bson_oid_is_valid_def str rd8_def nth_append)
  moreover have "bson_oid_init_from_string (bson_oid_to_string oid) = Ret oid"
    using parse_hex_text [of oid "[0]"] assms by (simp add: bson_oid_init_from_string_def str)
  ultimately show ?thesis using assms by (simp add: str)
qed

theorem oid_string_roundtrip_witness:
  "bson_oid_init_from_string (bson_oid_to_string [0x5F, 1, 2, 3, 4, 5, 6, 7, 8, 9, 0xA, 0xFF]) =
     Ret [0x5F, 1, 2, 3, 4, 5, 6, 7, 8, 9, 0xA, 0xFF]"
  using oid_string_roundtrip [of "[0x5F, 1, 2, 3, 4, 5, 6, 7, 8, 9, 0xA, 0xFF]"] by simp

lemma oid_is_valid_iff:
  assumes "n \<le> length str"
  shows "bson_oid_is_valid str n = Ret
     ((n = 24 \<or> n = 25 \<and> str ! 24 = 0) \<and> (\<forall>c \<in> set (take 24 str). oid_hex_char c))"
  using assms by (auto simp: bson_oid_is_valid_def rd8_def oid_valid_loop_iff oid_hex_char_def)

section \<open>Order\<close>

primrec le_val :: "byte list \<Rightarrow> nat" where
  "le_val [] = 0"
| "le_val (b # bs) = unat b + 256 * le_val bs"

lemma le_val_less: "le_val bs < 256 ^ length bs"
proof (induction bs)
  case (Cons b bs)
  have "unat b < 256" using unsigned_less [of b] by simp
  with Cons show ?case by simp
qed simp

lemma le_val_snoc: "le_val (bs @ [b]) = le_val bs + 256 ^ length bs * unat b"
  by (induction bs) (simp_all add: algebra_simps)

lemma unat_from_le:
  "8 * length bs \<le> LENGTH('a) \<Longrightarrow> unat (from_le bs :: 'a::len word) = le_val bs"
proof (induction bs)
  case (Cons b bs)
  let ?r = "from_le bs :: 'a word"
  have bound: "unat b + 256 * le_val bs < 2 ^ LENGTH('a)"
  proof -
    have "(256::nat) ^ length (b # bs) = 2 ^ (8 * length (b # bs))" by (simp only: power_mult) simp
    also have "\<dots> \<le> 2 ^ LENGTH('a)" by (rule power_increasing [OF Cons.prems]) simp
    finally show ?thesis using le_val_less [of "b # bs"] by simp
  qed
  have "ucast b AND push_bit 8 ?r = 0"
    by (auto simp: bit_eq_iff bit_and_iff bit_ucast_iff bit_push_bit_iff dest: bit_imp_le_length)
  then have "ucast b OR push_bit 8 ?r = ucast b + push_bit 8 ?r"
    by (simp add: disjunctive_add_eq_or)
  moreover have "unat (ucast b :: 'a word) = unat b"
    using bound by (simp add: unsigned_ucast_eq take_bit_nat_eq_self)
  moreover have "unat (push_bit 8 ?r) = 256 * le_val bs"
    using Cons bound by (simp add: unsigned_push_bit_eq push_bit_nat_def take_bit_nat_eq_self)
  ultimately show ?case using bound by (simp add: unat_add_small)
qed simp

lemma sgn_diff_nat:
  "p < q \<Longrightarrow> sgn (int p - int q) = - 1"
  "q < p \<Longrightarrow> sgn (int p - int q) = 1"
  by simp_all

lemma sgn_digit:
  fixes a b x y n :: nat
  assumes "a < n" "b < n"
  shows "sgn (int (a + n * x) - int (b + n * y)) =
    (if x < y then -1 else if y < x then 1 else sgn (int a - int b))"
proof -
  consider "x < y" | "y < x" | "x = y" by linarith
  then show ?thesis
  proof cases
    case 1
    then have "n * x + n \<le> n * y" by (metis Suc_leI mult_Suc_right mult_le_mono2 add.commute)
    with assms have "a + n * x < b + n * y" by linarith
    with 1 show ?thesis by (simp only: sgn_diff_nat if_True)
  next
    case 2
    then have "n * y + n \<le> n * x" by (metis Suc_leI mult_Suc_right mult_le_mono2 add.commute)
    with assms have "b + n * y < a + n * x" by linarith
    with 2 show ?thesis by (simp only: sgn_diff_nat less_not_sym if_False if_True not_less_iff_gr_or_eq)
  qed simp
qed

lemma c_memcmp_value:
  "length xs = length ys \<Longrightarrow>
   c_memcmp xs ys = sgn (int (le_val (rev xs)) - int (le_val (rev ys)))"
proof (induction xs ys rule: c_memcmp.induct)
  case (1 x xs y ys)
  then show ?case
    using sgn_digit [OF le_val_less [of "rev xs"], of "le_val (rev ys)" "unat x" "unat y"]
      le_val_less [of "rev ys"]
    by (auto simp: le_val_snoc word_less_nat_alt)
qed auto

section \<open>The generator\<close>

lemma set_oid_rand_frame:
  assumes "bson_context_set_oid_rand env ctx oid = Ret (ctx', oid')"
  shows "ctx_seq32 ctx' = ctx_seq32 ctx" "ctx_oid_set_seq32 ctx' = ctx_oid_set_seq32 ctx"
    "length oid' = length oid" "take 4 oid' = take 4 oid"
  using assms
  by (auto simp: bson_context_set_oid_rand_def bson_context_init_random_def Let_def wrn_def
      split: if_splits prod.splits)

text \<open>The low three bytes of the counter, most significant first.\<close>

definition seq_bytes :: "u32 \<Rightarrow> byte list" where
  "seq_bytes seq = drop 1 (rev (le32 seq))"

lemma seq_bytes_eq: "seq_bytes a = seq_bytes b \<longleftrightarrow> take_bit 24 a = take_bit 24 b"
  by (auto simp: seq_bytes_def le32_eq word_eq_bits [of "ucast _ :: byte"] word_eq_bits [of "take_bit _ _"]
      bit_take_bit_iff all_less_32 bit_ucast_iff bit_drop_bit_eq)

lemma uint_diff_mod24: "uint (s - of_nat j :: u32) mod 2 ^ 24 = (uint s - int j) mod 2 ^ 24"
proof -
  have "s - of_nat j = word_of_int (uint s - int j)" by simp
  then have "uint (s - of_nat j) = (uint s - int j) mod 2 ^ 32"
    by (simp only: uint_word_of_int) simp
  also have "\<dots> mod 2 ^ 24 = (uint s - int j) mod 2 ^ 24"
    by (rule mod_mod_cancel) simp
  finally show ?thesis .
qed

lemma seq_bytes_inj:
  assumes "seq_bytes (s - of_nat j) = seq_bytes (s - of_nat k)" "j < 2 ^ 24" "k < 2 ^ 24"
  shows "j = k"
proof -
  have "uint (take_bit 24 (s - of_nat j)) = uint (take_bit 24 (s - of_nat k))"
    using assms(1) by (simp only: seq_bytes_eq)
  then have "uint (s - of_nat j) mod 2 ^ 24 = uint (s - of_nat k) mod 2 ^ 24"
    by (simp only: unsigned_take_bit_eq) (simp only: take_bit_eq_mod)
  then have "(2 ^ 24 :: int) dvd (uint s - int j) - (uint s - int k)"
    by (simp only: uint_diff_mod24 mod_eq_dvd_iff)
  then have "(2 ^ 24 :: int) dvd int k - int j" by simp
  moreover have "\<bar>int k - int j\<bar> < 2 ^ 24" using assms(2,3) by simp
  ultimately have "int k - int j = 0"
    using dvd_imp_le_int [of "int k - int j" "2 ^ 24"] by (cases "int k - int j = 0") simp_all
  then show ?thesis by simp
qed

definition next_seq :: "bson_context \<Rightarrow> u32" where
  "next_seq ctx = (case ctx_oid_set_seq32 ctx of Seq_Plain \<Rightarrow> ctx_seq32 ctx
     | Seq_Threadsafe \<Rightarrow> ctx_seq32 ctx + 1)"

lemma set_seq32_effect:
  assumes "oid_set_seq32 ctx oid = Ret (ctx', oid')"
  shows "ctx_seq32 ctx' = ctx_seq32 ctx + 1" "ctx_oid_set_seq32 ctx' = ctx_oid_set_seq32 ctx"
    "take 3 (drop 9 oid') = seq_bytes (next_seq ctx)" "length oid' = length oid"
    "take 9 oid' = take 9 oid"
  using assms
  by (auto simp: oid_set_seq32_def bson_context_set_oid_seq32_def
      bson_context_set_oid_seq32_threadsafe_def Let_def wrn_def seq_bytes_def next_seq_def
      split: if_splits seq_fn.splits)

text \<open>
  Concurrent use of one context. \<open>bson_oid_init\<close> first stamps the time and the random bytes and
  then draws the sequence number; only the draw is one atomic operation. Threads are numbered,
  a thread between the two parts holds its stamped oid.
\<close>

definition oid_stamp :: "os_env \<Rightarrow> bson_context \<Rightarrow> oid \<Rightarrow> (bson_context \<times> oid) outcome" where
  "oid_stamp env ctx oid =
     cbind (wrn oid 0 (rev (le32 (ucast (os_time env))))) (\<lambda>oid. bson_context_set_oid_rand env ctx oid)"

lemma bson_oid_init_stamp:
  "bson_oid_init env ctx oid = cbind (oid_stamp env ctx oid) (\<lambda>(ctx, oid). oid_set_seq32 ctx oid)"
  by (simp add: bson_oid_init_def oid_stamp_def Let_def cbind_assoc)

record gen_state =
  gs_ctx :: bson_context
  gs_thread :: "nat \<Rightarrow> oid option"
  gs_made :: "oid list"

inductive gen_step :: "gen_state \<Rightarrow> gen_state \<Rightarrow> bool" where
  stamp: "gs_thread s t = None \<Longrightarrow> length oid = 12 \<Longrightarrow>
     oid_stamp env (gs_ctx s) oid = Ret (ctx', oid') \<Longrightarrow>
     gen_step s (s\<lparr>gs_ctx := ctx', gs_thread := (gs_thread s)(t \<mapsto> oid')\<rparr>)"
| draw: "gs_thread s t = Some oid \<Longrightarrow> oid_set_seq32 (gs_ctx s) oid = Ret (ctx', oid') \<Longrightarrow>
     gen_step s (s\<lparr>gs_ctx := ctx', gs_thread := (gs_thread s)(t := None),
                    gs_made := oid' # gs_made s\<rparr>)"

definition gen_init :: "bson_context \<Rightarrow> gen_state" where
  "gen_init ctx = \<lparr>gs_ctx = ctx, gs_thread = (\<lambda>_. None), gs_made = []\<rparr>"

definition made_inv :: "seq_fn \<Rightarrow> gen_state \<Rightarrow> bool" where
  "made_inv fn s \<longleftrightarrow> ctx_oid_set_seq32 (gs_ctx s) = fn \<and>
     (\<forall>i < length (gs_made s). take 3 (drop 9 (gs_made s ! i)) =
        seq_bytes (next_seq (gs_ctx s) - of_nat (Suc i)))"

lemma gen_step_made_inv: "gen_step s s' \<Longrightarrow> made_inv fn s \<Longrightarrow> made_inv fn s'"
proof (induction rule: gen_step.induct)
  case (stamp s t oid env ctx' oid')
  from stamp(3) obtain o1 where "bson_context_set_oid_rand env (gs_ctx s) o1 = Ret (ctx', oid')"
    by (auto simp: oid_stamp_def)
  note f = set_oid_rand_frame [OF this]
  then have "next_seq ctx' = next_seq (gs_ctx s)" by (cases "ctx_oid_set_seq32 (gs_ctx s)") (simp_all add: next_seq_def)
  with f stamp(4) show ?case by (simp add: made_inv_def)
next
  case (draw s t oid ctx' oid')
  note e = set_seq32_effect [OF draw(2)]
  have "next_seq ctx' = next_seq (gs_ctx s) + 1"
    using e by (simp add: next_seq_def split: seq_fn.splits)
  with e draw(3) show ?case
    by (auto simp: made_inv_def nth_Cons split: nat.splits)
qed

lemma gen_steps_made_inv: "gen_step\<^sup>*\<^sup>* s s' \<Longrightarrow> made_inv fn s \<Longrightarrow> made_inv fn s'"
  by (induction rule: rtranclp_induct) (auto intro: gen_step_made_inv)


text \<open>Two threads that both stamp before either draws.\<close>

definition example_env :: "u64 \<Rightarrow> os_env" where
  "example_env t = \<lparr>os_time = t, os_pid = 77, os_tv_sec = t, os_tv_usec = 3, os_hostname = [0x61, 0],
     os_rand_r = (\<lambda>s. (s, s + 1))\<rparr>"

definition example_ctx :: bson_context where
  "example_ctx = \<lparr>ctx_flags = BSON_CONTEXT_THREAD_SAFE, ctx_seq32 = 0x10, ctx_seq64 = 0,
     ctx_rand = [1, 2, 3, 4, 5], ctx_pid = 77,
     ctx_oid_set_seq32 = Seq_Threadsafe, ctx_oid_set_seq64 = Seq_Threadsafe\<rparr>"

lemma example_stamp:
  "ctx_flags ctx = 1 \<Longrightarrow> ctx_rand ctx = [1, 2, 3, 4, 5] \<Longrightarrow>
   oid_stamp (example_env 258) ctx (replicate 12 0) =
     Ret (ctx, [0, 0, 1, 2, 1, 2, 3, 4, 5, 0, 0, 0])"
  by (simp add: oid_stamp_def example_env_def wrn_def le32_eq bson_context_set_oid_rand_def
      BSON_CONTEXT_DISABLE_PID_CACHE_def numeral_3_eq_3)

lemma example_draw:
  "ctx_oid_set_seq32 ctx = Seq_Threadsafe \<Longrightarrow>
   oid_set_seq32 ctx [0, 0, 1, 2, 1, 2, 3, 4, 5, 0, 0, 0] =
     Ret (ctx\<lparr>ctx_seq32 := ctx_seq32 ctx + 1\<rparr>,
       [0, 0, 1, 2, 1, 2, 3, 4, 5] @ seq_bytes (ctx_seq32 ctx + 1))"
  by (simp add: oid_set_seq32_def bson_context_set_oid_seq32_threadsafe_def Let_def wrn_def
      seq_bytes_def)

lemma example_run:
  "\<exists>s. gen_step\<^sup>*\<^sup>* (gen_init example_ctx) s \<and> length (gs_made s) = 2"
proof -
  let ?o = "[0, 0, 1, 2, 1, 2, 3, 4, 5, 0, 0, 0] :: oid"
  define s1 where "s1 = (gen_init example_ctx)\<lparr>gs_thread := [0 \<mapsto> ?o]\<rparr>"
  define s2 where "s2 = s1\<lparr>gs_thread := (gs_thread s1)(1 \<mapsto> ?o)\<rparr>"
  have g: "gs_ctx s1 = example_ctx" "gs_ctx s2 = example_ctx" "gs_thread s1 1 = None"
    "gs_thread s2 1 = Some ?o" "gs_thread s2 0 = Some ?o" "gs_made s2 = []"
    by (simp_all add: s1_def s2_def gen_init_def)
  have 1: "gen_step (gen_init example_ctx) s1"
    using gen_step.stamp [of "gen_init example_ctx" 0 "replicate 12 0" "example_env 258" example_ctx ?o]
    by (simp add: example_stamp example_ctx_def BSON_CONTEXT_THREAD_SAFE_def gen_init_def s1_def)
  have 2: "gen_step s1 s2"
    using gen_step.stamp [of s1 1 "replicate 12 0" "example_env 258" example_ctx ?o] g
    by (simp add: example_stamp example_ctx_def BSON_CONTEXT_THREAD_SAFE_def s2_def s1_def gen_init_def)
  have ts: "ctx_oid_set_seq32 example_ctx = Seq_Threadsafe" by (simp add: example_ctx_def)
  obtain s3 where 3: "gen_step s2 s3" "gs_thread s3 0 = Some ?o" "length (gs_made s3) = 1"
    "ctx_oid_set_seq32 (gs_ctx s3) = Seq_Threadsafe"
    using gen_step.draw [of s2 1 ?o, OF g(4)] g ts by (fastforce simp: example_draw)
  obtain s4 where 4: "gen_step s3 s4" "length (gs_made s4) = 2"
    using gen_step.draw [of s3 0 ?o, OF 3(2)] 3 by (fastforce simp: example_draw)
  from 1 2 3(1) 4(1) have "gen_step\<^sup>*\<^sup>* (gen_init example_ctx) s4"
    by (intro rtranclp.rtrancl_into_rtrancl [OF rtranclp.rtrancl_into_rtrancl
        [OF rtranclp.rtrancl_into_rtrancl [OF r_into_rtranclp]]])
  with 4(2) show ?thesis by blast
qed


section \<open>The creation time\<close>

lemma oid_init_effect:
  assumes "bson_oid_init env ctx oid = Ret (ctx', oid')"
  shows "take 4 oid' = rev (le32 (ucast (os_time env)))" "length oid' = length oid"
proof -
  from assms obtain o1 c2 o2 where 1: "wrn oid 0 (rev (le32 (ucast (os_time env)))) = Ret o1"
    and 2: "bson_context_set_oid_rand env ctx o1 = Ret (c2, o2)"
    and 3: "oid_set_seq32 c2 o2 = Ret (ctx', oid')"
    by (auto simp: bson_oid_init_def Let_def)
  have "take 4 o1 = rev (le32 (ucast (os_time env)))" using 1 by (auto simp: wrn_def split: if_splits)
  then show "take 4 oid' = rev (le32 (ucast (os_time env)))"
    using set_oid_rand_frame(4) [OF 2] arg_cong [OF set_seq32_effect(5) [OF 3], of "take 4"] by simp
  show "length oid' = length oid"
    using set_oid_rand_frame(3) [OF 2] set_seq32_effect(4) [OF 3] length_wrn [OF 1] by simp
qed

lemma c_memcmp_append:
  "length xs = length ys \<Longrightarrow>
   c_memcmp (xs @ xs') (ys @ ys') = (if c_memcmp xs ys \<noteq> 0 then c_memcmp xs ys else c_memcmp xs' ys')"
  by (induction xs ys rule: c_memcmp.induct) auto

lemma c_memcmp_be32: "c_memcmp (rev (le32 a)) (rev (le32 b)) = sgn (int (unat a) - int (unat b))"
proof -
  have "le_val (le32 w) = unat w" for w :: u32
    using unat_from_le [of "le32 w", where 'a = 32] by simp
  then show ?thesis by (simp add: c_memcmp_value)
qed

text \<open>
  C19. An ObjectID carries the second in which \<open>bson_oid_init\<close> made it, \<open>bson_oid_get_time_t\<close>
  reads it back, and \<open>bson_oid_compare\<close> orders ObjectIDs made in different seconds (before the
  32-bit clock wraps) by their time, whichever contexts made them.
\<close>

theorem oid_init_time_order:
  assumes "bson_oid_init env1 ctx1 buf1 = Ret (ctx1', oid1)" "length buf1 = 12"
    and "bson_oid_init env2 ctx2 buf2 = Ret (ctx2', oid2)" "length buf2 = 12"
    and "os_time env1 < os_time env2" "os_time env2 < 2 ^ 32"
  shows "bson_oid_get_time_t oid1 = os_time env1 \<and> bson_oid_get_time_t oid2 = os_time env2 \<and>
    bson_oid_compare oid1 oid2 < 0"
proof -
  note t1 = oid_init_effect [OF assms(1)] and t2 = oid_init_effect [OF assms(3)]
  have u: "unat (ucast w :: u32) = unat w" if "w < 2 ^ 32" for w :: u64
    using that by (simp add: unsigned_ucast_eq take_bit_nat_eq_self word_less_nat_alt)
  have w: "ucast (ucast w :: u32) = w" if "w < 2 ^ 32" for w :: u64
    using u [OF that] by (simp add: word_unat_eq_iff word_nat)
  have lt: "os_time env1 < 2 ^ 32" using assms(5,6) by (rule order.strict_trans)
  have "bson_oid_get_time_t oid1 = os_time env1" "bson_oid_get_time_t oid2 = os_time env2"
    using t1 t2 w lt assms(6) by (simp_all add: bson_oid_get_time_t_def)
  moreover have "c_memcmp (take 4 oid1) (take 4 oid2) = - 1"
    unfolding t1(1) t2(1) c_memcmp_be32
    by (rule sgn_diff_nat) (use u lt assms(5,6) in \<open>simp add: word_less_nat_alt\<close>)
  moreover have "length (take 4 oid1) = length (take 4 oid2)" using t1 t2 assms by simp
  ultimately show ?thesis
    using c_memcmp_append [of "take 4 oid1" "take 4 oid2" "drop 4 oid1" "drop 4 oid2"]
    by (simp add: bson_oid_compare_def)
qed

theorem oid_init_time_order_witness:
  "\<exists>ctx' oid1 oid2. bson_oid_init (example_env 258) example_ctx (replicate 12 0) = Ret (ctx', oid1) \<and>
     bson_oid_init (example_env 259) example_ctx (replicate 12 0) = Ret (ctx', oid2) \<and>
     bson_oid_get_time_t oid1 = 258 \<and> bson_oid_compare oid1 oid2 < 0"
proof -
  have made: "\<exists>ctx' oid'. bson_oid_init (example_env t) example_ctx (replicate 12 0) = Ret (ctx', oid') \<and>
      ctx' = example_ctx\<lparr>ctx_seq32 := 0x11\<rparr>" for t
    by (simp add: bson_oid_init_def bson_context_set_oid_rand_def example_ctx_def wrn_def
        BSON_CONTEXT_DISABLE_PID_CACHE_def BSON_CONTEXT_THREAD_SAFE_def oid_set_seq32_def
        bson_context_set_oid_seq32_threadsafe_def Let_def)
  obtain c1 o1 c2 o2 where
    1: "bson_oid_init (example_env 258) example_ctx (replicate 12 0) = Ret (c1, o1)" and
    2: "bson_oid_init (example_env 259) example_ctx (replicate 12 0) = Ret (c2, o2)" and "c1 = c2"
    using made by metis
  with oid_init_time_order [OF 1 _ 2] show ?thesis
    by (simp add: example_env_def)
qed

end
