(* ===== verification/Bson_Iter.thy ===== *)
theory Bson_Iter
  imports Bson_Types Bson_Utf8 Bson_Oid
begin

text \<open>
  The BSON iterator: \<open>bson-iter.c\<close> and the unchecked readers of \<open>bson-iter.h\<close>. An iterator holds
  the memory it walks over (the bytes readable from \<open>raw\<close> on, \<open>None\<close> for \<open>NULL\<close>) and 32-bit offsets
  into it. A pointer that a function hands out is likewise the memory readable from it on. Loops
  that the C code bounds only by the contents of the document carry fuel. Optional out parameters
  are modelled as requested; a \<open>double\<close> is its 64-bit pattern.
\<close>

section \<open>State\<close>

type_synonym cptr = "byte list option"

record bson_iter =
  it_raw :: cptr
  it_len :: u32
  it_off :: u32
  it_type :: u32
  it_key :: u32
  it_d1 :: u32
  it_d2 :: u32
  it_d3 :: u32
  it_d4 :: u32
  it_next_off :: u32
  it_err_off :: u32

text \<open>A \<open>const bson_t *\<close> as the iterator sees it: \<open>bson_get_data\<close> and \<open>len\<close>.\<close>

record bson_view =
  bv_data :: "byte list"
  bv_len :: u32

definition iter_zero :: bson_iter where
  "iter_zero = \<lparr>it_raw = None, it_len = 0, it_off = 0, it_type = 0, it_key = 0, it_d1 = 0, it_d2 = 0,
     it_d3 = 0, it_d4 = 0, it_next_off = 0, it_err_off = 0\<rparr>"

definition iter_start :: "byte list \<Rightarrow> u32 \<Rightarrow> bson_iter" where
  "iter_start data len = \<lparr>it_raw = Some data, it_len = len, it_off = 0, it_type = 0, it_key = 0,
     it_d1 = 0, it_d2 = 0, it_d3 = 0, it_d4 = 0, it_next_off = 4, it_err_off = 0\<rparr>"

definition bson_iter_init :: "bson_view \<Rightarrow> bool \<times> bson_iter" where
  "bson_iter_init bson =
     (if bv_len bson < 5 then (False, iter_zero)
      else (True, iter_start (bv_data bson) (bv_len bson)))"

definition bson_iter_init_from_data :: "byte list \<Rightarrow> nat \<Rightarrow> (bool \<times> bson_iter) outcome" where
  "bson_iter_init_from_data data len =
     (if len < 5 \<or> INT32_MAX < len then Ret (False, iter_zero)
      else cbind (rd32 data 0) (\<lambda>len_le.
        if unat len_le \<noteq> len then Ret (False, iter_zero)
        else cbind (rd8 data (len - 1)) (\<lambda>last.
          if last \<noteq> 0 then Ret (False, iter_zero)
          else Ret (True, iter_start data (of_nat len)))))"

text \<open>\<open>bson_init_static\<close>: a read-only \<open>bson_t\<close> over caller memory.\<close>

definition bson_init_static :: "byte list \<Rightarrow> nat \<Rightarrow> bson_view option outcome" where
  "bson_init_static data len =
     (if len < 5 \<or> INT32_MAX < len then Ret None
      else cbind (rd32 data 0) (\<lambda>len_le.
        if unat len_le \<noteq> len then Ret None
        else cbind (rd8 data (len - 1)) (\<lambda>last.
          if last \<noteq> 0 then Ret None
          else Ret (Some \<lparr>bv_data = data, bv_len = of_nat len\<rparr>))))"

text \<open>For evaluation: the bound as an integer, which is not unfolded to a unary number.\<close>

lemma INT32_MAX_int: "INT32_MAX < len \<longleftrightarrow> 2147483647 < int len"
  by (simp add: INT32_MAX_def)

lemmas bson_init_static_code [code] = bson_init_static_def [unfolded INT32_MAX_int]

section \<open>Reading through the iterator\<close>

definition iter_mem :: "bson_iter \<Rightarrow> byte list outcome" where
  "iter_mem it = (case it_raw it of None \<Rightarrow> Fault | Some raw \<Rightarrow> Ret raw)"

definition ITER_TYPE :: "bson_iter \<Rightarrow> byte outcome" where
  "ITER_TYPE it = cbind (iter_mem it) (\<lambda>raw. rd8 raw (unat (it_type it)))"

definition iter_rd32 :: "bson_iter \<Rightarrow> u32 \<Rightarrow> u32 outcome" where
  "iter_rd32 it off = cbind (iter_mem it) (\<lambda>raw. rd32 raw (unat off))"

definition iter_rd64 :: "bson_iter \<Rightarrow> u32 \<Rightarrow> u64 outcome" where
  "iter_rd64 it off = cbind (iter_mem it) (\<lambda>raw. rd64 raw (unat off))"

text \<open>The NUL search of the key and regex loops: \<open>for (; o < len; o++) if (!data[o])\<close>.\<close>

function scan_nul :: "byte list \<Rightarrow> u32 \<Rightarrow> u32 \<Rightarrow> u32 option outcome" where
  "scan_nul data off len =
     (if off < len then
        (case rd8 data (unat off) of
           Ret b \<Rightarrow> if b = 0 then Ret (Some off) else scan_nul data (off + 1) len
         | Abort \<Rightarrow> Abort | Fault \<Rightarrow> Fault | Timeout \<Rightarrow> Timeout)
      else Ret None)"
  by pat_completeness auto
termination
proof (relation "measure (\<lambda>(data, off, len). unat len - unat off)", goal_cases)
  case (2 data off len b)
  then have "unat off < unat len" by (simp add: word_less_nat_alt)
  moreover from this have "unat (off + 1) = unat off + 1"
    using unat_u32_less [of len] by (simp add: unat_add_small)
  ultimately show ?case by simp
qed simp

declare scan_nul.simps [simp del]

section \<open>Advancing\<close>

text \<open>
  The cases of the type switch. Each takes the memory, the document length, the offset \<open>o\<close> behind
  the key and the iterator, and yields \<open>True\<close> for \<open>break\<close> or \<open>False\<close> for \<open>goto mark_invalid\<close>, with
  the iterator as it stands then.
\<close>

type_synonym iter_fill = "byte list \<Rightarrow> u32 \<Rightarrow> u32 \<Rightarrow> bson_iter \<Rightarrow> (bool \<times> bson_iter) outcome"

definition iter_bad :: "u32 \<Rightarrow> bson_iter \<Rightarrow> (bool \<times> bson_iter) outcome" where
  "iter_bad err it = Ret (False, it\<lparr>it_err_off := err\<rparr>)"

definition iter_good :: "u32 \<Rightarrow> bson_iter \<Rightarrow> (bool \<times> bson_iter) outcome" where
  "iter_good next_off it = Ret (True, it\<lparr>it_next_off := next_off\<rparr>)"

definition iter_fill_utf8 :: iter_fill where
  "iter_fill_utf8 raw len off it =
     (if len \<le> off + 4 then iter_bad off it
      else let it = it\<lparr>it_d2 := off + 4\<rparr> in
      cbind (rd32 raw (unat (it_d1 it))) (\<lambda>l.
        if len - (off + 4) < l then iter_bad off it
        else let it = it\<lparr>it_next_off := off + 4 + l\<rparr> in
        if l = 0 \<or> len \<le> it_next_off it then iter_bad off it
        else cbind (rd8 raw (unat (it_d2 it) + unat (l - 1))) (\<lambda>last.
          if last \<noteq> 0 then iter_bad (off + 4 + l - 1) it
          else Ret (True, it))))"

definition iter_fill_binary :: iter_fill where
  "iter_fill_binary raw len off it =
     (if len - 4 \<le> off then iter_bad off it
      else let it = it\<lparr>it_d2 := off + 4, it_d3 := off + 5\<rparr> in
      cbind (rd32 raw (unat (it_d1 it))) (\<lambda>l.
        if len - off - 4 \<le> l then iter_bad off it
        else cbind (rd8 raw (unat (it_d2 it))) (\<lambda>subtype.
          if subtype = BSON_SUBTYPE_BINARY_DEPRECATED then
            if l < 4 then iter_bad off it
            else cbind (rd32 raw (unat (it_d3 it))) (\<lambda>binary_len.
              if binary_len + 4 \<noteq> l then iter_bad (it_d3 it) it
              else iter_good (off + 5 + l) it)
          else iter_good (off + 5 + l) it)))"

definition iter_fill_document :: iter_fill where
  "iter_fill_document raw len off it =
     (if len - 4 \<le> off then iter_bad off it
      else cbind (rd32 raw (unat (it_d1 it))) (\<lambda>l.
        if len < l \<or> len - off < l then iter_bad off it
        else iter_good (off + l) it))"

definition iter_fill_bool :: iter_fill where
  "iter_fill_bool raw len off it =
     (if len \<le> it_d1 it then iter_bad off it
      else cbind (rd8 raw (unat (it_d1 it))) (\<lambda>val.
        if val \<noteq> 0 \<and> val \<noteq> 1 then iter_bad off it
        else iter_good (off + 1) it))"

definition iter_fill_regex :: iter_fill where
  "iter_fill_regex raw len off it =
     cbind (scan_nul raw off len) (\<lambda>eor. case eor of
       None \<Rightarrow> iter_bad (it_next_off it) it
     | Some p \<Rightarrow>
         let it = it\<lparr>it_d2 := p + 1\<rparr> in
         cbind (scan_nul raw (p + 1) len) (\<lambda>eoo. case eoo of
           None \<Rightarrow> iter_bad (it_next_off it) it
         | Some q \<Rightarrow> iter_good (q + 1) it))"

definition iter_fill_dbpointer :: iter_fill where
  "iter_fill_dbpointer raw len off it =
     (if len - 4 \<le> off then iter_bad off it
      else let it = it\<lparr>it_d2 := off + 4\<rparr> in
      cbind (rd32 raw (unat (it_d1 it))) (\<lambda>l.
        if l = 0 \<or> len - off - 4 < l then iter_bad off it
        else cbind (rd8 raw (unat off + unat l + 3)) (\<lambda>last.
          if last \<noteq> 0 then iter_bad (off + l + 3) it
          else iter_good (off + 4 + l + 12) (it\<lparr>it_d3 := off + 4 + l\<rparr>))))"

definition iter_fill_codewscope :: iter_fill where
  "iter_fill_codewscope raw len off it =
     (if len < 19 \<or> len - 14 \<le> off then iter_bad off it
      else let it = it\<lparr>it_d2 := off + 4, it_d3 := off + 8\<rparr> in
      cbind (rd32 raw (unat (it_d1 it))) (\<lambda>l.
        if l < 14 \<or> len - off \<le> l then iter_bad off it
        else let it = it\<lparr>it_next_off := off + l\<rparr> in
        if len \<le> it_next_off it then iter_bad off it
        else cbind (rd32 raw (unat (it_d2 it))) (\<lambda>l.
          if l = 0 \<or> len - off - 4 - 4 \<le> l then iter_bad off it
          else if it_next_off it \<le> off + 4 + 4 + l + 4 then iter_bad (off + 4) it
          else let it = it\<lparr>it_d4 := off + 4 + 4 + l\<rparr> in
          cbind (rd32 raw (unat (it_d4 it))) (\<lambda>doclen.
            if off + 4 + 4 + l + doclen \<noteq> it_next_off it then iter_bad (off + 4 + 4 + l) it
            else Ret (True, it)))))"

text \<open>The switch; the first component of its result is the value of \<open>unsupported\<close>.\<close>

definition iter_fill_switch :: "byte \<Rightarrow> byte list \<Rightarrow> u32 \<Rightarrow> u32 \<Rightarrow> bson_iter \<Rightarrow>
    (bool \<times> bool \<times> bson_iter) outcome" where
  "iter_fill_switch t raw len off it =
     (let ok = (\<lambda>m. cbind m (\<lambda>(b, it). Ret (False, b, it))) in
      if t \<in> {BSON_TYPE_DATE_TIME, BSON_TYPE_DOUBLE, BSON_TYPE_INT64, BSON_TYPE_TIMESTAMP}
        then ok (iter_good (off + 8) it)
      else if t \<in> {BSON_TYPE_CODE, BSON_TYPE_SYMBOL, BSON_TYPE_UTF8}
        then ok (iter_fill_utf8 raw len off it)
      else if t = BSON_TYPE_BINARY then ok (iter_fill_binary raw len off it)
      else if t \<in> {BSON_TYPE_ARRAY, BSON_TYPE_DOCUMENT} then ok (iter_fill_document raw len off it)
      else if t = BSON_TYPE_OID then ok (iter_good (off + 12) it)
      else if t = BSON_TYPE_BOOL then ok (iter_fill_bool raw len off it)
      else if t = BSON_TYPE_REGEX then ok (iter_fill_regex raw len off it)
      else if t = BSON_TYPE_DBPOINTER then ok (iter_fill_dbpointer raw len off it)
      else if t = BSON_TYPE_CODEWSCOPE then ok (iter_fill_codewscope raw len off it)
      else if t = BSON_TYPE_INT32 then ok (iter_good (off + 4) it)
      else if t = BSON_TYPE_DECIMAL128 then ok (iter_good (off + 16) it)
      else if t \<in> {BSON_TYPE_MAXKEY, BSON_TYPE_MINKEY, BSON_TYPE_NULL, BSON_TYPE_UNDEFINED}
        then ok (iter_good off it)
      else cbind (iter_bad off it) (\<lambda>(b, it). Ret (t \<noteq> BSON_TYPE_EOD, b, it)))"

text \<open>
  The out parameters \<open>key\<close>, \<open>bson_type\<close> and \<open>unsupported\<close> keep their value where the code does not
  assign them. The regex case leaves \<open>o\<close> at its second NUL, one before \<open>next_off\<close>; the check
  behind the switch reports that offset.
\<close>

record iter_out =
  io_key :: cptr
  io_type :: byte
  io_unsupported :: bool

definition mark_invalid :: "bson_iter \<Rightarrow> bson_iter" where
  "mark_invalid it = it\<lparr>it_raw := None, it_len := 0, it_next_off := 0\<rparr>"

definition bson_iter_next_internal ::
    "bson_iter \<Rightarrow> u32 \<Rightarrow> iter_out \<Rightarrow> (bool \<times> bson_iter \<times> iter_out) outcome" where
  "bson_iter_next_internal it next_keylen out =
     (let out = out\<lparr>io_unsupported := False\<rparr> in
      case it_raw it of
        None \<Rightarrow> Ret (False, it, out\<lparr>io_key := None, io_type := BSON_TYPE_EOD\<rparr>)
      | Some data \<Rightarrow>
        let len = it_len it;
            it = it\<lparr>it_off := it_next_off it, it_type := it_next_off it, it_key := it_next_off it + 1,
                    it_d1 := 0, it_d2 := 0, it_d3 := 0, it_d4 := 0\<rparr> in
        cbind (if next_keylen = 0
               then cbind (scan_nul data (it_key it) len)
                 (\<lambda>e. Ret (case e of None \<Rightarrow> None | Some p \<Rightarrow> Some (p + 1)))
               else Ret (Some (it_key it + next_keylen + 1)))
          (\<lambda>found. case found of
             None \<Rightarrow> Ret (False, mark_invalid it, out)
           | Some off \<Rightarrow>
             let it = it\<lparr>it_d1 := off\<rparr> in
             cbind (ITER_TYPE it) (\<lambda>t.
             let out = out\<lparr>io_key := Some (drop (unat (it_key it)) data), io_type := t\<rparr> in
             cbind (iter_fill_switch t data len off it) (\<lambda>(unsupported, filled, it).
               let out = out\<lparr>io_unsupported := unsupported\<rparr> in
               if \<not> filled then Ret (False, mark_invalid it, out)
               else if len \<le> it_next_off it
               then Ret (False, mark_invalid (it\<lparr>it_err_off :=
                      (if t = BSON_TYPE_REGEX then it_next_off it - 1 else off)\<rparr>), out)
               else Ret (True, it\<lparr>it_err_off := 0\<rparr>, out)))))"

definition bson_iter_next :: "bson_iter \<Rightarrow> (bool \<times> bson_iter) outcome" where
  "bson_iter_next it =
     cbind (bson_iter_next_internal it 0 \<lparr>io_key = None, io_type = 0, io_unsupported = False\<rparr>)
       (\<lambda>(r, it, out). Ret (r, it))"

definition iter_ptr :: "bson_iter \<Rightarrow> u32 \<Rightarrow> cptr outcome" where
  "iter_ptr it off = cbind (iter_mem it) (\<lambda>raw. Ret (Some (drop (unat off) raw)))"

definition bson_iter_key :: "bson_iter \<Rightarrow> cptr outcome" where
  "bson_iter_key it = iter_ptr it (it_key it)"

definition bson_iter_type :: "bson_iter \<Rightarrow> byte outcome" where
  "bson_iter_type it = c_assert (it_raw it \<noteq> None) (c_assert (it_len it \<noteq> 0) (ITER_TYPE it))"

definition bson_iter_key_len :: "bson_iter \<Rightarrow> u32 outcome" where
  "bson_iter_key_len it = c_assert (it_key it < it_d1 it) (Ret (it_d1 it - it_key it - 1))"

definition bson_iter_offset :: "bson_iter \<Rightarrow> u32" where
  "bson_iter_offset it = it_off it"

definition bson_iter_init_from_data_at_offset ::
    "byte list \<Rightarrow> nat \<Rightarrow> u32 \<Rightarrow> u32 \<Rightarrow> (bool \<times> bson_iter) outcome" where
  "bson_iter_init_from_data_at_offset data len offset keylen =
     (if len < 5 \<or> INT32_MAX < len then Ret (False, iter_zero)
      else cbind (bson_iter_next_internal
          ((iter_start data (of_nat len))\<lparr>it_next_off := offset\<rparr>) keylen
          \<lparr>io_key = None, io_type = 0, io_unsupported = False\<rparr>)
        (\<lambda>(r, it, out). if r then Ret (True, it) else Ret (False, iter_zero)))"

section \<open>Values\<close>

definition bson_iter_binary :: "bson_iter \<Rightarrow> (byte \<times> u32 \<times> cptr) outcome" where
  "bson_iter_binary it = cbind (ITER_TYPE it) (\<lambda>t.
     if t = BSON_TYPE_BINARY then
       cbind (iter_mem it) (\<lambda>raw.
       cbind (rd8 raw (unat (it_d2 it))) (\<lambda>subtype.
       cbind (iter_rd32 it (it_d1 it)) (\<lambda>binary_len.
         if subtype = BSON_SUBTYPE_BINARY_DEPRECATED
         then Ret (subtype, binary_len - 4, Some (drop (unat (it_d3 it) + 4) raw))
         else Ret (subtype, binary_len, Some (drop (unat (it_d3 it)) raw)))))
     else Ret (BSON_SUBTYPE_BINARY, 0, None))"

definition bson_iter_bool :: "bson_iter \<Rightarrow> bool outcome" where
  "bson_iter_bool it = cbind (ITER_TYPE it) (\<lambda>t.
     if t = BSON_TYPE_BOOL then
       cbind (iter_mem it) (\<lambda>raw. cbind (rd8 raw (unat (it_d1 it))) (\<lambda>val. Ret (val \<noteq> 0)))
     else Ret False)"

definition bson_iter_double :: "bson_iter \<Rightarrow> u64 outcome" where
  "bson_iter_double it = cbind (ITER_TYPE it) (\<lambda>t.
     if t = BSON_TYPE_DOUBLE then iter_rd64 it (it_d1 it) else Ret 0)"

definition bson_iter_int32 :: "bson_iter \<Rightarrow> u32 outcome" where
  "bson_iter_int32 it = cbind (ITER_TYPE it) (\<lambda>t.
     if t = BSON_TYPE_INT32 then iter_rd32 it (it_d1 it) else Ret 0)"

definition bson_iter_int64 :: "bson_iter \<Rightarrow> u64 outcome" where
  "bson_iter_int64 it = cbind (ITER_TYPE it) (\<lambda>t.
     if t = BSON_TYPE_INT64 then iter_rd64 it (it_d1 it) else Ret 0)"

text \<open>\<open>d == 0.0\<close> holds of the two zeros.\<close>

definition double_is_zero :: "u64 \<Rightarrow> bool" where
  "double_is_zero d \<longleftrightarrow> d AND 0x7FFFFFFFFFFFFFFF = 0"

definition bson_iter_as_bool :: "bson_iter \<Rightarrow> bool outcome" where
  "bson_iter_as_bool it = cbind (ITER_TYPE it) (\<lambda>t.
     if t = BSON_TYPE_BOOL then bson_iter_bool it
     else if t = BSON_TYPE_DOUBLE then cbind (bson_iter_double it) (\<lambda>d. Ret (\<not> double_is_zero d))
     else if t = BSON_TYPE_INT64 then cbind (bson_iter_int64 it) (\<lambda>v. Ret (v \<noteq> 0))
     else if t = BSON_TYPE_INT32 then cbind (bson_iter_int32 it) (\<lambda>v. Ret (v \<noteq> 0))
     else if t = BSON_TYPE_UTF8 then Ret True
     else if t = BSON_TYPE_NULL \<or> t = BSON_TYPE_UNDEFINED then Ret False
     else Ret True)"

text \<open>
  \<open>(int64_t) d\<close> truncates towards zero; a NaN and a value outside the range are undefined
  behaviour. An IEEE pattern with exponent field \<open>e\<close> and fraction \<open>f\<close> has magnitude
  \<open>(2 ^ 52 + f) * 2 ^ (e - 1075)\<close>; below exponent field 1023 it is less than one.
\<close>

definition double_to_int64 :: "u64 \<Rightarrow> u64 outcome" where
  "double_to_int64 d =
     (let e = unat (drop_bit 52 d AND 0x7FF); f = unat (d AND 0xFFFFFFFFFFFFF);
          neg = bit d 63;
          m = (if e < 1023 then 0
               else if e \<le> 1075 then (2 ^ 52 + f) div 2 ^ (1075 - e)
               else (2 ^ 52 + f) * 2 ^ (e - 1075))
      in if 1087 < e \<or> (if neg then 2 ^ 63 < m else 2 ^ 63 \<le> m) then Fault
         else Ret (if neg then - of_nat m else of_nat m))"

definition bson_iter_as_int64 :: "bson_iter \<Rightarrow> u64 outcome" where
  "bson_iter_as_int64 it = cbind (ITER_TYPE it) (\<lambda>t.
     if t = BSON_TYPE_BOOL then cbind (bson_iter_bool it) (\<lambda>b. Ret (if b then 1 else 0))
     else if t = BSON_TYPE_DOUBLE then cbind (bson_iter_double it) double_to_int64
     else if t = BSON_TYPE_INT64 then bson_iter_int64 it
     else if t = BSON_TYPE_INT32 then cbind (bson_iter_int32 it) (\<lambda>v. Ret (scast v))
     else Ret 0)"

text \<open>The low and high halves; \<open>None\<close> when the field is of another type.\<close>

definition bson_iter_decimal128 :: "bson_iter \<Rightarrow> (u64 \<times> u64) option outcome" where
  "bson_iter_decimal128 it = cbind (ITER_TYPE it) (\<lambda>t.
     if t = BSON_TYPE_DECIMAL128 then
       cbind (iter_mem it) (\<lambda>raw.
       cbind (rd64 raw (unat (it_d1 it))) (\<lambda>low.
       cbind (rd64 raw (unat (it_d1 it) + 8)) (\<lambda>high. Ret (Some (low, high)))))
     else Ret None)"

definition bson_iter_oid :: "bson_iter \<Rightarrow> cptr outcome" where
  "bson_iter_oid it = cbind (ITER_TYPE it) (\<lambda>t.
     if t = BSON_TYPE_OID then iter_ptr it (it_d1 it) else Ret None)"

definition bson_iter_regex :: "bson_iter \<Rightarrow> (cptr \<times> cptr) outcome" where
  "bson_iter_regex it = cbind (ITER_TYPE it) (\<lambda>t.
     if t = BSON_TYPE_REGEX
     then cbind (iter_ptr it (it_d1 it)) (\<lambda>r. cbind (iter_ptr it (it_d2 it)) (\<lambda>opts. Ret (r, opts)))
     else Ret (None, None))"

text \<open>\<open>BSON_MAX (0, val - 1)\<close> on a signed \<open>val\<close>.\<close>

definition bson_iter_utf8_len_unsafe :: "bson_iter \<Rightarrow> u32 outcome" where
  "bson_iter_utf8_len_unsafe it =
     cbind (iter_rd32 it (it_d1 it)) (\<lambda>val. Ret (if 1 \<le> sint val then val - 1 else 0))"

definition iter_string :: "byte \<Rightarrow> bson_iter \<Rightarrow> (cptr \<times> u32) outcome" where
  "iter_string ty it = cbind (ITER_TYPE it) (\<lambda>t.
     if t = ty then
       cbind (bson_iter_utf8_len_unsafe it) (\<lambda>n. cbind (iter_ptr it (it_d2 it)) (\<lambda>s. Ret (s, n)))
     else Ret (None, 0))"

definition bson_iter_utf8 :: "bson_iter \<Rightarrow> (cptr \<times> u32) outcome" where
  "bson_iter_utf8 it = iter_string BSON_TYPE_UTF8 it"

definition bson_iter_code :: "bson_iter \<Rightarrow> (cptr \<times> u32) outcome" where
  "bson_iter_code it = iter_string BSON_TYPE_CODE it"

definition bson_iter_symbol :: "bson_iter \<Rightarrow> (cptr \<times> u32) outcome" where
  "bson_iter_symbol it = iter_string BSON_TYPE_SYMBOL it"

text \<open>\<open>bson_malloc0 (local_length + 1)\<close> adds in 32 bits.\<close>

definition bson_iter_dup_utf8 :: "bson_iter \<Rightarrow> (cptr \<times> u32) outcome" where
  "bson_iter_dup_utf8 it = cbind (bson_iter_utf8 it) (\<lambda>(str, n). case str of
       None \<Rightarrow> Ret (None, n)
     | Some s \<Rightarrow> cbind (rdn s 0 (unat n)) (\<lambda>bytes.
         cbind (bput (unat (n + 1)) [] 0 (bytes @ [0])) (\<lambda>ret. Ret (Some ret, n))))"

definition bson_iter_codewscope :: "bson_iter \<Rightarrow> (cptr \<times> u32 \<times> u32 \<times> cptr) outcome" where
  "bson_iter_codewscope it = cbind (ITER_TYPE it) (\<lambda>t.
     if t = BSON_TYPE_CODEWSCOPE then
       cbind (iter_rd32 it (it_d2 it)) (\<lambda>len. c_assert (0 < len)
         (cbind (iter_rd32 it (it_d4 it)) (\<lambda>scope_len.
          cbind (iter_ptr it (it_d4 it)) (\<lambda>scope.
          cbind (iter_ptr it (it_d3 it)) (\<lambda>code. Ret (code, len - 1, scope_len, scope))))))
     else Ret (None, 0, 0, None))"

definition bson_iter_dbpointer :: "bson_iter \<Rightarrow> (u32 \<times> cptr \<times> cptr) outcome" where
  "bson_iter_dbpointer it = cbind (ITER_TYPE it) (\<lambda>t.
     if t = BSON_TYPE_DBPOINTER then
       cbind (iter_rd32 it (it_d1 it)) (\<lambda>n.
       cbind (iter_ptr it (it_d2 it)) (\<lambda>collection.
       cbind (iter_ptr it (it_d3 it)) (\<lambda>oid.
         Ret (if 0 < n then n - 1 else n, collection, oid))))
     else Ret (0, None, None))"

definition bson_iter_date_time :: "bson_iter \<Rightarrow> u64 outcome" where
  "bson_iter_date_time it = cbind (ITER_TYPE it) (\<lambda>t.
     if t = BSON_TYPE_DATE_TIME then iter_rd64 it (it_d1 it) else Ret 0)"

text \<open>\<open>bson_iter_int64_unsafe (iter) / 1000UL\<close> divides as \<open>unsigned long\<close>.\<close>

definition bson_iter_time_t :: "bson_iter \<Rightarrow> u64 outcome" where
  "bson_iter_time_t it = cbind (ITER_TYPE it) (\<lambda>t.
     if t = BSON_TYPE_DATE_TIME
     then cbind (iter_rd64 it (it_d1 it)) (\<lambda>v. Ret (v div 1000)) else Ret 0)"

definition bson_iter_timestamp :: "bson_iter \<Rightarrow> (u32 \<times> u32) outcome" where
  "bson_iter_timestamp it = cbind (ITER_TYPE it) (\<lambda>t.
     if t = BSON_TYPE_TIMESTAMP then
       cbind (iter_rd64 it (it_d1 it)) (\<lambda>encoded.
         Ret (ucast (drop_bit 32 encoded AND 0xFFFFFFFF), ucast (encoded AND 0xFFFFFFFF)))
     else Ret (0, 0))"

definition iter_subdocument :: "byte \<Rightarrow> bson_iter \<Rightarrow> (u32 \<times> cptr) outcome" where
  "iter_subdocument ty it = cbind (ITER_TYPE it) (\<lambda>t.
     if t = ty then
       cbind (iter_rd32 it (it_d1 it)) (\<lambda>n. cbind (iter_ptr it (it_d1 it)) (\<lambda>p. Ret (n, p)))
     else Ret (0, None))"

definition bson_iter_document :: "bson_iter \<Rightarrow> (u32 \<times> cptr) outcome" where
  "bson_iter_document it = iter_subdocument BSON_TYPE_DOCUMENT it"

definition bson_iter_array :: "bson_iter \<Rightarrow> (u32 \<times> cptr) outcome" where
  "bson_iter_array it = iter_subdocument BSON_TYPE_ARRAY it"

text \<open>\<open>tv_sec\<close> and \<open>tv_usec\<close>: signed division truncates towards zero.\<close>

definition bson_iter_timeval :: "bson_iter \<Rightarrow> (int \<times> int) outcome" where
  "bson_iter_timeval it = cbind (ITER_TYPE it) (\<lambda>t.
     if t = BSON_TYPE_DATE_TIME
     then cbind (iter_rd64 it (it_d1 it)) (\<lambda>v.
       let value = sint v; q = sgn value * (\<bar>value\<bar> div 1000)
       in Ret (q, (value - q * 1000) * 1000))
     else Ret (0, 0))"

text \<open>\<open>bson_value_t\<close>: the type tag and the union, with the pointers of the accessors.\<close>

datatype bson_value =
    V_double u64
  | V_utf8 cptr u32
  | V_document u32 cptr
  | V_array u32 cptr
  | V_binary byte u32 cptr
  | V_undefined
  | V_oid oid
  | V_bool bool
  | V_datetime u64
  | V_null
  | V_regex cptr cptr
  | V_dbpointer u32 cptr oid
  | V_code cptr u32
  | V_symbol cptr u32
  | V_codewscope cptr u32 u32 cptr
  | V_int32 u32
  | V_timestamp u32 u32
  | V_int64 u64
  | V_decimal128 u64 u64
  | V_maxkey
  | V_minkey

definition cptr_oid :: "cptr \<Rightarrow> oid outcome" where
  "cptr_oid p = (case p of None \<Rightarrow> Fault | Some m \<Rightarrow> rdn m 0 12)"

definition bson_iter_value :: "bson_iter \<Rightarrow> bson_value option outcome" where
  "bson_iter_value it = cbind (ITER_TYPE it) (\<lambda>t.
     if t = BSON_TYPE_DOUBLE then cbind (bson_iter_double it) (\<lambda>d. Ret (Some (V_double d)))
     else if t = BSON_TYPE_UTF8 then cbind (bson_iter_utf8 it) (\<lambda>(s, n). Ret (Some (V_utf8 s n)))
     else if t = BSON_TYPE_DOCUMENT then
       cbind (bson_iter_document it) (\<lambda>(n, p). Ret (Some (V_document n p)))
     else if t = BSON_TYPE_ARRAY then
       cbind (bson_iter_array it) (\<lambda>(n, p). Ret (Some (V_array n p)))
     else if t = BSON_TYPE_BINARY then
       cbind (bson_iter_binary it) (\<lambda>(st, n, p). Ret (Some (V_binary st n p)))
     else if t = BSON_TYPE_OID then
       cbind (bson_iter_oid it) (\<lambda>p. cbind (cptr_oid p) (\<lambda>oid. Ret (Some (V_oid oid))))
     else if t = BSON_TYPE_BOOL then cbind (bson_iter_bool it) (\<lambda>b. Ret (Some (V_bool b)))
     else if t = BSON_TYPE_DATE_TIME then
       cbind (bson_iter_date_time it) (\<lambda>v. Ret (Some (V_datetime v)))
     else if t = BSON_TYPE_REGEX then
       cbind (bson_iter_regex it) (\<lambda>(r, opts). Ret (Some (V_regex r opts)))
     else if t = BSON_TYPE_DBPOINTER then
       cbind (bson_iter_dbpointer it) (\<lambda>(n, c, p).
       cbind (cptr_oid p) (\<lambda>oid. Ret (Some (V_dbpointer n c oid))))
     else if t = BSON_TYPE_CODE then cbind (bson_iter_code it) (\<lambda>(s, n). Ret (Some (V_code s n)))
     else if t = BSON_TYPE_SYMBOL then
       cbind (bson_iter_symbol it) (\<lambda>(s, n). Ret (Some (V_symbol s n)))
     else if t = BSON_TYPE_CODEWSCOPE then
       cbind (bson_iter_codewscope it) (\<lambda>(c, n, sn, sp). Ret (Some (V_codewscope c n sn sp)))
     else if t = BSON_TYPE_INT32 then cbind (bson_iter_int32 it) (\<lambda>v. Ret (Some (V_int32 v)))
     else if t = BSON_TYPE_TIMESTAMP then
       cbind (bson_iter_timestamp it) (\<lambda>(ts, inc). Ret (Some (V_timestamp ts inc)))
     else if t = BSON_TYPE_INT64 then cbind (bson_iter_int64 it) (\<lambda>v. Ret (Some (V_int64 v)))
     else if t = BSON_TYPE_DECIMAL128 then
       cbind (bson_iter_decimal128 it) (\<lambda>d. Ret (case d of
           None \<Rightarrow> None | Some (low, high) \<Rightarrow> Some (V_decimal128 low high)))
     else if t = BSON_TYPE_NULL then Ret (Some V_null)
     else if t = BSON_TYPE_UNDEFINED then Ret (Some V_undefined)
     else if t = BSON_TYPE_MAXKEY then Ret (Some V_maxkey)
     else if t = BSON_TYPE_MINKEY then Ret (Some V_minkey)
     else Ret None)"

section \<open>Overwriting in place\<close>

definition iter_overwrite :: "byte \<Rightarrow> bson_iter \<Rightarrow> byte list \<Rightarrow> bson_iter outcome" where
  "iter_overwrite ty it bs = cbind (ITER_TYPE it) (\<lambda>t.
     if t = ty then
       cbind (iter_mem it) (\<lambda>raw. cbind (wrn raw (unat (it_d1 it)) bs) (\<lambda>raw.
         Ret (it\<lparr>it_raw := Some raw\<rparr>)))
     else Ret it)"

definition bson_iter_overwrite_bool :: "bson_iter \<Rightarrow> bool \<Rightarrow> bson_iter outcome" where
  "bson_iter_overwrite_bool it value = iter_overwrite BSON_TYPE_BOOL it [if value then 1 else 0]"

definition bson_iter_overwrite_oid :: "bson_iter \<Rightarrow> oid \<Rightarrow> bson_iter outcome" where
  "bson_iter_overwrite_oid it value = iter_overwrite BSON_TYPE_OID it (take 12 value)"

definition bson_iter_overwrite_timestamp :: "bson_iter \<Rightarrow> u32 \<Rightarrow> u32 \<Rightarrow> bson_iter outcome" where
  "bson_iter_overwrite_timestamp it timestamp increment =
     iter_overwrite BSON_TYPE_TIMESTAMP it (le64 (push_bit 32 (ucast timestamp) OR ucast increment))"

definition bson_iter_overwrite_date_time :: "bson_iter \<Rightarrow> u64 \<Rightarrow> bson_iter outcome" where
  "bson_iter_overwrite_date_time it value = iter_overwrite BSON_TYPE_DATE_TIME it (le64 value)"

definition bson_iter_overwrite_int32 :: "bson_iter \<Rightarrow> u32 \<Rightarrow> bson_iter outcome" where
  "bson_iter_overwrite_int32 it value = iter_overwrite BSON_TYPE_INT32 it (le32 value)"

definition bson_iter_overwrite_int64 :: "bson_iter \<Rightarrow> u64 \<Rightarrow> bson_iter outcome" where
  "bson_iter_overwrite_int64 it value = iter_overwrite BSON_TYPE_INT64 it (le64 value)"

definition bson_iter_overwrite_double :: "bson_iter \<Rightarrow> u64 \<Rightarrow> bson_iter outcome" where
  "bson_iter_overwrite_double it value = iter_overwrite BSON_TYPE_DOUBLE it (le64 value)"

definition bson_iter_overwrite_decimal128 :: "bson_iter \<Rightarrow> u64 \<Rightarrow> u64 \<Rightarrow> bson_iter outcome" where
  "bson_iter_overwrite_decimal128 it low high =
     iter_overwrite BSON_TYPE_DECIMAL128 it (le64 low @ le64 high)"

section \<open>Searching\<close>

text \<open>\<open>None\<close> stands for the \<open>false\<close> return, which leaves the child untouched.\<close>

definition bson_iter_recurse :: "bson_iter \<Rightarrow> bson_iter option outcome" where
  "bson_iter_recurse it =
     cbind (ITER_TYPE it) (\<lambda>t.
       cbind (if t = BSON_TYPE_DOCUMENT then cbind (bson_iter_document it) (\<lambda>r. Ret (Some r))
              else if t = BSON_TYPE_ARRAY then cbind (bson_iter_array it) (\<lambda>r. Ret (Some r))
              else Ret None)
         (\<lambda>r. case r of
            None \<Rightarrow> Ret None
          | Some (len, data) \<Rightarrow> Ret (Some \<lparr>it_raw = data, it_len = len, it_off = 0, it_type = 0,
              it_key = 0, it_d1 = 0, it_d2 = 0, it_d3 = 0, it_d4 = 0, it_next_off = 4,
              it_err_off = 0\<rparr>)))"

text \<open>\<open>strncmp (s, t, n) == 0\<close>.\<close>

fun c_strncmp_eq :: "byte list \<Rightarrow> byte list \<Rightarrow> nat \<Rightarrow> bool outcome" where
  "c_strncmp_eq s t 0 = Ret True"
| "c_strncmp_eq s t (Suc n) =
     cbind (rd8 s 0) (\<lambda>a. cbind (rd8 t 0) (\<lambda>b.
       if a \<noteq> b then Ret False else if a = 0 then Ret True
       else c_strncmp_eq (drop 1 s) (drop 1 t) n))"

definition iter_key_mem :: "bson_iter \<Rightarrow> byte list outcome" where
  "iter_key_mem it = cbind (bson_iter_key it) (\<lambda>p. case p of None \<Rightarrow> Fault | Some m \<Rightarrow> Ret m)"

fun iter_find_loop :: "nat \<Rightarrow> bson_iter \<Rightarrow> (bson_iter \<Rightarrow> bool outcome) \<Rightarrow>
    (bool \<times> bson_iter) outcome" where
  "iter_find_loop 0 it found = Timeout"
| "iter_find_loop (Suc fuel) it found =
     cbind (bson_iter_next it) (\<lambda>(r, it).
       if \<not> r then Ret (False, it)
       else cbind (found it) (\<lambda>hit. if hit then Ret (True, it) else iter_find_loop fuel it found))"

text \<open>Every step of a walk moves on by at least two bytes, so the document length is fuel enough.\<close>

definition iter_fuel :: "bson_iter \<Rightarrow> nat" where
  "iter_fuel it = Suc (unat (it_len it))"

definition bson_iter_find_w_len :: "bson_iter \<Rightarrow> byte list \<Rightarrow> int \<Rightarrow> (bool \<times> bson_iter) outcome" where
  "bson_iter_find_w_len it key keylen =
     cbind (if keylen < 0 then c_strlen key else Ret (nat keylen)) (\<lambda>keylen.
       iter_find_loop (iter_fuel it) it (\<lambda>it.
         cbind (iter_key_mem it) (\<lambda>ikey.
         cbind (c_strncmp_eq key ikey keylen) (\<lambda>eq.
           if eq then cbind (rd8 ikey keylen) (\<lambda>b. Ret (b = 0)) else Ret False))))"

definition bson_iter_find :: "bson_iter \<Rightarrow> byte list \<Rightarrow> (bool \<times> bson_iter) outcome" where
  "bson_iter_find it key = bson_iter_find_w_len it key (- 1)"

text \<open>\<open>strcasecmp (s, t) == 0\<close> in the C locale.\<close>

definition c_tolower :: "byte \<Rightarrow> byte" where
  "c_tolower c = (if 0x41 \<le> c \<and> c \<le> 0x5A then c + 0x20 else c)"

fun c_strcasecmp_eq :: "byte list \<Rightarrow> byte list \<Rightarrow> bool outcome" where
  "c_strcasecmp_eq (a # s) (b # t) =
     (if c_tolower a \<noteq> c_tolower b then Ret False else if a = 0 then Ret True
      else c_strcasecmp_eq s t)"
| "c_strcasecmp_eq _ _ = Fault"

definition bson_iter_find_case :: "bson_iter \<Rightarrow> byte list \<Rightarrow> (bool \<times> bson_iter) outcome" where
  "bson_iter_find_case it key =
     iter_find_loop (iter_fuel it) it (\<lambda>it. cbind (iter_key_mem it) (c_strcasecmp_eq key))"

definition iter_init_and :: "bson_view \<Rightarrow> (bson_iter \<Rightarrow> (bool \<times> bson_iter) outcome) \<Rightarrow>
    (bool \<times> bson_iter) outcome" where
  "iter_init_and bson k = (case bson_iter_init bson of (r, it) \<Rightarrow> if r then k it else Ret (False, it))"

definition bson_iter_init_find :: "bson_view \<Rightarrow> byte list \<Rightarrow> (bool \<times> bson_iter) outcome" where
  "bson_iter_init_find bson key = iter_init_and bson (\<lambda>it. bson_iter_find it key)"

definition bson_iter_init_find_w_len ::
    "bson_view \<Rightarrow> byte list \<Rightarrow> int \<Rightarrow> (bool \<times> bson_iter) outcome" where
  "bson_iter_init_find_w_len bson key keylen =
     iter_init_and bson (\<lambda>it. bson_iter_find_w_len it key keylen)"

definition bson_iter_init_find_case :: "bson_view \<Rightarrow> byte list \<Rightarrow> (bool \<times> bson_iter) outcome" where
  "bson_iter_init_find_case bson key = iter_init_and bson (\<lambda>it. bson_iter_find_case it key)"

text \<open>
  \<open>strchr (dotkey, '.')\<close>: the length of the segment before the dot and the memory behind it. The
  result is the iterator stored in \<open>*descendant\<close>, \<open>None\<close> when \<open>false\<close> is returned.
\<close>

definition dotkey_split :: "byte list \<Rightarrow> (nat \<times> cptr) outcome" where
  "dotkey_split dotkey =
     (let n = length (takeWhile (\<lambda>c. c \<noteq> 0 \<and> c \<noteq> 0x2E) dotkey)
      in cbind (rd8 dotkey n) (\<lambda>c. Ret (n, if c = 0x2E then Some (drop (n + 1) dotkey) else None)))"

function bson_iter_find_descendant :: "bson_iter \<Rightarrow> byte list \<Rightarrow> bson_iter option outcome" where
  "bson_iter_find_descendant it dotkey =
     (case dotkey_split dotkey of
        Ret (sublen, dot) \<Rightarrow>
          cbind (bson_iter_find_w_len it dotkey (int sublen)) (\<lambda>(r, it).
            if \<not> r then Ret None
            else case dot of
              None \<Rightarrow> Ret (Some it)
            | Some rest \<Rightarrow>
                cbind (bson_iter_type it) (\<lambda>t.
                  if t = BSON_TYPE_DOCUMENT \<or> t = BSON_TYPE_ARRAY then
                    cbind (bson_iter_recurse it) (\<lambda>child. case child of
                      None \<Rightarrow> Ret None
                    | Some tmp \<Rightarrow> bson_iter_find_descendant tmp rest)
                  else Ret None))
      | Abort \<Rightarrow> Abort | Fault \<Rightarrow> Fault | Timeout \<Rightarrow> Timeout)"
  by pat_completeness auto
termination
  by (relation "measure (\<lambda>(it, dotkey). length dotkey)")
    (auto simp: dotkey_split_def rd8_def Let_def split: if_splits)

declare bson_iter_find_descendant.simps [simp del]

section \<open>Visiting\<close>

text \<open>
  \<open>bson_visitor_t\<close>: callbacks that may be \<open>NULL\<close>, over a user state \<open>'s\<close> (the \<open>data\<close> pointer). A
  callback that yields \<open>True\<close> stops the visit.
\<close>

record 's bson_visitor =
  visit_before :: "(bson_iter \<Rightarrow> cptr \<Rightarrow> 's \<Rightarrow> (bool \<times> 's) outcome) option"
  visit_after :: "(bson_iter \<Rightarrow> cptr \<Rightarrow> 's \<Rightarrow> (bool \<times> 's) outcome) option"
  visit_corrupt :: "(bson_iter \<Rightarrow> 's \<Rightarrow> 's outcome) option"
  visit_double :: "(bson_iter \<Rightarrow> cptr \<Rightarrow> u64 \<Rightarrow> 's \<Rightarrow> (bool \<times> 's) outcome) option"
  visit_utf8 :: "(bson_iter \<Rightarrow> cptr \<Rightarrow> u32 \<Rightarrow> cptr \<Rightarrow> 's \<Rightarrow> (bool \<times> 's) outcome) option"
  visit_document :: "(bson_iter \<Rightarrow> cptr \<Rightarrow> bson_view \<Rightarrow> 's \<Rightarrow> (bool \<times> 's) outcome) option"
  visit_array :: "(bson_iter \<Rightarrow> cptr \<Rightarrow> bson_view \<Rightarrow> 's \<Rightarrow> (bool \<times> 's) outcome) option"
  visit_binary :: "(bson_iter \<Rightarrow> cptr \<Rightarrow> byte \<Rightarrow> u32 \<Rightarrow> cptr \<Rightarrow> 's \<Rightarrow> (bool \<times> 's) outcome) option"
  visit_undefined :: "(bson_iter \<Rightarrow> cptr \<Rightarrow> 's \<Rightarrow> (bool \<times> 's) outcome) option"
  visit_oid :: "(bson_iter \<Rightarrow> cptr \<Rightarrow> cptr \<Rightarrow> 's \<Rightarrow> (bool \<times> 's) outcome) option"
  visit_bool :: "(bson_iter \<Rightarrow> cptr \<Rightarrow> bool \<Rightarrow> 's \<Rightarrow> (bool \<times> 's) outcome) option"
  visit_date_time :: "(bson_iter \<Rightarrow> cptr \<Rightarrow> u64 \<Rightarrow> 's \<Rightarrow> (bool \<times> 's) outcome) option"
  visit_null :: "(bson_iter \<Rightarrow> cptr \<Rightarrow> 's \<Rightarrow> (bool \<times> 's) outcome) option"
  visit_regex :: "(bson_iter \<Rightarrow> cptr \<Rightarrow> cptr \<Rightarrow> cptr \<Rightarrow> 's \<Rightarrow> (bool \<times> 's) outcome) option"
  visit_dbpointer :: "(bson_iter \<Rightarrow> cptr \<Rightarrow> u32 \<Rightarrow> cptr \<Rightarrow> cptr \<Rightarrow> 's \<Rightarrow> (bool \<times> 's) outcome) option"
  visit_code :: "(bson_iter \<Rightarrow> cptr \<Rightarrow> u32 \<Rightarrow> cptr \<Rightarrow> 's \<Rightarrow> (bool \<times> 's) outcome) option"
  visit_symbol :: "(bson_iter \<Rightarrow> cptr \<Rightarrow> u32 \<Rightarrow> cptr \<Rightarrow> 's \<Rightarrow> (bool \<times> 's) outcome) option"
  visit_codewscope :: "(bson_iter \<Rightarrow> cptr \<Rightarrow> u32 \<Rightarrow> cptr \<Rightarrow> bson_view \<Rightarrow> 's \<Rightarrow> (bool \<times> 's) outcome) option"
  visit_int32 :: "(bson_iter \<Rightarrow> cptr \<Rightarrow> u32 \<Rightarrow> 's \<Rightarrow> (bool \<times> 's) outcome) option"
  visit_timestamp :: "(bson_iter \<Rightarrow> cptr \<Rightarrow> u32 \<Rightarrow> u32 \<Rightarrow> 's \<Rightarrow> (bool \<times> 's) outcome) option"
  visit_int64 :: "(bson_iter \<Rightarrow> cptr \<Rightarrow> u64 \<Rightarrow> 's \<Rightarrow> (bool \<times> 's) outcome) option"
  visit_decimal128 :: "(bson_iter \<Rightarrow> cptr \<Rightarrow> u64 \<Rightarrow> u64 \<Rightarrow> 's \<Rightarrow> (bool \<times> 's) outcome) option"
  visit_maxkey :: "(bson_iter \<Rightarrow> cptr \<Rightarrow> 's \<Rightarrow> (bool \<times> 's) outcome) option"
  visit_minkey :: "(bson_iter \<Rightarrow> cptr \<Rightarrow> 's \<Rightarrow> (bool \<times> 's) outcome) option"
  visit_unsupported_type :: "(bson_iter \<Rightarrow> cptr \<Rightarrow> byte \<Rightarrow> 's \<Rightarrow> 's outcome) option"

type_synonym 's visit_out = "(bool \<times> bson_iter \<times> 's) outcome"

text \<open>\<open>visitor->visit_f && visitor->visit_f (...)\<close>.\<close>

definition VISIT :: "('f option) \<Rightarrow> ('f \<Rightarrow> 's \<Rightarrow> (bool \<times> 's) outcome) \<Rightarrow> bson_iter \<Rightarrow> 's \<Rightarrow> 's visit_out" where
  "VISIT f call it data = (case f of
       None \<Rightarrow> Ret (False, it, data)
     | Some g \<Rightarrow> cbind (call g data) (\<lambda>(stop, data). Ret (stop, it, data)))"

definition cptr_mem :: "cptr \<Rightarrow> byte list outcome" where
  "cptr_mem p = (case p of None \<Rightarrow> Fault | Some m \<Rightarrow> Ret m)"

definition visit_checked :: "cptr \<Rightarrow> nat \<Rightarrow> bson_iter \<Rightarrow> 's \<Rightarrow> 's visit_out \<Rightarrow> 's visit_out" where
  "visit_checked str n it data k =
     cbind (cptr_mem str) (\<lambda>m. cbind (bson_utf8_validate m n True) (\<lambda>ok.
       if \<not> ok then Ret (True, it\<lparr>it_err_off := it_off it\<rparr>, data) else k))"

definition visit_static :: "cptr \<Rightarrow> u32 \<Rightarrow> bson_iter \<Rightarrow> 's \<Rightarrow> (bson_view \<Rightarrow> 's visit_out) \<Rightarrow> 's visit_out" where
  "visit_static docbuf doclen it data k =
     c_assert (docbuf \<noteq> None)
       (cbind (cptr_mem docbuf) (\<lambda>m. cbind (bson_init_static m (unat doclen)) (\<lambda>b. case b of
          None \<Rightarrow> Ret (False, it, data) | Some b \<Rightarrow> k b)))"

text \<open>The switch of \<open>bson_iter_visit_all\<close>; \<open>True\<close> is \<open>return true\<close>.\<close>

definition visit_switch :: "'s bson_visitor \<Rightarrow> bson_iter \<Rightarrow> cptr \<Rightarrow> byte \<Rightarrow> 's \<Rightarrow> 's visit_out" where
  "visit_switch visitor it key t data =
     (if t = BSON_TYPE_DOUBLE then cbind (bson_iter_double it) (\<lambda>d.
        VISIT (visit_double visitor) (\<lambda>f. f it key d) it data)
      else if t = BSON_TYPE_UTF8 then cbind (bson_iter_utf8 it) (\<lambda>(utf8, n).
        visit_checked utf8 (unat n) it data
          (VISIT (visit_utf8 visitor) (\<lambda>f. f it key n utf8) it data))
      else if t = BSON_TYPE_DOCUMENT then cbind (bson_iter_document it) (\<lambda>(n, docbuf).
        visit_static docbuf n it data (\<lambda>b. VISIT (visit_document visitor) (\<lambda>f. f it key b) it data))
      else if t = BSON_TYPE_ARRAY then cbind (bson_iter_array it) (\<lambda>(n, docbuf).
        visit_static docbuf n it data (\<lambda>b. VISIT (visit_array visitor) (\<lambda>f. f it key b) it data))
      else if t = BSON_TYPE_BINARY then cbind (bson_iter_binary it) (\<lambda>(subtype, n, binary).
        VISIT (visit_binary visitor) (\<lambda>f. f it key subtype n binary) it data)
      else if t = BSON_TYPE_UNDEFINED then VISIT (visit_undefined visitor) (\<lambda>f. f it key) it data
      else if t = BSON_TYPE_OID then cbind (bson_iter_oid it) (\<lambda>oid.
        VISIT (visit_oid visitor) (\<lambda>f. f it key oid) it data)
      else if t = BSON_TYPE_BOOL then cbind (bson_iter_bool it) (\<lambda>b.
        VISIT (visit_bool visitor) (\<lambda>f. f it key b) it data)
      else if t = BSON_TYPE_DATE_TIME then cbind (bson_iter_date_time it) (\<lambda>v.
        VISIT (visit_date_time visitor) (\<lambda>f. f it key v) it data)
      else if t = BSON_TYPE_NULL then VISIT (visit_null visitor) (\<lambda>f. f it key) it data
      else if t = BSON_TYPE_REGEX then cbind (bson_iter_regex it) (\<lambda>(regex, options).
        cbind (cptr_mem regex) (\<lambda>m. cbind (c_strlen m) (\<lambda>n.
        visit_checked regex n it data
          (VISIT (visit_regex visitor) (\<lambda>f. f it key regex options) it data))))
      else if t = BSON_TYPE_DBPOINTER then cbind (bson_iter_dbpointer it) (\<lambda>(n, collection, oid).
        visit_checked collection (unat n) it data
          (VISIT (visit_dbpointer visitor) (\<lambda>f. f it key n collection oid) it data))
      else if t = BSON_TYPE_CODE then cbind (bson_iter_code it) (\<lambda>(code, n).
        visit_checked code (unat n) it data
          (VISIT (visit_code visitor) (\<lambda>f. f it key n code) it data))
      else if t = BSON_TYPE_SYMBOL then cbind (bson_iter_symbol it) (\<lambda>(symbol, n).
        visit_checked symbol (unat n) it data
          (VISIT (visit_symbol visitor) (\<lambda>f. f it key n symbol) it data))
      else if t = BSON_TYPE_CODEWSCOPE then
        cbind (bson_iter_codewscope it) (\<lambda>(code, n, doclen, docbuf).
        visit_checked code (unat n) it data
          (visit_static docbuf doclen it data (\<lambda>b.
            VISIT (visit_codewscope visitor) (\<lambda>f. f it key n code b) it data)))
      else if t = BSON_TYPE_INT32 then cbind (bson_iter_int32 it) (\<lambda>v.
        VISIT (visit_int32 visitor) (\<lambda>f. f it key v) it data)
      else if t = BSON_TYPE_TIMESTAMP then cbind (bson_iter_timestamp it) (\<lambda>(ts, inc).
        VISIT (visit_timestamp visitor) (\<lambda>f. f it key ts inc) it data)
      else if t = BSON_TYPE_INT64 then cbind (bson_iter_int64 it) (\<lambda>v.
        VISIT (visit_int64 visitor) (\<lambda>f. f it key v) it data)
      else if t = BSON_TYPE_DECIMAL128 then cbind (bson_iter_decimal128 it) (\<lambda>d. case d of
          None \<Rightarrow> Fault
        | Some (low, high) \<Rightarrow> VISIT (visit_decimal128 visitor) (\<lambda>f. f it key low high) it data)
      else if t = BSON_TYPE_MAXKEY then cbind (bson_iter_key it) (\<lambda>key.
        VISIT (visit_maxkey visitor) (\<lambda>f. f it key) it data)
      else if t = BSON_TYPE_MINKEY then cbind (bson_iter_key it) (\<lambda>key.
        VISIT (visit_minkey visitor) (\<lambda>f. f it key) it data)
      else Ret (False, it, data))"

text \<open>What follows the loop: \<open>err_off\<close> reports an unsupported type or corruption.\<close>

definition visit_finish :: "'s bson_visitor \<Rightarrow> bson_iter \<Rightarrow> iter_out \<Rightarrow> 's \<Rightarrow> 's visit_out" where
  "visit_finish visitor it out data =
     (if it_err_off it \<noteq> 0 then
        cbind (if io_unsupported out \<and> visit_unsupported_type visitor \<noteq> None
               then cbind (cptr_mem (io_key out)) (\<lambda>m. cbind (c_strlen m) (\<lambda>n.
                 bson_utf8_validate m n False))
               else Ret False)
          (\<lambda>unsupported. case (unsupported, visit_unsupported_type visitor) of
             (True, Some f) \<Rightarrow> cbind (f it (io_key out) (io_type out) data) (\<lambda>data. Ret (False, it, data))
           | _ \<Rightarrow> (case visit_corrupt visitor of
                None \<Rightarrow> Ret (False, it, data)
              | Some f \<Rightarrow> cbind (f it data) (\<lambda>data. Ret (False, it, data))))
      else Ret (False, it, data))"

definition visit_key_ok :: "cptr \<Rightarrow> bool outcome" where
  "visit_key_ok key = cbind (cptr_mem key) (\<lambda>m. cbind (rd8 m 0) (\<lambda>c.
     if c \<noteq> 0 then cbind (c_strlen m) (\<lambda>n. bson_utf8_validate m n False) else Ret True))"

fun visit_loop :: "nat \<Rightarrow> 's bson_visitor \<Rightarrow> bson_iter \<Rightarrow> iter_out \<Rightarrow> 's \<Rightarrow> 's visit_out" where
  "visit_loop 0 visitor it out data = Timeout"
| "visit_loop (Suc fuel) visitor it out data =
     cbind (bson_iter_next_internal it 0 out) (\<lambda>(r, it, out).
       if \<not> r then visit_finish visitor it out data
       else cbind (visit_key_ok (io_key out)) (\<lambda>ok.
         if \<not> ok then visit_finish visitor (it\<lparr>it_err_off := it_off it\<rparr>) out data
         else cbind (VISIT (visit_before visitor) (\<lambda>f. f it (io_key out)) it data) (\<lambda>(stop, it, data).
           if stop then Ret (True, it, data)
           else cbind (visit_switch visitor it (io_key out) (io_type out) data) (\<lambda>(stop, it, data).
             if stop then Ret (True, it, data)
             else cbind (bson_iter_key it) (\<lambda>key.
               cbind (VISIT (visit_after visitor) (\<lambda>f. f it key) it data) (\<lambda>(stop, it, data).
                 if stop then Ret (True, it, data) else visit_loop fuel visitor it out data))))))"

text \<open>The uninitialised locals \<open>key\<close>, \<open>bson_type\<close> and \<open>unsupported\<close> start as an argument.\<close>

definition bson_iter_visit_all :: "bson_iter \<Rightarrow> 's bson_visitor \<Rightarrow> iter_out \<Rightarrow> 's \<Rightarrow> 's visit_out" where
  "bson_iter_visit_all it visitor locals data = visit_loop (iter_fuel it) visitor it locals data"

end
