(* ===== verification/Bson_Builder.thy ===== *)
theory Bson_Builder
  imports Bson_Iter Bson_String
begin

text \<open>
  Building documents: the storage of a \<open>bson_t\<close> and the append functions of \<open>bson.c\<close>.

  A \<open>bson_t\<close> holds its bytes inside the structure (\<open>BSON_FLAG_INLINE\<close>, at most 120 bytes) or refers
  through \<open>buf\<close> and \<open>buflen\<close> to a buffer variable elsewhere: its own \<open>alloc\<close>/\<open>alloclen\<close> fields, the
  caller's, or, for a document under construction inside another, the variable of the outermost
  document. These variables are the cells of the store \<open>bheap\<close>: a cell is \<open>None\<close> for \<open>NULL\<close> or the
  initialised bytes of the buffer, with its size. A \<open>const bson_t *\<close> argument is a \<open>bson_view\<close>, a
  \<open>const char *\<close> one the readable memory (\<open>cptr\<close> where it may be \<open>NULL\<close>); arguments do not point
  into the buffer that is appended to.
\<close>

section \<open>Storage\<close>

definition BSON_FLAG_INLINE :: u32 where "BSON_FLAG_INLINE = 1"
definition BSON_FLAG_STATIC :: u32 where "BSON_FLAG_STATIC = 2"
definition BSON_FLAG_RDONLY :: u32 where "BSON_FLAG_RDONLY = 4"
definition BSON_FLAG_CHILD :: u32 where "BSON_FLAG_CHILD = 8"
definition BSON_FLAG_IN_CHILD :: u32 where "BSON_FLAG_IN_CHILD = 16"
definition BSON_FLAG_NO_FREE :: u32 where "BSON_FLAG_NO_FREE = 32"

lemmas bson_flag_defs = BSON_FLAG_INLINE_def BSON_FLAG_STATIC_def BSON_FLAG_RDONLY_def
  BSON_FLAG_CHILD_def BSON_FLAG_IN_CHILD_def BSON_FLAG_NO_FREE_def

definition BSON_INLINE_DATA_SIZE :: nat where "BSON_INLINE_DATA_SIZE = 120"

record bson_t =
  b_flags :: u32
  b_len :: u32
  b_inline :: "byte list"
  b_depth :: u32
  b_buf :: nat
  b_own :: bool \<comment> \<open>\<open>buf == &alloc\<close>\<close>
  b_offset :: u64
  b_realloc :: bool \<comment> \<open>\<open>realloc != NULL\<close>\<close>

record bheap =
  h_cells :: "nat \<Rightarrow> (cptr \<times> nat) option"
  h_next :: nat

definition has_flag :: "bson_t \<Rightarrow> u32 \<Rightarrow> bool" where
  "has_flag b f \<longleftrightarrow> b_flags b AND f \<noteq> 0"

definition heap_new :: "bheap \<Rightarrow> cptr \<Rightarrow> nat \<Rightarrow> nat \<times> bheap" where
  "heap_new h content n =
     (h_next h, h\<lparr>h_cells := (h_cells h)(h_next h \<mapsto> (content, n)), h_next := h_next h + 1\<rparr>)"

definition heap_set :: "bheap \<Rightarrow> nat \<Rightarrow> cptr \<Rightarrow> nat \<Rightarrow> bheap" where
  "heap_set h i content n = h\<lparr>h_cells := (h_cells h)(i \<mapsto> (content, n))\<rparr>"

type_synonym build = "(bool \<times> bson_t \<times> bheap) outcome"

text \<open>Leaving the inline representation overwrites the inline bytes: the two share their memory.\<close>

definition bson_impl_inline_grow :: "bheap \<Rightarrow> bson_t \<Rightarrow> u64 \<Rightarrow> build" where
  "bson_impl_inline_grow h b n =
     (if ucast (b_len b) + n \<le> of_nat BSON_INLINE_DATA_SIZE then Ret (True, b, h)
      else let req = bson_next_power_of_two (ucast (b_len b) + n) in
      if unat req \<le> INT32_MAX then
        cbind (rdn (b_inline b) 0 (unat (b_len b))) (\<lambda>bytes.
        cbind (bput (unat req) [] 0 bytes) (\<lambda>data.
          case heap_new h (Some data) (unat req) of (i, h) \<Rightarrow>
            Ret (True, b\<lparr>b_flags := b_flags b AND NOT BSON_FLAG_INLINE, b_depth := 0, b_buf := i,
                        b_own := True, b_offset := 0, b_realloc := True, b_inline := []\<rparr>, h)))
      else Ret (False, b, h))"

definition bson_impl_alloc_grow :: "bheap \<Rightarrow> bson_t \<Rightarrow> u64 \<Rightarrow> build" where
  "bson_impl_alloc_grow h b n =
     (case h_cells h (b_buf b) of
        None \<Rightarrow> Fault
      | Some (content, buflen) \<Rightarrow>
          let req = b_offset b + ucast (b_len b) + n + ucast (b_depth b) in
          if req \<le> of_nat buflen then Ret (True, b, h)
          else let req = bson_next_power_of_two req in
          if unat req \<le> INT32_MAX \<and> b_realloc b then
            Ret (True, b, heap_set h (b_buf b)
                   (Some (take (unat req) (case content of None \<Rightarrow> [] | Some bytes \<Rightarrow> bytes))) (unat req))
          else Ret (False, b, h))"

definition bson_grow :: "bheap \<Rightarrow> bson_t \<Rightarrow> u32 \<Rightarrow> build" where
  "bson_grow h b n =
     (if has_flag b BSON_FLAG_INLINE then bson_impl_inline_grow h b (ucast n)
      else bson_impl_alloc_grow h b (ucast n))"

text \<open>\<open>_bson_data\<close>: the initialised bytes from the start of the document on, and a store there.\<close>

definition bson_data_mem :: "bheap \<Rightarrow> bson_t \<Rightarrow> byte list outcome" where
  "bson_data_mem h b =
     (if has_flag b BSON_FLAG_INLINE then Ret (b_inline b)
      else case h_cells h (b_buf b) of
        Some (Some bytes, buflen) \<Rightarrow> Ret (drop (unat (b_offset b)) bytes)
      | _ \<Rightarrow> Fault)"

definition bson_data_put :: "bheap \<Rightarrow> bson_t \<Rightarrow> nat \<Rightarrow> byte list \<Rightarrow> (bson_t \<times> bheap) outcome" where
  "bson_data_put h b pos bs =
     (if has_flag b BSON_FLAG_INLINE then
        cbind (bput BSON_INLINE_DATA_SIZE (b_inline b) pos bs) (\<lambda>data. Ret (b\<lparr>b_inline := data\<rparr>, h))
      else case h_cells h (b_buf b) of
        Some (Some bytes, buflen) \<Rightarrow>
          cbind (bput buflen bytes (unat (b_offset b) + pos) bs) (\<lambda>bytes.
            Ret (b, heap_set h (b_buf b) (Some bytes) buflen))
      | _ \<Rightarrow> Fault)"

definition bson_encode_length :: "bheap \<Rightarrow> bson_t \<Rightarrow> (bson_t \<times> bheap) outcome" where
  "bson_encode_length h b = bson_data_put h b 0 (le32 (b_len b))"

definition bson_view_of :: "bheap \<Rightarrow> bson_t \<Rightarrow> bson_view outcome" where
  "bson_view_of h b = cbind (bson_data_mem h b) (\<lambda>m. Ret \<lparr>bv_data = m, bv_len = b_len b\<rparr>)"

section \<open>Appending bytes\<close>

text \<open>
  The loop over the (length, pointer) pairs; \<open>pos\<close> is the distance of \<open>buf\<close> from the start of the
  document. \<open>memcpy\<close> reads the argument and writes at \<open>buf\<close>.
\<close>

fun append_pairs :: "bheap \<Rightarrow> bson_t \<Rightarrow> nat \<Rightarrow> (u32 \<times> cptr) list \<Rightarrow> (bool \<times> nat \<times> bson_t \<times> bheap) outcome" where
  "append_pairs h b pos [] = Ret (True, pos, b, h)"
| "append_pairs h b pos ((data_len, data) # pairs) =
     (if data_len \<noteq> 0 then
        case data of
          Some m \<Rightarrow>
            cbind (rdn m 0 (unat data_len)) (\<lambda>bytes.
            cbind (bson_data_put h b pos bytes) (\<lambda>(b, h).
              append_pairs h (b\<lparr>b_len := b_len b + data_len\<rparr>) (pos + unat data_len) pairs))
        | None \<Rightarrow> Ret (False, pos, b, h)
      else append_pairs h b pos pairs)"

definition bson_append_va :: "bheap \<Rightarrow> bson_t \<Rightarrow> u32 \<Rightarrow> (u32 \<times> cptr) list \<Rightarrow> build" where
  "bson_append_va h b n_bytes pairs =
     c_assert (\<not> has_flag b BSON_FLAG_IN_CHILD) (c_assert (\<not> has_flag b BSON_FLAG_RDONLY)
       (cbind (bson_grow h b n_bytes) (\<lambda>(ok, b, h).
          if \<not> ok then Ret (False, b, h)
          else if b_len b = 0 then Fault
          else cbind (append_pairs h b (unat (b_len b) - 1) pairs) (\<lambda>(ok, pos, b, h).
            if \<not> ok then Ret (False, b, h)
            else cbind (bson_encode_length h b) (\<lambda>(b, h).
                 cbind (bson_data_put h b pos [0]) (\<lambda>(b, h). Ret (True, b, h)))))))"

definition bson_append :: "bheap \<Rightarrow> bson_t \<Rightarrow> u32 \<Rightarrow> (u32 \<times> cptr) list \<Rightarrow> build" where
  "bson_append h b n_bytes pairs =
     c_assert (pairs \<noteq> []) (c_assert (fst (hd pairs) \<noteq> 0) (c_assert (snd (hd pairs) \<noteq> None)
       (if of_nat BSON_MAX_SIZE - ucast (b_len b) < (ucast n_bytes :: u64) then Ret (False, b, h)
        else bson_append_va h b n_bytes pairs)))"

text \<open>
  Every append function puts the type byte, the key and a NUL before its own bytes. \<open>key_length\<close> is
  negative for \<open>strlen (key)\<close>.
\<close>

definition key_len :: "byte list \<Rightarrow> int \<Rightarrow> u32 outcome" where
  "key_len key key_length =
     (if key_length < 0 then cbind (c_strlen key) (\<lambda>n. Ret (of_nat n)) else Ret (of_int key_length))"

definition append_field :: "bheap \<Rightarrow> bson_t \<Rightarrow> byte \<Rightarrow> byte list \<Rightarrow> u32 \<Rightarrow> u32 \<Rightarrow> (u32 \<times> cptr) list \<Rightarrow> build" where
  "append_field h b type key kl n_value value =
     bson_append h b (1 + kl + 1 + n_value) ([(1, Some [type]), (kl, Some key), (1, Some [0])] @ value)"

definition append_fixed :: "bheap \<Rightarrow> bson_t \<Rightarrow> byte \<Rightarrow> byte list \<Rightarrow> int \<Rightarrow> byte list \<Rightarrow> build" where
  "append_fixed h b type key key_length bs =
     cbind (key_len key key_length) (\<lambda>kl.
       append_field h b type key kl (of_nat (length bs))
         (if bs = [] then [] else [(of_nat (length bs), Some bs)]))"

section \<open>Scalar values\<close>

definition bson_append_bool :: "bheap \<Rightarrow> bson_t \<Rightarrow> byte list \<Rightarrow> int \<Rightarrow> bool \<Rightarrow> build" where
  "bson_append_bool h b key key_length v =
     append_fixed h b BSON_TYPE_BOOL key key_length [if v then 1 else 0]"

definition bson_append_double :: "bheap \<Rightarrow> bson_t \<Rightarrow> byte list \<Rightarrow> int \<Rightarrow> u64 \<Rightarrow> build" where
  "bson_append_double h b key key_length v = append_fixed h b BSON_TYPE_DOUBLE key key_length (le64 v)"

definition bson_append_int32 :: "bheap \<Rightarrow> bson_t \<Rightarrow> byte list \<Rightarrow> int \<Rightarrow> u32 \<Rightarrow> build" where
  "bson_append_int32 h b key key_length v = append_fixed h b BSON_TYPE_INT32 key key_length (le32 v)"

definition bson_append_int64 :: "bheap \<Rightarrow> bson_t \<Rightarrow> byte list \<Rightarrow> int \<Rightarrow> u64 \<Rightarrow> build" where
  "bson_append_int64 h b key key_length v = append_fixed h b BSON_TYPE_INT64 key key_length (le64 v)"

definition bson_append_decimal128 :: "bheap \<Rightarrow> bson_t \<Rightarrow> byte list \<Rightarrow> int \<Rightarrow> u64 \<Rightarrow> u64 \<Rightarrow> build" where
  "bson_append_decimal128 h b key key_length low high =
     append_fixed h b BSON_TYPE_DECIMAL128 key key_length (le64 low @ le64 high)"

definition bson_append_maxkey :: "bheap \<Rightarrow> bson_t \<Rightarrow> byte list \<Rightarrow> int \<Rightarrow> build" where
  "bson_append_maxkey h b key key_length = append_fixed h b BSON_TYPE_MAXKEY key key_length []"

definition bson_append_minkey :: "bheap \<Rightarrow> bson_t \<Rightarrow> byte list \<Rightarrow> int \<Rightarrow> build" where
  "bson_append_minkey h b key key_length = append_fixed h b BSON_TYPE_MINKEY key key_length []"

definition bson_append_null :: "bheap \<Rightarrow> bson_t \<Rightarrow> byte list \<Rightarrow> int \<Rightarrow> build" where
  "bson_append_null h b key key_length = append_fixed h b BSON_TYPE_NULL key key_length []"

definition bson_append_undefined :: "bheap \<Rightarrow> bson_t \<Rightarrow> byte list \<Rightarrow> int \<Rightarrow> build" where
  "bson_append_undefined h b key key_length = append_fixed h b BSON_TYPE_UNDEFINED key key_length []"

definition bson_append_oid :: "bheap \<Rightarrow> bson_t \<Rightarrow> byte list \<Rightarrow> int \<Rightarrow> cptr \<Rightarrow> build" where
  "bson_append_oid h b key key_length v =
     c_assert (v \<noteq> None) (cbind (key_len key key_length) (\<lambda>kl.
       append_field h b BSON_TYPE_OID key kl 12 [(12, v)]))"

definition bson_append_timestamp :: "bheap \<Rightarrow> bson_t \<Rightarrow> byte list \<Rightarrow> int \<Rightarrow> u32 \<Rightarrow> u32 \<Rightarrow> build" where
  "bson_append_timestamp h b key key_length timestamp increment =
     append_fixed h b BSON_TYPE_TIMESTAMP key key_length
       (le64 (push_bit 32 (ucast timestamp) OR ucast increment))"

definition bson_append_date_time :: "bheap \<Rightarrow> bson_t \<Rightarrow> byte list \<Rightarrow> int \<Rightarrow> u64 \<Rightarrow> build" where
  "bson_append_date_time h b key key_length v = append_fixed h b BSON_TYPE_DATE_TIME key key_length (le64 v)"

definition bson_append_timeval :: "bheap \<Rightarrow> bson_t \<Rightarrow> byte list \<Rightarrow> int \<Rightarrow> u64 \<Rightarrow> u64 \<Rightarrow> build" where
  "bson_append_timeval h b key key_length tv_sec tv_usec =
     bson_append_date_time h b key key_length (tv_sec * 1000 + tv_usec div 1000)"

definition bson_append_time_t :: "bheap \<Rightarrow> bson_t \<Rightarrow> byte list \<Rightarrow> int \<Rightarrow> u64 \<Rightarrow> build" where
  "bson_append_time_t h b key key_length v = bson_append_timeval h b key key_length v 0"

text \<open>\<open>time (NULL)\<close> is the last argument.\<close>

definition bson_append_now_utc :: "bheap \<Rightarrow> bson_t \<Rightarrow> byte list \<Rightarrow> int \<Rightarrow> u64 \<Rightarrow> build" where
  "bson_append_now_utc h b key key_length now =
     c_assert (- 1 \<le> key_length) (bson_append_time_t h b key key_length now)"

section \<open>Strings, binary data and embedded documents\<close>

text \<open>\<open>BSON_ASSERT (p)\<close> on a string argument, then \<open>(int) strlen (p) + 1\<close>.\<close>

definition string_size :: "cptr \<Rightarrow> u32 outcome" where
  "string_size p = cbind (cptr_mem p) (\<lambda>m. cbind (c_strlen m) (\<lambda>n. Ret (of_nat n + 1)))"

definition bson_append_code :: "bheap \<Rightarrow> bson_t \<Rightarrow> byte list \<Rightarrow> int \<Rightarrow> cptr \<Rightarrow> build" where
  "bson_append_code h b key key_length javascript =
     c_assert (javascript \<noteq> None) (cbind (key_len key key_length) (\<lambda>kl.
       cbind (string_size javascript) (\<lambda>n.
         append_field h b BSON_TYPE_CODE key kl (4 + n) [(4, Some (le32 n)), (n, javascript)])))"

definition bson_append_code_with_scope ::
    "bheap \<Rightarrow> bson_t \<Rightarrow> byte list \<Rightarrow> int \<Rightarrow> cptr \<Rightarrow> bson_view option \<Rightarrow> build" where
  "bson_append_code_with_scope h b key key_length javascript scope =
     c_assert (javascript \<noteq> None) (case scope of
         None \<Rightarrow> bson_append_code h b key key_length javascript
       | Some scope \<Rightarrow>
           cbind (key_len key key_length) (\<lambda>kl.
           cbind (string_size javascript) (\<lambda>n.
             append_field h b BSON_TYPE_CODEWSCOPE key kl (4 + 4 + n + bv_len scope)
               [(4, Some (le32 (4 + 4 + n + bv_len scope))), (4, Some (le32 n)), (n, javascript),
                (bv_len scope, Some (bv_data scope))])))"

definition bson_append_dbpointer ::
    "bheap \<Rightarrow> bson_t \<Rightarrow> byte list \<Rightarrow> int \<Rightarrow> cptr \<Rightarrow> cptr \<Rightarrow> build" where
  "bson_append_dbpointer h b key key_length collection oid =
     c_assert (collection \<noteq> None) (c_assert (oid \<noteq> None) (cbind (key_len key key_length) (\<lambda>kl.
       cbind (string_size collection) (\<lambda>n.
         append_field h b BSON_TYPE_DBPOINTER key kl (4 + n + 12)
           [(4, Some (le32 n)), (n, collection), (12, oid)]))))"

definition bson_append_document :: "bheap \<Rightarrow> bson_t \<Rightarrow> byte list \<Rightarrow> int \<Rightarrow> bson_view \<Rightarrow> build" where
  "bson_append_document h b key key_length v =
     cbind (key_len key key_length) (\<lambda>kl.
       append_field h b BSON_TYPE_DOCUMENT key kl (bv_len v) [(bv_len v, Some (bv_data v))])"

text \<open>
  \<open>bson_empty\<close>, and the check of \<open>bson_append_array\<close> for a first key \<open>"0"\<close>. The check only prints a
  message, but it reads the document.
\<close>

definition bson_empty :: "bson_view \<Rightarrow> bool outcome" where
  "bson_empty b = (if bv_len b = 5 then Ret True else cbind (rd8 (bv_data b) 4) (\<lambda>c. Ret (c = 0)))"

definition array_key_check :: "bson_view \<Rightarrow> unit outcome" where
  "array_key_check array =
     cbind (bson_empty array) (\<lambda>empty.
       if empty then Ret ()
       else case bson_iter_init array of (r, it) \<Rightarrow>
         if \<not> r then Ret ()
         else cbind (bson_iter_next it) (\<lambda>(r, it).
           if \<not> r then Ret ()
           else cbind (iter_key_mem it) (\<lambda>key. cbind (c_strncmp_eq [0x30, 0] key 2) (\<lambda>eq. Ret ()))))"

definition bson_append_array :: "bheap \<Rightarrow> bson_t \<Rightarrow> byte list \<Rightarrow> int \<Rightarrow> bson_view \<Rightarrow> build" where
  "bson_append_array h b key key_length array =
     cbind (key_len key key_length) (\<lambda>kl.
     cbind (array_key_check array) (\<lambda>_.
       append_field h b BSON_TYPE_ARRAY key kl (bv_len array) [(bv_len array, Some (bv_data array))]))"

definition bson_append_binary ::
    "bheap \<Rightarrow> bson_t \<Rightarrow> byte list \<Rightarrow> int \<Rightarrow> byte \<Rightarrow> cptr \<Rightarrow> u32 \<Rightarrow> build" where
  "bson_append_binary h b key key_length subtype binary len =
     cbind (key_len key key_length) (\<lambda>kl.
       if subtype = BSON_SUBTYPE_BINARY_DEPRECATED then
         append_field h b BSON_TYPE_BINARY key kl (4 + 1 + 4 + len)
           [(4, Some (le32 (len + 4))), (1, Some [subtype]), (4, Some (le32 len)), (len, binary)]
       else
         append_field h b BSON_TYPE_BINARY key kl (4 + 1 + len)
           [(4, Some (le32 len)), (1, Some [subtype]), (len, binary)])"

text \<open>The options that occur, in the order of \<open>"ilmsux"\<close>.\<close>

fun append_regex_options :: "bson_string \<Rightarrow> byte list \<Rightarrow> byte list \<Rightarrow> bson_string outcome" where
  "append_regex_options buffer options [] = Ret buffer"
| "append_regex_options buffer options (c # cs) =
     cbind (c_strlen options) (\<lambda>n.
       if c \<in> set (take n options)
       then cbind (bson_string_append_c buffer c) (\<lambda>buffer. append_regex_options buffer options cs)
       else append_regex_options buffer options cs)"

definition BSON_REGEX_OPTIONS_SORTED :: "byte list" where
  "BSON_REGEX_OPTIONS_SORTED = [0x69, 0x6C, 0x6D, 0x73, 0x75, 0x78]"

definition bson_append_regex_options_sorted :: "bson_string \<Rightarrow> byte list \<Rightarrow> bson_string outcome" where
  "bson_append_regex_options_sorted buffer options =
     append_regex_options buffer options BSON_REGEX_OPTIONS_SORTED"

definition bson_append_regex_w_len ::
    "bheap \<Rightarrow> bson_t \<Rightarrow> byte list \<Rightarrow> int \<Rightarrow> cptr \<Rightarrow> int \<Rightarrow> cptr \<Rightarrow> build" where
  "bson_append_regex_w_len h b key key_length regex regex_length options =
     cbind (key_len key key_length) (\<lambda>kl.
     cbind (if regex_length < 0 then cbind (cptr_mem regex) (\<lambda>m. cbind (c_strlen m) (\<lambda>n. Ret (of_nat n)))
            else Ret (of_int regex_length)) (\<lambda>rl.
     let regex = (case regex of None \<Rightarrow> [0] | Some m \<Rightarrow> m);
         options = (case options of None \<Rightarrow> [0] | Some m \<Rightarrow> m) in
     cbind (bson_string_new None) (\<lambda>buffer.
     cbind (bson_append_regex_options_sorted buffer options) (\<lambda>sorted.
       append_field h b BSON_TYPE_REGEX key kl (rl + 1 + bs_len sorted + 1)
         [(rl, Some regex), (1, Some [0]), (bs_len sorted + 1, Some (bs_str sorted))]))))"

definition bson_append_regex :: "bheap \<Rightarrow> bson_t \<Rightarrow> byte list \<Rightarrow> int \<Rightarrow> cptr \<Rightarrow> cptr \<Rightarrow> build" where
  "bson_append_regex h b key key_length regex options =
     bson_append_regex_w_len h b key key_length regex (- 1) options"

definition append_string :: "bheap \<Rightarrow> bson_t \<Rightarrow> byte \<Rightarrow> byte list \<Rightarrow> int \<Rightarrow> cptr \<Rightarrow> int \<Rightarrow> build" where
  "append_string h b type key key_length v len =
     (case v of
        None \<Rightarrow> bson_append_null h b key key_length
      | Some m \<Rightarrow>
          cbind (key_len key key_length) (\<lambda>kl.
          cbind (if len < 0 then cbind (c_strlen m) (\<lambda>n. Ret (of_nat n)) else Ret (of_int len)) (\<lambda>n.
            append_field h b type key kl (4 + n + 1) [(4, Some (le32 (n + 1))), (n, v), (1, Some [0])])))"

definition bson_append_utf8 :: "bheap \<Rightarrow> bson_t \<Rightarrow> byte list \<Rightarrow> int \<Rightarrow> cptr \<Rightarrow> int \<Rightarrow> build" where
  "bson_append_utf8 h b key key_length v len = append_string h b BSON_TYPE_UTF8 key key_length v len"

definition bson_append_symbol :: "bheap \<Rightarrow> bson_t \<Rightarrow> byte list \<Rightarrow> int \<Rightarrow> cptr \<Rightarrow> int \<Rightarrow> build" where
  "bson_append_symbol h b key key_length v len = append_string h b BSON_TYPE_SYMBOL key key_length v len"

section \<open>Copying a value\<close>

text \<open>\<open>bson_init_static\<close> on a view of other memory; \<open>false\<close> leaves the result \<open>false\<close>.\<close>

definition append_static ::
    "bheap \<Rightarrow> bson_t \<Rightarrow> cptr \<Rightarrow> u32 \<Rightarrow> (bson_view \<Rightarrow> build) \<Rightarrow> build" where
  "append_static h b data len k =
     c_assert (data \<noteq> None) (cbind (cptr_mem data) (\<lambda>m. cbind (bson_init_static m (unat len)) (\<lambda>doc.
       case doc of None \<Rightarrow> Ret (False, b, h) | Some doc \<Rightarrow> k doc)))"

definition bson_append_iter :: "bheap \<Rightarrow> bson_t \<Rightarrow> cptr \<Rightarrow> int \<Rightarrow> bson_iter \<Rightarrow> build" where
  "bson_append_iter h b key key_length it =
     cbind (case key of Some k \<Rightarrow> Ret (k, key_length) | None \<Rightarrow> cbind (iter_key_mem it) (\<lambda>k. Ret (k, - 1)))
       (\<lambda>(k, kl). cbind (ITER_TYPE it) (\<lambda>t.
     if t = BSON_TYPE_EOD then Ret (False, b, h)
     else if t = BSON_TYPE_DOUBLE then cbind (bson_iter_double it) (\<lambda>d. bson_append_double h b k kl d)
     else if t = BSON_TYPE_UTF8 then
       cbind (bson_iter_utf8 it) (\<lambda>(str, len). bson_append_utf8 h b k kl str (sint len))
     else if t = BSON_TYPE_DOCUMENT then
       cbind (bson_iter_document it) (\<lambda>(len, buf). append_static h b buf len (bson_append_document h b k kl))
     else if t = BSON_TYPE_ARRAY then
       cbind (bson_iter_array it) (\<lambda>(len, buf). append_static h b buf len (bson_append_array h b k kl))
     else if t = BSON_TYPE_BINARY then
       cbind (bson_iter_binary it) (\<lambda>(subtype, len, binary). bson_append_binary h b k kl subtype binary len)
     else if t = BSON_TYPE_UNDEFINED then bson_append_undefined h b k kl
     else if t = BSON_TYPE_OID then cbind (bson_iter_oid it) (\<lambda>oid. bson_append_oid h b k kl oid)
     else if t = BSON_TYPE_BOOL then cbind (bson_iter_bool it) (\<lambda>v. bson_append_bool h b k kl v)
     else if t = BSON_TYPE_DATE_TIME then cbind (bson_iter_date_time it) (\<lambda>v. bson_append_date_time h b k kl v)
     else if t = BSON_TYPE_NULL then bson_append_null h b k kl
     else if t = BSON_TYPE_REGEX then
       cbind (bson_iter_regex it) (\<lambda>(regex, options). bson_append_regex h b k kl regex options)
     else if t = BSON_TYPE_DBPOINTER then
       cbind (bson_iter_dbpointer it) (\<lambda>(len, collection, oid). bson_append_dbpointer h b k kl collection oid)
     else if t = BSON_TYPE_CODE then cbind (bson_iter_code it) (\<lambda>(code, len). bson_append_code h b k kl code)
     else if t = BSON_TYPE_SYMBOL then
       cbind (bson_iter_symbol it) (\<lambda>(symbol, len). bson_append_symbol h b k kl symbol (sint len))
     else if t = BSON_TYPE_CODEWSCOPE then
       cbind (bson_iter_codewscope it) (\<lambda>(javascript, len, scope_len, scope).
         append_static h b scope scope_len (\<lambda>doc. bson_append_code_with_scope h b k kl javascript (Some doc)))
     else if t = BSON_TYPE_INT32 then cbind (bson_iter_int32 it) (\<lambda>v. bson_append_int32 h b k kl v)
     else if t = BSON_TYPE_TIMESTAMP then
       cbind (bson_iter_timestamp it) (\<lambda>(ts, inc). bson_append_timestamp h b k kl ts inc)
     else if t = BSON_TYPE_INT64 then cbind (bson_iter_int64 it) (\<lambda>v. bson_append_int64 h b k kl v)
     else if t = BSON_TYPE_DECIMAL128 then
       cbind (bson_iter_decimal128 it) (\<lambda>dec. case dec of
           None \<Rightarrow> Ret (False, b, h) | Some (low, high) \<Rightarrow> bson_append_decimal128 h b k kl low high)
     else if t = BSON_TYPE_MAXKEY then bson_append_maxkey h b k kl
     else if t = BSON_TYPE_MINKEY then bson_append_minkey h b k kl
     else Ret (False, b, h)))"

fun bson_append_value :: "bheap \<Rightarrow> bson_t \<Rightarrow> byte list \<Rightarrow> int \<Rightarrow> bson_value \<Rightarrow> build" where
  "bson_append_value h b k kl (V_double d) = bson_append_double h b k kl d"
| "bson_append_value h b k kl (V_utf8 str len) = bson_append_utf8 h b k kl str (sint len)"
| "bson_append_value h b k kl (V_document len data) = append_static h b data len (bson_append_document h b k kl)"
| "bson_append_value h b k kl (V_array len data) = append_static h b data len (bson_append_array h b k kl)"
| "bson_append_value h b k kl (V_binary subtype len data) = bson_append_binary h b k kl subtype data len"
| "bson_append_value h b k kl V_undefined = bson_append_undefined h b k kl"
| "bson_append_value h b k kl (V_oid oid) = bson_append_oid h b k kl (Some oid)"
| "bson_append_value h b k kl (V_bool v) = bson_append_bool h b k kl v"
| "bson_append_value h b k kl (V_datetime v) = bson_append_date_time h b k kl v"
| "bson_append_value h b k kl V_null = bson_append_null h b k kl"
| "bson_append_value h b k kl (V_regex regex options) = bson_append_regex h b k kl regex options"
| "bson_append_value h b k kl (V_dbpointer len collection oid) =
     bson_append_dbpointer h b k kl collection (Some oid)"
| "bson_append_value h b k kl (V_code code len) = bson_append_code h b k kl code"
| "bson_append_value h b k kl (V_symbol symbol len) = bson_append_symbol h b k kl symbol (sint len)"
| "bson_append_value h b k kl (V_codewscope code len scope_len scope) =
     append_static h b scope scope_len (\<lambda>doc. bson_append_code_with_scope h b k kl code (Some doc))"
| "bson_append_value h b k kl (V_int32 v) = bson_append_int32 h b k kl v"
| "bson_append_value h b k kl (V_timestamp ts inc) = bson_append_timestamp h b k kl ts inc"
| "bson_append_value h b k kl (V_int64 v) = bson_append_int64 h b k kl v"
| "bson_append_value h b k kl (V_decimal128 low high) = bson_append_decimal128 h b k kl low high"
| "bson_append_value h b k kl V_maxkey = bson_append_maxkey h b k kl"
| "bson_append_value h b k kl V_minkey = bson_append_minkey h b k kl"

section \<open>Documents in place\<close>

text \<open>
  \<open>_bson_append_bson_begin\<close> leaves an empty document behind the key and lets the child share the
  buffer of its parent; \<open>None\<close> stands for the \<open>false\<close> return, which leaves the child as it was.
\<close>

definition bson_append_bson_begin ::
    "bheap \<Rightarrow> bson_t \<Rightarrow> byte list \<Rightarrow> int \<Rightarrow> byte \<Rightarrow> (bson_t option \<times> bson_t \<times> bheap) outcome" where
  "bson_append_bson_begin h b key key_length child_type =
     c_assert (\<not> has_flag b BSON_FLAG_RDONLY) (c_assert (\<not> has_flag b BSON_FLAG_IN_CHILD)
     (c_assert (child_type = BSON_TYPE_DOCUMENT \<or> child_type = BSON_TYPE_ARRAY)
     (cbind (key_len key key_length) (\<lambda>kl.
      cbind (if has_flag b BSON_FLAG_INLINE then
               c_assert (b_len b \<le> 120) (cbind (bson_grow h b (128 - b_len b)) (\<lambda>(ok, b, h).
                 if \<not> ok then Ret (False, b, h)
                 else c_assert (\<not> has_flag b BSON_FLAG_INLINE) (Ret (True, b, h))))
             else Ret (True, b, h)) (\<lambda>(ok, b, h).
      if \<not> ok then Ret (None, b, h)
      else cbind (append_field h b child_type key kl 5 [(5, Some [5, 0, 0, 0, 0])]) (\<lambda>(ok, b, h).
      if \<not> ok then Ret (None, b, h)
      else Ret (Some \<lparr>b_flags = BSON_FLAG_CHILD OR BSON_FLAG_NO_FREE OR BSON_FLAG_STATIC, b_len = 5,
                  b_inline = [], b_depth = (if has_flag b BSON_FLAG_CHILD then b_depth b + 1 else 1),
                  b_buf = b_buf b, b_own = False, b_offset = b_offset b + ucast (b_len b) - 1 - 5,
                  b_realloc = b_realloc b\<rparr>,
                b\<lparr>b_flags := b_flags b OR BSON_FLAG_IN_CHILD\<rparr>, h)))))))"

definition bson_append_bson_end :: "bheap \<Rightarrow> bson_t \<Rightarrow> bson_t \<Rightarrow> build" where
  "bson_append_bson_end h b child =
     c_assert (has_flag b BSON_FLAG_IN_CHILD) (c_assert (\<not> has_flag child BSON_FLAG_IN_CHILD)
       (let b = b\<lparr>b_flags := b_flags b AND NOT BSON_FLAG_IN_CHILD, b_len := b_len b + b_len child - 5\<rparr> in
        cbind (bson_data_put h b (unat (b_len b - 1)) [0]) (\<lambda>(b, h).
        cbind (bson_encode_length h b) (\<lambda>(b, h). Ret (True, b, h)))))"

definition bson_append_array_begin ::
    "bheap \<Rightarrow> bson_t \<Rightarrow> byte list \<Rightarrow> int \<Rightarrow> (bson_t option \<times> bson_t \<times> bheap) outcome" where
  "bson_append_array_begin h b key key_length = bson_append_bson_begin h b key key_length BSON_TYPE_ARRAY"

definition bson_append_array_end :: "bheap \<Rightarrow> bson_t \<Rightarrow> bson_t \<Rightarrow> build" where
  "bson_append_array_end h b child = bson_append_bson_end h b child"

definition bson_append_document_begin ::
    "bheap \<Rightarrow> bson_t \<Rightarrow> byte list \<Rightarrow> int \<Rightarrow> (bson_t option \<times> bson_t \<times> bheap) outcome" where
  "bson_append_document_begin h b key key_length = bson_append_bson_begin h b key key_length BSON_TYPE_DOCUMENT"

definition bson_append_document_end :: "bheap \<Rightarrow> bson_t \<Rightarrow> bson_t \<Rightarrow> build" where
  "bson_append_document_end h b child = bson_append_bson_end h b child"

definition bson_concat :: "bheap \<Rightarrow> bson_t \<Rightarrow> bson_view \<Rightarrow> build" where
  "bson_concat h dst src =
     cbind (bson_empty src) (\<lambda>empty.
       if \<not> empty then bson_append h dst (bv_len src - 5) [(bv_len src - 5, Some (drop 4 (bv_data src)))]
       else Ret (True, dst, h))"

end
