(* ===== verification/Bson_Iter_Step.thy ===== *)
theory Bson_Iter_Step
  imports Bson_Iter
begin

text \<open>
  What one step of the iterator does, in terms of the bytes of the document: the 32-bit arithmetic
  of \<open>_bson_iter_next_internal\<close> is reduced, case by case of its type switch, to sizes in \<open>nat\<close>. The
  result is \<open>next_internal_view\<close>: a step either reports the end, reports corruption with a non-zero
  \<open>err_off\<close>, or stands on the element that \<open>step_view\<close> reads off the document.
\<close>

section \<open>Searching for NUL\<close>


lemma scan_nul_spec:
  "unat len \<le> length data \<Longrightarrow>
   scan_nul data off len =
     (let s = drop (unat off) (take (unat len) data)
      in Ret (if 0 \<in> set s then Some (off + of_nat (length (takeWhile (\<lambda>b. b \<noteq> 0) s))) else None))"
proof (induction data off len rule: scan_nul.induct)
  case (1 data off len)
  show ?case
  proof (cases "off < len")
    case True
    let ?s = "drop (unat off) (take (unat len) data)"
    have lt: "unat off < unat len" "unat off < length data"
      using True 1(2) by (simp_all add: word_less_nat_alt)
    then have s: "?s = data ! unat off # drop (Suc (unat off)) (take (unat len) data)"
      using 1(2) by (simp add: Cons_nth_drop_Suc [symmetric])
    have suc: "unat (off + 1) = Suc (unat off)"
      using lt unat_u32_less [of len] by (simp add: unat_add_small)
    show ?thesis
    proof (cases "data ! unat off = 0")
      case False
      with 1(1) [OF True _ False] 1(2) True lt show ?thesis
        unfolding s by (subst scan_nul.simps) (simp add: rd8_def Let_def suc add.assoc)
    qed (use True lt s in \<open>simp add: scan_nul.simps [of data off len] rd8_def\<close>)
  next
    case False
    then show ?thesis by (simp add: scan_nul.simps [of data off len] word_less_nat_alt Let_def)
  qed
qed

text \<open>The size of the value at the head of \<open>s\<close>, which runs to the end of the document.\<close>

definition len_at :: "byte list \<Rightarrow> nat \<Rightarrow> nat" where
  "len_at s i = unat (from_le (take 4 (drop i s)) :: u32)"

definition cstr_len :: "byte list \<Rightarrow> nat option" where
  "cstr_len s = (if 0 \<in> set s then Some (length (takeWhile (\<lambda>b. b \<noteq> 0) s)) else None)"

definition payload_size :: "byte \<Rightarrow> byte list \<Rightarrow> nat option" where
  "payload_size t s =
     (let fits = (\<lambda>n. if n < length s then Some n else None); l = len_at s 0 in
      if t \<in> {BSON_TYPE_DATE_TIME, BSON_TYPE_DOUBLE, BSON_TYPE_INT64, BSON_TYPE_TIMESTAMP} then fits 8
      else if t \<in> {BSON_TYPE_CODE, BSON_TYPE_SYMBOL, BSON_TYPE_UTF8} then
        (if 0 < l \<and> 4 + l < length s \<and> s ! (3 + l) = 0 then Some (4 + l) else None)
      else if t = BSON_TYPE_BINARY then
        (if 5 + l < length s \<and>
            (s ! 4 = BSON_SUBTYPE_BINARY_DEPRECATED \<longrightarrow> 4 \<le> l \<and> len_at s 5 + 4 = l)
         then Some (5 + l) else None)
      else if t \<in> {BSON_TYPE_ARRAY, BSON_TYPE_DOCUMENT} then (if 4 < length s then fits l else None)
      else if t = BSON_TYPE_OID then fits 12
      else if t = BSON_TYPE_BOOL then (if s ! 0 \<in> {0, 1} then fits 1 else None)
      else if t = BSON_TYPE_REGEX then
        (case cstr_len s of None \<Rightarrow> None
         | Some i \<Rightarrow> (case cstr_len (drop (i + 1) s) of None \<Rightarrow> None | Some j \<Rightarrow> fits (i + j + 2)))
      else if t = BSON_TYPE_DBPOINTER then
        (if 0 < l \<and> 16 + l < length s \<and> s ! (3 + l) = 0 then Some (16 + l) else None)
      else if t = BSON_TYPE_CODEWSCOPE then
        (let l2 = len_at s 4 in
         if 14 \<le> l \<and> l < length s \<and> 0 < l2 \<and> 12 + l2 < l \<and> 8 + l2 + len_at s (8 + l2) = l
         then Some l else None)
      else if t = BSON_TYPE_INT32 then fits 4
      else if t = BSON_TYPE_DECIMAL128 then fits 16
      else if t \<in> {BSON_TYPE_MAXKEY, BSON_TYPE_MINKEY, BSON_TYPE_NULL, BSON_TYPE_UNDEFINED} then fits 0
      else None)"

section \<open>The cases of the switch\<close>

text \<open>
  A case either names the size of the value or fails: with a non-zero \<open>err_off\<close>, or with a
  \<open>next_off\<close> behind the document, which the check behind the switch turns into a failure.
\<close>

definition fill_ok :: "byte list \<Rightarrow> u32 \<Rightarrow> bson_iter \<Rightarrow> nat option \<Rightarrow> (bool \<times> bson_iter) outcome \<Rightarrow> bool" where
  "fill_ok s len it sz r \<longleftrightarrow> (\<exists>b it'. r = Ret (b, it') \<and> it_raw it' = it_raw it \<and> it_len it' = it_len it \<and>
     it_off it' = it_off it \<and> it_type it' = it_type it \<and> it_key it' = it_key it \<and> it_d1 it' = it_d1 it \<and>
     (case sz of
        None \<Rightarrow> (if b then len \<le> it_next_off it' else it_err_off it' \<noteq> 0)
      | Some n \<Rightarrow> b \<and> it_next_off it' < len \<and> unat (it_next_off it') = unat (it_d1 it) + n))"

definition same_place :: "bson_iter \<Rightarrow> bson_iter \<Rightarrow> bool" where
  "same_place it it' \<longleftrightarrow> it_raw it' = it_raw it \<and> it_len it' = it_len it \<and> it_off it' = it_off it \<and>
     it_type it' = it_type it \<and> it_key it' = it_key it \<and> it_d1 it' = it_d1 it"

definition fill_ctx :: "byte list \<Rightarrow> u32 \<Rightarrow> u32 \<Rightarrow> bson_iter \<Rightarrow> byte list \<Rightarrow> bool" where
  "fill_ctx raw len off it s \<longleftrightarrow> unat len \<le> length raw \<and> unat len \<le> INT32_MAX \<and> unat off \<le> unat len \<and>
     6 \<le> unat off \<and> it_d1 it = off \<and> s = drop (unat off) (take (unat len) raw) \<and> it_next_off it \<noteq> 0"

lemma fill_ok_bad:
  "e \<noteq> 0 \<Longrightarrow> same_place it it' \<Longrightarrow> fill_ok s len it None (iter_bad e it')"
  by (auto simp: fill_ok_def iter_bad_def same_place_def)

lemma fill_ok_good:
  "same_place it it' \<Longrightarrow> unat next_off = unat (it_d1 it) + n \<Longrightarrow> n < unat len - unat (it_d1 it) \<Longrightarrow>
   fill_ok s len it (Some n) (iter_good next_off it')"
  by (auto simp: fill_ok_def iter_good_def same_place_def word_less_nat_alt)

lemma fill_ok_long:
  "same_place it it' \<Longrightarrow> len \<le> next_off \<Longrightarrow> fill_ok s len it None (iter_good next_off it')"
  by (auto simp: fill_ok_def iter_good_def same_place_def)

lemma fill_ctx_facts:
  assumes "fill_ctx raw len off it s"
  shows "length s = unat len - unat off" "off \<noteq> 0" "unat len < 2147483648" "unat off \<le> unat len"
    "6 \<le> unat off" "it_d1 it = off" "it_next_off it \<noteq> 0"
  using assms by (auto simp: fill_ctx_def INT32_MAX_def)

lemma rd8_s: "fill_ctx raw len off it s \<Longrightarrow> i < length s \<Longrightarrow> rd8 raw (unat off + i) = Ret (s ! i)"
  by (auto simp: rd8_def fill_ctx_def)

lemma rd32_s:
  "fill_ctx raw len off it s \<Longrightarrow> i + 4 \<le> length s \<Longrightarrow>
   rd32 raw (unat off + i) = Ret (from_le (take 4 (drop i s)))"
  by (auto simp: rd32_def rdn_def fill_ctx_def take_drop add.commute add.left_commute)

lemma off_add:
  assumes "fill_ctx raw len off it s" "unat k < 2147483648"
  shows "unat (off + k) = unat off + unat k"
  using fill_ctx_facts(3,4) [OF assms(1)] assms(2) by (simp add: unat_add_small)

lemma unat_diff_1: "0 < unat l \<Longrightarrow> unat (l - 1 :: u32) = unat l - 1"
  by (simp add: unat_sub_le)

lemma fill_utf8:
  assumes ctx: "fill_ctx raw len off it s"
  shows "fill_ok s len it
     (let l = len_at s 0 in if 0 < l \<and> 4 + l < length s \<and> s ! (3 + l) = 0 then Some (4 + l) else None)
     (iter_fill_utf8 raw len off it)"
proof -
  note f = fill_ctx_facts [OF ctx]
  define l :: u32 where "l = from_le (take 4 s)"
  have l: "len_at s 0 = unat l" by (simp add: len_at_def l_def)
  have rd: "4 \<le> length s \<Longrightarrow> rd32 raw (unat off) = Ret l"
    using rd32_s [OF ctx, of 0] by (simp add: l_def)
  have rd8: "rd8 raw (unat (off + 4) + unat (l - 1)) = Ret (s ! (3 + unat l))"
    if "0 < unat l" "4 + unat l < length s"
  proof -
    have "unat (off + 4) + unat (l - 1) = unat off + (3 + unat l)"
      using that f unat_diff_1 [of l] by (simp add: off_add [OF ctx])
    then show ?thesis using rd8_s [OF ctx, of "3 + unat l"] that by (simp only:)
  qed
  have c1: "len \<le> off + 4 \<longleftrightarrow> length s \<le> 4"
    using f by (auto simp: word_le_nat_alt off_add [OF ctx])
  have c2: "len - (off + 4) < l \<longleftrightarrow> length s < 4 + unat l" if "\<not> length s \<le> 4"
    using f that by (auto simp: word_less_nat_alt unat_sub_le off_add [OF ctx])
  have c3: "unat (off + 4 + l) = unat off + 4 + unat l" if "\<not> length s < 4 + unat l"
    using f that by (simp add: unat_add_small off_add [OF ctx])
  have c4: "len \<le> off + 4 + l \<longleftrightarrow> length s \<le> 4 + unat l" if "\<not> length s < 4 + unat l"
    using f that c3 by (auto simp: word_le_nat_alt)
  have e: "off + 4 + l - 1 \<noteq> 0" if "\<not> length s < 4 + unat l"
  proof -
    have "0 < unat (off + 4 + l - 1)" using c3 [OF that] f by (subst unat_diff_1) simp_all
    then show ?thesis by auto
  qed
  show ?thesis
    using rd rd8 c2 c3 c4 e f
    by (auto simp: iter_fill_utf8_def Let_def l c1 same_place_def fill_ok_def iter_bad_def word_less_nat_alt
        unat_eq_0 unat_gt_0)
qed

lemma sub_4_le:
  assumes ctx: "fill_ctx raw len off it s"
  shows "len - 4 \<le> off \<longleftrightarrow> length s \<le> 4"
  using fill_ctx_facts [OF ctx] by (auto simp: word_le_nat_alt unat_sub_le)

lemma unat_len_off:
  assumes ctx: "fill_ctx raw len off it s"
  shows "unat (len - off) = length s"
  using fill_ctx_facts [OF ctx] by (simp add: unat_sub_le)

lemmas fill_rules = Let_def same_place_def fill_ok_def iter_bad_def iter_good_def word_less_nat_alt
  unat_eq_0 unat_gt_0

lemma fill_document:
  assumes ctx: "fill_ctx raw len off it s"
  shows "fill_ok s len it
     (if 4 < length s then if len_at s 0 < length s then Some (len_at s 0) else None else None)
     (iter_fill_document raw len off it)"
proof -
  note f = fill_ctx_facts [OF ctx]
  define l :: u32 where "l = from_le (take 4 s)"
  have l: "len_at s 0 = unat l" by (simp add: len_at_def l_def)
  have rd: "4 \<le> length s \<Longrightarrow> rd32 raw (unat off) = Ret l"
    using rd32_s [OF ctx, of 0] by (simp add: l_def)
  have c1: "len < l \<or> len - off < l \<longleftrightarrow> length s < unat l"
    using f by (auto simp: word_less_nat_alt unat_len_off [OF ctx])
  have c2: "unat (off + l) = unat off + unat l" if "\<not> length s < unat l"
    using f that by (simp add: unat_add_small)
  have c3: "len \<le> off + l" if "unat l = length s"
    using f that c2 by (simp add: word_le_nat_alt)
  show ?thesis
    using rd c2 c3 f c1 sub_4_le [OF ctx] by (auto simp: iter_fill_document_def l fill_rules)
qed

lemma fill_binary:
  assumes ctx: "fill_ctx raw len off it s"
  shows "fill_ok s len it
     (let l = len_at s 0 in
      if 5 + l < length s \<and> (s ! 4 = BSON_SUBTYPE_BINARY_DEPRECATED \<longrightarrow> 4 \<le> l \<and> len_at s 5 + 4 = l)
      then Some (5 + l) else None)
     (iter_fill_binary raw len off it)"
proof -
  note f = fill_ctx_facts [OF ctx]
  define l m :: u32 where "l = from_le (take 4 s)" and "m = from_le (take 4 (drop 5 s))"
  have l: "len_at s 0 = unat l" "len_at s 5 = unat m" by (simp_all add: len_at_def l_def m_def)
  have rd: "4 < length s \<Longrightarrow> rd32 raw (unat off) = Ret l"
    using rd32_s [OF ctx, of 0] by (simp add: l_def)
  have rd4: "4 < length s \<Longrightarrow> rd8 raw (unat (off + 4)) = Ret (s ! 4)"
    using rd8_s [OF ctx, of 4] by (simp add: off_add [OF ctx])
  have rd5: "9 \<le> length s \<Longrightarrow> rd32 raw (unat (off + 5)) = Ret m"
    using rd32_s [OF ctx, of 5] by (simp add: off_add [OF ctx] m_def)
  have c1: "len - off - 4 \<le> l \<longleftrightarrow> length s \<le> 4 + unat l" if "4 < length s"
    using f that by (auto simp: word_le_nat_alt unat_len_off [OF ctx] unat_sub_le)
  have c2: "m + 4 = l \<longleftrightarrow> unat m + 4 = unat l" if "4 \<le> unat l" "4 + unat l < length s"
  proof -
    have "m + 4 = l \<longleftrightarrow> m = l - 4" by (simp add: eq_diff_eq)
    also have "\<dots> \<longleftrightarrow> unat m = unat l - 4" using that by (simp add: word_unat_eq_iff unat_sub_le)
    finally show ?thesis using that by auto
  qed
  have c3: "unat (off + 5 + l) = unat off + 5 + unat l" if "\<not> length s \<le> 4 + unat l"
    using f that by (simp add: unat_add_small off_add [OF ctx])
  have c4: "len \<le> off + 5 + l" if "\<not> 5 + unat l < length s" "\<not> length s \<le> 4 + unat l"
    using f that c3 by (simp add: word_le_nat_alt)
  have nz: "off + 5 \<noteq> 0" using off_add [OF ctx, of 5] f by auto
  show ?thesis
  proof (cases "s ! 4 = BSON_SUBTYPE_BINARY_DEPRECATED")
    case True
    then show ?thesis
      using rd rd4 rd5 c1 c2 c3 c4 nz f sub_4_le [OF ctx]
      by (auto simp: iter_fill_binary_def l fill_rules)
  next
    case False
    then show ?thesis
      using rd rd4 c1 c3 c4 f sub_4_le [OF ctx] by (auto simp: iter_fill_binary_def l fill_rules)
  qed
qed

lemma fill_bool:
  assumes ctx: "fill_ctx raw len off it s"
  shows "fill_ok s len it (if s ! 0 \<in> {0, 1} then if 1 < length s then Some 1 else None else None)
     (iter_fill_bool raw len off it)"
proof -
  note f = fill_ctx_facts [OF ctx]
  have c1: "len \<le> off \<longleftrightarrow> length s = 0" using f by (auto simp: word_le_nat_alt)
  have rd: "0 < length s \<Longrightarrow> rd8 raw (unat off) = Ret (s ! 0)"
    using rd8_s [OF ctx, of 0] by simp
  have c2: "unat (off + 1) = unat off + 1" by (simp add: off_add [OF ctx])
  have c3: "len \<le> off + 1" if "\<not> 1 < length s" using f that c2 by (simp add: word_le_nat_alt)
  show ?thesis
    using rd c1 c2 c3 f by (auto simp: iter_fill_bool_def fill_rules)
qed

lemma fill_dbpointer:
  assumes ctx: "fill_ctx raw len off it s"
  shows "fill_ok s len it
     (let l = len_at s 0 in if 0 < l \<and> 16 + l < length s \<and> s ! (3 + l) = 0 then Some (16 + l) else None)
     (iter_fill_dbpointer raw len off it)"
proof -
  note f = fill_ctx_facts [OF ctx]
  define l :: u32 where "l = from_le (take 4 s)"
  have l: "len_at s 0 = unat l" by (simp add: len_at_def l_def)
  have rd: "4 < length s \<Longrightarrow> rd32 raw (unat off) = Ret l"
    using rd32_s [OF ctx, of 0] by (simp add: l_def)
  have rd8: "rd8 raw (unat off + unat l + 3) = Ret (s ! (3 + unat l))" if "0 < unat l" "4 + unat l \<le> length s"
    using rd8_s [OF ctx, of "3 + unat l"] that by (simp add: ac_simps)
  have c1: "len - off - 4 < l \<longleftrightarrow> length s < 4 + unat l" if "4 < length s"
    using f that by (auto simp: word_less_nat_alt unat_len_off [OF ctx] unat_sub_le)
  have c2: "unat (off + l + 3) = unat off + unat l + 3" "unat (off + 4 + l + 12) = unat off + 16 + unat l"
    if "\<not> length s < 4 + unat l"
    using f that by (simp_all add: unat_add_small off_add [OF ctx])
  have nz: "off + l + 3 \<noteq> 0" if "\<not> length s < 4 + unat l" using c2(1) [OF that] by auto
  have c3: "len \<le> off + 4 + l + 12" if "\<not> 16 + unat l < length s" "\<not> length s < 4 + unat l"
    using f that c2 by (simp add: word_le_nat_alt)
  show ?thesis
    using rd rd8 c1 c2 c3 nz f sub_4_le [OF ctx] by (auto simp: iter_fill_dbpointer_def l fill_rules)
qed

lemma fill_codewscope:
  assumes ctx: "fill_ctx raw len off it s"
  shows "fill_ok s len it
     (let l = len_at s 0; l2 = len_at s 4 in
      if 14 \<le> l \<and> l < length s \<and> 0 < l2 \<and> 12 + l2 < l \<and> 8 + l2 + len_at s (8 + l2) = l
      then Some l else None)
     (iter_fill_codewscope raw len off it)"
proof -
  note f = fill_ctx_facts [OF ctx]
  define l l2 m :: u32 where "l = from_le (take 4 s)" and "l2 = from_le (take 4 (drop 4 s))"
    and "m = from_le (take 4 (drop (8 + unat l2) s))"
  have l: "len_at s 0 = unat l" "len_at s 4 = unat l2" "len_at s (8 + unat l2) = unat m"
    by (simp_all add: len_at_def l_def l2_def m_def)
  have rd: "14 < length s \<Longrightarrow> rd32 raw (unat off) = Ret l"
    using rd32_s [OF ctx, of 0] by (simp add: l_def)
  have rd4: "14 < length s \<Longrightarrow> rd32 raw (unat (off + 4)) = Ret l2"
    using rd32_s [OF ctx, of 4] by (simp add: off_add [OF ctx] l2_def)
  have c1: "len < 19 \<or> len - 14 \<le> off \<longleftrightarrow> length s \<le> 14"
    using f by (cases "unat len < 19") (auto simp: word_less_nat_alt word_le_nat_alt unat_sub_le)
  have c2: "len - off \<le> l \<longleftrightarrow> length s \<le> unat l"
    using f by (simp add: word_le_nat_alt unat_len_off [OF ctx])
  have c3: "unat (off + l) = unat off + unat l" "\<not> len \<le> off + l" if "\<not> length s \<le> unat l"
    using f that by (simp_all add: unat_add_small word_le_nat_alt)
  have c4: "len - off - 4 - 4 \<le> l2 \<longleftrightarrow> length s \<le> 8 + unat l2" if "14 < length s"
    using f that by (auto simp: word_le_nat_alt unat_len_off [OF ctx] unat_sub_le)
  have c5: "unat (off + 4 + 4 + l2) = unat off + 8 + unat l2"
    "unat (off + 4 + 4 + l2 + 4) = unat off + 12 + unat l2" if "\<not> length s \<le> 8 + unat l2"
    using f that by (simp_all add: unat_add_small off_add [OF ctx])
  have c6: "off + l \<le> off + 4 + 4 + l2 + 4 \<longleftrightarrow> unat l \<le> 12 + unat l2"
    if "\<not> length s \<le> unat l" "\<not> length s \<le> 8 + unat l2"
    using c3(1) [OF that(1)] c5(2) [OF that(2)] by (simp add: word_le_nat_alt)
  have rd8: "rd32 raw (unat (off + 4 + 4 + l2)) = Ret m" if "\<not> length s \<le> unat l" "12 + unat l2 < unat l"
    using rd32_s [OF ctx, of "8 + unat l2"] c5(1) that by (simp add: m_def ac_simps)
  have c7: "off + 4 + 4 + l2 + m = off + l \<longleftrightarrow> 8 + unat l2 + unat m = unat l"
    if "\<not> length s \<le> unat l" "12 + unat l2 < unat l"
  proof -
    have lt: "unat (8 + l2) = 8 + unat l2" using that f by (simp add: unat_add_small)
    have "off + 4 + 4 + l2 + m = off + l \<longleftrightarrow> m = l - (8 + l2)" by (auto simp: algebra_simps)
    also have "\<dots> \<longleftrightarrow> unat m = unat l - (8 + unat l2)"
      using that lt by (simp add: word_unat_eq_iff unat_sub_le)
    finally show ?thesis using that by auto
  qed
  have nz: "off + 4 \<noteq> 0" "\<not> length s \<le> 8 + unat l2 \<Longrightarrow> off + 4 + 4 + l2 \<noteq> 0"
    using off_add [OF ctx, of 4] c5(1) f by auto
  have l14: "l < 14 \<longleftrightarrow> unat l < 14" by (simp add: word_less_nat_alt)
  consider "length s \<le> 14" | "14 < length s" "unat l < 14 \<or> length s \<le> unat l"
    | "14 < length s" "14 \<le> unat l" "\<not> length s \<le> unat l" by linarith
  then show ?thesis
  proof cases
    case 1
    then have "iter_fill_codewscope raw len off it = iter_bad off it"
      using c1 by (simp add: iter_fill_codewscope_def)
    moreover have "\<not> (14 \<le> unat l \<and> unat l < length s)" using 1 by linarith
    ultimately show ?thesis using f(2) by (auto simp: l Let_def fill_ok_bad same_place_def)
  next
    case 2
    then have "iter_fill_codewscope raw len off it = iter_bad off (it\<lparr>it_d2 := off + 4, it_d3 := off + 8\<rparr>)"
      using c1 c2 l14 rd f(6) by (simp add: iter_fill_codewscope_def Let_def)
    moreover have "\<not> (14 \<le> unat l \<and> unat l < length s)" using 2 by linarith
    ultimately show ?thesis using f(2) by (auto simp: l Let_def fill_ok_bad same_place_def)
  next
    case 3
    let ?it = "it\<lparr>it_d2 := off + 4, it_d3 := off + 8, it_next_off := off + l\<rparr>"
    let ?tail = "if l2 = 0 \<or> length s \<le> 8 + unat l2 then iter_bad off ?it
      else if unat l \<le> 12 + unat l2 then iter_bad (off + 4) ?it
      else if 8 + unat l2 + unat m \<noteq> unat l then iter_bad (off + 4 + 4 + l2) (?it\<lparr>it_d4 := off + 4 + 4 + l2\<rparr>)
      else Ret (True, ?it\<lparr>it_d4 := off + 4 + 4 + l2\<rparr>)"
    have "iter_fill_codewscope raw len off it = ?tail"
      using 3 c1 c2 c3(2) l14 rd rd4 f(6) c4 c6 c7 rd8 by (simp add: iter_fill_codewscope_def Let_def)
    moreover have "fill_ok s len it
       (if 14 \<le> unat l \<and> unat l < length s \<and> 0 < unat l2 \<and> 12 + unat l2 < unat l \<and>
           8 + unat l2 + unat m = unat l then Some (unat l) else None) ?tail"
      using 3 nz f(1,2,6) c3(1)
      by (auto simp: fill_ok_def iter_bad_def word_less_nat_alt unat_gt_0)
    ultimately show ?thesis by (simp add: l Let_def)
  qed
qed

lemma length_takeWhile_less: "0 \<in> set s \<Longrightarrow> length (takeWhile (\<lambda>b. b \<noteq> (0::byte)) s) < length s"
  by (induction s) auto

lemma cstr_len_less: "cstr_len s = Some i \<Longrightarrow> i < length s"
  by (auto simp: cstr_len_def length_takeWhile_less split: if_splits)

lemma fill_regex:
  assumes ctx: "fill_ctx raw len off it s"
  shows "fill_ok s len it
     (case cstr_len s of None \<Rightarrow> None
      | Some i \<Rightarrow> (case cstr_len (drop (i + 1) s) of None \<Rightarrow> None
         | Some j \<Rightarrow> if i + j + 2 < length s then Some (i + j + 2) else None))
     (iter_fill_regex raw len off it)"
proof -
  note f = fill_ctx_facts [OF ctx]
  have le: "unat len \<le> length raw" and s: "s = drop (unat off) (take (unat len) raw)"
    using ctx by (auto simp: fill_ctx_def)
  show ?thesis
  proof (cases "cstr_len s")
    case None
    then have "scan_nul raw off len = Ret None"
      by (simp add: scan_nul_spec [OF le] cstr_len_def s Let_def split: if_splits)
    with None f show ?thesis by (auto simp: iter_fill_regex_def fill_rules)
  next
    case (Some i)
    then have i: "i < length s" "scan_nul raw off len = Ret (Some (off + of_nat i))"
      by (auto simp: scan_nul_spec [OF le] cstr_len_def s [symmetric] Let_def split: if_splits
          intro!: length_takeWhile_less)
    have ui: "unat (off + of_nat i) = unat off + i" "unat (off + of_nat i + 1) = unat off + i + 1"
      using i(1) f by (simp_all add: unat_add_small unat_of_nat)
    have s': "drop (unat (off + of_nat i + 1)) (take (unat len) raw) = drop (i + 1) s"
      by (simp only: ui(2) s drop_drop) (simp add: add.commute)
    show ?thesis
    proof (cases "cstr_len (drop (i + 1) s)")
      case None
      then have "scan_nul raw (off + of_nat i + 1) len = Ret None"
        using s' by (simp add: scan_nul_spec [OF le] cstr_len_def Let_def split: if_splits)
      with None Some i f show ?thesis by (auto simp: iter_fill_regex_def fill_rules)
    next
      case j: (Some j)
      note jl = cstr_len_less [OF j]
      then have j': "scan_nul raw (off + of_nat i + 1) len = Ret (Some (off + of_nat i + 1 + of_nat j))"
        using s' j by (auto simp: scan_nul_spec [OF le] cstr_len_def Let_def split: if_splits)
      have uj: "unat (off + of_nat i + 1 + of_nat j + 1) = unat off + i + j + 2"
        using jl f by (simp add: unat_add_small ui unat_of_nat)
      have "len \<le> off + of_nat i + 1 + of_nat j + 1 \<longleftrightarrow> length s \<le> i + j + 2"
        unfolding word_le_nat_alt uj using f i(1) jl by auto
      with Some i j j' uj f show ?thesis
        by (auto simp: iter_fill_regex_def fill_rules)
    qed
  qed
qed

lemma fill_fixed:
  assumes ctx: "fill_ctx raw len off it s" and n: "unat k = n" "n < 2147483648"
  shows "fill_ok s len it (if n < length s then Some n else None) (iter_good (off + k) it)"
  using fill_ctx_facts [OF ctx] off_add [OF ctx, of k] n
  by (auto simp: word_le_nat_alt intro!: fill_ok_good fill_ok_long simp: same_place_def)

definition switch_ok :: "byte list \<Rightarrow> u32 \<Rightarrow> bson_iter \<Rightarrow> nat option \<Rightarrow> (bool \<times> bool \<times> bson_iter) outcome \<Rightarrow> bool" where
  "switch_ok s len it sz r \<longleftrightarrow>
     (\<exists>u b it'. r = Ret (u, b, it') \<and> fill_ok s len it sz (Ret (b, it')) \<and> (u \<longrightarrow> \<not> b))"

lemma switch_ok_if:
  "(c \<Longrightarrow> switch_ok s len it x a) \<Longrightarrow> (\<not> c \<Longrightarrow> switch_ok s len it y b) \<Longrightarrow>
   switch_ok s len it (if c then x else y) (if c then a else b)"
  by simp

lemma switch_ok_case:
  assumes "fill_ok s len it sz m"
  shows "switch_ok s len it sz (cbind m (\<lambda>(b, it). Ret (u \<and> \<not> b, b, it)))"
proof -
  from assms obtain b it' where "m = Ret (b, it')" by (auto simp: fill_ok_def)
  with assms show ?thesis by (simp add: switch_ok_def)
qed

lemma fill_switch:
  assumes ctx: "fill_ctx raw len off it s"
  shows "switch_ok s len it (payload_size t s) (iter_fill_switch t raw len off it)"
proof -
  note sc = switch_ok_case [where u = False, simplified]
  have bad: "switch_ok s len it None (cbind (iter_bad off it) (\<lambda>(b, it). Ret (t \<noteq> BSON_TYPE_EOD, b, it)))"
    using fill_ok_bad [OF fill_ctx_facts(2) [OF ctx], of it it s len]
    by (auto simp: same_place_def switch_ok_def iter_bad_def)
  show ?thesis
    unfolding iter_fill_switch_def payload_size_def Let_def
    by (intro switch_ok_if sc bad fill_fixed [OF ctx, of 8, simplified] fill_utf8 [OF ctx, unfolded Let_def]
        fill_binary [OF ctx, unfolded Let_def] fill_document [OF ctx]
        fill_fixed [OF ctx, of 12, simplified] fill_bool [OF ctx] fill_regex [OF ctx]
        fill_dbpointer [OF ctx, unfolded Let_def] fill_codewscope [OF ctx, unfolded Let_def]
        fill_fixed [OF ctx, of 4, simplified] fill_fixed [OF ctx, of 16, simplified]
        fill_fixed [OF ctx, of 0, simplified]) simp_all
qed

text \<open>What a step does, read off the document \<open>D\<close> (the first \<open>len\<close> bytes of the memory).\<close>

datatype element_view = View_end | View_bad | View_elem nat nat

text \<open>\<open>View_elem k n\<close>: an element with a key of \<open>k\<close> bytes and a value of \<open>n\<close> bytes.\<close>

definition step_view :: "byte list \<Rightarrow> nat \<Rightarrow> element_view" where
  "step_view D p = (case cstr_len (drop (p + 1) D) of
       None \<Rightarrow> View_end
     | Some k \<Rightarrow> (case payload_size (D ! p) (drop (p + k + 2) D) of
         None \<Rightarrow> View_bad | Some n \<Rightarrow> View_elem k n))"

definition iter_ok :: "bson_iter \<Rightarrow> bool" where
  "iter_ok it \<longleftrightarrow> (case it_raw it of None \<Rightarrow> True
     | Some data \<Rightarrow> unat (it_len it) \<le> length data \<and> unat (it_len it) \<le> INT32_MAX \<and>
         4 \<le> unat (it_next_off it) \<and> unat (it_next_off it) \<le> INT32_MAX)"

definition iter_doc :: "bson_iter \<Rightarrow> byte list" where
  "iter_doc it = (case it_raw it of None \<Rightarrow> [] | Some data \<Rightarrow> take (unat (it_len it)) data)"

text \<open>The iterator stands on the element at \<open>p\<close>.\<close>

definition iter_at :: "byte list \<Rightarrow> u32 \<Rightarrow> nat \<Rightarrow> nat \<Rightarrow> nat \<Rightarrow> bson_iter \<Rightarrow> bool" where
  "iter_at data len p k n it \<longleftrightarrow> it_raw it = Some data \<and> it_len it = len \<and> unat (it_off it) = p \<and>
     unat (it_type it) = p \<and> unat (it_key it) = p + 1 \<and> unat (it_d1 it) = p + k + 2 \<and>
     unat (it_next_off it) = p + k + 2 + n \<and> p + k + 2 + n < unat len \<and> it_err_off it = 0"

definition step_ok :: "bson_iter \<Rightarrow> byte list \<Rightarrow> iter_out \<Rightarrow> element_view \<Rightarrow> (bool \<times> bson_iter \<times> iter_out) outcome \<Rightarrow> bool" where
  "step_ok it data out v r \<longleftrightarrow> (\<exists>b it' out'. r = Ret (b, it', out') \<and> (case v of
       View_end \<Rightarrow> \<not> b \<and> it_raw it' = None \<and> it_err_off it' = it_err_off it \<and>
         out' = out\<lparr>io_unsupported := False\<rparr>
     | View_bad \<Rightarrow> \<not> b \<and> it_raw it' = None \<and> it_err_off it' \<noteq> 0 \<and>
         io_key out' = Some (drop (unat (it_next_off it) + 1) data) \<and>
         io_type out' = data ! unat (it_next_off it)
     | View_elem k n \<Rightarrow> b \<and> iter_at data (it_len it) (unat (it_next_off it)) k n it' \<and>
         out' = \<lparr>io_key = Some (drop (unat (it_next_off it) + 1) data),
                 io_type = data ! unat (it_next_off it), io_unsupported = False\<rparr>))"

lemma next_internal_view:
  assumes raw: "it_raw it = Some data" and ok: "iter_ok it"
  shows "step_ok it data out (step_view (iter_doc it) (unat (it_next_off it)))
     (bson_iter_next_internal it 0 out)"
proof -
  let ?D = "take (unat (it_len it)) data" and ?p = "unat (it_next_off it)"
  have b: "unat (it_len it) \<le> length data" "unat (it_len it) < 2147483648" "4 \<le> ?p" "?p < 2147483648"
    using ok raw by (auto simp: iter_ok_def INT32_MAX_def)
  have D: "iter_doc it = ?D" by (simp add: iter_doc_def raw)
  have key: "unat (it_next_off it + 1) = ?p + 1" using b by (simp add: unat_add_small)
  note scan = scan_nul_spec [OF b(1), of "it_next_off it + 1", unfolded Let_def key]
  show ?thesis
  proof (cases "cstr_len (drop (?p + 1) ?D)")
    case None
    then have "scan_nul data (it_next_off it + 1) (it_len it) = Ret None"
      by (simp add: scan cstr_len_def split: if_splits)
    with None raw show ?thesis
      by (auto simp: step_ok_def step_view_def D bson_iter_next_internal_def Let_def mark_invalid_def)
  next
    case (Some k)
    from cstr_len_less [OF Some] have k: "?p + 1 + k < unat (it_len it)" using b by simp
    define off where "off = it_next_off it + 1 + of_nat k + 1"
    from Some have sc: "scan_nul data (it_next_off it + 1) (it_len it) = Ret (Some (off - 1))"
      by (auto simp: scan cstr_len_def off_def split: if_splits)
    have off: "unat off = ?p + k + 2"
      using k b key by (simp add: off_def unat_add_small unat_of_nat)
    define it1 where "it1 = it\<lparr>it_off := it_next_off it, it_type := it_next_off it,
      it_key := it_next_off it + 1, it_d2 := 0, it_d3 := 0, it_d4 := 0, it_d1 := off\<rparr>"
    have ctx: "fill_ctx data (it_len it) off it1 (drop (?p + k + 2) ?D)"
      using k b off by (auto simp: fill_ctx_def it1_def INT32_MAX_def)
    have t: "ITER_TYPE it1 = Ret (data ! ?p)"
      using k b raw by (simp add: ITER_TYPE_def iter_mem_def it1_def rd8_def)
    have tD: "?D ! ?p = data ! ?p" using k by simp
    from fill_switch [OF ctx, of "data ! ?p"] obtain u f it2 where
      sw: "iter_fill_switch (data ! ?p) data (it_len it) off it1 = Ret (u, f, it2)" and
      fo: "fill_ok (drop (?p + k + 2) ?D) (it_len it) it1 (payload_size (data ! ?p) (drop (?p + k + 2) ?D))
            (Ret (f, it2))" and u: "u \<longrightarrow> \<not> f"
      by (auto simp: switch_ok_def)
    have red: "bson_iter_next_internal it 0 out = 
      (let out = \<lparr>io_key = Some (drop (?p + 1) data), io_type = data ! ?p, io_unsupported = u\<rparr> in
       if \<not> f then Ret (False, mark_invalid it2, out)
       else if it_len it \<le> it_next_off it2
       then Ret (False, mark_invalid (it2\<lparr>it_err_off := (if data ! ?p = BSON_TYPE_REGEX then it_next_off it2 - 1 else off)\<rparr>), out)
       else Ret (True, it2\<lparr>it_err_off := 0\<rparr>, out))"
      using raw sc t sw key
      by (cases out) (simp add: bson_iter_next_internal_def Let_def it1_def)
    have nz: "off \<noteq> 0" using off by auto
    have nz2: "it_next_off it2 - 1 \<noteq> 0" if "it_len it \<le> it_next_off it2"
    proof -
      have "2 \<le> unat (it_next_off it2)" using that k b by (simp add: word_le_nat_alt)
      then have "0 < unat (it_next_off it2 - 1)" by (simp add: unat_diff_1)
      then show ?thesis by auto
    qed
    show ?thesis
    proof (cases "payload_size (data ! ?p) (drop (?p + k + 2) ?D)")
      case None
      with Some tD have v: "step_view ?D ?p = View_bad" by (simp add: step_view_def)
      from None fo nz nz2 show ?thesis
        by (auto simp: D v step_ok_def red Let_def fill_ok_def mark_invalid_def split: if_splits)
    next
      case (Some n)
      with \<open>cstr_len _ = _\<close> tD have v: "step_view ?D ?p = View_elem k n" by (simp add: step_view_def)
      from Some fo u off show ?thesis
        by (auto simp: D v step_ok_def red Let_def fill_ok_def iter_at_def it1_def key raw word_less_nat_alt
            word_le_nat_alt)
    qed
  qed
qed

section \<open>Where the parts of a value lie\<close>

text \<open>The offsets \<open>d2\<close>, \<open>d3\<close> and \<open>d4\<close> of the types whose value has several parts.\<close>

definition iter_layout :: "byte list \<Rightarrow> byte \<Rightarrow> bson_iter \<Rightarrow> bool" where
  "iter_layout data t it \<longleftrightarrow>
     (if t \<in> {BSON_TYPE_CODE, BSON_TYPE_SYMBOL, BSON_TYPE_UTF8} then it_d2 it = it_d1 it + 4
      else if t = BSON_TYPE_BINARY then it_d2 it = it_d1 it + 4 \<and> it_d3 it = it_d1 it + 5
      else if t = BSON_TYPE_REGEX then
        (\<exists>p. scan_nul data (it_d1 it) (it_len it) = Ret (Some p) \<and> it_d2 it = p + 1)
      else if t = BSON_TYPE_DBPOINTER then
        (\<exists>l. rd32 data (unat (it_d1 it)) = Ret l \<and> it_d2 it = it_d1 it + 4 \<and> it_d3 it = it_d1 it + 4 + l)
      else if t = BSON_TYPE_CODEWSCOPE then
        (\<exists>l. rd32 data (unat (it_d1 it + 4)) = Ret l \<and> it_d2 it = it_d1 it + 4 \<and>
           it_d3 it = it_d1 it + 8 \<and> it_d4 it = it_d1 it + 4 + 4 + l)
      else True)"

lemmas fill_unfold = Let_def iter_good_def iter_bad_def

lemma layout_utf8: "iter_fill_utf8 data len off it = Ret (True, it') \<Longrightarrow> it_d1 it = off \<Longrightarrow>
    it_d2 it' = off + 4 \<and> it_d1 it' = off \<and> it_len it' = it_len it"
  by (auto simp: iter_fill_utf8_def fill_unfold split: if_splits)

lemma layout_binary: "iter_fill_binary data len off it = Ret (True, it') \<Longrightarrow> it_d1 it = off \<Longrightarrow>
    it_d2 it' = off + 4 \<and> it_d3 it' = off + 5 \<and> it_d1 it' = off \<and> it_len it' = it_len it"
  by (auto simp: iter_fill_binary_def fill_unfold split: if_splits)

lemma layout_regex: "iter_fill_regex data len off it = Ret (True, it') \<Longrightarrow> it_d1 it = off \<Longrightarrow>
    \<exists>p. scan_nul data off len = Ret (Some p) \<and> it_d2 it' = p + 1 \<and> it_d1 it' = off \<and> it_len it' = it_len it"
  by (auto simp: iter_fill_regex_def fill_unfold split: if_splits option.splits)

lemma layout_dbpointer: "iter_fill_dbpointer data len off it = Ret (True, it') \<Longrightarrow> it_d1 it = off \<Longrightarrow>
    \<exists>l. rd32 data (unat off) = Ret l \<and> it_d2 it' = off + 4 \<and> it_d3 it' = off + 4 + l \<and> it_d1 it' = off \<and> it_len it' = it_len it"
  by (auto simp: iter_fill_dbpointer_def fill_unfold split: if_splits)

lemma layout_codewscope: "iter_fill_codewscope data len off it = Ret (True, it') \<Longrightarrow> it_d1 it = off \<Longrightarrow>
    \<exists>l. rd32 data (unat (off + 4)) = Ret l \<and> it_d2 it' = off + 4 \<and> it_d3 it' = off + 8 \<and>
      it_d4 it' = off + 4 + 4 + l \<and> it_d1 it' = off \<and> it_len it' = it_len it"
  by (auto simp: iter_fill_codewscope_def fill_unfold split: if_splits)

lemma cbind_switch:
  "cbind m (\<lambda>(b, it). Ret (False, b, it)) = Ret (u, True, it') \<Longrightarrow> m = Ret (True, it')"
  by auto

lemma switch_layout:
  assumes sw: "iter_fill_switch t data len off it = Ret (u, True, it')" and d: "it_d1 it = off" "it_len it = len"
  shows "iter_layout data t it'"
proof (cases "t \<in> {BSON_TYPE_CODE, BSON_TYPE_SYMBOL, BSON_TYPE_UTF8, BSON_TYPE_BINARY, BSON_TYPE_REGEX,
    BSON_TYPE_DBPOINTER, BSON_TYPE_CODEWSCOPE}")
  case True
  then consider "t \<in> {BSON_TYPE_CODE, BSON_TYPE_SYMBOL, BSON_TYPE_UTF8}" "iter_fill_utf8 data len off it = Ret (True, it')"
    | "t = BSON_TYPE_BINARY" "iter_fill_binary data len off it = Ret (True, it')"
    | "t = BSON_TYPE_REGEX" "iter_fill_regex data len off it = Ret (True, it')"
    | "t = BSON_TYPE_DBPOINTER" "iter_fill_dbpointer data len off it = Ret (True, it')"
    | "t = BSON_TYPE_CODEWSCOPE" "iter_fill_codewscope data len off it = Ret (True, it')"
    using sw by (auto simp: iter_fill_switch_def Let_def bson_type_defs dest!: cbind_switch)
  then show ?thesis
  proof cases
    case 1
    from layout_utf8 [OF 1(2) d(1)] 1(1) show ?thesis by (auto simp: iter_layout_def)
  next
    case 2
    from layout_binary [OF 2(2) d(1)] 2(1) show ?thesis by (simp add: iter_layout_def bson_type_defs)
  next
    case 3
    from layout_regex [OF 3(2) d(1)] 3(1) d show ?thesis by (simp add: iter_layout_def bson_type_defs) metis
  next
    case 4
    from layout_dbpointer [OF 4(2) d(1)] 4(1) show ?thesis by (simp add: iter_layout_def bson_type_defs) metis
  next
    case 5
    from layout_codewscope [OF 5(2) d(1)] 5(1) show ?thesis by (simp add: iter_layout_def bson_type_defs) metis
  qed
qed (simp add: iter_layout_def)

lemma iter_layout_err_off [simp]: "iter_layout data t (it\<lparr>it_err_off := e\<rparr>) = iter_layout data t it"
  by (simp add: iter_layout_def)

lemma next_layout:
  assumes "bson_iter_next it = Ret (True, it')" "it_raw it = Some data"
  shows "iter_layout data (data ! unat (it_next_off it)) it'"
  using assms
  by (auto simp: bson_iter_next_def bson_iter_next_internal_def Let_def ITER_TYPE_def iter_mem_def rd8_def
      split: if_splits option.splits prod.splits dest!: switch_layout)

end
