(* ===== verification/Bson_Iter_Grammar.thy ===== *)
theory Bson_Iter_Grammar
  imports Bson_Iter_Step
begin

text \<open>
  The layout of a BSON document as a grammar, \<open>payload_ok\<close> for the bytes of a value of each type,
  and the proof that the sizes the iterator computes (\<open>payload_size\<close>) are exactly the sizes of
  well-formed values. The one exception, carried through the statements, is an embedded document
  whose length field is below 4.
\<close>


section \<open>The grammar of a document\<close>

definition payload_ok :: "byte \<Rightarrow> byte list \<Rightarrow> bool" where
  "payload_ok t p \<longleftrightarrow>
     (if t \<in> {BSON_TYPE_DATE_TIME, BSON_TYPE_DOUBLE, BSON_TYPE_INT64, BSON_TYPE_TIMESTAMP}
        then length p = 8
      else if t \<in> {BSON_TYPE_CODE, BSON_TYPE_SYMBOL, BSON_TYPE_UTF8} then
        (\<exists>str. p = le32 (of_nat (length str + 1)) @ str @ [0])
      else if t = BSON_TYPE_BINARY then
        (\<exists>sub bs. sub \<noteq> BSON_SUBTYPE_BINARY_DEPRECATED \<and> p = le32 (of_nat (length bs)) @ [sub] @ bs) \<or>
        (\<exists>bs. p = le32 (of_nat (length bs + 4)) @ [BSON_SUBTYPE_BINARY_DEPRECATED] @
                  le32 (of_nat (length bs)) @ bs)
      else if t \<in> {BSON_TYPE_ARRAY, BSON_TYPE_DOCUMENT} then
        4 \<le> length p \<and> take 4 p = le32 (of_nat (length p))
      else if t = BSON_TYPE_OID then length p = 12
      else if t = BSON_TYPE_BOOL then p \<in> {[0], [1]}
      else if t = BSON_TYPE_REGEX then
        (\<exists>re opts. 0 \<notin> set re \<and> 0 \<notin> set opts \<and> p = re @ [0] @ opts @ [0])
      else if t = BSON_TYPE_DBPOINTER then
        (\<exists>str oid. length oid = 12 \<and> p = le32 (of_nat (length str + 1)) @ str @ [0] @ oid)
      else if t = BSON_TYPE_CODEWSCOPE then
        (\<exists>code doc. code \<noteq> [] \<and> 5 \<le> length doc \<and> take 4 doc = le32 (of_nat (length doc)) \<and>
           p = le32 (of_nat (length p)) @ le32 (of_nat (length code)) @ code @ doc)
      else if t = BSON_TYPE_INT32 then length p = 4
      else if t = BSON_TYPE_DECIMAL128 then length p = 16
      else if t \<in> {BSON_TYPE_MAXKEY, BSON_TYPE_MINKEY, BSON_TYPE_NULL, BSON_TYPE_UNDEFINED} then p = []
      else False)"

lemma len_at_le32: "n < 4294967296 \<Longrightarrow> length xs = i \<Longrightarrow> len_at (xs @ le32 (of_nat n) @ ys) i = n"
  by (simp add: len_at_def unat_of_nat)

lemma len_at_le32_0: "n < 4294967296 \<Longrightarrow> len_at (le32 (of_nat n) @ ys) 0 = n"
  using len_at_le32 [of n "[]"] by simp

lemma le32_len_at: "i + 4 \<le> length s \<Longrightarrow> le32 (of_nat (len_at s i)) = take 4 (drop i s)"
  by (simp add: len_at_def le32_from_le)

lemma cstr_len_append: "0 \<notin> set str \<Longrightarrow> cstr_len (str @ 0 # rest) = Some (length str)"
  by (simp add: cstr_len_def takeWhile_terminated)

text \<open>The two definitions, type by type.\<close>

definition fits :: "nat \<Rightarrow> byte list \<Rightarrow> nat option" where
  "fits n s = (if n < length s then Some n else None)"

lemma payload_size_simps:
  "payload_size BSON_TYPE_DATE_TIME s = fits 8 s" "payload_size BSON_TYPE_DOUBLE s = fits 8 s"
  "payload_size BSON_TYPE_INT64 s = fits 8 s" "payload_size BSON_TYPE_TIMESTAMP s = fits 8 s"
  "payload_size BSON_TYPE_OID s = fits 12 s" "payload_size BSON_TYPE_INT32 s = fits 4 s"
  "payload_size BSON_TYPE_DECIMAL128 s = fits 16 s" "payload_size BSON_TYPE_MAXKEY s = fits 0 s"
  "payload_size BSON_TYPE_MINKEY s = fits 0 s" "payload_size BSON_TYPE_NULL s = fits 0 s"
  "payload_size BSON_TYPE_UNDEFINED s = fits 0 s"
  "payload_size BSON_TYPE_CODE s = payload_size BSON_TYPE_UTF8 s"
  "payload_size BSON_TYPE_SYMBOL s = payload_size BSON_TYPE_UTF8 s"
  "payload_size BSON_TYPE_ARRAY s = payload_size BSON_TYPE_DOCUMENT s"
  "payload_size BSON_TYPE_BOOL s = (if s ! 0 \<in> {0, 1} then fits 1 s else None)"
  by (simp_all add: payload_size_def bson_type_defs Let_def fits_def)

lemma payload_ok_simps:
  "payload_ok BSON_TYPE_DATE_TIME p \<longleftrightarrow> length p = 8" "payload_ok BSON_TYPE_DOUBLE p \<longleftrightarrow> length p = 8"
  "payload_ok BSON_TYPE_INT64 p \<longleftrightarrow> length p = 8" "payload_ok BSON_TYPE_TIMESTAMP p \<longleftrightarrow> length p = 8"
  "payload_ok BSON_TYPE_OID p \<longleftrightarrow> length p = 12" "payload_ok BSON_TYPE_INT32 p \<longleftrightarrow> length p = 4"
  "payload_ok BSON_TYPE_DECIMAL128 p \<longleftrightarrow> length p = 16" "payload_ok BSON_TYPE_MAXKEY p \<longleftrightarrow> p = []"
  "payload_ok BSON_TYPE_MINKEY p \<longleftrightarrow> p = []" "payload_ok BSON_TYPE_NULL p \<longleftrightarrow> p = []"
  "payload_ok BSON_TYPE_UNDEFINED p \<longleftrightarrow> p = []"
  "payload_ok BSON_TYPE_CODE p \<longleftrightarrow> payload_ok BSON_TYPE_UTF8 p"
  "payload_ok BSON_TYPE_SYMBOL p \<longleftrightarrow> payload_ok BSON_TYPE_UTF8 p"
  "payload_ok BSON_TYPE_ARRAY p \<longleftrightarrow> payload_ok BSON_TYPE_DOCUMENT p"
  "payload_ok BSON_TYPE_BOOL p \<longleftrightarrow> p = [0] \<or> p = [1]"
  by (simp_all add: payload_ok_def bson_type_defs)

lemma payload_ok_structured:
  "payload_ok BSON_TYPE_UTF8 p \<longleftrightarrow> (\<exists>str. p = le32 (of_nat (length str + 1)) @ str @ [0])"
  "payload_ok BSON_TYPE_BINARY p \<longleftrightarrow>
     (\<exists>sub bs. sub \<noteq> BSON_SUBTYPE_BINARY_DEPRECATED \<and> p = le32 (of_nat (length bs)) @ [sub] @ bs) \<or>
     (\<exists>bs. p = le32 (of_nat (length bs + 4)) @ [BSON_SUBTYPE_BINARY_DEPRECATED] @
               le32 (of_nat (length bs)) @ bs)"
  "payload_ok BSON_TYPE_DOCUMENT p \<longleftrightarrow> 4 \<le> length p \<and> take 4 p = le32 (of_nat (length p))"
  "payload_ok BSON_TYPE_REGEX p \<longleftrightarrow> (\<exists>re opts. 0 \<notin> set re \<and> 0 \<notin> set opts \<and> p = re @ [0] @ opts @ [0])"
  "payload_ok BSON_TYPE_DBPOINTER p \<longleftrightarrow>
     (\<exists>str oid. length oid = 12 \<and> p = le32 (of_nat (length str + 1)) @ str @ [0] @ oid)"
  "payload_ok BSON_TYPE_CODEWSCOPE p \<longleftrightarrow>
     (\<exists>code doc. code \<noteq> [] \<and> 5 \<le> length doc \<and> take 4 doc = le32 (of_nat (length doc)) \<and>
        p = le32 (of_nat (length p)) @ le32 (of_nat (length code)) @ code @ doc)"
  by (simp_all only: payload_ok_def) (simp_all add: bson_type_defs)

text \<open>Case analysis on a type code: the fixed layouts, the structured ones, and the rest.\<close>

definition fixed_types :: "byte list" where
  "fixed_types = [BSON_TYPE_DATE_TIME, BSON_TYPE_DOUBLE, BSON_TYPE_INT64, BSON_TYPE_TIMESTAMP,
     BSON_TYPE_OID, BSON_TYPE_INT32, BSON_TYPE_DECIMAL128, BSON_TYPE_MAXKEY, BSON_TYPE_MINKEY,
     BSON_TYPE_NULL, BSON_TYPE_UNDEFINED, BSON_TYPE_BOOL]"

lemma type_cases:
  obtains (fixed) "t \<in> set fixed_types"
  | (str) "t \<in> {BSON_TYPE_CODE, BSON_TYPE_SYMBOL, BSON_TYPE_UTF8}" | (bin) "t = BSON_TYPE_BINARY"
  | (doc) "t \<in> {BSON_TYPE_ARRAY, BSON_TYPE_DOCUMENT}" | (re) "t = BSON_TYPE_REGEX"
  | (ptr) "t = BSON_TYPE_DBPOINTER" | (cws) "t = BSON_TYPE_CODEWSCOPE"
  | (none) "\<And>s. payload_size t s = None" "\<And>p. \<not> payload_ok t p"
proof (cases "t \<in> set fixed_types \<or> t \<in> {BSON_TYPE_CODE, BSON_TYPE_SYMBOL, BSON_TYPE_UTF8} \<or>
    t = BSON_TYPE_BINARY \<or> t \<in> {BSON_TYPE_ARRAY, BSON_TYPE_DOCUMENT} \<or> t = BSON_TYPE_REGEX \<or>
    t = BSON_TYPE_DBPOINTER \<or> t = BSON_TYPE_CODEWSCOPE")
  case False
  then have "payload_size t s = None" "\<not> payload_ok t p" for s p
    by (simp_all only: payload_size_def payload_ok_def Let_def) (simp_all add: fixed_types_def)
  then show ?thesis by (rule none)
qed (use that in blast)

lemma fixed_complete:
  "t \<in> set fixed_types \<Longrightarrow> payload_ok t p \<Longrightarrow> rest \<noteq> [] \<Longrightarrow> payload_size t (p @ rest) = Some (length p)"
  by (auto simp: fixed_types_def payload_ok_simps payload_size_simps fits_def)

lemma fixed_sound:
  "t \<in> set fixed_types \<Longrightarrow> payload_size t s = Some n \<Longrightarrow> n < length s \<and> payload_ok t (take n s)"
  by (cases s) (auto simp: fixed_types_def payload_ok_simps payload_size_simps fits_def split: if_splits)

lemma size_utf8:
  assumes "length str + 1 < 4294967296" "rest \<noteq> []"
  shows "payload_size BSON_TYPE_UTF8 ((le32 (of_nat (length str + 1)) @ str @ [0]) @ rest) = Some (length str + 5)"
  using assms len_at_le32_0 [of "length str + 1" "str @ [0] @ rest"]
  by (auto simp: payload_size_def nth_append bson_type_defs Let_def simp del: of_nat_add of_nat_Suc)

lemma size_binary:
  assumes "length bs < 4294967296" "sub \<noteq> BSON_SUBTYPE_BINARY_DEPRECATED" "rest \<noteq> []"
  shows "payload_size BSON_TYPE_BINARY ((le32 (of_nat (length bs)) @ [sub] @ bs) @ rest) = Some (length bs + 5)"
  using assms len_at_le32_0 [of "length bs" "[sub] @ bs @ rest"]
  by (simp add: payload_size_def nth_append bson_type_defs Let_def)

lemma size_binary_deprecated:
  assumes "length bs + 4 < 4294967296" "rest \<noteq> []"
  shows "payload_size BSON_TYPE_BINARY ((le32 (of_nat (length bs + 4)) @ [BSON_SUBTYPE_BINARY_DEPRECATED] @
           le32 (of_nat (length bs)) @ bs) @ rest) = Some (length bs + 9)"
proof -
  let ?s = "(le32 (of_nat (length bs + 4)) @ [BSON_SUBTYPE_BINARY_DEPRECATED] @ le32 (of_nat (length bs)) @ bs) @ rest"
  have "len_at ?s 0 = length bs + 4"
    using assms len_at_le32_0 [of "length bs + 4" "[BSON_SUBTYPE_BINARY_DEPRECATED] @ le32 (of_nat (length bs)) @ bs @ rest"]
    by (simp del: of_nat_add)
  moreover have "len_at ?s 5 = length bs"
    using assms len_at_le32 [of "length bs" "le32 (of_nat (length bs + 4)) @ [BSON_SUBTYPE_BINARY_DEPRECATED]" 5 "bs @ rest"]
    by (simp del: of_nat_add)
  ultimately show ?thesis using assms
    by (auto simp: payload_size_def nth_append bson_type_defs Let_def simp del: of_nat_add)
qed

lemma size_document:
  assumes "take 4 p = le32 (of_nat (length p))" "4 \<le> length p" "length p < 4294967296" "rest \<noteq> []"
  shows "payload_size BSON_TYPE_DOCUMENT (p @ rest) = Some (length p)"
proof -
  have "len_at (p @ rest) 0 = length p"
    using assms len_at_le32_0 [of "length p" "drop 4 p @ rest"] append_take_drop_id [of 4 p]
    by (metis append.assoc)
  moreover have "4 < length p + length rest" using assms by (cases rest) auto
  ultimately show ?thesis using assms by (simp add: payload_size_def bson_type_defs Let_def)
qed

lemma size_regex:
  assumes "0 \<notin> set re" "0 \<notin> set opts" "rest \<noteq> []"
  shows "payload_size BSON_TYPE_REGEX ((re @ [0] @ opts @ [0]) @ rest) = Some (length re + length opts + 2)"
  using assms cstr_len_append [of re "opts @ [0] @ rest"] cstr_len_append [of opts rest]
  by (simp add: payload_size_def bson_type_defs Let_def)

lemma size_dbpointer:
  assumes "length str + 1 < 4294967296" "length oid = 12" "rest \<noteq> []"
  shows "payload_size BSON_TYPE_DBPOINTER ((le32 (of_nat (length str + 1)) @ str @ [0] @ oid) @ rest) =
     Some (length str + 17)"
  using assms len_at_le32_0 [of "length str + 1" "str @ [0] @ oid @ rest"]
  by (auto simp: payload_size_def nth_append bson_type_defs Let_def simp del: of_nat_add of_nat_Suc)

lemma size_codewscope:
  assumes "code \<noteq> []" "take 4 doc = le32 (of_nat (length doc))" "5 \<le> length doc"
    "8 + length code + length doc < 4294967296" "rest \<noteq> []"
  shows "payload_size BSON_TYPE_CODEWSCOPE
     ((le32 (of_nat (8 + length code + length doc)) @ le32 (of_nat (length code)) @ code @ doc) @ rest) =
     Some (8 + length code + length doc)"
proof -
  let ?l = "8 + length code + length doc"
  let ?s = "(le32 (of_nat ?l) @ le32 (of_nat (length code)) @ code @ doc) @ rest"
  have "len_at ?s 0 = ?l"
    using assms len_at_le32_0 [of ?l "le32 (of_nat (length code)) @ code @ doc @ rest"] by (simp del: of_nat_add)
  moreover have "len_at ?s 4 = length code"
    using assms len_at_le32 [of "length code" "le32 (of_nat ?l)" 4 "code @ doc @ rest"] by (simp del: of_nat_add)
  moreover have "len_at ?s (8 + length code) = length doc"
  proof -
    have "doc @ rest = le32 (of_nat (length doc)) @ drop 4 doc @ rest"
      using assms append_take_drop_id [of 4 doc] by (metis append.assoc)
    then have "?s = (le32 (of_nat ?l) @ le32 (of_nat (length code)) @ code) @
        le32 (of_nat (length doc)) @ drop 4 doc @ rest" by (simp only: append.assoc)
    then show ?thesis
      using assms len_at_le32 [of "length doc" "le32 (of_nat ?l) @ le32 (of_nat (length code)) @ code"
          "8 + length code" "drop 4 doc @ rest"] by (simp only:) simp
  qed
  moreover have "6 \<le> length code + length doc" using assms by (cases code) auto
  ultimately show ?thesis using assms
    by (simp add: payload_size_def bson_type_defs Let_def del: of_nat_add)
qed

lemma payload_size_complete:
  assumes ok: "payload_ok t p" and rest: "rest \<noteq> []" and max: "length p < 2147483648"
  shows "payload_size t (p @ rest) = Some (length p)"
proof -
  show ?thesis
  proof (cases t rule: type_cases)
    case str
    with ok obtain s where p: "p = le32 (of_nat (length s + 1)) @ s @ [0]"
      by (auto simp: payload_ok_simps payload_ok_structured)
    with str size_utf8 [of s rest] max rest show ?thesis
      by (auto simp: payload_size_simps simp del: of_nat_add of_nat_Suc)
  next
    case bin
    with ok consider sub bs where "sub \<noteq> BSON_SUBTYPE_BINARY_DEPRECATED" "p = le32 (of_nat (length bs)) @ [sub] @ bs"
      | bs where "p = le32 (of_nat (length bs + 4)) @ [BSON_SUBTYPE_BINARY_DEPRECATED] @
                  le32 (of_nat (length bs)) @ bs"
      by (auto simp: payload_ok_simps payload_ok_structured)
    then show ?thesis
      using bin size_binary [of _ _ rest] size_binary_deprecated [of _ rest] max rest
      by cases (auto simp del: of_nat_add)
  next
    case doc
    then have "4 \<le> length p" "take 4 p = le32 (of_nat (length p))"
      using ok by (auto simp: payload_ok_simps payload_ok_structured)
    with doc size_document [of p rest] max rest show ?thesis by (auto simp: payload_size_simps)
  next
    case re
    with ok obtain a b where "0 \<notin> set a" "0 \<notin> set b" "p = a @ [0] @ b @ [0]"
      by (auto simp: payload_ok_simps payload_ok_structured)
    with re size_regex [of a b rest] rest show ?thesis by simp
  next
    case ptr
    with ok obtain str oid where "length oid = 12" "p = le32 (of_nat (length str + 1)) @ str @ [0] @ oid"
      by (auto simp: payload_ok_simps payload_ok_structured)
    with ptr size_dbpointer [of str oid rest] max rest show ?thesis by (simp del: of_nat_add of_nat_Suc)
  next
    case cws
    with ok obtain code d where d: "code \<noteq> []" "5 \<le> length d" "take 4 d = le32 (of_nat (length d))"
      and p: "p = le32 (of_nat (length p)) @ le32 (of_nat (length code)) @ code @ d"
      by (auto simp: payload_ok_simps payload_ok_structured)
    then have "length p = 8 + length code + length d" by (metis add.assoc length_append length_le_bytes numeral_Bit0)
    then have "8 + length code + length d < 4294967296" using max by simp
    note sz = size_codewscope [OF d(1,3,2) this rest, folded \<open>length p = _\<close>, folded p]
    with cws show ?thesis by simp
  next
    case fixed
    from fixed_complete [OF this ok rest] show ?thesis .
  next
    case none
    with ok show ?thesis by simp
  qed
qed

lemma take_split: "i + j \<le> length s \<Longrightarrow> take (i + j) s = take i s @ take j (drop i s)"
  by (simp add: take_add)

lemma take_split_last: "0 < j \<Longrightarrow> i + j \<le> length s \<Longrightarrow>
  take (i + j) s = take i s @ take (j - 1) (drop i s) @ [s ! (i + j - 1)]"
  by (cases j) (simp_all add: take_add take_Suc_conv_app_nth)

lemma len_at_less: "len_at s i < 4294967296"
  by (simp add: len_at_def unat_u32_less)

lemma utf8_sound:
  assumes "payload_size BSON_TYPE_UTF8 s = Some n"
  shows "n < length s \<and> payload_ok BSON_TYPE_UTF8 (take n s)"
proof -
  let ?l = "len_at s 0"
  have l: "0 < ?l" "4 + ?l < length s" "s ! (3 + ?l) = 0" and n: "n = 4 + ?l"
    using assms by (auto simp: payload_size_def bson_type_defs Let_def split: if_splits)
  have "take n s = le32 (of_nat ?l) @ take (?l - 1) (drop 4 s) @ [0]"
    using l n take_split_last [of ?l 4 s] le32_len_at [of 0 s] by (simp add: add.commute)
  moreover have "?l = length (take (?l - 1) (drop 4 s)) + 1" using l by simp
  ultimately show ?thesis using l n by (metis payload_ok_structured(1))
qed

lemma binary_sound:
  assumes "payload_size BSON_TYPE_BINARY s = Some n"
  shows "n < length s \<and> payload_ok BSON_TYPE_BINARY (take n s)"
proof -
  let ?l = "len_at s 0"
  have l: "5 + ?l < length s" and n: "n = 5 + ?l"
    and dep: "s ! 4 = BSON_SUBTYPE_BINARY_DEPRECATED \<Longrightarrow> 4 \<le> ?l \<and> len_at s 5 + 4 = ?l"
    using assms by (auto simp: payload_size_def bson_type_defs Let_def split: if_splits)
  have s5: "take 5 s = le32 (of_nat ?l) @ [s ! 4]"
    using l take_split_last [of 1 4 s] le32_len_at [of 0 s] by simp
  then have t: "take n s = le32 (of_nat ?l) @ [s ! 4] @ take ?l (drop 5 s)"
    using l n take_split [of 5 ?l s] by simp
  show ?thesis
  proof (cases "s ! 4 = BSON_SUBTYPE_BINARY_DEPRECATED")
    case True
    then have d: "?l = len_at s 5 + 4" using dep by simp
    have "take ?l (drop 5 s) = le32 (of_nat (len_at s 5)) @ take (len_at s 5) (drop 9 s)"
      using d l take_split [of 4 "len_at s 5" "drop 5 s"] le32_len_at [of 5 s] by (simp add: add.commute)
    moreover have "length (take (len_at s 5) (drop 9 s)) = len_at s 5" using l d by simp
    ultimately have "take n s = le32 (of_nat (length (take (len_at s 5) (drop 9 s)) + 4)) @
        [BSON_SUBTYPE_BINARY_DEPRECATED] @ le32 (of_nat (length (take (len_at s 5) (drop 9 s)))) @
        take (len_at s 5) (drop 9 s)" using t d True by simp
    then show ?thesis using l n by (metis payload_ok_structured(2))
  next
    case False
    moreover have "length (take ?l (drop 5 s)) = ?l" using l by simp
    ultimately show ?thesis using t l n by (metis payload_ok_structured(2))
  qed
qed

lemma document_sound:
  assumes "payload_size BSON_TYPE_DOCUMENT s = Some n"
  shows "n < length s \<and> (payload_ok BSON_TYPE_DOCUMENT (take n s) \<or> n < 4)"
proof -
  have n: "n = len_at s 0" "n < length s" "4 < length s"
    using assms by (auto simp: payload_size_def bson_type_defs Let_def split: if_splits)
  have "take 4 (take n s) = le32 (of_nat (length (take n s)))" if "4 \<le> n"
    using le32_len_at [of 0 s] n that by (simp add: min_def)
  then show ?thesis using n by (auto simp: payload_ok_structured)
qed

lemma regex_sound:
  assumes "payload_size BSON_TYPE_REGEX s = Some n"
  shows "n < length s \<and> payload_ok BSON_TYPE_REGEX (take n s)"
proof -
  have cstr: "take (i + 1) xs = takeWhile (\<lambda>b. b \<noteq> 0) xs @ [0]" "i < length xs" "i = length (takeWhile (\<lambda>b. b \<noteq> 0) xs)"
    if "cstr_len xs = Some i" for xs i
  proof -
    show "i < length xs" by (rule cstr_len_less [OF that])
    from that have i: "i = length (takeWhile (\<lambda>b. b \<noteq> 0) xs)" by (auto simp: cstr_len_def split: if_splits)
    then show "i = length (takeWhile (\<lambda>b. b \<noteq> 0) xs)" .
    have "xs ! i = 0" using nth_length_takeWhile [of "\<lambda>b. b \<noteq> 0" xs] \<open>i < length xs\<close> i by simp
    then show "take (i + 1) xs = takeWhile (\<lambda>b. b \<noteq> 0) xs @ [0]"
      using \<open>i < length xs\<close> i by (simp add: take_Suc_conv_app_nth takeWhile_eq_take [symmetric])
  qed
  obtain i j where i: "cstr_len s = Some i" and j: "cstr_len (drop (i + 1) s) = Some j"
    and n: "n = i + j + 2" "n < length s"
    using assms by (auto simp: payload_size_def bson_type_defs Let_def split: if_splits option.splits)
  have "take n s = take (i + 1) s @ take (j + 1) (drop (i + 1) s)"
    using n take_split [of "i + 1" "j + 1" s] by (simp add: add.commute add.left_commute)
  also have "\<dots> = takeWhile (\<lambda>b. b \<noteq> 0) s @ [0] @ takeWhile (\<lambda>b. b \<noteq> 0) (drop (i + 1) s) @ [0]"
    by (simp only: cstr(1) [OF i] cstr(1) [OF j] append.assoc)
  finally have "take n s = takeWhile (\<lambda>b. b \<noteq> 0) s @ [0] @ takeWhile (\<lambda>b. b \<noteq> 0) (drop (i + 1) s) @ [0]" .
  moreover have "0 \<notin> set (takeWhile (\<lambda>b. b \<noteq> 0) xs)" for xs :: "byte list" by (auto dest: set_takeWhileD)
  ultimately have "payload_ok BSON_TYPE_REGEX (take n s)" unfolding payload_ok_structured by blast
  with n show ?thesis by simp
qed

lemma dbpointer_sound:
  assumes "payload_size BSON_TYPE_DBPOINTER s = Some n"
  shows "n < length s \<and> payload_ok BSON_TYPE_DBPOINTER (take n s)"
proof -
  let ?l = "len_at s 0"
  have l: "0 < ?l" "16 + ?l < length s" "s ! (3 + ?l) = 0" and n: "n = (4 + ?l) + 12"
    using assms by (auto simp: payload_size_def bson_type_defs Let_def split: if_splits)
  have "take (4 + ?l) s = le32 (of_nat ?l) @ take (?l - 1) (drop 4 s) @ [0]"
    using l take_split_last [of ?l 4 s] le32_len_at [of 0 s] by (simp add: add.commute)
  then have "take n s = le32 (of_nat ?l) @ take (?l - 1) (drop 4 s) @ [0] @ take 12 (drop (4 + ?l) s)"
    using n l take_split [of "4 + ?l" 12 s] by (simp only: append.assoc)
  moreover have "?l = length (take (?l - 1) (drop 4 s)) + 1" "length (take 12 (drop (4 + ?l) s)) = 12"
    using l by auto
  ultimately have "payload_ok BSON_TYPE_DBPOINTER (take n s)"
    unfolding payload_ok_structured
    by (intro exI [of _ "take (?l - 1) (drop 4 s)"] exI [of _ "take 12 (drop (4 + ?l) s)"]) simp
  with l n show ?thesis by simp
qed

lemma codewscope_sound:
  assumes "payload_size BSON_TYPE_CODEWSCOPE s = Some n"
  shows "n < length s \<and> payload_ok BSON_TYPE_CODEWSCOPE (take n s)"
proof -
  let ?c = "len_at s 4" and ?code = "take (len_at s 4) (drop 8 s)"
  let ?d = "take (n - (8 + len_at s 4)) (drop (8 + len_at s 4) s)"
  have l: "n = len_at s 0" "n < length s" "0 < ?c" "12 + ?c < n" "8 + ?c + len_at s (8 + ?c) = n"
    using assms by (auto simp: payload_size_def bson_type_defs Let_def split: if_splits)
  have "take n s = take 4 s @ take 4 (drop 4 s) @ ?code @ ?d"
    using l take_split [of "8 + ?c" "n - (8 + ?c)" s] take_split [of 8 ?c s] take_split [of 4 4 s] by simp
  then have t: "take n s = le32 (of_nat n) @ le32 (of_nat ?c) @ ?code @ ?d"
    using l le32_len_at [of 0 s] le32_len_at [of 4 s] by simp
  have len: "length ?code = ?c" "length ?d = len_at s (8 + ?c)" "?code \<noteq> []" "5 \<le> length ?d"
    "length (take n s) = n" using l by auto
  have "take 4 ?d = take 4 (drop (8 + ?c) s)" using l by (simp add: min_def)
  then have d: "take 4 ?d = le32 (of_nat (length ?d))" using l len(2) le32_len_at [of "8 + ?c" s] by simp
  have "payload_ok BSON_TYPE_CODEWSCOPE (take n s)"
    unfolding payload_ok_structured
    by (rule exI [of _ ?code], rule exI [of _ ?d]) (use len d t in simp)
  with l show ?thesis by simp
qed

lemma payload_size_sound:
  assumes "payload_size t s = Some n"
  shows "n < length s \<and> (payload_ok t (take n s) \<or> t \<in> {BSON_TYPE_ARRAY, BSON_TYPE_DOCUMENT} \<and> n < 4)"
proof (cases t rule: type_cases)
  case fixed
  from fixed_sound [OF this assms] show ?thesis by simp
next
  case str
  then have "payload_size BSON_TYPE_UTF8 s = Some n" "payload_ok t = payload_ok BSON_TYPE_UTF8"
    using assms by (auto simp: payload_size_simps payload_ok_simps fun_eq_iff)
  with utf8_sound show ?thesis by simp
next
  case doc
  then have "payload_size BSON_TYPE_DOCUMENT s = Some n" "payload_ok t = payload_ok BSON_TYPE_DOCUMENT"
    using assms by (auto simp: payload_size_simps payload_ok_simps fun_eq_iff)
  with document_sound doc show ?thesis by auto
qed (use assms binary_sound regex_sound dbpointer_sound codewscope_sound in auto)

end
