(* ===== verification/Bson_Iter_Walk.thy ===== *)
theory Bson_Iter_Walk
  imports Bson_Iter_Grammar
begin

text \<open>
  The iterator over a whole document. A document is a list of elements (type, key, value bytes) in
  the layout \<open>doc_bytes\<close>; a walk with \<open>bson_iter_next\<close> stays inside the document, ends, and ends
  without error exactly on such layouts, yielding their elements. On this rest the lookups by key
  and the in-place updates.
\<close>


section \<open>Documents as lists of elements\<close>

type_synonym bson_elem = "byte \<times> byte list \<times> byte list"

fun enc_elem :: "bson_elem \<Rightarrow> byte list" where
  "enc_elem (t, k, p) = t # k @ 0 # p"

definition enc_elems :: "bson_elem list \<Rightarrow> byte list" where
  "enc_elems es = concat (map enc_elem es)"

definition doc_bytes :: "bson_elem list \<Rightarrow> byte list" where
  "doc_bytes es = le32 (of_nat (length (enc_elems es) + 5)) @ enc_elems es @ [0]"

fun elem_ok :: "bson_elem \<Rightarrow> bool" where
  "elem_ok (t, k, p) \<longleftrightarrow> 0 \<notin> set k \<and> payload_ok t p"

lemma enc_elems_simps [simp]:
  "enc_elems [] = []" "enc_elems (e # es) = enc_elem e @ enc_elems es"
  "enc_elems (es @ fs) = enc_elems es @ enc_elems fs"
  by (simp_all add: enc_elems_def)

lemma step_view_complete:
  assumes "drop p D = enc_elem (t, k, v) @ rest" "elem_ok (t, k, v)" "rest \<noteq> []" "length D < 2147483648"
  shows "step_view D p = View_elem (length k) (length v)"
proof -
  have "D ! p = t" using assms(1) by (metis enc_elem.simps append_Cons hd_drop_conv_nth list.sel(1)
        drop_all linorder_not_le list.distinct(1))
  moreover have "drop (p + 1) D = k @ 0 # (v @ rest)"
    using assms(1) drop_drop [of 1 p D] by (simp add: add.commute)
  moreover from this have "drop (p + length k + 2) D = v @ rest"
    using drop_drop [of "length k + 1" "p + 1" D] by (simp add: add.commute add.left_commute)
  moreover have "length v < 2147483648"
    using arg_cong [OF assms(1), of length] assms(4) by simp
  ultimately show ?thesis
    using assms payload_size_complete [of t v rest] by (simp add: step_view_def cstr_len_append)
qed

lemma cstr_len_SomeD:
  assumes "cstr_len xs = Some i"
  shows "i < length xs" "xs ! i = 0" "0 \<notin> set (take i xs)" "xs = take i xs @ 0 # drop (i + 1) xs"
proof -
  from assms have i: "i = length (takeWhile (\<lambda>b. b \<noteq> 0) xs)" by (auto simp: cstr_len_def split: if_splits)
  show lt: "i < length xs" by (rule cstr_len_less [OF assms])
  show z: "xs ! i = 0" using nth_length_takeWhile [of "\<lambda>b. b \<noteq> 0" xs] lt i by simp
  show "0 \<notin> set (take i xs)" unfolding i takeWhile_eq_take [symmetric] by (auto dest: set_takeWhileD)
  show "xs = take i xs @ 0 # drop (i + 1) xs" using id_take_nth_drop [OF lt] z by simp
qed

definition elem_at :: "byte list \<Rightarrow> nat \<Rightarrow> nat \<Rightarrow> nat \<Rightarrow> bson_elem" where
  "elem_at D p k n = (D ! p, take k (drop (p + 1) D), take n (drop (p + k + 2) D))"

definition short_doc :: "bson_elem \<Rightarrow> bool" where
  "short_doc e \<longleftrightarrow> fst e \<in> {BSON_TYPE_ARRAY, BSON_TYPE_DOCUMENT} \<and> length (snd (snd e)) < 4"

lemma step_view_sound:
  assumes v: "step_view D p = View_elem k n"
  shows "p + k + 2 + n < length D" "drop p D = enc_elem (elem_at D p k n) @ drop (p + k + 2 + n) D"
    "elem_ok (elem_at D p k n) \<or> short_doc (elem_at D p k n)"
proof -
  from v have c: "cstr_len (drop (p + 1) D) = Some k"
    and sz: "payload_size (D ! p) (drop (p + k + 2) D) = Some n"
    by (auto simp: step_view_def split: option.splits)
  note k = cstr_len_SomeD [OF c]
  note n = payload_size_sound [OF sz]
  have "n < length D - (p + k + 2)" using n by simp
  then show lt: "p + k + 2 + n < length D" by linarith
  have "drop p D = D ! p # drop (p + 1) D" using lt by (simp add: Cons_nth_drop_Suc)
  also have "drop (p + 1) D = take k (drop (p + 1) D) @ 0 # drop (p + k + 2) D"
    using k(4) by (simp add: add.commute add.left_commute)
  also have "drop (p + k + 2) D = take n (drop (p + k + 2) D) @ drop (p + k + 2 + n) D"
    by (metis append_take_drop_id drop_drop add.commute)
  finally show "drop p D = enc_elem (elem_at D p k n) @ drop (p + k + 2 + n) D"
    by (simp add: elem_at_def)
  show "elem_ok (elem_at D p k n) \<or> short_doc (elem_at D p k n)"
    using n k(3) by (auto simp: elem_at_def short_doc_def)
qed

text \<open>A document length below 4 puts the next element on one of the zero bytes of that length.\<close>

lemma short_doc_then_bad:
  assumes v: "step_view D p = View_elem k n" and sh: "short_doc (elem_at D p k n)"
    and z: "D \<noteq> []" "last D = 0"
  shows "step_view D (p + k + 2 + n) = View_bad"
proof -
  let ?s = "drop (p + k + 2) D" and ?q = "p + k + 2 + n"
  from v have sz: "payload_size (D ! p) ?s = Some n"
    by (auto simp: step_view_def split: option.splits)
  have t: "D ! p \<in> {BSON_TYPE_ARRAY, BSON_TYPE_DOCUMENT}" using sh by (simp add: short_doc_def elem_at_def)
  then have n: "n = len_at ?s 0" "n < length ?s" "4 < length ?s"
    using sz by (auto simp: payload_size_simps) (auto simp: payload_size_def bson_type_defs Let_def split: if_splits)
  have n4: "n < 4" using sh n by (simp add: short_doc_def elem_at_def)
  have "take 4 ?s = le32 (of_nat n)" using le32_len_at [of 0 ?s] n by simp
  then have "?s ! n = le32 (of_nat n) ! n" using n4 by (metis nth_take)
  also have "\<dots> = 0" using n4 by (cases "n = 0 \<or> n = 1 \<or> n = 2 \<or> n = 3") (auto simp: le32_eq)
  finally have type: "D ! ?q = BSON_TYPE_EOD" using n by (simp add: bson_type_defs add.commute)
  have "?q + 1 < length D" using n n4 by simp
  then have "0 \<in> set (drop (?q + 1) D)" using z by (metis last_drop last_in_set drop_eq_Nil linorder_not_le)
  then obtain j where "cstr_len (drop (?q + 1) D) = Some j" by (auto simp: cstr_len_def)
  moreover have "payload_size BSON_TYPE_EOD s = None" for s by (simp add: payload_size_def bson_type_defs Let_def)
  ultimately show ?thesis by (simp only: step_view_def type option.case)
qed

function doc_walk :: "byte list \<Rightarrow> nat \<Rightarrow> bson_elem list \<times> bool" where
  "doc_walk D p = (case step_view D p of
       View_end \<Rightarrow> ([], True)
     | View_bad \<Rightarrow> ([], False)
     | View_elem k n \<Rightarrow> (case doc_walk D (p + k + 2 + n) of (es, clean) \<Rightarrow> (elem_at D p k n # es, clean)))"
  by pat_completeness auto
termination
  by (relation "measure (\<lambda>(D, p). length D - p)") (auto dest!: step_view_sound(1))

declare doc_walk.simps [simp del]

lemma doc_walk_sound:
  "doc_walk D p = (es, True) \<Longrightarrow> p < length D \<Longrightarrow> last D = 0 \<Longrightarrow>
   drop p D = enc_elems es @ [0] \<and> list_all elem_ok es"
proof (induction D p arbitrary: es rule: doc_walk.induct)
  case (1 D p)
  have D: "D \<noteq> []" using 1(3) by auto
  show ?case
  proof (cases "step_view D p")
    case View_end
    with 1(2) have es: "es = []" by (simp add: doc_walk.simps [of D p])
    from View_end have "0 \<notin> set (drop (p + 1) D)"
      by (auto simp: step_view_def cstr_len_def split: option.splits if_splits)
    then have "\<not> p + 1 < length D"
      using 1(4) D by (metis last_drop last_in_set drop_eq_Nil linorder_not_le)
    with 1(3) have p: "p = length D - 1" by simp
    then have "drop p D = [last D]" using D by (metis append_butlast_last_id append_eq_conv_conj length_butlast)
    with es 1(4) show ?thesis by simp
  next
    case View_bad
    with 1(2) show ?thesis by (simp add: doc_walk.simps [of D p])
  next
    case (View_elem k n)
    with 1(2) obtain fs where fs: "doc_walk D (p + k + 2 + n) = (fs, True)" "es = elem_at D p k n # fs"
      by (auto simp: doc_walk.simps [of D p] split: prod.splits)
    note v = step_view_sound [OF View_elem]
    from 1(1) [OF View_elem fs(1) v(1) 1(4)]
    have rest: "drop (p + k + 2 + n) D = enc_elems fs @ [0]" "list_all elem_ok fs" by auto
    have "\<not> short_doc (elem_at D p k n)"
    proof
      assume "short_doc (elem_at D p k n)"
      from short_doc_then_bad [OF View_elem this D 1(4)] have "doc_walk D (p + k + 2 + n) = ([], False)"
        by (subst doc_walk.simps) (simp only: element_view.case)
      with fs(1) show False by simp
    qed
    with v rest fs(2) show ?thesis by simp
  qed
qed

lemma doc_walk_complete:
  "drop p D = enc_elems es @ [0] \<Longrightarrow> list_all elem_ok es \<Longrightarrow> length D < 2147483648 \<Longrightarrow>
   doc_walk D p = (es, True)"
proof (induction es arbitrary: p)
  case Nil
  then have "drop (p + 1) D = []" using drop_drop [of 1 p D] by (simp add: add.commute)
  then show ?case by (simp add: doc_walk.simps [of D p] step_view_def cstr_len_def)
next
  case (Cons e es)
  obtain t k v where e: "e = (t, k, v)" by (cases e)
  have d: "drop p D = enc_elem (t, k, v) @ (enc_elems es @ [0])" using Cons.prems e by simp
  have v: "step_view D p = View_elem (length k) (length v)"
    by (rule step_view_complete [OF d]) (use Cons.prems e in auto)
  have "elem_at D p (length k) (length v) = e"
  proof -
    have "D ! p # drop (p + 1) D = t # k @ 0 # v @ enc_elems es @ [0]"
      using d by (metis (no_types, lifting) Cons_nth_drop_Suc add.commute append_Cons append_assoc drop_all enc_elem.simps
          linorder_not_le list.distinct(1) plus_1_eq_Suc)
    moreover from this have "drop (p + length k + 2) D = v @ enc_elems es @ [0]"
      using drop_drop [of "length k + 1" "p + 1" D] by (simp add: add.commute add.left_commute)
    ultimately show ?thesis by (simp add: elem_at_def e)
  qed
  moreover have "drop (p + length k + 2 + length v) D = enc_elems es @ [0]"
    using arg_cong [OF d, of "drop (length k + 2 + length v)"] by (simp add: add.commute add.left_commute)
  ultimately show ?case using Cons v by (simp add: doc_walk.simps [of D p])
qed

section \<open>Walking a document with the iterator\<close>

text \<open>The element the iterator stands on, read through its accessors.\<close>

definition iter_elem :: "bson_iter \<Rightarrow> bson_elem outcome" where
  "iter_elem it = cbind (bson_iter_type it) (\<lambda>t. cbind (bson_iter_key it) (\<lambda>key. cbind (cptr_mem key) (\<lambda>key.
     cbind (bson_iter_key_len it) (\<lambda>kl. cbind (rdn key 0 (unat kl)) (\<lambda>k.
     cbind (iter_mem it) (\<lambda>raw. cbind (rdn raw (unat (it_d1 it)) (unat (it_next_off it) - unat (it_d1 it))) (\<lambda>v.
       Ret (t, k, v))))))))"

text \<open>\<open>while (bson_iter_next (&iter)) ...\<close>\<close>

fun iter_walk :: "nat \<Rightarrow> bson_iter \<Rightarrow> (bson_elem list \<times> bson_iter) outcome" where
  "iter_walk 0 it = Timeout"
| "iter_walk (Suc fuel) it = cbind (bson_iter_next it) (\<lambda>(r, it).
     if \<not> r then Ret ([], it)
     else cbind (iter_elem it) (\<lambda>e. cbind (iter_walk fuel it) (\<lambda>(es, it). Ret (e # es, it))))"

lemma next_view:
  assumes raw: "it_raw it = Some data" and ok: "iter_ok it"
  shows "\<exists>b it'. bson_iter_next it = Ret (b, it') \<and>
    (case step_view (iter_doc it) (unat (it_next_off it)) of
       View_end \<Rightarrow> \<not> b \<and> it_raw it' = None \<and> it_err_off it' = it_err_off it
     | View_bad \<Rightarrow> \<not> b \<and> it_raw it' = None \<and> it_err_off it' \<noteq> 0
     | View_elem k n \<Rightarrow> b \<and> iter_at data (it_len it) (unat (it_next_off it)) k n it')"
  using next_internal_view [OF assms, of "\<lparr>io_key = None, io_type = 0, io_unsupported = False\<rparr>"]
  by (auto simp: step_ok_def bson_iter_next_def split: element_view.splits)

lemma iter_at_facts:
  assumes at: "iter_at data len p k n it" and len: "unat len \<le> length data" "unat len \<le> INT32_MAX"
    and p: "4 \<le> p"
  shows "iter_ok it" "iter_doc it = take (unat len) data" "iter_elem it = Ret (elem_at (take (unat len) data) p k n)"
proof -
  have at': "it_raw it = Some data" "it_len it = len" "unat (it_type it) = p" "unat (it_key it) = p + 1"
    "unat (it_d1 it) = p + k + 2" "unat (it_next_off it) = p + k + 2 + n" "p + k + 2 + n < unat len"
    using at by (auto simp: iter_at_def)
  show "iter_ok it" using at' len p by (simp add: iter_ok_def)
  show "iter_doc it = take (unat len) data" using at' by (simp add: iter_doc_def)
  have kl: "bson_iter_key_len it = Ret (it_d1 it - it_key it - 1)"
    using at' by (simp add: bson_iter_key_len_def word_less_nat_alt)
  have ukl: "unat (it_d1 it - it_key it - 1) = k"
    using at' by (simp add: unat_sub_le)
  have lz: "it_len it \<noteq> 0" using at' by auto
  have tk: "take j (drop i (take (unat len) data)) = take j (drop i data)" if "i + j \<le> unat len" for i j
    using that by (simp add: take_drop min_def)
  have "elem_at (take (unat len) data) p k n = (data ! p, take k (drop (p + 1) data), take n (drop (p + k + 2) data))"
    using tk [of "p + 1" k] tk [of "p + k + 2" n] at' by (simp add: elem_at_def)
  then show "iter_elem it = Ret (elem_at (take (unat len) data) p k n)"
    using at' len lz
    by (simp add: iter_elem_def bson_iter_type_def ITER_TYPE_def iter_mem_def rd8_def bson_iter_key_def iter_ptr_def
        cptr_mem_def kl ukl rdn_def)
qed

lemma iter_walk_view:
  assumes "it_raw it = Some data" "iter_ok it" "it_err_off it = 0" "unat (it_len it) - unat (it_next_off it) < fuel"
    "doc_walk (iter_doc it) (unat (it_next_off it)) = (es, clean)"
  shows "\<exists>it'. iter_walk fuel it = Ret (es, it') \<and> it_raw it' = None \<and> (it_err_off it' = 0 \<longleftrightarrow> clean)"
  using assms
proof (induction fuel arbitrary: it es)
  case (Suc fuel)
  have len: "unat (it_len it) \<le> length data" "unat (it_len it) \<le> INT32_MAX" "4 \<le> unat (it_next_off it)"
    using Suc.prems(1,2) by (auto simp: iter_ok_def)
  have D: "iter_doc it = take (unat (it_len it)) data" using Suc.prems(1) by (simp add: iter_doc_def)
  obtain b it1 where n: "bson_iter_next it = Ret (b, it1)" and v: "(case step_view (iter_doc it) (unat (it_next_off it)) of
       View_end \<Rightarrow> \<not> b \<and> it_raw it1 = None \<and> it_err_off it1 = it_err_off it
     | View_bad \<Rightarrow> \<not> b \<and> it_raw it1 = None \<and> it_err_off it1 \<noteq> 0
     | View_elem k n \<Rightarrow> b \<and> iter_at data (it_len it) (unat (it_next_off it)) k n it1)"
    using next_view [OF Suc.prems(1,2)] by blast
  note w = Suc.prems(5) [unfolded doc_walk.simps [of "iter_doc it" "unat (it_next_off it)"]]
  show ?case
  proof (cases "step_view (iter_doc it) (unat (it_next_off it))")
    case (View_elem k m)
    with v have b: b and at: "iter_at data (it_len it) (unat (it_next_off it)) k m it1" by auto
    note f = iter_at_facts [OF at len]
    from View_elem w obtain fs where
      fs: "doc_walk (iter_doc it) (unat (it_next_off it) + k + 2 + m) = (fs, clean)"
      "es = elem_at (iter_doc it) (unat (it_next_off it)) k m # fs" by (auto split: prod.splits)
    have at1: "it_raw it1 = Some data" "it_err_off it1 = 0" "it_len it1 = it_len it"
      "unat (it_next_off it1) = unat (it_next_off it) + k + 2 + m"
      "unat (it_next_off it) + k + 2 + m < unat (it_len it)" using at by (auto simp: iter_at_def)
    have "\<exists>it'. iter_walk fuel it1 = Ret (fs, it') \<and> it_raw it' = None \<and> (it_err_off it' = 0 \<longleftrightarrow> clean)"
      by (rule Suc.IH) (use at1 f fs D Suc.prems in auto)
    with n b f(3) fs D show ?thesis by auto
  qed (use n v w Suc.prems in auto)
qed simp


lemma iter_fuel_enough: "unat (it_len it) - unat (it_next_off it) < iter_fuel it"
  by (simp add: iter_fuel_def)

text \<open>
  C8. Walking any document with \<open>bson_iter_next\<close> until it returns false is memory safe and ends,
  whatever bytes the document holds: no read leaves the memory of the iterator, the walk needs at
  most one step per byte, and the iterator is invalidated at its end. The iterator may come from any
  of the initialisers (\<open>iter_ok\<close>: its length fits the memory and a signed 32-bit integer).
\<close>

theorem iter_walk_safe:
  assumes "iter_ok it" "it_err_off it = 0"
  shows "\<exists>es it'. iter_walk (iter_fuel it) it = Ret (es, it') \<and> it_raw it' = None"
proof (cases "it_raw it")
  case None
  then show ?thesis by (simp add: iter_fuel_def bson_iter_next_def bson_iter_next_internal_def Let_def)
next
  case (Some data)
  obtain es clean where "doc_walk (iter_doc it) (unat (it_next_off it)) = (es, clean)" by fastforce
  from iter_walk_view [OF Some assms iter_fuel_enough this] show ?thesis by blast
qed

theorem iter_walk_safe_witness:
  "\<exists>es it'. iter_walk (iter_fuel (iter_start [9, 0, 0, 0, 2, 0, 9, 0, 0] 9)) (iter_start [9, 0, 0, 0, 2, 0, 9, 0, 0] 9) =
     Ret (es, it') \<and> it_raw it' = None"
  by (rule iter_walk_safe) (simp_all add: iter_ok_def iter_start_def INT32_MAX_def)

lemma init_from_data_iff:
  assumes "length data \<le> INT32_MAX"
  shows "bson_iter_init_from_data data (length data) = Ret (True, it) \<longleftrightarrow>
    5 \<le> length data \<and> take 4 data = le32 (of_nat (length data)) \<and> last data = 0 \<and>
    it = iter_start data (of_nat (length data))"
proof (cases "5 \<le> length data")
  case True
  then have rd: "rd32 data 0 = Ret (from_le (take 4 data))" by (simp add: rd32_in_range)
  have "unat (from_le (take 4 data) :: u32) = length data \<longleftrightarrow> take 4 data = le32 (of_nat (length data))"
  proof
    assume "unat (from_le (take 4 data) :: u32) = length data"
    from arg_cong [OF this, of "of_nat :: nat \<Rightarrow> u32"]
    have "of_nat (length data) = (from_le (take 4 data) :: u32)" by simp
    then show "take 4 data = le32 (of_nat (length data))" using True by (simp add: le32_from_le)
  next
    assume "take 4 data = le32 (of_nat (length data))"
    then show "unat (from_le (take 4 data) :: u32) = length data"
      using assms by (simp add: unat_of_nat INT32_MAX_def)
  qed
  moreover have "last data = data ! (length data - 1)" using True by (intro last_conv_nth) auto
  ultimately show ?thesis using True assms rd
    by (auto simp: bson_iter_init_from_data_def rd8_def)
qed (use assms in \<open>simp add: bson_iter_init_from_data_def\<close>)

lemma iter_start_facts:
  assumes "length data \<le> INT32_MAX"
  shows "iter_ok (iter_start data (of_nat (length data)))" "it_err_off (iter_start data len) = 0"
    "iter_doc (iter_start data (of_nat (length data))) = data" "it_raw (iter_start data len) = Some data"
    "unat (it_next_off (iter_start data len)) = 4"
proof -
  have "unat (of_nat (length data) :: u32) = length data" using assms by (simp add: unat_of_nat INT32_MAX_def)
  then show "iter_ok (iter_start data (of_nat (length data)))" "it_err_off (iter_start data len) = 0"
    "iter_doc (iter_start data (of_nat (length data))) = data" "it_raw (iter_start data len) = Some data"
    "unat (it_next_off (iter_start data len)) = 4"
    using assms by (simp_all add: iter_ok_def iter_start_def iter_doc_def INT32_MAX_def)
qed

text \<open>
  C1. The iterator accepts exactly the well-formed documents: initialising it on some bytes and
  walking to the end succeeds without an error offset and yields the elements \<open>es\<close> if and only if
  the bytes are the length field, the elements \<open>es\<close> one after the other (type byte, NUL-terminated
  key, a value in the layout of its type) and the final NUL.
\<close>

theorem iter_walk_iff_document:
  assumes "length data \<le> INT32_MAX"
  shows "(\<exists>it it'. bson_iter_init_from_data data (length data) = Ret (True, it) \<and>
      iter_walk (iter_fuel it) it = Ret (es, it') \<and> it_err_off it' = 0) \<longleftrightarrow>
    data = doc_bytes es \<and> list_all elem_ok es"
proof -
  define it where "it = iter_start data (of_nat (length data))"
  have st: "iter_ok it" "it_err_off it = 0" "iter_doc it = data" "it_raw it = Some data" "unat (it_next_off it) = 4"
    by (simp_all add: it_def iter_start_facts [OF assms])
  obtain fs clean where w: "doc_walk data 4 = (fs, clean)" by fastforce
  have walk: "\<exists>it'. iter_walk (iter_fuel it) it = Ret (fs, it') \<and> (it_err_off it' = 0 \<longleftrightarrow> clean)"
    using iter_walk_view [OF st(4,1,2) iter_fuel_enough] st(3,5) w by fastforce
  have max: "length data < 2147483648" using assms by (simp add: INT32_MAX_def)
  show ?thesis
  proof
    assume "data = doc_bytes es \<and> list_all elem_ok es"
    then have d: "data = doc_bytes es" and ok: "list_all elem_ok es" by auto
    have "bson_iter_init_from_data data (length data) = Ret (True, it)"
      by (subst init_from_data_iff [OF assms]) (simp add: d doc_bytes_def it_def add.commute)
    moreover have "doc_walk data 4 = (es, True)"
      by (rule doc_walk_complete [OF _ ok max]) (simp add: d doc_bytes_def)
    ultimately show "\<exists>it it'. bson_iter_init_from_data data (length data) = Ret (True, it) \<and>
      iter_walk (iter_fuel it) it = Ret (es, it') \<and> it_err_off it' = 0"
      using walk w by auto
  next
    assume "\<exists>it it'. bson_iter_init_from_data data (length data) = Ret (True, it) \<and>
      iter_walk (iter_fuel it) it = Ret (es, it') \<and> it_err_off it' = 0"
    then have len: "5 \<le> length data" and hd: "take 4 data = le32 (of_nat (length data))" and l0: "last data = 0"
      and "fs = es" "clean"
      using walk by (auto simp: init_from_data_iff [OF assms] it_def)
    with w have "doc_walk data 4 = (es, True)" by simp
    from doc_walk_sound [OF this _ l0] len have "drop 4 data = enc_elems es @ [0]" "list_all elem_ok es" by auto
    moreover from arg_cong [OF this(1), of length] have "length data = length (enc_elems es) + 5" using len by simp
    ultimately show "data = doc_bytes es \<and> list_all elem_ok es"
      using hd append_take_drop_id [of 4 data] by (simp add: doc_bytes_def)
  qed
qed

text \<open>A document with one 32-bit integer \<open>a\<close>, used by the witnesses.\<close>

definition example_doc :: "bson_elem list" where
  "example_doc = [(BSON_TYPE_INT32, [0x61], [7, 0, 0, 0])]"

lemma example_doc_bytes: "doc_bytes example_doc = [12, 0, 0, 0, 0x10, 0x61, 0, 7, 0, 0, 0, 0]"
  by (simp add: example_doc_def doc_bytes_def le32_eq bson_type_defs)

lemma example_doc_elems: "list_all elem_ok example_doc"
  by (simp add: example_doc_def payload_ok_simps)

theorem iter_walk_iff_document_witness:
  "\<exists>it it'. bson_iter_init_from_data [12, 0, 0, 0, 0x10, 0x61, 0, 7, 0, 0, 0, 0] 12 = Ret (True, it) \<and>
     iter_walk (iter_fuel it) it = Ret (example_doc, it') \<and> it_err_off it' = 0"
proof -
  let ?d = "[12, 0, 0, 0, 0x10, 0x61, 0, 7, 0, 0, 0, 0] :: byte list"
  have len: "length ?d = 12" by simp
  from iter_walk_iff_document [of ?d example_doc, unfolded len] show ?thesis
    by (simp add: example_doc_bytes example_doc_elems INT32_MAX_def)
qed

section \<open>Finding a key\<close>

lemma rd8_Cons_Suc [simp]: "rd8 (c # xs) (Suc n) = rd8 xs n"
  by (simp add: rd8_def)

lemma key_matches:
  assumes "0 \<notin> set key" "0 \<notin> set k"
  shows "cbind (c_strncmp_eq (key @ d # r1) (k @ 0 # r2) (length key))
      (\<lambda>eq. if eq then cbind (rd8 (k @ 0 # r2) (length key)) (\<lambda>b. Ret (b = 0)) else Ret False) = Ret (key = k)"
  using assms
proof (induction key arbitrary: k)
  case Nil
  then show ?case by (cases k) (auto simp: rd8_def)
next
  case (Cons c key)
  then show ?case by (cases k) (auto simp: rd8_def [of "_ # _" 0] cong del: if_weak_cong)
qed

text \<open>The iterator stands on the element \<open>e\<close> of the document.\<close>

definition iter_on :: "byte list \<Rightarrow> u32 \<Rightarrow> bson_elem \<Rightarrow> bson_iter \<Rightarrow> bool" where
  "iter_on data len e it \<longleftrightarrow> unat len \<le> length data \<and> unat len \<le> INT32_MAX \<and> iter_layout data (fst e) it \<and>
     (\<exists>p k n. 4 \<le> p \<and> iter_at data len p k n it \<and> step_view (take (unat len) data) p = View_elem k n \<and>
        e = elem_at (take (unat len) data) p k n)"

lemma iter_on_memory:
  assumes "iter_on data len (t, k, v) it"
  obtains rest where "rest \<noteq> []" "it_raw it = Some data" "it_len it \<noteq> 0"
    "drop (unat (it_type it)) data = enc_elem (t, k, v) @ rest"
    "unat (it_key it) = unat (it_type it) + 1" "unat (it_d1 it) = unat (it_type it) + length k + 2"
    "unat (it_d1 it) + length v < unat len" "unat len \<le> INT32_MAX" "unat len \<le> length data"
proof -
  let ?D = "take (unat len) data"
  obtain p n m where len: "unat len \<le> length data" "unat len \<le> INT32_MAX" and at: "iter_at data len p n m it"
    and sv: "step_view ?D p = View_elem n m" and e: "(t, k, v) = elem_at ?D p n m"
    using assms by (auto simp: iter_on_def)
  note v = step_view_sound [OF sv]
  have "p + n + 2 + m < unat len" using v(1) len by simp
  then have kv: "length k = n" "length v = m" using e len by (simp_all add: elem_at_def)
  have "drop p data = drop p ?D @ drop (unat len) data"
    using v(1) len by (metis append_take_drop_id drop_append diff_is_0_eq drop0 length_take min.absorb2
        add_leD1 less_or_eq_imp_le)
  then have "drop p data = enc_elem (t, k, v) @ (drop (p + n + 2 + m) ?D @ drop (unat len) data)"
    using v(2) e by simp
  then obtain rest where rest: "drop p data = enc_elem (t, k, v) @ rest"
    "rest = drop (p + n + 2 + m) ?D @ drop (unat len) data" by blast
  have "rest \<noteq> []" using rest(2) \<open>p + n + 2 + m < unat len\<close> len by simp
  moreover have it: "it_raw it = Some data" "it_len it \<noteq> 0" "unat (it_type it) = p" "unat (it_key it) = p + 1"
    "unat (it_d1 it) = p + length k + 2" "unat (it_d1 it) + length v < unat len"
    using at kv \<open>p + n + 2 + m < unat len\<close> by (auto simp: iter_at_def)
  ultimately show ?thesis
    by (intro that [of rest]) (use rest(1) len in \<open>simp_all only: it\<close>)
qed

text \<open>An iterator in front of the elements \<open>es\<close>.\<close>

definition iter_before :: "byte list \<Rightarrow> u32 \<Rightarrow> bson_elem list \<Rightarrow> bson_iter \<Rightarrow> bool" where
  "iter_before data len es it \<longleftrightarrow> it_raw it = Some data \<and> iter_ok it \<and> it_len it = len \<and> list_all elem_ok es \<and>
     drop (unat (it_next_off it)) (take (unat len) data) = enc_elems es @ [0]"

lemma next_before:
  assumes "iter_before data len es it"
  shows "\<exists>it'. bson_iter_next it = Ret (es \<noteq> [], it') \<and> (case es of
       [] \<Rightarrow> it_raw it' = None \<and> it_err_off it' = it_err_off it
     | e # fs \<Rightarrow> iter_on data len e it' \<and> iter_before data len fs it' \<and> unat (it_off it') = unat (it_next_off it) \<and>
         unat (it_next_off it) < unat (it_next_off it') \<and> unat (it_next_off it') < unat len)"
proof -
  let ?D = "take (unat len) data" and ?p = "unat (it_next_off it)"
  have pre: "it_raw it = Some data" "iter_ok it" "it_len it = len" "list_all elem_ok es" "drop ?p ?D = enc_elems es @ [0]"
    using assms by (auto simp: iter_before_def)
  have len: "unat len \<le> length data" "unat len \<le> INT32_MAX" "4 \<le> ?p"
    using pre(1-3) by (auto simp: iter_ok_def)
  have D: "iter_doc it = ?D" using pre by (simp add: iter_doc_def)
  have w: "doc_walk ?D ?p = (es, True)"
    by (rule doc_walk_complete [OF pre(5,4)]) (use len in \<open>simp add: INT32_MAX_def\<close>)
  note w' = w [unfolded doc_walk.simps [of ?D ?p]]
  obtain b it1 where n: "bson_iter_next it = Ret (b, it1)" and v: "(case step_view ?D ?p of
       View_end \<Rightarrow> \<not> b \<and> it_raw it1 = None \<and> it_err_off it1 = it_err_off it
     | View_bad \<Rightarrow> \<not> b \<and> it_raw it1 = None \<and> it_err_off it1 \<noteq> 0
     | View_elem k n \<Rightarrow> b \<and> iter_at data len ?p k n it1)"
    using next_view [OF pre(1,2)] D pre(3) by auto
  show ?thesis
  proof (cases es)
    case Nil
    with w' n v show ?thesis by (auto split: element_view.splits prod.splits)
  next
    case (Cons e fs)
    with w' obtain k m where View: "step_view ?D ?p = View_elem k m" and e: "e = elem_at ?D ?p k m"
      by (auto split: element_view.splits prod.splits)
    with v have b: b and at: "iter_at data len ?p k m it1" by auto
    note f = iter_at_facts [OF at len]
    have "?D ! ?p = data ! ?p" using step_view_sound(1) [OF View] by simp
    then have "iter_layout data (fst e) it1" using next_layout [of it it1 data] n b pre(1) e by (simp add: elem_at_def)
    then have on: "iter_on data len e it1" using at View e len by (auto simp: iter_on_def)
    have at1: "it_raw it1 = Some data" "it_len it1 = len" "unat (it_next_off it1) = ?p + k + 2 + m"
      "?p + k + 2 + m < unat len" "unat (it_off it1) = ?p" using at by (auto simp: iter_at_def)
    have "drop (?p + k + 2 + m) ?D = enc_elems fs @ [0]"
      using step_view_sound(2) [OF View] e pre(5) Cons by simp
    with at1 f pre(4) Cons n b on show ?thesis by (auto simp: iter_before_def)
  qed
qed

lemma iter_find_loop_view:
  assumes "iter_before data len es it" "unat len - unat (it_next_off it) < fuel"
    "\<And>it e. e \<in> set es \<Longrightarrow> iter_on data len e it \<Longrightarrow> found it = Ret (P e)"
  shows "\<exists>it'. iter_find_loop fuel it found = Ret (find P es \<noteq> None, it') \<and>
    (\<forall>e. find P es = Some e \<longrightarrow> iter_on data len e it')"
  using assms
proof (induction fuel arbitrary: it es)
  case (Suc fuel)
  show ?case
  proof (cases es)
    case Nil
    with next_before [OF Suc.prems(1)] show ?thesis by auto
  next
    case (Cons e fs)
    with next_before [OF Suc.prems(1)] obtain it1 where n: "bson_iter_next it = Ret (True, it1)" "iter_on data len e it1"
      "iter_before data len fs it1" "unat (it_next_off it) < unat (it_next_off it1)" "unat (it_next_off it1) < unat len" by auto
    have fnd: "found it1 = Ret (P e)" using Suc.prems(3) n(2) Cons by simp
    have "\<exists>it'. iter_find_loop fuel it1 found = Ret (find P fs \<noteq> None, it') \<and>
        (\<forall>e. find P fs = Some e \<longrightarrow> iter_on data len e it')"
      by (rule Suc.IH [OF n(3)]) (use n Suc.prems Cons in auto)
    with Cons n fnd show ?thesis by (cases "P e") auto
  qed
qed simp

lemma find_callback:
  assumes "iter_on data len (t, k, v) it" "0 \<notin> set k" "0 \<notin> set key"
  shows "cbind (iter_key_mem it) (\<lambda>ikey. cbind (c_strncmp_eq (key @ d # r) ikey (length key)) (\<lambda>eq.
      if eq then cbind (rd8 ikey (length key)) (\<lambda>b. Ret (b = 0)) else Ret False)) = Ret (k = key)"
proof -
  from iter_on_memory [OF assms(1)] obtain rest where raw: "it_raw it = Some data"
    and d: "drop (unat (it_type it)) data = enc_elem (t, k, v) @ rest" and key: "unat (it_key it) = unat (it_type it) + 1"
    by metis
  have "drop (unat (it_type it) + 1) data = k @ 0 # (v @ rest)"
    using arg_cong [OF d, of "drop 1"] by (simp add: add.commute)
  then have "iter_key_mem it = Ret (k @ 0 # (v @ rest))"
    using raw key by (simp add: iter_key_mem_def bson_iter_key_def iter_ptr_def iter_mem_def)
  with key_matches [OF assms(3,2)] show ?thesis by auto
qed

text \<open>The document \<open>doc_bytes es\<close> as a \<open>bson_t\<close>.\<close>

definition doc_view :: "bson_elem list \<Rightarrow> bson_view" where
  "doc_view es = \<lparr>bv_data = doc_bytes es, bv_len = of_nat (length (doc_bytes es))\<rparr>"

definition doc_ok :: "bson_elem list \<Rightarrow> bool" where
  "doc_ok es \<longleftrightarrow> list_all elem_ok es \<and> length (doc_bytes es) \<le> INT32_MAX"

text \<open>An iterator at the start of the document \<open>es\<close>, which other bytes may follow in memory.\<close>

lemma doc_start:
  fixes junk :: "byte list"
  assumes ok: "doc_ok es"
  defines "it \<equiv> iter_start (doc_bytes es @ junk) (of_nat (length (doc_bytes es)))"
  shows "unat (it_len it) = length (doc_bytes es)" "iter_ok it"
    "take (unat (it_len it)) (doc_bytes es @ junk) = doc_bytes es" "unat (it_next_off it) = 4"
proof -
  show len: "unat (it_len it) = length (doc_bytes es)"
    using ok by (simp add: it_def iter_start_def doc_ok_def INT32_MAX_def unat_of_nat)
  then show "iter_ok it" using ok by (simp add: it_def iter_start_def iter_ok_def doc_ok_def INT32_MAX_def)
  show "take (unat (it_len it)) (doc_bytes es @ junk) = doc_bytes es" using len by simp
  show "unat (it_next_off it) = 4" by (simp add: it_def iter_start_def)
qed

lemma doc_start_before:
  fixes junk :: "byte list"
  assumes ok: "doc_ok es"
  shows "iter_before (doc_bytes es @ junk) (of_nat (length (doc_bytes es))) es
    (iter_start (doc_bytes es @ junk) (of_nat (length (doc_bytes es))))"
proof -
  note st = doc_start [OF ok, of junk]
  have "drop 4 (doc_bytes es) = enc_elems es @ [0]" by (simp add: doc_bytes_def)
  with st ok show ?thesis by (simp add: iter_before_def doc_ok_def) (simp add: iter_start_def)
qed

lemma find_w_len_start:
  fixes junk :: "byte list"
  assumes ok: "doc_ok es" and key: "0 \<notin> set key"
  defines "it \<equiv> iter_start (doc_bytes es @ junk) (of_nat (length (doc_bytes es)))"
  shows "\<exists>it'. iter_find_loop (iter_fuel it) it (\<lambda>it.
         cbind (iter_key_mem it) (\<lambda>ikey. cbind (c_strncmp_eq (key @ c # r) ikey (length key)) (\<lambda>eq.
           if eq then cbind (rd8 ikey (length key)) (\<lambda>b. Ret (b = 0)) else Ret False))) =
      Ret (find (\<lambda>(t, k, v). k = key) es \<noteq> None, it') \<and>
    (\<forall>e. find (\<lambda>(t, k, v). k = key) es = Some e \<longrightarrow> iter_on (doc_bytes es @ junk) (it_len it) e it')"
proof (rule iter_find_loop_view)
  show "iter_before (doc_bytes es @ junk) (it_len it) es it"
    using doc_start_before [OF ok, of junk] by (simp add: it_def) (simp add: iter_start_def)
  show "unat (it_len it) - unat (it_next_off it) < iter_fuel it" by (rule iter_fuel_enough)
  show "cbind (iter_key_mem it') (\<lambda>ikey. cbind (c_strncmp_eq (key @ c # r) ikey (length key)) (\<lambda>eq.
         if eq then cbind (rd8 ikey (length key)) (\<lambda>b. Ret (b = 0)) else Ret False)) =
      Ret (case e of (t, k, v) \<Rightarrow> k = key)"
    if "e \<in> set es" "iter_on (doc_bytes es @ junk) (it_len it) e it'" for it' e
  proof -
    obtain t k v where e: "e = (t, k, v)" by (cases e)
    from ok that(1) e have "0 \<notin> set k" by (auto simp: list_all_iff doc_ok_def)
    from find_callback [OF that(2) [unfolded e] this key] show ?thesis by (simp add: e)
  qed
qed



section \<open>Descending into embedded documents\<close>

text \<open>\<open>path_to es segs e\<close>: the keys \<open>segs\<close>, one per level, lead from the document \<open>es\<close> to \<open>e\<close>.\<close>

inductive path_to :: "bson_elem list \<Rightarrow> byte list list \<Rightarrow> bson_elem \<Rightarrow> bool" where
  here: "find (\<lambda>(t, k, v). k = seg) es = Some e \<Longrightarrow> path_to es [seg] e"
| down: "find (\<lambda>(t, k, v). k = seg) es = Some (t, seg, doc_bytes fs) \<Longrightarrow>
     t \<in> {BSON_TYPE_DOCUMENT, BSON_TYPE_ARRAY} \<Longrightarrow> doc_ok fs \<Longrightarrow> path_to fs segs e \<Longrightarrow>
     path_to es (seg # segs) e"

fun dotted :: "byte list list \<Rightarrow> byte list" where
  "dotted [] = [0]"
| "dotted [seg] = seg @ [0]"
| "dotted (seg # segs) = seg @ 0x2E # dotted segs"

lemma dotkey_split_end: "0 \<notin> set seg \<Longrightarrow> 0x2E \<notin> set seg \<Longrightarrow> dotkey_split (seg @ [0]) = Ret (length seg, None)"
proof -
  assume "0 \<notin> set seg" "0x2E \<notin> set seg"
  then have "takeWhile (\<lambda>c. c \<noteq> 0 \<and> c \<noteq> 0x2E) (seg @ [0]) = seg" by (induction seg) auto
  then show ?thesis by (simp add: dotkey_split_def rd8_def)
qed

lemma dotkey_split_dot:
  "0 \<notin> set seg \<Longrightarrow> 0x2E \<notin> set seg \<Longrightarrow> dotkey_split (seg @ 0x2E # rest) = Ret (length seg, Some rest)"
proof -
  assume "0 \<notin> set seg" "0x2E \<notin> set seg"
  then have "takeWhile (\<lambda>c. c \<noteq> 0 \<and> c \<noteq> 0x2E) (seg @ 0x2E # rest) = seg" by (induction seg) auto
  then show ?thesis by (simp add: dotkey_split_def rd8_def)
qed

lemma recurse_into:
  assumes on: "iter_on data len (t, k, doc_bytes fs) it" and t: "t \<in> {BSON_TYPE_DOCUMENT, BSON_TYPE_ARRAY}"
    and ok: "doc_ok fs"
  shows "bson_iter_type it = Ret t"
    "\<exists>junk. bson_iter_recurse it = Ret (Some (iter_start (doc_bytes fs @ junk) (of_nat (length (doc_bytes fs)))))"
proof -
  from iter_on_memory [OF on] obtain rest where m: "it_raw it = Some data" "it_len it \<noteq> 0"
    "drop (unat (it_type it)) data = enc_elem (t, k, doc_bytes fs) @ rest"
    "unat (it_d1 it) = unat (it_type it) + length k + 2" by metis
  have lt: "unat (it_type it) < length data" using m(3) by (metis drop_all enc_elem.simps append_Cons linorder_not_le list.distinct(1))
  have ty: "data ! unat (it_type it) = t" using m(3) lt by (metis Cons_nth_drop_Suc append_Cons enc_elem.simps list.inject)
  then show type: "bson_iter_type it = Ret t"
    using m lt by (simp add: bson_iter_type_def ITER_TYPE_def iter_mem_def rd8_def)
  have d1: "drop (unat (it_d1 it)) data = doc_bytes fs @ rest"
    using arg_cong [OF m(3), of "drop (length k + 2)"] m(4) by (simp add: add.commute add.left_commute)
  have "take 4 (drop (unat (it_d1 it)) data) = le32 (of_nat (length (doc_bytes fs)))" "4 \<le> length (drop (unat (it_d1 it)) data)"
    unfolding d1 by (simp_all add: doc_bytes_def add.commute)
  then have "rd32 data (unat (it_d1 it)) = Ret (of_nat (length (doc_bytes fs)))"
    by (simp add: rd32_def rdn_def)
  with type t m d1 lt ty show "\<exists>junk. bson_iter_recurse it = Ret (Some (iter_start (doc_bytes fs @ junk) (of_nat (length (doc_bytes fs)))))"
    by (intro exI [of _ rest])
      (auto simp: bson_iter_recurse_def ITER_TYPE_def iter_mem_def rd8_def bson_iter_document_def bson_iter_array_def
        iter_subdocument_def iter_rd32_def iter_ptr_def iter_start_def)
qed

lemma find_descendant_start:
  assumes "path_to es segs e" "doc_ok es" "\<forall>seg \<in> set segs. 0 \<notin> set seg \<and> 0x2E \<notin> set seg"
  shows "\<exists>it' data len. bson_iter_find_descendant
      (iter_start (doc_bytes es @ junk) (of_nat (length (doc_bytes es)))) (dotted segs) = Ret (Some it') \<and>
      iter_on data len e it'"
  using assms
proof (induction arbitrary: junk rule: path_to.induct)
  case (here seg es e)
  then have seg: "0 \<notin> set seg" "0x2E \<notin> set seg" by auto
  from find_w_len_start [OF here(2) seg(1), of junk 0 "[]"] here(1)
  obtain it' where "bson_iter_find_w_len (iter_start (doc_bytes es @ junk) (of_nat (length (doc_bytes es))))
      (seg @ [0]) (int (length seg)) = Ret (True, it')"
    "iter_on (doc_bytes es @ junk) (it_len (iter_start (doc_bytes es @ junk) (of_nat (length (doc_bytes es))))) e it'"
    by (auto simp: bson_iter_find_w_len_def)
  with dotkey_split_end [OF seg] show ?case
    by (intro exI conjI) (auto simp: bson_iter_find_descendant.simps [of _ "seg @ [0]"])
next
  case (down seg es t fs segs e)
  then have seg: "0 \<notin> set seg" "0x2E \<notin> set seg" by auto
  from down(4) have dot: "dotted (seg # segs) = seg @ 0x2E # dotted segs" by (cases segs) (auto elim: path_to.cases)
  let ?it = "iter_start (doc_bytes es @ junk) (of_nat (length (doc_bytes es)))"
  from find_w_len_start [OF down(6) seg(1), of junk "0x2E" "dotted segs"] down(1)
  obtain it1 where f: "bson_iter_find_w_len ?it (seg @ 0x2E # dotted segs) (int (length seg)) = Ret (True, it1)"
    and on: "iter_on (doc_bytes es @ junk) (it_len ?it) (t, seg, doc_bytes fs) it1"
    by (auto simp: bson_iter_find_w_len_def)
  note r = recurse_into [OF on down(2,3)]
  from r(2) obtain junk' where r2: "bson_iter_recurse it1 = Ret (Some (iter_start (doc_bytes fs @ junk') (of_nat (length (doc_bytes fs)))))"
    by blast
  from down(5) [OF down(3), of junk'] down(7) obtain it' data len where
    "bson_iter_find_descendant (iter_start (doc_bytes fs @ junk') (of_nat (length (doc_bytes fs)))) (dotted segs) = Ret (Some it')"
    "iter_on data len e it'" by auto
  with f r(1) r2 down(2) dotkey_split_dot [OF seg] show ?case
    unfolding dot by (subst bson_iter_find_descendant.simps) auto
qed

text \<open>
  C21. \<open>bson_iter_find_descendant\<close> follows a dotted path through embedded documents and arrays to
  the element the path leads to, taking the first element of each level that has the key.
\<close>

theorem find_descendant_path:
  assumes "path_to es segs e" "doc_ok es" "\<forall>seg \<in> set segs. 0 \<notin> set seg \<and> 0x2E \<notin> set seg"
  shows "\<exists>it it'. bson_iter_init (doc_view es) = (True, it) \<and>
    bson_iter_find_descendant it (dotted segs) = Ret (Some it') \<and> iter_elem it' = Ret e"
proof -
  have len: "\<not> bv_len (doc_view es) < 5"
    using doc_start(1) [OF assms(2), of "[]"]
    by (simp add: doc_view_def word_less_nat_alt iter_start_def) (simp add: doc_bytes_def)
  have "iter_elem it = Ret e" if "iter_on data len e it" for data len it
    using that iter_at_facts(3) by (auto simp: iter_on_def)
  with find_descendant_start [OF assms, of "[]"] len show ?thesis
    by (auto simp: bson_iter_init_def doc_view_def)
qed


theorem find_descendant_path_witness:
  "\<exists>it it'. bson_iter_init (doc_view [(BSON_TYPE_DOCUMENT, [0x62], doc_bytes example_doc)]) = (True, it) \<and>
     bson_iter_find_descendant it [0x62, 0x2E, 0x61, 0] = Ret (Some it') \<and>
     iter_elem it' = Ret (BSON_TYPE_INT32, [0x61], [7, 0, 0, 0])"
proof -
  let ?es = "[(BSON_TYPE_DOCUMENT, [0x62], doc_bytes example_doc)]"
  have ok: "doc_ok example_doc" by (simp add: doc_ok_def example_doc_bytes example_doc_elems INT32_MAX_def)
  have es: "doc_ok ?es"
    by (simp add: doc_ok_def payload_ok_structured example_doc_bytes le32_eq INT32_MAX_def) (simp add: doc_bytes_def)
  have "path_to example_doc [[0x61]] (BSON_TYPE_INT32, [0x61], [7, 0, 0, 0])"
    by (rule path_to.here) (simp add: example_doc_def)
  then have "path_to ?es [[0x62], [0x61]] (BSON_TYPE_INT32, [0x61], [7, 0, 0, 0])"
    using ok by - (rule path_to.down [where t = BSON_TYPE_DOCUMENT and fs = example_doc], simp_all)
  from find_descendant_path [OF this es] show ?thesis by simp
qed

section \<open>Overwriting in place\<close>

lemma overwrite_spec:
  assumes on: "iter_on (doc_bytes (pre @ (t, k, v) # post)) len (t, k, v) it"
    and at: "unat (it_off it) = 4 + length (enc_elems pre)" and v: "t = ty \<Longrightarrow> length bs = length v"
  shows "iter_overwrite ty it bs = Ret (if t = ty then it\<lparr>it_raw := Some (doc_bytes (pre @ (t, k, bs) # post))\<rparr> else it)"
proof -
  let ?data = "doc_bytes (pre @ (t, k, v) # post)"
  have off: "it_off it = it_type it" using on by (auto simp: iter_on_def iter_at_def word_unat_eq_iff)
  from iter_on_memory [OF on] obtain rest where m: "it_raw it = Some ?data"
    "unat (it_d1 it) = unat (it_type it) + length k + 2" by metis
  define A where "A = le32 (of_nat (length (enc_elems (pre @ (t, k, v) # post)) + 5)) @ enc_elems pre @ t # k @ [0]"
  have A: "length A = unat (it_d1 it)" using m(2) at off by (simp add: A_def)
  have d: "?data = A @ v @ enc_elems post @ [0]" by (simp add: A_def doc_bytes_def)
  have ty: "ITER_TYPE it = Ret t"
    using at off m(1) by (simp add: ITER_TYPE_def iter_mem_def rd8_def doc_bytes_def nth_append)
  have "wrn ?data (unat (it_d1 it)) bs = Ret (doc_bytes (pre @ (t, k, bs) # post))" if "t = ty"
  proof -
    have "doc_bytes (pre @ (t, k, bs) # post) = A @ bs @ enc_elems post @ [0]"
      using v [OF that] by (simp add: A_def doc_bytes_def)
    then show ?thesis unfolding d using v [OF that] A by (simp add: wrn_def)
  qed
  with ty m(1) show ?thesis by (cases "t = ty") (auto simp: iter_overwrite_def iter_mem_def)
qed



end
