(* ===== verification/Bson_Iter_Values.thy ===== *)
theory Bson_Iter_Values
  imports Bson_Iter_Walk
begin

text \<open>
  The typed accessors. \<open>bson_data\<close> is a value of a document with its type code and encoding, and
  \<open>value_shows\<close> relates it to the \<open>bson_value_t\<close> that \<open>bson_iter_value\<close> fills in from the iterator.
\<close>

section \<open>Values and their encoding\<close>


text \<open>A value of a document, and its type code and bytes.\<close>

datatype bson_data =
    D_double u64
  | D_utf8 "byte list"
  | D_document "byte list"
  | D_array "byte list"
  | D_binary byte "byte list"
  | D_undefined
  | D_oid oid
  | D_bool bool
  | D_date_time u64
  | D_null
  | D_regex "byte list" "byte list"
  | D_dbpointer "byte list" oid
  | D_code "byte list"
  | D_symbol "byte list"
  | D_codewscope "byte list" "byte list"
  | D_int32 u32
  | D_timestamp u32 u32
  | D_int64 u64
  | D_decimal128 u64 u64
  | D_maxkey
  | D_minkey

definition enc_string :: "byte list \<Rightarrow> byte list" where
  "enc_string s = le32 (of_nat (length s + 1)) @ s @ [0]"

primrec data_type :: "bson_data \<Rightarrow> byte" where
  "data_type (D_double d) = BSON_TYPE_DOUBLE"
| "data_type (D_utf8 s) = BSON_TYPE_UTF8"
| "data_type (D_document d) = BSON_TYPE_DOCUMENT"
| "data_type (D_array d) = BSON_TYPE_ARRAY"
| "data_type (D_binary st bs) = BSON_TYPE_BINARY"
| "data_type D_undefined = BSON_TYPE_UNDEFINED"
| "data_type (D_oid oid) = BSON_TYPE_OID"
| "data_type (D_bool b) = BSON_TYPE_BOOL"
| "data_type (D_date_time v) = BSON_TYPE_DATE_TIME"
| "data_type D_null = BSON_TYPE_NULL"
| "data_type (D_regex re opts) = BSON_TYPE_REGEX"
| "data_type (D_dbpointer c oid) = BSON_TYPE_DBPOINTER"
| "data_type (D_code s) = BSON_TYPE_CODE"
| "data_type (D_symbol s) = BSON_TYPE_SYMBOL"
| "data_type (D_codewscope c sc) = BSON_TYPE_CODEWSCOPE"
| "data_type (D_int32 v) = BSON_TYPE_INT32"
| "data_type (D_timestamp t i) = BSON_TYPE_TIMESTAMP"
| "data_type (D_int64 v) = BSON_TYPE_INT64"
| "data_type (D_decimal128 l h) = BSON_TYPE_DECIMAL128"
| "data_type D_maxkey = BSON_TYPE_MAXKEY"
| "data_type D_minkey = BSON_TYPE_MINKEY"

primrec data_bytes :: "bson_data \<Rightarrow> byte list" where
  "data_bytes (D_double d) = le64 d"
| "data_bytes (D_utf8 s) = enc_string s"
| "data_bytes (D_document d) = d"
| "data_bytes (D_array d) = d"
| "data_bytes (D_binary st bs) =
     (if st = BSON_SUBTYPE_BINARY_DEPRECATED
      then le32 (of_nat (length bs + 4)) @ [st] @ le32 (of_nat (length bs)) @ bs
      else le32 (of_nat (length bs)) @ [st] @ bs)"
| "data_bytes D_undefined = []"
| "data_bytes (D_oid oid) = oid"
| "data_bytes (D_bool b) = [if b then 1 else 0]"
| "data_bytes (D_date_time v) = le64 v"
| "data_bytes D_null = []"
| "data_bytes (D_regex re opts) = re @ [0] @ opts @ [0]"
| "data_bytes (D_dbpointer c oid) = enc_string c @ oid"
| "data_bytes (D_code s) = enc_string s"
| "data_bytes (D_symbol s) = enc_string s"
| "data_bytes (D_codewscope c sc) = le32 (of_nat (length c + 9 + length sc)) @ enc_string c @ sc"
| "data_bytes (D_int32 v) = le32 v"
| "data_bytes (D_timestamp t i) = le64 (push_bit 32 (ucast t) OR ucast i)"
| "data_bytes (D_int64 v) = le64 v"
| "data_bytes (D_decimal128 l h) = le64 l @ le64 h"
| "data_bytes D_maxkey = []"
| "data_bytes D_minkey = []"

text \<open>An embedded document carries its length, with room for the length and the final NUL.\<close>

definition sub_ok :: "byte list \<Rightarrow> bool" where
  "sub_ok d \<longleftrightarrow> 5 \<le> length d \<and> take 4 d = le32 (of_nat (length d))"

primrec data_ok :: "bson_data \<Rightarrow> bool" where
  "data_ok (D_double d) = True"
| "data_ok (D_utf8 s) = True"
| "data_ok (D_document d) = sub_ok d"
| "data_ok (D_array d) = sub_ok d"
| "data_ok (D_binary st bs) = True"
| "data_ok D_undefined = True"
| "data_ok (D_oid oid) = (length oid = 12)"
| "data_ok (D_bool b) = True"
| "data_ok (D_date_time v) = True"
| "data_ok D_null = True"
| "data_ok (D_regex re opts) = (0 \<notin> set re \<and> 0 \<notin> set opts)"
| "data_ok (D_dbpointer c oid) = (length oid = 12)"
| "data_ok (D_code s) = True"
| "data_ok (D_symbol s) = True"
| "data_ok (D_codewscope c sc) = sub_ok sc"
| "data_ok (D_int32 v) = True"
| "data_ok (D_timestamp t i) = True"
| "data_ok (D_int64 v) = True"
| "data_ok (D_decimal128 l h) = True"
| "data_ok D_maxkey = True"
| "data_ok D_minkey = True"

text \<open>What \<open>bson_iter_value\<close> hands out for it: lengths and pointers to the bytes.\<close>

definition ptr_to :: "cptr \<Rightarrow> byte list \<Rightarrow> bool" where
  "ptr_to p bs \<longleftrightarrow> (\<exists>rest. p = Some (bs @ rest))"

definition ptr_len :: "cptr \<Rightarrow> u32 \<Rightarrow> byte list \<Rightarrow> byte list \<Rightarrow> bool" where
  "ptr_len p n bs tail \<longleftrightarrow> ptr_to p (bs @ tail) \<and> unat n = length bs"

primrec value_shows :: "bson_data \<Rightarrow> bson_value \<Rightarrow> bool" where
  "value_shows (D_double d) v \<longleftrightarrow> v = V_double d"
| "value_shows (D_utf8 s) v \<longleftrightarrow> (\<exists>p n. v = V_utf8 p n \<and> ptr_len p n s [0])"
| "value_shows (D_document d) v \<longleftrightarrow> (\<exists>p n. v = V_document n p \<and> ptr_len p n d [])"
| "value_shows (D_array d) v \<longleftrightarrow> (\<exists>p n. v = V_array n p \<and> ptr_len p n d [])"
| "value_shows (D_binary st bs) v \<longleftrightarrow> (\<exists>p n. v = V_binary st n p \<and> ptr_len p n bs [])"
| "value_shows D_undefined v \<longleftrightarrow> v = V_undefined"
| "value_shows (D_oid oid) v \<longleftrightarrow> v = V_oid oid"
| "value_shows (D_bool b) v \<longleftrightarrow> v = V_bool b"
| "value_shows (D_date_time t) v \<longleftrightarrow> v = V_datetime t"
| "value_shows D_null v \<longleftrightarrow> v = V_null"
| "value_shows (D_regex re opts) v \<longleftrightarrow> (\<exists>p q. v = V_regex p q \<and> ptr_to p (re @ [0]) \<and> ptr_to q (opts @ [0]))"
| "value_shows (D_dbpointer c oid) v \<longleftrightarrow> (\<exists>p n. v = V_dbpointer n p oid \<and> ptr_len p n c [0])"
| "value_shows (D_code s) v \<longleftrightarrow> (\<exists>p n. v = V_code p n \<and> ptr_len p n s [0])"
| "value_shows (D_symbol s) v \<longleftrightarrow> (\<exists>p n. v = V_symbol p n \<and> ptr_len p n s [0])"
| "value_shows (D_codewscope c sc) v \<longleftrightarrow>
     (\<exists>p n q m. v = V_codewscope p n m q \<and> ptr_len p n c [0] \<and> ptr_len q m sc [])"
| "value_shows (D_int32 i) v \<longleftrightarrow> v = V_int32 i"
| "value_shows (D_timestamp t i) v \<longleftrightarrow> v = V_timestamp t i"
| "value_shows (D_int64 i) v \<longleftrightarrow> v = V_int64 i"
| "value_shows (D_decimal128 l h) v \<longleftrightarrow> v = V_decimal128 l h"
| "value_shows D_maxkey v \<longleftrightarrow> v = V_maxkey"
| "value_shows D_minkey v \<longleftrightarrow> v = V_minkey"

lemma data_payload_ok:
  assumes "data_ok x"
  shows "payload_ok (data_type x) (data_bytes x)"
proof (cases x)
  case (D_codewscope c sc)
  have "enc_string c @ sc = le32 (of_nat (length (c @ [0]))) @ (c @ [0]) @ sc" by (simp add: enc_string_def)
  moreover have "length c + 9 + length sc = length (data_bytes x)" using D_codewscope by (simp add: enc_string_def)
  ultimately have "data_bytes x = le32 (of_nat (length (data_bytes x))) @ le32 (of_nat (length (c @ [0]))) @ (c @ [0]) @ sc"
    using D_codewscope by (simp add: ac_simps)
  then have "payload_ok BSON_TYPE_CODEWSCOPE (data_bytes x)"
    unfolding payload_ok_structured using D_codewscope assms
    by (intro exI [of _ "c @ [0]"] exI [of _ sc] conjI) (simp_all only: data_ok.simps sub_ok_def, simp_all)
  then show ?thesis by (simp add: D_codewscope)
next
  case (D_dbpointer c oid)
  with assms show ?thesis by (auto simp: payload_ok_structured enc_string_def simp del: of_nat_add of_nat_Suc)
next
  case (D_binary st bs)
  with assms show ?thesis by (auto simp: payload_ok_structured simp del: of_nat_add)
qed (use assms in \<open>auto simp: payload_ok_simps payload_ok_structured enc_string_def sub_ok_def\<close>)

text \<open>Reading through an iterator that stands on an element.\<close>

lemma on_facts:
  assumes "iter_on data len (t, k, v) it"
  obtains rest where "it_raw it = Some data" "ITER_TYPE it = Ret t" "drop (unat (it_d1 it)) data = v @ rest"
    "unat (it_d1 it) + length v < 2147483648" "unat (it_d1 it) + length v < unat (it_len it)"
    "unat (it_len it) \<le> length data" "iter_layout data t it"
proof -
  from iter_on_memory [OF assms] obtain rest where m: "it_raw it = Some data" "it_len it \<noteq> 0"
    "drop (unat (it_type it)) data = enc_elem (t, k, v) @ rest"
    "unat (it_d1 it) = unat (it_type it) + length k + 2" "unat (it_d1 it) + length v < unat len"
    "unat len \<le> INT32_MAX" "unat len \<le> length data" by metis
  have lt: "unat (it_type it) < length data" using m(3)
    by (metis drop_all enc_elem.simps append_Cons linorder_not_le list.distinct(1))
  have ty: "data ! unat (it_type it) = t" using m(3) lt
    by (metis Cons_nth_drop_Suc append_Cons enc_elem.simps list.inject)
  have "drop (unat (it_d1 it)) data = v @ rest"
    using arg_cong [OF m(3), of "drop (length k + 2)"] m(4) by (simp add: add.commute add.left_commute)
  moreover have "it_len it = len" "iter_layout data t it" using assms by (auto simp: iter_on_def iter_at_def)
  ultimately show ?thesis
    using that m lt ty by (simp add: ITER_TYPE_def iter_mem_def rd8_def INT32_MAX_def)
qed

lemma drop_rd:
  assumes "drop i data = xs @ rest"
  shows "length xs = 4 \<Longrightarrow> rd32 data i = Ret (from_le xs)" "length xs = 8 \<Longrightarrow> rd64 data i = Ret (from_le xs)"
    "xs = [b] \<Longrightarrow> rd8 data i = Ret b"
proof -
  have len: "i + length xs \<le> length data" if "xs \<noteq> []"
    using arg_cong [OF assms, of length] that by (cases "i \<le> length data") auto
  have "take (length xs) (drop i data) = xs" using assms by simp
  with len show "length xs = 4 \<Longrightarrow> rd32 data i = Ret (from_le xs)" "length xs = 8 \<Longrightarrow> rd64 data i = Ret (from_le xs)"
    by (auto simp: rd32_def rd64_def rdn_def)
  show "xs = [b] \<Longrightarrow> rd8 data i = Ret b"
    using len assms by (auto simp: rd8_def) (metis nth_via_drop append_Cons)
qed

lemma drop_part: "drop i data = xs @ ys \<Longrightarrow> drop (i + length xs) data = ys"
  by (metis append_eq_conv_conj drop_drop add.commute)

lemmas iter_reads = iter_rd32_def iter_rd64_def iter_ptr_def iter_mem_def

lemma sint_of_nat_small: "n < 2147483648 \<Longrightarrow> sint (of_nat n :: u32) = int n"
  by (simp add: signed_of_nat signed_take_bit_int_eq_self)

lemma on_string:
  assumes on: "iter_on data len (t, k, enc_string s) it" and t: "t \<in> {BSON_TYPE_CODE, BSON_TYPE_SYMBOL, BSON_TYPE_UTF8}"
  shows "\<exists>p n. iter_string t it = Ret (p, n) \<and> ptr_len p n s [0]"
proof -
  from on_facts [OF on] obtain rest where m: "it_raw it = Some data" "ITER_TYPE it = Ret t"
    "drop (unat (it_d1 it)) data = enc_string s @ rest" "unat (it_d1 it) + length (enc_string s) < 2147483648"
    "iter_layout data t it" by metis
  have d2: "unat (it_d2 it) = unat (it_d1 it) + 4"
    using m(4,5) t by (simp add: iter_layout_def unat_add_small enc_string_def)
  have d: "drop (unat (it_d1 it)) data = le32 (of_nat (length s + 1)) @ s @ [0] @ rest" using m(3) by (simp add: enc_string_def)
  have rd: "rd32 data (unat (it_d1 it)) = Ret (of_nat (length s + 1))" using drop_rd(1) [OF d] by simp
  have "drop (unat (it_d2 it)) data = s @ [0] @ rest" using drop_part [OF d] d2 by simp
  moreover have "sint (of_nat (length s + 1) :: u32) = int (length s + 1)"
    using m(4) by (intro sint_of_nat_small) (simp add: enc_string_def)
  ultimately show ?thesis
    using m rd by (auto simp: iter_string_def bson_iter_utf8_len_unsafe_def iter_reads ptr_len_def ptr_to_def enc_string_def unat_of_nat)
qed

lemma on_subdocument:
  assumes on: "iter_on data len (t, k, d) it" and d: "sub_ok d"
  shows "\<exists>p n. iter_subdocument t it = Ret (n, p) \<and> ptr_len p n d []"
proof -
  from on_facts [OF on] obtain rest where m: "it_raw it = Some data" "ITER_TYPE it = Ret t"
    "drop (unat (it_d1 it)) data = d @ rest" "unat (it_d1 it) + length d < 2147483648" by metis
  have "d = le32 (of_nat (length d)) @ drop 4 d" using d append_take_drop_id [of 4 d] by (simp add: sub_ok_def)
  with m(3) have "drop (unat (it_d1 it)) data = le32 (of_nat (length d)) @ drop 4 d @ rest" by (metis append.assoc)
  from drop_rd(1) [OF this] have "rd32 data (unat (it_d1 it)) = Ret (of_nat (length d))" by simp
  with m show ?thesis by (auto simp: iter_subdocument_def iter_reads ptr_len_def ptr_to_def unat_of_nat)
qed

lemma on_binary:
  assumes on: "iter_on data len (BSON_TYPE_BINARY, k, data_bytes (D_binary st bs)) it"
  shows "\<exists>p n. bson_iter_binary it = Ret (st, n, p) \<and> ptr_len p n bs []"
proof -
  from on_facts [OF on] obtain rest where m: "it_raw it = Some data" "ITER_TYPE it = Ret BSON_TYPE_BINARY"
    "drop (unat (it_d1 it)) data = data_bytes (D_binary st bs) @ rest"
    "unat (it_d1 it) + length (data_bytes (D_binary st bs)) < 2147483648" "iter_layout data BSON_TYPE_BINARY it" by metis
  have d23: "unat (it_d2 it) = unat (it_d1 it) + 4" "unat (it_d3 it) = unat (it_d1 it) + 5"
    using m(4,5) by (auto simp: iter_layout_def bson_type_defs unat_add_small split: if_splits)
  show ?thesis
  proof (cases "st = BSON_SUBTYPE_BINARY_DEPRECATED")
    case True
    define n where "n = length bs"
    have d: "drop (unat (it_d1 it)) data = le32 (of_nat (n + 4)) @ [st] @ le32 (of_nat n) @ bs @ rest"
      using m(3) True by (simp add: n_def)
    note d4 = drop_part [OF d]
    note d5 = drop_part [OF d4]
    note d9 = drop_part [OF d5]
    have "rd32 data (unat (it_d1 it)) = Ret (of_nat (n + 4))" using drop_rd(1) [OF d] by simp
    moreover have "rd8 data (unat (it_d2 it)) = Ret st" using drop_rd(3) [OF d4] d23 by simp
    moreover have "drop (unat (it_d3 it) + 4) data = bs @ rest" using d9 d23 by (simp add: add.commute)
    moreover have "unat (of_nat (n + 4) - 4 :: u32) = n" using m(4) True by (simp add: n_def unat_of_nat)
    ultimately show ?thesis
      using m(1,2) True by (auto simp: bson_iter_binary_def iter_reads ptr_len_def ptr_to_def n_def simp del: of_nat_add)
  next
    case False
    then have d: "drop (unat (it_d1 it)) data = le32 (of_nat (length bs)) @ [st] @ bs @ rest" using m(3) by simp
    note d4 = drop_part [OF d]
    note d5 = drop_part [OF d4]
    have "rd32 data (unat (it_d1 it)) = Ret (of_nat (length bs))" using drop_rd(1) [OF d] by simp
    moreover have "rd8 data (unat (it_d2 it)) = Ret st" using drop_rd(3) [OF d4] d23 by simp
    moreover have "drop (unat (it_d3 it)) data = bs @ rest" using d5 d23 by (simp add: add.commute)
    ultimately show ?thesis
      using m False by (auto simp: bson_iter_binary_def iter_reads ptr_len_def ptr_to_def unat_of_nat)
  qed
qed

lemma on_regex:
  assumes on: "iter_on data len (BSON_TYPE_REGEX, k, re @ [0] @ opts @ [0]) it" and z: "0 \<notin> set re" "0 \<notin> set opts"
  shows "\<exists>p q. bson_iter_regex it = Ret (p, q) \<and> ptr_to p (re @ [0]) \<and> ptr_to q (opts @ [0])"
proof -
  let ?v = "re @ [0] @ opts @ [0]"
  from on_facts [OF on] obtain rest where m: "it_raw it = Some data" "ITER_TYPE it = Ret BSON_TYPE_REGEX"
    "drop (unat (it_d1 it)) data = ?v @ rest" "unat (it_d1 it) + length ?v < 2147483648"
    "unat (it_d1 it) + length ?v < unat (it_len it)" "unat (it_len it) \<le> length data"
    "iter_layout data BSON_TYPE_REGEX it" by metis
  have "drop (unat (it_d1 it)) (take (unat (it_len it)) data) =
      re @ 0 # (take (unat (it_len it) - unat (it_d1 it) - length re - 1) (opts @ [0] @ rest))"
    using m(3,5) by (simp add: drop_take take_Cons')
  then have "scan_nul data (it_d1 it) (it_len it) = Ret (Some (it_d1 it + of_nat (length re)))"
    using scan_nul_spec [OF m(6), of "it_d1 it"] takeWhile_terminated [OF z(1)] by simp
  with m(7) have "it_d2 it = it_d1 it + of_nat (length re) + 1" by (auto simp: iter_layout_def bson_type_defs)
  then have d2: "unat (it_d2 it) = unat (it_d1 it) + length (re @ [0])"
    using m(4) by (simp add: unat_add_small unat_of_nat)
  have d: "drop (unat (it_d1 it)) data = (re @ [0]) @ opts @ [0] @ rest" using m(3) by simp
  from drop_part [OF d] d2 have "drop (unat (it_d2 it)) data = opts @ [0] @ rest" by simp
  with d m(1,2) show ?thesis by (auto simp: bson_iter_regex_def iter_reads ptr_to_def)
qed

lemma on_dbpointer:
  assumes on: "iter_on data len (BSON_TYPE_DBPOINTER, k, enc_string c @ oid) it" and oid: "length oid = 12"
  shows "\<exists>p n q. bson_iter_dbpointer it = Ret (n, p, q) \<and> ptr_len p n c [0] \<and> cptr_oid q = Ret oid"
proof -
  let ?v = "enc_string c @ oid"
  from on_facts [OF on] obtain rest where m: "it_raw it = Some data" "ITER_TYPE it = Ret BSON_TYPE_DBPOINTER"
    "drop (unat (it_d1 it)) data = ?v @ rest" "unat (it_d1 it) + length ?v < 2147483648"
    "iter_layout data BSON_TYPE_DBPOINTER it" by metis
  define n where "n = length c + 1"
  have d: "drop (unat (it_d1 it)) data = le32 (of_nat n) @ (c @ [0]) @ oid @ rest"
    using m(3) by (simp add: enc_string_def n_def)
  note d4 = drop_part [OF d]
  note d5 = drop_part [OF d4]
  have rd: "rd32 data (unat (it_d1 it)) = Ret (of_nat n)" using drop_rd(1) [OF d] by simp
  with m(5) have "it_d2 it = it_d1 it + 4" "it_d3 it = it_d1 it + 4 + of_nat n" by (auto simp: iter_layout_def bson_type_defs)
  then have d23: "unat (it_d2 it) = unat (it_d1 it) + 4" "unat (it_d3 it) = unat (it_d1 it) + 4 + n"
    using m(4) by (simp_all add: unat_add_small unat_of_nat enc_string_def n_def del: of_nat_add of_nat_Suc)
  have n: "unat (of_nat n :: u32) = n" "0 < n" using m(4) by (simp_all add: unat_of_nat enc_string_def n_def del: of_nat_add of_nat_Suc)
  have "drop (unat (it_d2 it)) data = c @ [0] @ oid @ rest" "drop (unat (it_d3 it)) data = oid @ rest"
    using d4 d5 d23 by (simp_all add: n_def)
  moreover have "unat (of_nat n - 1 :: u32) = length c" using n by (simp add: unat_sub_le n_def del: of_nat_add of_nat_Suc)
  moreover have "0 < (of_nat n :: u32)" using n by (simp add: word_less_nat_alt)
  ultimately show ?thesis
    using m(1,2) rd oid by (auto simp: bson_iter_dbpointer_def iter_reads ptr_len_def ptr_to_def cptr_oid_def rdn_def)
qed

lemma on_codewscope:
  assumes on: "iter_on data len (BSON_TYPE_CODEWSCOPE, k, data_bytes (D_codewscope c sc)) it" and sc: "sub_ok sc"
  shows "\<exists>p n m q. bson_iter_codewscope it = Ret (p, n, m, q) \<and> ptr_len p n c [0] \<and> ptr_len q m sc []"
proof -
  let ?v = "data_bytes (D_codewscope c sc)"
  from on_facts [OF on] obtain rest where m: "it_raw it = Some data" "ITER_TYPE it = Ret BSON_TYPE_CODEWSCOPE"
    "drop (unat (it_d1 it)) data = ?v @ rest" "unat (it_d1 it) + length ?v < 2147483648"
    "iter_layout data BSON_TYPE_CODEWSCOPE it" by metis
  define n where "n = length c + 1"
  define tot where "tot = length c + 9 + length sc"
  have scd: "sc = le32 (of_nat (length sc)) @ drop 4 sc" using sc append_take_drop_id [of 4 sc] by (simp add: sub_ok_def)
  have d: "drop (unat (it_d1 it)) data = le32 (of_nat tot) @ le32 (of_nat n) @ (c @ [0]) @ sc @ rest"
    using m(3) by (simp add: enc_string_def n_def tot_def)
  note d4 = drop_part [OF d]
  note d8 = drop_part [OF d4]
  note ds = drop_part [OF d8]
  have bnd: "unat (it_d1 it) + 8 + n + length sc < 2147483648" using m(4) by (simp add: enc_string_def n_def)
  have u4: "unat (it_d1 it + 4) = unat (it_d1 it) + 4" using bnd by (simp add: unat_add_small)
  have rd4: "rd32 data (unat (it_d1 it + 4)) = Ret (of_nat n)" using drop_rd(1) [OF d4] u4 by simp
  with m(5) have l: "it_d2 it = it_d1 it + 4" "it_d3 it = it_d1 it + 8" "it_d4 it = it_d1 it + 4 + 4 + of_nat n"
    by (auto simp: iter_layout_def bson_type_defs)
  then have u: "unat (it_d3 it) = unat (it_d1 it) + 8" "unat (it_d4 it) = unat (it_d1 it) + 8 + n"
    using bnd by (simp_all add: unat_add_small unat_of_nat)
  have d3: "drop (unat (it_d3 it)) data = c @ [0] @ sc @ rest" using d8 u by (simp add: add.assoc)
  have d4': "drop (unat (it_d4 it)) data = sc @ rest" using ds u by (simp add: n_def add.assoc)
  then have "drop (unat (it_d4 it)) data = le32 (of_nat (length sc)) @ drop 4 sc @ rest" using scd by (metis append.assoc)
  from drop_rd(1) [OF this] have rds: "rd32 data (unat (it_d4 it)) = Ret (of_nat (length sc))" by simp
  have un: "unat (of_nat n :: u32) = n" "0 < n" using bnd by (simp_all add: unat_of_nat n_def del: of_nat_add of_nat_Suc)
  have n: "0 < (of_nat n :: u32)" "unat (of_nat n - 1 :: u32) = length c"
    using un by (simp_all add: word_less_nat_alt unat_sub_le n_def del: of_nat_add of_nat_Suc)
  show ?thesis
    using m(1,2) l rd4 rds d3 d4' n bnd
    by (auto simp: bson_iter_codewscope_def iter_reads ptr_len_def ptr_to_def unat_of_nat)
qed

lemma on_fixed:
  assumes "iter_on data len (t, k, v) it"
  shows "ITER_TYPE it = Ret t" "length v = 4 \<Longrightarrow> iter_rd32 it (it_d1 it) = Ret (from_le v)"
    "length v = 8 \<Longrightarrow> iter_rd64 it (it_d1 it) = Ret (from_le v)"
    "v = [b] \<Longrightarrow> cbind (iter_mem it) (\<lambda>raw. rd8 raw (unat (it_d1 it))) = Ret b"
    "v = le64 l @ le64 h \<Longrightarrow> cbind (iter_mem it) (\<lambda>raw. cbind (rd64 raw (unat (it_d1 it))) (\<lambda>low.
       cbind (rd64 raw (unat (it_d1 it) + 8)) (\<lambda>high. Ret (low, high)))) = Ret (l, h)"
    "length v = 12 \<Longrightarrow> cbind (iter_ptr it (it_d1 it)) cptr_oid = Ret v"
proof -
  from on_facts [OF assms] obtain rest where m: "it_raw it = Some data" "ITER_TYPE it = Ret t"
    and d: "drop (unat (it_d1 it)) data = v @ rest" by metis
  show "ITER_TYPE it = Ret t" by (rule m)
  show "length v = 4 \<Longrightarrow> iter_rd32 it (it_d1 it) = Ret (from_le v)"
    "length v = 8 \<Longrightarrow> iter_rd64 it (it_d1 it) = Ret (from_le v)"
    "v = [b] \<Longrightarrow> cbind (iter_mem it) (\<lambda>raw. rd8 raw (unat (it_d1 it))) = Ret b"
    using m drop_rd [OF d] by (simp_all add: iter_reads)
  show "length v = 12 \<Longrightarrow> cbind (iter_ptr it (it_d1 it)) cptr_oid = Ret v"
    using m d by (simp add: iter_reads cptr_oid_def rdn_def)
  assume v: "v = le64 l @ le64 h"
  then have d0: "drop (unat (it_d1 it)) data = le64 l @ le64 h @ rest" using d by simp
  show "cbind (iter_mem it) (\<lambda>raw. cbind (rd64 raw (unat (it_d1 it))) (\<lambda>low.
       cbind (rd64 raw (unat (it_d1 it) + 8)) (\<lambda>high. Ret (low, high)))) = Ret (l, h)"
    using drop_rd(2) [OF d0] drop_rd(2) [OF drop_part [OF d0]] m by (simp add: iter_mem_def)
qed

lemma timestamp_halves:
  "(ucast (drop_bit 32 (push_bit 32 (ucast t) OR ucast i :: u64) AND 0xFFFFFFFF) :: u32) = t"
  "(ucast ((push_bit 32 (ucast t) OR ucast i :: u64) AND 0xFFFFFFFF) :: u32) = i"
proof -
  have m: "(0xFFFFFFFF :: u64) = mask 32" by (simp add: mask_eq_exp_minus_1)
  show "(ucast (drop_bit 32 (push_bit 32 (ucast t) OR ucast i :: u64) AND 0xFFFFFFFF) :: u32) = t"
    "(ucast ((push_bit 32 (ucast t) OR ucast i :: u64) AND 0xFFFFFFFF) :: u32) = i"
    unfolding m by (auto simp: bit_eq_iff bit_simps dest: bit_imp_le_length)
qed

lemma value_on:
  assumes "iter_on data len (data_type x, k, data_bytes x) it" "data_ok x"
  shows "\<exists>v. bson_iter_value it = Ret (Some v) \<and> value_shows x v"
proof -
  note f = on_fixed [OF assms(1)]
  note defs = bson_iter_value_def bson_iter_double_def bson_iter_int32_def bson_iter_int64_def bson_iter_date_time_def
    bson_iter_bool_def bson_iter_oid_def bson_iter_decimal128_def bson_iter_timestamp_def
  show ?thesis
  proof (cases x)
    case (D_utf8 s)
    with on_string [of data len "data_type x" k s it] assms f show ?thesis
      by (auto simp: bson_iter_value_def bson_iter_utf8_def bson_type_defs)
  next
    case (D_code s)
    with on_string [of data len "data_type x" k s it] assms f show ?thesis
      by (auto simp: bson_iter_value_def bson_iter_code_def bson_type_defs)
  next
    case (D_symbol s)
    with on_string [of data len "data_type x" k s it] assms f show ?thesis
      by (auto simp: bson_iter_value_def bson_iter_symbol_def bson_type_defs)
  next
    case (D_document d)
    with on_subdocument [of data len "data_type x" k d it] assms f show ?thesis
      by (auto simp: bson_iter_value_def bson_iter_document_def bson_type_defs)
  next
    case (D_array d)
    with on_subdocument [of data len "data_type x" k d it] assms f show ?thesis
      by (auto simp: bson_iter_value_def bson_iter_array_def bson_type_defs)
  next
    case (D_binary st bs)
    with on_binary [of data len k st bs it] assms f show ?thesis
      by (auto simp: bson_iter_value_def bson_type_defs simp del: data_bytes.simps)
  next
    case (D_regex re opts)
    with on_regex [of data len k re opts it] assms f show ?thesis
      by (auto simp: bson_iter_value_def bson_type_defs)
  next
    case (D_dbpointer c oid)
    with on_dbpointer [of data len k c oid it] assms f show ?thesis
      by (auto simp: bson_iter_value_def bson_type_defs)
  next
    case (D_codewscope c sc)
    with on_codewscope [of data len k c sc it] assms f show ?thesis
      by (auto simp: bson_iter_value_def bson_type_defs simp del: data_bytes.simps)
  next
    case (D_timestamp t i)
    with f assms timestamp_halves [of t i] show ?thesis by (simp add: defs bson_type_defs)
  next
    case (D_decimal128 l h)
    with f(5) [of l h] obtain raw where "iter_mem it = Ret raw" "rd64 raw (unat (it_d1 it)) = Ret l"
      "rd64 raw (unat (it_d1 it) + 8) = Ret h" by (auto simp: cbind_eq_Ret)
    with D_decimal128 f(1) show ?thesis by (simp add: defs bson_type_defs)
  next
    case (D_bool b)
    with f assms show ?thesis by (cases b) (auto simp: defs bson_type_defs cbind_eq_Ret)
  next
    case (D_oid oid)
    with f assms show ?thesis by (auto simp: defs bson_type_defs cbind_eq_Ret)
  qed (use f assms in \<open>simp_all add: defs bson_type_defs\<close>)
qed

text \<open>
  C23. \<open>bson_iter_value\<close>, and with it the typed accessors it dispatches to, decodes every well-formed
  value: numbers, dates and ObjectIDs come out as they were encoded, and strings, binaries, embedded
  documents, regular expressions and code come out as their exact length and a pointer to their
  bytes, for all 21 types.
\<close>

theorem iter_value_shows:
  assumes "iter_on data len (data_type x, k, data_bytes x) it" "data_ok x"
  shows "\<exists>v. bson_iter_value it = Ret (Some v) \<and> value_shows x v"
  using assms by (rule value_on)

lemma next_on_first:
  fixes junk :: "byte list"
  assumes ok: "doc_ok (e # es)"
  defines "data \<equiv> doc_bytes (e # es) @ junk" and "n \<equiv> of_nat (length (doc_bytes (e # es)))"
  shows "\<exists>it. bson_iter_next (iter_start data n) = Ret (True, it) \<and> iter_on data n e it \<and> unat (it_off it) = 4"
  using next_before [OF doc_start_before [OF ok, of junk]] by (auto simp: data_def n_def) (simp add: iter_start_def)

theorem iter_value_shows_witness:
  "\<exists>it v. bson_iter_next (iter_start (doc_bytes example_doc) 12) = Ret (True, it) \<and>
     bson_iter_value it = Ret (Some v) \<and> v = V_int32 7"
proof -
  obtain it where n: "bson_iter_next (iter_start (doc_bytes example_doc) 12) = Ret (True, it)"
    and on: "iter_on (doc_bytes example_doc) 12 (data_type (D_int32 7), [0x61], data_bytes (D_int32 7)) it"
    using next_on_first [of "(BSON_TYPE_INT32, [0x61], [7, 0, 0, 0])" "[]" "[]", folded example_doc_def]
    by (auto simp: doc_ok_def example_doc_elems example_doc_bytes INT32_MAX_def le32_eq)
  from iter_value_shows [OF on] n show ?thesis by simp
qed

lemma sint_small: "uint (w :: u64) < 2 ^ 63 \<Longrightarrow> sint w = uint w"
proof -
  assume "uint w < 2 ^ 63"
  moreover have "- (2 ^ 63) \<le> uint w" by (rule order.trans [of _ 0]) simp_all
  ultimately show ?thesis by (simp add: sint_uint signed_take_bit_int_eq_self)
qed

text \<open>
  C24. \<open>bson_iter_time_t\<close> divides the milliseconds as an unsigned number: every date before 1970,
  a negative number of milliseconds, is reported as a positive number of seconds.
\<close>

theorem time_t_before_epoch:
  assumes "iter_on data len (BSON_TYPE_DATE_TIME, k, le64 v) it" "sint v < 0"
  shows "\<exists>secs. bson_iter_time_t it = Ret secs \<and> 0 < sint secs"
proof -
  note f = on_fixed [OF assms(1)]
  have big: "2 ^ 63 \<le> uint v"
  proof (rule ccontr)
    assume "\<not> ?thesis"
    then have "uint v < 2 ^ 63" by simp
    then have "sint v = uint v" by (rule sint_small)
    with assms(2) show False by simp
  qed
  have div: "uint (v div 1000) = uint v div 1000" by (simp add: uint_div)
  have "uint v < 2 ^ 64" using uint_bounded [of v] by simp
  then have "uint (v div 1000) < 2 ^ 63" unfolding div by (simp add: div_less_iff_less_mult)
  then have "sint (v div 1000) = uint (v div 1000)" by (rule sint_small)
  moreover have "0 < uint (v div 1000)" unfolding div using big by (simp add: pos_imp_zdiv_pos_iff)
  ultimately show ?thesis using f(1,3) by (simp add: bson_iter_time_t_def)
qed

theorem time_t_before_epoch_witness:
  "\<exists>it secs. bson_iter_next (iter_start (doc_bytes [(BSON_TYPE_DATE_TIME, [0x61], le64 (- 1))]) 16) = Ret (True, it) \<and>
     bson_iter_time_t it = Ret secs \<and> 0 < sint secs"
proof -
  let ?es = "[(BSON_TYPE_DATE_TIME, [0x61], le64 (- 1))]"
  have ok: "doc_ok ?es" by (simp add: doc_ok_def payload_ok_simps doc_bytes_def INT32_MAX_def)
  have len: "length (doc_bytes ?es) = 16" by (simp add: doc_bytes_def)
  from next_on_first [OF ok, of "[]"] obtain it where "bson_iter_next (iter_start (doc_bytes ?es) 16) = Ret (True, it)"
    "iter_on (doc_bytes ?es) 16 (BSON_TYPE_DATE_TIME, [0x61], le64 (- 1)) it"
    unfolding len by auto
  with time_t_before_epoch [OF this(2)] show ?thesis by auto
qed

end
