(* ===== verification/Bson_Builder_Store.thy ===== *)
theory Bson_Builder_Store
  imports Bson_Builder Bson_Iter_Values
begin

text \<open>
  The storage of a document under construction: what a well-formed \<open>bson_t\<close> holds (\<open>bson_holds\<close>), which
  memory an operation leaves alone (\<open>keeps\<close>), when a buffer can grow (\<open>has_room\<close>), and the exact behaviour
  of \<open>_bson_append\<close> on all of them (\<open>append_spec\<close>): the bytes of the pairs go in front of the final NUL
  and the length field is updated, or nothing changes at all.
\<close>

section \<open>Flags\<close>

lemma has_flag_bit:
  "has_flag b BSON_FLAG_INLINE \<longleftrightarrow> bit (b_flags b) 0" "has_flag b BSON_FLAG_STATIC \<longleftrightarrow> bit (b_flags b) 1"
  "has_flag b BSON_FLAG_RDONLY \<longleftrightarrow> bit (b_flags b) 2" "has_flag b BSON_FLAG_CHILD \<longleftrightarrow> bit (b_flags b) 3"
  "has_flag b BSON_FLAG_IN_CHILD \<longleftrightarrow> bit (b_flags b) 4" "has_flag b BSON_FLAG_NO_FREE \<longleftrightarrow> bit (b_flags b) 5"
proof -
  have *: "w AND 2 ^ k \<noteq> 0 \<longleftrightarrow> bit w k" if "k < 32" for w :: u32 and k
    using that by (auto simp: word_eq_bits [of "w AND _" 0] bit_and_iff bit_exp_iff)
  show "has_flag b BSON_FLAG_INLINE \<longleftrightarrow> bit (b_flags b) 0" "has_flag b BSON_FLAG_STATIC \<longleftrightarrow> bit (b_flags b) 1"
    "has_flag b BSON_FLAG_RDONLY \<longleftrightarrow> bit (b_flags b) 2" "has_flag b BSON_FLAG_CHILD \<longleftrightarrow> bit (b_flags b) 3"
    "has_flag b BSON_FLAG_IN_CHILD \<longleftrightarrow> bit (b_flags b) 4" "has_flag b BSON_FLAG_NO_FREE \<longleftrightarrow> bit (b_flags b) 5"
    using * [of 0 "b_flags b"] * [of 1 "b_flags b"] * [of 2 "b_flags b"] * [of 3 "b_flags b"]
      * [of 4 "b_flags b"] * [of 5 "b_flags b"] by (simp_all add: has_flag_def bson_flag_defs)
qed

lemma flag_bits:
  "bit BSON_FLAG_INLINE n \<longleftrightarrow> n = 0" "bit BSON_FLAG_STATIC n \<longleftrightarrow> n = 1" "bit BSON_FLAG_RDONLY n \<longleftrightarrow> n = 2"
  "bit BSON_FLAG_CHILD n \<longleftrightarrow> n = 3" "bit BSON_FLAG_IN_CHILD n \<longleftrightarrow> n = 4" "bit BSON_FLAG_NO_FREE n \<longleftrightarrow> n = 5"
proof -
  have *: "bit (2 ^ k :: u32) n \<longleftrightarrow> n = k" if "k < 32" for k using that by (auto simp: bit_exp_iff)
  show "bit BSON_FLAG_INLINE n \<longleftrightarrow> n = 0" "bit BSON_FLAG_STATIC n \<longleftrightarrow> n = 1" "bit BSON_FLAG_RDONLY n \<longleftrightarrow> n = 2"
    "bit BSON_FLAG_CHILD n \<longleftrightarrow> n = 3" "bit BSON_FLAG_IN_CHILD n \<longleftrightarrow> n = 4" "bit BSON_FLAG_NO_FREE n \<longleftrightarrow> n = 5"
    using * [of 0] * [of 1] * [of 2] * [of 3] * [of 4] * [of 5] by (simp_all add: bson_flag_defs)
qed

lemmas flag_simps = has_flag_bit flag_bits bit_and_iff bit_or_iff bit_not_iff

section \<open>The memory of a document\<close>

definition heap_ok :: "bheap \<Rightarrow> bool" where
  "heap_ok h \<longleftrightarrow> (\<forall>i\<ge>h_next h. h_cells h i = None)"

text \<open>The initialised bytes from the start of the document on, and the capacity behind that start.\<close>

definition bson_mem :: "bheap \<Rightarrow> bson_t \<Rightarrow> byte list \<Rightarrow> nat \<Rightarrow> bool" where
  "bson_mem h b m cap \<longleftrightarrow> heap_ok h \<and> length m \<le> cap \<and>
     (if has_flag b BSON_FLAG_INLINE
      then b_inline b = m \<and> cap = BSON_INLINE_DATA_SIZE \<and> \<not> has_flag b BSON_FLAG_CHILD
      else \<exists>pre. h_cells h (b_buf b) = Some (Some (pre @ m), length pre + cap) \<and>
        unat (b_offset b) = length pre \<and> length pre + cap \<le> INT32_MAX \<and>
        (\<not> has_flag b BSON_FLAG_CHILD \<longrightarrow> b_depth b = 0))"

definition reserve :: "bson_t \<Rightarrow> nat" where
  "reserve b = (if has_flag b BSON_FLAG_INLINE then 0 else unat (b_depth b))"

text \<open>
  \<open>b\<close> holds the document bytes \<open>D\<close>: they are the first \<open>len\<close> bytes, and behind them there is room
  for the final NULs of the documents around it.
\<close>

definition bson_holds :: "bheap \<Rightarrow> bson_t \<Rightarrow> byte list \<Rightarrow> bool" where
  "bson_holds h b D \<longleftrightarrow> unat (b_len b) = length D \<and> 5 \<le> length D \<and>
     (\<exists>junk cap. bson_mem h b (D @ junk) cap \<and> length D + reserve b \<le> cap)"

text \<open>What an operation on \<open>b\<close> leaves alone: the other buffers, and the bytes before the document.\<close>

definition cell_bytes :: "bheap \<Rightarrow> nat \<Rightarrow> byte list" where
  "cell_bytes h i = (case h_cells h i of Some (Some bytes, n) \<Rightarrow> bytes | _ \<Rightarrow> [])"

definition keeps :: "bheap \<Rightarrow> bson_t \<Rightarrow> bheap \<Rightarrow> bson_t \<Rightarrow> bool" where
  "keeps h b h' b' \<longleftrightarrow> h_next h \<le> h_next h' \<and>
     (\<forall>i<h_next h. has_flag b BSON_FLAG_INLINE \<or> i \<noteq> b_buf b \<longrightarrow> h_cells h' i = h_cells h i) \<and>
     (if has_flag b BSON_FLAG_INLINE
      then b_flags b' = b_flags b \<or>
        b_flags b' = b_flags b AND NOT BSON_FLAG_INLINE \<and> h_next h \<le> b_buf b' \<and> b_own b' \<and> b_realloc b' \<and> b_offset b' = 0
      else b_flags b' = b_flags b \<and> b_buf b' = b_buf b \<and> b_own b' = b_own b \<and> b_offset b' = b_offset b \<and>
        b_depth b' = b_depth b \<and> b_realloc b' = b_realloc b \<and>
        take (unat (b_offset b)) (cell_bytes h' (b_buf b)) = take (unat (b_offset b)) (cell_bytes h (b_buf b)))"

lemma keeps_refl [simp]: "keeps h b h b"
  by (simp add: keeps_def)

lemma keeps_trans:
  assumes "keeps h b h1 b1" "keeps h1 b1 h2 b2"
  shows "keeps h b h2 b2"
proof (cases "has_flag b BSON_FLAG_INLINE")
  case False
  then have "\<not> has_flag b1 BSON_FLAG_INLINE" using assms(1) by (simp add: keeps_def has_flag_def)
  with False assms show ?thesis by (auto simp: keeps_def)
next
  case True
  show ?thesis
  proof (cases "b_flags b1 = b_flags b")
    case same: True
    with True assms show ?thesis by (auto simp: keeps_def has_flag_def)
  next
    case False
    with True assms(1) have "b_flags b1 = b_flags b AND NOT BSON_FLAG_INLINE" "h_next h \<le> b_buf b1" "b_own b1" "b_realloc b1" "b_offset b1 = 0"
      by (auto simp: keeps_def)
    moreover from this have "\<not> has_flag b1 BSON_FLAG_INLINE" by (simp add: flag_simps)
    ultimately show ?thesis using True assms by (auto simp: keeps_def)
  qed
qed

lemma keeps_flags: "keeps h b h' b' \<Longrightarrow> n \<noteq> 0 \<Longrightarrow> bit (b_flags b') n = bit (b_flags b) n"
  using bit_imp_le_length [of "b_flags b" n] by (auto simp: keeps_def flag_simps split: if_splits)

lemma keeps_len [simp]: "keeps h b h' (b'\<lparr>b_len := n\<rparr>) = keeps h b h' b'" "keeps h (b\<lparr>b_len := n\<rparr>) h' b' = keeps h b h' b'"
  by (simp_all add: keeps_def has_flag_def)

lemma bson_mem_len [simp]: "bson_mem h (b\<lparr>b_len := n\<rparr>) m cap = bson_mem h b m cap"
  by (simp add: bson_mem_def has_flag_def)

lemma reserve_len [simp]: "reserve (b\<lparr>b_len := n\<rparr>) = reserve b"
  by (simp add: reserve_def has_flag_def)

lemma data_mem_spec: "bson_mem h b m cap \<Longrightarrow> bson_data_mem h b = Ret m"
  by (auto simp: bson_mem_def bson_data_mem_def split: if_splits)

text \<open>A store inside the capacity that leaves no gap.\<close>

lemma data_put_spec:
  assumes "bson_mem h b m cap" "pos \<le> length m" "pos + length bs \<le> cap"
  shows "\<exists>b' h'. bson_data_put h b pos bs = Ret (b', h') \<and> keeps h b h' b' \<and> b_len b' = b_len b \<and>
    reserve b' = reserve b \<and> bson_mem h' b' (take pos m @ bs @ drop (pos + length bs) m) cap"
proof (cases "has_flag b BSON_FLAG_INLINE")
  case True
  let ?m = "take pos m @ bs @ drop (pos + length bs) m"
  have "bson_data_put h b pos bs = Ret (b\<lparr>b_inline := ?m\<rparr>, h)"
    using True assms by (simp add: bson_data_put_def bson_mem_def bput_def)
  moreover have "keeps h b h (b\<lparr>b_inline := ?m\<rparr>)" using True by (simp add: keeps_def)
  moreover have "bson_mem h (b\<lparr>b_inline := ?m\<rparr>) ?m cap" using True assms by (auto simp: bson_mem_def has_flag_def)
  ultimately show ?thesis by (auto simp: reserve_def has_flag_def)
next
  case False
  then obtain pre where pre: "h_cells h (b_buf b) = Some (Some (pre @ m), length pre + cap)"
    "unat (b_offset b) = length pre" "length pre + cap \<le> INT32_MAX" "\<not> has_flag b BSON_FLAG_CHILD \<longrightarrow> b_depth b = 0"
    "heap_ok h"
    using assms by (auto simp: bson_mem_def)
  let ?m = "take pos m @ bs @ drop (pos + length bs) m"
  let ?h = "heap_set h (b_buf b) (Some (pre @ ?m)) (length pre + cap)"
  have "bson_data_put h b pos bs = Ret (b, ?h)"
    using False assms pre by (simp add: bson_data_put_def bput_def add.assoc)
  moreover have "b_buf b < h_next h" using pre unfolding heap_ok_def by (metis option.distinct(1) not_le)
  then have "heap_ok ?h" using pre(5) by (simp add: heap_ok_def heap_set_def)
  then have "bson_mem ?h b ?m cap" using False assms pre by (auto simp: bson_mem_def heap_set_def)
  moreover have "keeps h b ?h b" using False pre by (simp add: keeps_def heap_set_def cell_bytes_def)
  ultimately show ?thesis by blast
qed


section \<open>Growing\<close>

definition cell_size :: "bheap \<Rightarrow> nat \<Rightarrow> nat" where
  "cell_size h i = (case h_cells h i of Some (p, n) \<Rightarrow> n | None \<Rightarrow> 0)"

text \<open>When there is, or can be made, room for \<open>n\<close> more bytes.\<close>

definition has_room :: "bheap \<Rightarrow> bson_t \<Rightarrow> nat \<Rightarrow> bool" where
  "has_room h b n \<longleftrightarrow>
     (if has_flag b BSON_FLAG_INLINE then unat (b_len b) + n \<le> 2 ^ 30
      else let req = unat (b_offset b) + unat (b_len b) + n + unat (b_depth b)
           in req \<le> cell_size h (b_buf b) \<or> b_realloc b \<and> req \<le> 2 ^ 30)"

lemma next_power_fits:
  assumes "1 \<le> unat v" "unat v \<le> 2 ^ 63"
  shows "unat (bson_next_power_of_two v) \<le> INT32_MAX \<longleftrightarrow> unat v \<le> 2 ^ 30" "unat v \<le> unat (bson_next_power_of_two v)"
proof -
  obtain k where k: "unat (bson_next_power_of_two v) = 2 ^ k" "unat v \<le> 2 ^ k" "2 ^ k < 2 * unat v"
    using bson_next_power_of_two_is_power [OF assms] by blast
  then show "unat v \<le> unat (bson_next_power_of_two v)" by simp
  have "(2::nat) ^ k \<le> INT32_MAX \<longleftrightarrow> k \<le> 30"
  proof
    assume "(2::nat) ^ k \<le> INT32_MAX"
    then have "(2::nat) ^ k < 2 ^ 31" by (simp add: INT32_MAX_def)
    then have "k < 31" by (rule power_less_imp_less_exp [rotated]) simp
    then show "k \<le> 30" by simp
  next
    assume "k \<le> 30"
    then have "(2::nat) ^ k \<le> 2 ^ 30" by (rule power_increasing) simp
    then show "(2::nat) ^ k \<le> INT32_MAX" by (simp add: INT32_MAX_def)
  qed
  also have "k \<le> 30 \<longleftrightarrow> unat v \<le> 2 ^ 30"
  proof
    assume "k \<le> 30"
    then have "(2::nat) ^ k \<le> 2 ^ 30" by (rule power_increasing) simp
    with k(2) show "unat v \<le> 2 ^ 30" by simp
  next
    assume "unat v \<le> 2 ^ 30"
    with k(3) have "(2::nat) ^ k < 2 ^ 31" by simp
    then have "k < 31" by (rule power_less_imp_less_exp [rotated]) simp
    then show "k \<le> 30" by simp
  qed
  finally show "unat (bson_next_power_of_two v) \<le> INT32_MAX \<longleftrightarrow> unat v \<le> 2 ^ 30" by (simp add: k(1))
qed

definition grown :: "bheap \<Rightarrow> bson_t \<Rightarrow> byte list \<Rightarrow> nat \<Rightarrow> build \<Rightarrow> bool" where
  "grown h b D n r \<longleftrightarrow>
     (if has_room h b n
      then \<exists>b' h' junk cap. r = Ret (True, b', h') \<and> keeps h b h' b' \<and> b_len b' = b_len b \<and>
        bson_mem h' b' (D @ junk) cap \<and> length D + n + reserve b' \<le> cap
      else r = Ret (False, b, h))"

lemma grownI:
  assumes "has_room h b n" "r = Ret (True, b', h')" "keeps h b h' b'" "b_len b' = b_len b"
    "bson_mem h' b' (D @ junk) cap" "length D + n + reserve b' \<le> cap"
  shows "grown h b D n r"
  using assms by (auto simp: grown_def)

lemma inline_grow_spec:
  assumes inl: "has_flag b BSON_FLAG_INLINE" and holds: "bson_holds h b D"
  shows "grown h b D (unat n) (bson_impl_inline_grow h b (ucast (n :: u32)))"
proof -
  from inl holds obtain junk where m: "b_inline b = D @ junk" "length (D @ junk) \<le> 120" "heap_ok h"
    "\<not> has_flag b BSON_FLAG_CHILD" and len: "unat (b_len b) = length D" "5 \<le> length D"
    by (auto simp: bson_holds_def bson_mem_def BSON_INLINE_DATA_SIZE_def)
  define v where "v = (ucast (b_len b) + ucast n :: u64)"
  have v: "unat v = length D + unat n"
    using unat_u32_less [of n] unat_u32_less [of "b_len b"] len by (simp add: v_def word_nat)
  note np = next_power_fits [of v]
  have vb: "1 \<le> unat v" "unat v \<le> 2 ^ 63" using v len m(2) unat_u32_less [of n] by auto
  have room: "has_room h b (unat n) \<longleftrightarrow> unat v \<le> 2 ^ 30" using inl len v by (simp add: has_room_def)
  show ?thesis
  proof (cases "unat v \<le> 120")
    case True
    then have "bson_impl_inline_grow h b (ucast n) = Ret (True, b, h)"
      by (simp add: bson_impl_inline_grow_def v_def [symmetric] BSON_INLINE_DATA_SIZE_def word_le_nat_alt)
    moreover have "bson_mem h b (D @ junk) 120" using inl m by (simp add: bson_mem_def BSON_INLINE_DATA_SIZE_def)
    moreover have "length D + unat n + reserve b \<le> 120" using True v inl by (simp add: reserve_def)
    ultimately show ?thesis unfolding grown_def room using True by auto
  next
    case False
    then have big: "\<not> v \<le> of_nat BSON_INLINE_DATA_SIZE" by (simp add: BSON_INLINE_DATA_SIZE_def word_le_nat_alt)
    let ?req = "unat (bson_next_power_of_two v)"
    let ?b = "b\<lparr>b_flags := b_flags b AND NOT BSON_FLAG_INLINE, b_depth := 0, b_buf := h_next h,
                b_own := True, b_offset := 0, b_realloc := True, b_inline := []\<rparr>"
    let ?h = "h\<lparr>h_cells := (h_cells h)(h_next h \<mapsto> (Some D, ?req)), h_next := h_next h + 1\<rparr>"
    show ?thesis
    proof (cases "unat v \<le> 2 ^ 30")
      case small: True
      then have r: "?req \<le> INT32_MAX" "length D + unat n \<le> ?req" using np vb v by auto
      have "rdn (b_inline b) 0 (unat (b_len b)) = Ret D" using m len by (simp add: rdn_def)
      then have "bson_impl_inline_grow h b (ucast n) = Ret (True, ?b, ?h)"
        using big r by (simp add: bson_impl_inline_grow_def v_def [symmetric] bput_def heap_new_def)
      moreover have "keeps h b ?h ?b" using inl by (auto simp: keeps_def)
      moreover have "bson_mem ?h ?b (D @ []) ?req"
        using r m(3,4) by (auto simp: bson_mem_def flag_simps heap_ok_def)
      moreover have "length D + unat n + reserve ?b \<le> ?req" using r by (simp add: reserve_def)
      ultimately show ?thesis using small room by (intro grownI [where b' = ?b and h' = ?h and junk = "[]" and cap = ?req]) auto
    next
      case large: False
      then have "\<not> ?req \<le> INT32_MAX" using np vb by simp
      then have "bson_impl_inline_grow h b (ucast n) = Ret (False, b, h)"
        using big by (simp add: bson_impl_inline_grow_def v_def [symmetric] Let_def)
      then show ?thesis unfolding grown_def room using large by simp
    qed
  qed
qed

lemma alloc_grow_spec:
  assumes al: "\<not> has_flag b BSON_FLAG_INLINE" and holds: "bson_holds h b D"
  shows "grown h b D (unat n) (bson_impl_alloc_grow h b (ucast (n :: u32)))"
proof -
  from al holds obtain pre junk cap where
    m: "h_cells h (b_buf b) = Some (Some (pre @ D @ junk), length pre + cap)" "unat (b_offset b) = length pre"
      "length pre + cap \<le> INT32_MAX" "\<not> has_flag b BSON_FLAG_CHILD \<longrightarrow> b_depth b = 0" "heap_ok h"
      "length (D @ junk) \<le> cap"
    and len: "unat (b_len b) = length D" "5 \<le> length D" "length D + unat (b_depth b) \<le> cap"
    by (auto simp: bson_holds_def bson_mem_def reserve_def)
  have buf: "b_buf b < h_next h" using m unfolding heap_ok_def by (metis option.distinct(1) not_le)
  define v where "v = b_offset b + ucast (b_len b) + ucast n + ucast (b_depth b)"
  have "length pre \<le> 2147483647" using m(3) by (simp add: INT32_MAX_def)
  then have v: "unat v = length pre + length D + unat n + unat (b_depth b)"
    using unat_u32_less [of n] unat_u32_less [of "b_len b"] unat_u32_less [of "b_depth b"] len m(2)
    by (simp add: v_def word_nat)
  have vb: "1 \<le> unat v" "unat v \<le> 2 ^ 63"
    using v len m(3) unat_u32_less [of n] by (auto simp: INT32_MAX_def)
  note np = next_power_fits [OF vb]
  have capw: "unat (of_nat (length pre + cap) :: u64) = length pre + cap"
    using m(3) by (subst unat_of_nat) (simp add: INT32_MAX_def)
  have room: "has_room h b (unat n) \<longleftrightarrow> unat v \<le> length pre + cap \<or> b_realloc b \<and> unat v \<le> 2 ^ 30"
    using al len v m by (simp add: has_room_def cell_size_def)
  have unf: "bson_impl_alloc_grow h b (ucast n) =
     (if unat v \<le> length pre + cap then Ret (True, b, h)
      else if unat (bson_next_power_of_two v) \<le> INT32_MAX \<and> b_realloc b
      then Ret (True, b, heap_set h (b_buf b)
        (Some (take (unat (bson_next_power_of_two v)) (pre @ D @ junk))) (unat (bson_next_power_of_two v)))
      else Ret (False, b, h))"
    using m(1) capw by (simp add: bson_impl_alloc_grow_def v_def [symmetric] Let_def word_le_nat_alt)
  consider "unat v \<le> length pre + cap"
    | "\<not> unat v \<le> length pre + cap" "b_realloc b" "unat v \<le> 2 ^ 30"
    | "\<not> has_room h b (unat n)" using room by blast
  then show ?thesis
  proof cases
    case 1
    have "bson_mem h b (D @ junk) cap" using al m by (auto simp: bson_mem_def)
    moreover have "length D + unat n + reserve b \<le> cap" using 1 v al by (simp add: reserve_def)
    ultimately show ?thesis using 1 unf room by (auto simp: grown_def)
  next
    case 2
    let ?req = "unat (bson_next_power_of_two v)"
    have r: "?req \<le> INT32_MAX" "unat v \<le> ?req" using 2 np by auto
    have tk: "take ?req (pre @ D @ junk) = pre @ D @ junk" using 2 r m(6) by simp
    let ?h = "heap_set h (b_buf b) (Some (pre @ D @ junk)) ?req"
    have "bson_impl_alloc_grow h b (ucast n) = Ret (True, b, ?h)" using unf 2 r tk by simp
    moreover have "keeps h b ?h b" using al m by (simp add: keeps_def heap_set_def cell_bytes_def)
    moreover have "bson_mem ?h b (D @ junk) (?req - length pre)"
      using al m 2 r buf v by (auto simp: bson_mem_def heap_set_def heap_ok_def)
    moreover have "length D + unat n + reserve b \<le> ?req - length pre" using r v al by (simp add: reserve_def)
    ultimately show ?thesis using 2 room unfolding grown_def by auto
  next
    case 3
    then show ?thesis using unf room np by (auto simp: grown_def)
  qed
qed

lemma grow_spec: "bson_holds h b D \<Longrightarrow> grown h b D (unat n) (bson_grow h b n)"
  using inline_grow_spec [of b h D n] alloc_grow_spec [of b h D n] by (auto simp: bson_grow_def)


section \<open>Appending\<close>

fun pair_bytes :: "u32 \<times> cptr \<Rightarrow> byte list" where
  "pair_bytes (n, p) = (case p of None \<Rightarrow> [] | Some m \<Rightarrow> take (unat n) m)"

fun pair_ok :: "u32 \<times> cptr \<Rightarrow> bool" where
  "pair_ok (n, p) \<longleftrightarrow> n = 0 \<or> (\<exists>m. p = Some m \<and> unat n \<le> length m)"

definition pairs_bytes :: "(u32 \<times> cptr) list \<Rightarrow> byte list" where
  "pairs_bytes pairs = concat (map pair_bytes pairs)"

lemma pairs_bytes_simps [simp]:
  "pairs_bytes [] = []" "pairs_bytes (p # ps) = pair_bytes p @ pairs_bytes ps"
  "pairs_bytes (ps @ qs) = pairs_bytes ps @ pairs_bytes qs"
  by (simp_all add: pairs_bytes_def)

lemma append_pairs_spec:
  assumes "bson_mem h b m cap" "list_all pair_ok pairs" "pos \<le> length m" "pos + length (pairs_bytes pairs) \<le> cap"
  shows "\<exists>b' h'. append_pairs h b pos pairs = Ret (True, pos + length (pairs_bytes pairs), b', h') \<and>
    keeps h b h' b' \<and> b_len b' = b_len b + of_nat (length (pairs_bytes pairs)) \<and> reserve b' = reserve b \<and>
    bson_mem h' b' (take pos m @ pairs_bytes pairs @ drop (pos + length (pairs_bytes pairs)) m) cap"
  using assms
proof (induction pairs arbitrary: h b m pos)
  case Nil
  then show ?case by simp
next
  case (Cons p pairs)
  obtain n d where p: "p = (n, d)" by (cases p)
  show ?case
  proof (cases "n = 0")
    case True
    then have "pair_bytes p = []" by (simp add: p split: option.split)
    with True p Cons.IH [OF Cons.prems(1)] Cons.prems show ?thesis by simp
  next
    case False
    with Cons.prems(2) p obtain data where d: "d = Some data" "unat n \<le> length data" by auto
    let ?bs = "take (unat n) data" and ?rest = "pairs_bytes pairs"
    have l: "length ?bs = unat n" using d by simp
    have fit: "pos + length ?bs \<le> cap" "pos + unat n + length ?rest \<le> cap" using Cons.prems(4) d p l by simp_all
    from data_put_spec [OF Cons.prems(1,3) fit(1)] obtain b1 h1 where
      put: "bson_data_put h b pos ?bs = Ret (b1, h1)" "keeps h b h1 b1" "b_len b1 = b_len b" "reserve b1 = reserve b"
      and m1: "bson_mem h1 b1 (take pos m @ ?bs @ drop (pos + length ?bs) m) cap" by blast
    let ?m1 = "take pos m @ ?bs @ drop (pos + length ?bs) m" and ?b1 = "b1\<lparr>b_len := b_len b1 + n\<rparr>"
    have "bson_mem h1 ?b1 ?m1 cap" using m1 by simp
    moreover have "list_all pair_ok pairs" using Cons.prems(2) by simp
    moreover have "pos + unat n \<le> length ?m1" using Cons.prems(3) l by simp
    ultimately obtain b2 h2 where
      r: "append_pairs h1 ?b1 (pos + unat n) pairs = Ret (True, pos + unat n + length ?rest, b2, h2)"
      "keeps h1 ?b1 h2 b2" "b_len b2 = b_len ?b1 + of_nat (length ?rest)" "reserve b2 = reserve ?b1"
      "bson_mem h2 b2 (take (pos + unat n) ?m1 @ ?rest @ drop (pos + unat n + length ?rest) ?m1) cap"
      using Cons.IH fit(2) by blast
    have "take (pos + unat n) ?m1 = take pos m @ ?bs" using Cons.prems(3) l by simp
    moreover have "drop (pos + unat n + length ?rest) ?m1 = drop (pos + unat n + length ?rest) m"
      using Cons.prems(3) l by (simp add: add.commute)
    moreover have "append_pairs h b pos (p # pairs) = append_pairs h1 ?b1 (pos + unat n) pairs"
      using False p d put(1) l by (simp add: rdn_def)
    moreover have "keeps h b h2 b2" using keeps_trans [OF put(2)] r(2) by simp
    ultimately show ?thesis using r put l p d Cons.prems(3) by (simp add: add.assoc)
  qed
qed

text \<open>The document bytes with \<open>bs\<close> appended: a new length and the final NUL behind.\<close>

definition extend :: "byte list \<Rightarrow> byte list \<Rightarrow> byte list" where
  "extend D bs = le32 (of_nat (length D + length bs)) @ drop 4 (butlast D) @ bs @ [0]"

lemma length_extend [simp]: "5 \<le> length D \<Longrightarrow> length (extend D bs) = length D + length bs"
  by (simp add: extend_def)

definition appended :: "bheap \<Rightarrow> bson_t \<Rightarrow> byte list \<Rightarrow> byte list \<Rightarrow> build \<Rightarrow> bool" where
  "appended h b D bs r \<longleftrightarrow>
     (if has_room h b (length bs)
      then \<exists>b' h'. r = Ret (True, b', h') \<and> keeps h b h' b' \<and> bson_holds h' b' (extend D bs)
      else r = Ret (False, b, h))"

lemma append_va_spec:
  assumes holds: "bson_holds h b D" and free: "\<not> has_flag b BSON_FLAG_IN_CHILD" "\<not> has_flag b BSON_FLAG_RDONLY"
    and ps: "list_all pair_ok pairs" and n: "unat n = length (pairs_bytes pairs)"
  shows "appended h b D (pairs_bytes pairs) (bson_append_va h b n pairs)"
proof (cases "has_room h b (unat n)")
  case False
  with grow_spec [OF holds, of n] have "bson_grow h b n = Ret (False, b, h)" by (simp add: grown_def)
  with False free n show ?thesis by (simp add: appended_def bson_append_va_def)
next
  case True
  let ?bs = "pairs_bytes pairs"
  have D: "unat (b_len b) = length D" "5 \<le> length D" using holds by (auto simp: bson_holds_def)
  from True grow_spec [OF holds, of n] obtain b1 h1 junk cap where
    g: "bson_grow h b n = Ret (True, b1, h1)" "keeps h b h1 b1" "b_len b1 = b_len b"
    "bson_mem h1 b1 (D @ junk) cap" "length D + unat n + reserve b1 \<le> cap" by (auto simp: grown_def)
  let ?pos = "length D - 1"
  have "?pos \<le> length (D @ junk)" "?pos + length ?bs \<le> cap" using g(5) n by simp_all
  from append_pairs_spec [OF g(4) ps this] obtain b2 h2 where
    a: "append_pairs h1 b1 ?pos pairs = Ret (True, ?pos + length ?bs, b2, h2)" "keeps h1 b1 h2 b2"
    "b_len b2 = b_len b1 + of_nat (length ?bs)" "reserve b2 = reserve b1"
    "bson_mem h2 b2 (take ?pos (D @ junk) @ ?bs @ drop (?pos + length ?bs) (D @ junk)) cap" by blast
  let ?tail = "drop (?pos + length ?bs) (D @ junk)"
  define m2 where "m2 = butlast D @ ?bs @ ?tail"
  have m2: "bson_mem h2 b2 m2 cap" using a(5) by (simp add: m2_def butlast_conv_take)
  from data_put_spec [OF m2, of 0 "le32 (b_len b2)"] g(5) D obtain b3 h3 where
    e: "bson_encode_length h2 b2 = Ret (b3, h3)" "keeps h2 b2 h3 b3" "b_len b3 = b_len b2" "reserve b3 = reserve b2"
    "bson_mem h3 b3 (le32 (b_len b2) @ drop 4 m2) cap" by (auto simp: bson_encode_length_def)
  define m3 where "m3 = le32 (b_len b2) @ drop 4 (butlast D) @ ?bs @ ?tail"
  have m3: "bson_mem h3 b3 m3 cap" using e(5) D by (simp add: m2_def m3_def)
  have p3: "?pos + length ?bs \<le> length m3" "?pos + length ?bs + length [0 :: byte] \<le> cap"
    using D g(5) n by (simp_all add: m3_def)
  from data_put_spec [OF m3 p3] obtain b4 h4 where
    z: "bson_data_put h3 b3 (?pos + length ?bs) [0] = Ret (b4, h4)" "keeps h3 b3 h4 b4" "b_len b4 = b_len b3"
    "reserve b4 = reserve b3"
    "bson_mem h4 b4 (take (?pos + length ?bs) m3 @ [0] @ drop (?pos + length ?bs + 1) m3) cap" by auto
  have tk: "take (?pos + length ?bs) m3 = le32 (b_len b2) @ drop 4 (butlast D) @ ?bs"
    using D by (simp add: m3_def)
  have len: "b_len b4 = of_nat (length D + length ?bs)" "unat (b_len b4) = length D + length ?bs"
  proof -
    have "of_nat (length ?bs) = n" using n [symmetric] by simp
    then have "b_len b4 = b_len b + n" by (simp add: a(3) g(3) e(3) z(3))
    moreover have "unat (b_len b) + unat n < 2 ^ 32"
      using g(4,5) D unfolding bson_mem_def
      by (auto simp: INT32_MAX_def BSON_INLINE_DATA_SIZE_def split: if_splits)
    ultimately show "unat (b_len b4) = length D + length ?bs" using D n by (simp add: word_nat)
    then show "b_len b4 = of_nat (length D + length ?bs)" by (metis unsigned_of_nat word_unat_eq_iff of_nat_unat ucast_id)
  qed
  have holds': "bson_holds h4 b4 (extend D ?bs)"
    unfolding bson_holds_def
  proof (intro conjI exI)
    show "bson_mem h4 b4 (extend D ?bs @ drop (?pos + length ?bs + 1) m3) cap"
      using z(3,5) e(3) tk len by (simp add: extend_def)
  qed (use D len g(5) n a e z in auto)
  have "bson_append_va h b n pairs = Ret (True, b4, h4)"
    using free g(1) a(1) e(1) z(1) D g(3) by (auto simp: bson_append_va_def unat_eq_0)
  moreover have "keeps h b h4 b4" using g(2) a(2) e(2) z(2) by (blast intro: keeps_trans)
  ultimately show ?thesis using True n holds' by (auto simp: appended_def)
qed

lemma holds_bound:
  assumes "bson_holds h b D" "has_room h b n"
  shows "length D \<le> INT32_MAX" "length D + n \<le> INT32_MAX"
proof -
  have "cell_size h (b_buf b) \<le> INT32_MAX" if "\<not> has_flag b BSON_FLAG_INLINE"
    using that assms by (auto simp: bson_holds_def bson_mem_def cell_size_def)
  with assms show "length D + n \<le> INT32_MAX"
    by (auto simp: has_room_def bson_holds_def INT32_MAX_def Let_def split: if_splits)
  then show "length D \<le> INT32_MAX" by simp
qed

lemma holds_small:
  assumes "bson_holds h b D"
  shows "length D \<le> INT32_MAX"
  using assms by (auto simp: bson_holds_def bson_mem_def INT32_MAX_def BSON_INLINE_DATA_SIZE_def split: if_splits)

lemma append_spec:
  assumes holds: "bson_holds h b D" and free: "\<not> has_flag b BSON_FLAG_IN_CHILD" "\<not> has_flag b BSON_FLAG_RDONLY"
    and ps: "list_all pair_ok pairs" "unat n = length (pairs_bytes pairs)"
    and first: "pairs = (l, Some d) # rest" "l \<noteq> 0"
  shows "appended h b D (pairs_bytes pairs) (bson_append h b n pairs)"
proof (cases "of_nat BSON_MAX_SIZE - ucast (b_len b) < (ucast n :: u64)")
  case False
  then have "bson_append h b n pairs = bson_append_va h b n pairs" using first by (simp add: bson_append_def)
  with append_va_spec [OF holds free ps] show ?thesis by simp
next
  case True
  then have "bson_append h b n pairs = Ret (False, b, h)" using first by (simp add: bson_append_def)
  moreover have "\<not> has_room h b (length (pairs_bytes pairs))"
  proof
    assume room: "has_room h b (length (pairs_bytes pairs))"
    have len: "unat (b_len b) = length D" using holds by (simp add: bson_holds_def)
    have "unat (of_nat BSON_MAX_SIZE - ucast (b_len b) :: u64) = BSON_MAX_SIZE - length D"
      using holds_small [OF holds] len by (simp add: word_nat BSON_MAX_SIZE_def INT32_MAX_def)
    with True have "BSON_MAX_SIZE < length D + unat n" by (simp add: word_less_nat_alt word_nat)
    with holds_bound [OF holds room] ps show False by (simp add: BSON_MAX_SIZE_def INT32_MAX_def)
  qed
  ultimately show ?thesis by (simp add: appended_def)
qed

end
