(* ===== verification/Bson_Append.thy ===== *)
theory Bson_Append
  imports Bson_Builder_Store
begin

text \<open>
  The append functions of \<open>bson.c\<close> on documents as lists of elements. The contract of an append
  function is the locale \<open>element_writer\<close>: it adds exactly one element with the encoding of its value,
  or reports lack of room and changes nothing. Every function is an interpretation of it, and what a
  client gets from the contract, the lookup of the value just written, is proved in the locale.
\<close>

section \<open>Documents under construction\<close>

definition bson_rep :: "bheap \<Rightarrow> bson_t \<Rightarrow> bson_elem list \<Rightarrow> bool" where
  "bson_rep h b es \<longleftrightarrow> bson_holds h b (doc_bytes es) \<and> \<not> has_flag b BSON_FLAG_IN_CHILD \<and> \<not> has_flag b BSON_FLAG_RDONLY"

text \<open>An attempt to append: exactly the elements \<open>fs\<close> are added, or nothing changes for lack of room.\<close>

definition appends :: "bheap \<Rightarrow> bson_t \<Rightarrow> bson_elem list \<Rightarrow> bson_elem list \<Rightarrow> build \<Rightarrow> bool" where
  "appends h b es fs r \<longleftrightarrow>
     (if has_room h b (length (enc_elems fs))
      then \<exists>b' h'. r = Ret (True, b', h') \<and> keeps h b h' b' \<and> bson_rep h' b' (es @ fs)
      else r = Ret (False, b, h))"

lemma length_doc_bytes: "length (doc_bytes es) = length (enc_elems es) + 5"
  by (simp add: doc_bytes_def)

lemma extend_doc: "extend (doc_bytes es) (enc_elems fs) = doc_bytes (es @ fs)"
proof -
  have "drop 4 (butlast (doc_bytes es)) = enc_elems es" by (simp add: doc_bytes_def butlast_append)
  then show ?thesis by (simp add: extend_def doc_bytes_def ac_simps)
qed

lemma keeps_rep_flags:
  assumes "keeps h b h' b'"
  shows "has_flag b' BSON_FLAG_IN_CHILD = has_flag b BSON_FLAG_IN_CHILD"
    "has_flag b' BSON_FLAG_RDONLY = has_flag b BSON_FLAG_RDONLY" "has_flag b' BSON_FLAG_CHILD = has_flag b BSON_FLAG_CHILD"
  using keeps_flags [OF assms] by (simp_all add: has_flag_bit)

lemma appended_appends:
  assumes "bson_rep h b es" "appended h b (doc_bytes es) (enc_elems fs) r"
  shows "appends h b es fs r"
  using assms keeps_rep_flags by (auto simp: appends_def appended_def bson_rep_def extend_doc split: if_splits)

text \<open>A key argument: NUL-terminated with a negative length, or counted.\<close>

definition key_arg :: "byte list \<Rightarrow> int \<Rightarrow> byte list \<Rightarrow> bool" where
  "key_arg mem kl key \<longleftrightarrow> length key \<le> INT32_MAX \<and>
     (kl < 0 \<and> 0 \<notin> set key \<and> (\<exists>r. mem = key @ 0 # r) \<or> kl = int (length key) \<and> (\<exists>r. mem = key @ r))"

lemma key_len_spec:
  assumes "key_arg mem kl key"
  shows "key_len mem kl = Ret (of_nat (length key))" "take (length key) mem = key"
    "unat (of_nat (length key) :: u32) = length key" "length key \<le> length mem"
  using assms by (auto simp: key_arg_def key_len_def c_strlen_terminated INT32_MAX_def unat_of_nat)

definition elem_small :: "bson_elem \<Rightarrow> bool" where
  "elem_small e \<longleftrightarrow> length (enc_elem e) \<le> INT32_MAX"

lemma append_field_spec:
  assumes rep: "bson_rep h b es" and key: "key_arg mem kl key"
    and val: "list_all pair_ok val" "pairs_bytes val = bs" "nv = of_nat (length bs)"
    and small: "elem_small (ty, key, bs)"
  shows "appends h b es [(ty, key, bs)] (append_field h b ty mem (of_nat (length key)) nv val)"
proof -
  note k = key_len_spec [OF key]
  let ?kl = "of_nat (length key) :: u32"
  let ?ps = "[(1, Some [ty]), (?kl, Some mem), (1, Some [0])] @ val"
  have bytes: "pairs_bytes ?ps = enc_elems [(ty, key, bs)]" using k val by simp
  have ok: "list_all pair_ok ?ps" using k val by simp
  have n: "unat (1 + ?kl + 1 + nv) = length (pairs_bytes ?ps)"
  proof -
    have "1 + ?kl + 1 + nv = (of_nat (2 + length key + length bs) :: u32)" using val(3) by simp
    moreover have "2 + length key + length bs \<le> INT32_MAX" using small by (simp add: elem_small_def)
    then have "unat (of_nat (2 + length key + length bs) :: u32) = 2 + length key + length bs"
      by (subst unat_of_nat) (simp add: INT32_MAX_def)
    ultimately show ?thesis unfolding bytes by (simp add: add.assoc)
  qed
  have "appended h b (doc_bytes es) (pairs_bytes ?ps) (bson_append h b (1 + ?kl + 1 + nv) ?ps)"
    by (rule append_spec [OF _ _ _ ok n]) (use rep in \<open>auto simp: bson_rep_def\<close>)
  then show ?thesis unfolding append_field_def bytes by (rule appended_appends [OF rep])
qed

text \<open>
  The contract of an append function for values of one kind: \<open>data v\<close> is what the argument \<open>v\<close> stands
  for, \<open>ok v\<close> what the caller has to guarantee of it.
\<close>

locale element_writer =
  fixes emit :: "bheap \<Rightarrow> bson_t \<Rightarrow> byte list \<Rightarrow> int \<Rightarrow> 'v \<Rightarrow> build"
    and data :: "'v \<Rightarrow> bson_data" and ok :: "'v \<Rightarrow> bool"
  assumes writes: "bson_rep h b es \<Longrightarrow> key_arg mem kl key \<Longrightarrow> ok v \<Longrightarrow>
      elem_small (data_type (data v), key, data_bytes (data v)) \<Longrightarrow>
      appends h b es [(data_type (data v), key, data_bytes (data v))] (emit h b mem kl v)"
    and data_ok: "ok v \<Longrightarrow> data_ok (data v)"
begin

lemma success_or_unchanged:
  assumes "bson_rep h b es" "key_arg mem kl key" "ok v" "elem_small (data_type (data v), key, data_bytes (data v))"
  obtains (written) b' h' where "emit h b mem kl v = Ret (True, b', h')" "keeps h b h' b'"
      "bson_rep h' b' (es @ [(data_type (data v), key, data_bytes (data v))])"
  | (full) "emit h b mem kl v = Ret (False, b, h)"
  using writes [OF assms] by (auto simp: appends_def split: if_splits)

end

lemma view_of_rep:
  assumes "bson_rep h b es"
  shows "\<exists>junk. bson_view_of h b = Ret \<lparr>bv_data = doc_bytes es @ junk, bv_len = of_nat (length (doc_bytes es))\<rparr>"
    "length (doc_bytes es) \<le> INT32_MAX"
proof -
  from assms obtain junk cap where m: "bson_mem h b (doc_bytes es @ junk) cap" "unat (b_len b) = length (doc_bytes es)"
    by (auto simp: bson_rep_def bson_holds_def)
  then have "b_len b = of_nat (length (doc_bytes es))" by (metis of_nat_unat ucast_id)
  then show "\<exists>junk. bson_view_of h b = Ret \<lparr>bv_data = doc_bytes es @ junk, bv_len = of_nat (length (doc_bytes es))\<rparr>"
    using data_mem_spec [OF m(1)] by (auto simp: bson_view_of_def)
  show "length (doc_bytes es) \<le> INT32_MAX" using assms by (auto simp: bson_rep_def dest: holds_small)
qed

lemma init_find_view:
  assumes ok: "doc_ok es" and key: "0 \<notin> set key"
  shows "\<exists>it. bson_iter_init_find \<lparr>bv_data = doc_bytes es @ junk, bv_len = of_nat (length (doc_bytes es))\<rparr> (key @ [0]) =
      Ret (find (\<lambda>(t, k, v). k = key) es \<noteq> None, it) \<and>
    (\<forall>e. find (\<lambda>(t, k, v). k = key) es = Some e \<longrightarrow>
       iter_on (doc_bytes es @ junk) (of_nat (length (doc_bytes es))) e it)"
proof -
  have "\<not> (of_nat (length (doc_bytes es)) :: u32) < 5"
    using doc_start(1) [OF ok, of junk] by (simp add: iter_start_def word_less_nat_alt length_doc_bytes)
  with find_w_len_start [OF ok key, of junk 0 "[]"] show ?thesis
    by (simp add: bson_iter_init_find_def iter_init_and_def bson_iter_init_def bson_iter_find_def
        bson_iter_find_w_len_def c_strlen_terminated key) (simp add: iter_start_def)
qed

text \<open>Clients of the contract: what was written is found under its key and read back.\<close>

context element_writer
begin

lemma write_then_find:
  assumes rep: "bson_rep h b es" "list_all elem_ok es" and key: "key_arg mem kl key" "0 \<notin> set key" and v: "ok v"
    and new: "\<forall>(t, k, w) \<in> set es. k \<noteq> key" and w: "emit h b mem kl v = Ret (True, b', h')"
    and small: "elem_small (data_type (data v), key, data_bytes (data v))"
  shows "\<exists>view it value. bson_view_of h' b' = Ret view \<and> bson_iter_init_find view (key @ [0]) = Ret (True, it) \<and>
    bson_iter_value it = Ret (Some value) \<and> value_shows (data v) value"
proof -
  let ?e = "(data_type (data v), key, data_bytes (data v))"
  have rep': "bson_rep h' b' (es @ [?e])"
    using success_or_unchanged [OF rep(1) key(1) v small] w by auto
  from view_of_rep [OF rep'] obtain junk where
    view: "bson_view_of h' b' = Ret \<lparr>bv_data = doc_bytes (es @ [?e]) @ junk, bv_len = of_nat (length (doc_bytes (es @ [?e])))\<rparr>"
    by blast
  have "doc_ok (es @ [?e])"
    using rep(2) view_of_rep(2) [OF rep'] key(2) data_payload_ok [OF data_ok [OF v]] by (simp add: doc_ok_def)
  moreover have "find (\<lambda>(t, k, v). k = key) (es @ [?e]) = Some ?e"
    using new by (induction es) auto
  ultimately obtain it where it: "bson_iter_init_find \<lparr>bv_data = doc_bytes (es @ [?e]) @ junk,
      bv_len = of_nat (length (doc_bytes (es @ [?e])))\<rparr> (key @ [0]) = Ret (True, it)"
    "iter_on (doc_bytes (es @ [?e]) @ junk) (of_nat (length (doc_bytes (es @ [?e])))) ?e it"
    using init_find_view [OF _ key(2), of "es @ [?e]" junk] by auto
  from value_on [OF it(2)] data_ok [OF v] view it(1) show ?thesis by blast
qed

end


section \<open>The append functions\<close>

lemma append_fixed_spec:
  assumes "bson_rep h b es" "key_arg mem kl key" "elem_small (ty, key, bs)"
  shows "appends h b es [(ty, key, bs)] (append_fixed h b ty mem kl bs)"
proof -
  have "unat (of_nat (length bs) :: u32) = length bs"
    using assms(3) by (simp add: elem_small_def INT32_MAX_def unat_of_nat)
  then show ?thesis using key_len_spec [OF assms(2)] assms
    by (auto simp: append_fixed_def intro!: append_field_spec)
qed

interpretation w_bool: element_writer bson_append_bool D_bool "\<lambda>_. True"
  by unfold_locales (simp_all add: bson_append_bool_def append_fixed_spec)

interpretation w_double: element_writer bson_append_double D_double "\<lambda>_. True"
  by unfold_locales (simp_all add: bson_append_double_def append_fixed_spec)

interpretation w_int32: element_writer bson_append_int32 D_int32 "\<lambda>_. True"
  by unfold_locales (simp_all add: bson_append_int32_def append_fixed_spec)

interpretation w_int64: element_writer bson_append_int64 D_int64 "\<lambda>_. True"
  by unfold_locales (simp_all add: bson_append_int64_def append_fixed_spec)

interpretation w_date_time: element_writer bson_append_date_time D_date_time "\<lambda>_. True"
  by unfold_locales (simp_all add: bson_append_date_time_def append_fixed_spec)

interpretation w_decimal128: element_writer "\<lambda>h b key n (low, high). bson_append_decimal128 h b key n low high"
    "\<lambda>(low, high). D_decimal128 low high" "\<lambda>_. True"
  by unfold_locales (auto simp: bson_append_decimal128_def append_fixed_spec)

interpretation w_timestamp: element_writer "\<lambda>h b key n (ts, inc). bson_append_timestamp h b key n ts inc"
    "\<lambda>(ts, inc). D_timestamp ts inc" "\<lambda>_. True"
  by unfold_locales (auto simp: bson_append_timestamp_def append_fixed_spec)

interpretation w_null: element_writer "\<lambda>h b key n (_ :: unit). bson_append_null h b key n" "\<lambda>_. D_null" "\<lambda>_. True"
  by unfold_locales (simp_all add: bson_append_null_def append_fixed_spec)

interpretation w_undefined: element_writer "\<lambda>h b key n (_ :: unit). bson_append_undefined h b key n"
    "\<lambda>_. D_undefined" "\<lambda>_. True"
  by unfold_locales (simp_all add: bson_append_undefined_def append_fixed_spec)

interpretation w_maxkey: element_writer "\<lambda>h b key n (_ :: unit). bson_append_maxkey h b key n" "\<lambda>_. D_maxkey" "\<lambda>_. True"
  by unfold_locales (simp_all add: bson_append_maxkey_def append_fixed_spec)

interpretation w_minkey: element_writer "\<lambda>h b key n (_ :: unit). bson_append_minkey h b key n" "\<lambda>_. D_minkey" "\<lambda>_. True"
  by unfold_locales (simp_all add: bson_append_minkey_def append_fixed_spec)

definition oid_arg :: "cptr \<times> oid \<Rightarrow> bool" where
  "oid_arg = (\<lambda>(p, oid). ptr_to p oid \<and> length oid = 12)"

lemma pair_const [simp]:
  "pair_ok (4, Some (le32 w))" "pair_bytes (4, Some (le32 w)) = le32 w" "pair_ok (1, Some [c])" "pair_bytes (1, Some [c]) = [c]"
  by simp_all

lemma pair_to:
  assumes "ptr_to p bs" "unat n = length bs"
  shows "pair_ok (n, p)" "pair_bytes (n, p) = bs" "p \<noteq> None"
  using assms by (auto simp: ptr_to_def)

declare pair_ok.simps [simp del] pair_bytes.simps [simp del]

interpretation w_oid: element_writer "\<lambda>h b key n (p, oid). bson_append_oid h b key n p" "\<lambda>(p, oid). D_oid oid" oid_arg
proof unfold_locales
  fix h b es mem kl key and v :: "cptr \<times> oid"
  obtain p oid where v: "v = (p, oid)" by (cases v)
  assume a: "bson_rep h b es" "key_arg mem kl key" "oid_arg v"
    "elem_small (data_type (case v of (p, oid) \<Rightarrow> D_oid oid), key, data_bytes (case v of (p, oid) \<Rightarrow> D_oid oid))"
  then have o: "ptr_to p oid" "length oid = 12" by (simp_all add: v oid_arg_def)
  with a pair_to [OF o(1), of 12] key_len_spec [OF a(2)]
  show "appends h b es [(data_type (case v of (p, oid) \<Rightarrow> D_oid oid), key, data_bytes (case v of (p, oid) \<Rightarrow> D_oid oid))]
     ((case v of (p, oid) \<Rightarrow> bson_append_oid h b mem kl p))"
    by (simp add: v bson_append_oid_def) (rule append_field_spec; simp)
qed (auto simp: oid_arg_def)

section \<open>Strings\<close>

text \<open>A counted string argument, or a NUL-terminated one with a negative length.\<close>

definition string_arg :: "cptr \<times> int \<times> byte list \<Rightarrow> bool" where
  "string_arg = (\<lambda>(p, len, s). length s < INT32_MAX \<and>
     (len = int (length s) \<and> ptr_to p s \<or> len < 0 \<and> 0 \<notin> set s \<and> ptr_to p (s @ [0])))"

lemma append_string_spec:
  assumes rep: "bson_rep h b es" "key_arg mem kl key" and s: "string_arg (p, len, s)"
    and small: "elem_small (ty, key, enc_string s)"
  shows "appends h b es [(ty, key, enc_string s)] (append_string h b ty mem kl p len)"
proof -
  let ?n = "of_nat (length s) :: u32"
  from s obtain r where p: "p = Some (s @ r)" and len: "length s < INT32_MAX"
    "len = int (length s) \<or> len < 0 \<and> 0 \<notin> set s \<and> (\<exists>r'. r = 0 # r')"
    by (auto simp: string_arg_def ptr_to_def)
  have n: "unat ?n = length s" using len(1) by (simp add: unat_of_nat INT32_MAX_def)
  have P: "pair_ok (?n, Some (s @ r))" "pair_bytes (?n, Some (s @ r)) = s"
    using pair_to [of "Some (s @ r)" s ?n] n by (auto simp: ptr_to_def)
  have "(if len < 0 then cbind (c_strlen (s @ r)) (\<lambda>n. Ret (of_nat n)) else Ret (of_int len)) = Ret ?n"
    using len(2) by (auto simp: c_strlen_terminated)
  moreover have "pairs_bytes [(4, Some (le32 (?n + 1))), (?n, Some (s @ r)), (1, Some [0])] = enc_string s"
    using P by (simp add: enc_string_def add.commute)
  moreover have "4 + ?n + 1 = of_nat (length (enc_string s))" by (simp add: enc_string_def)
  moreover have "list_all pair_ok [(4, Some (le32 (?n + 1))), (?n, Some (s @ r)), (1, Some [0])]" using P by simp
  ultimately show ?thesis
    using append_field_spec [OF rep, of "[(4, Some (le32 (?n + 1))), (?n, Some (s @ r)), (1, Some [0])]" "enc_string s" "4 + ?n + 1"]
      small p key_len_spec(1) [OF rep(2)] by (simp add: append_string_def)
qed

interpretation w_utf8: element_writer "\<lambda>h b key n (p, len, s). bson_append_utf8 h b key n p len"
    "\<lambda>(p, len, s). D_utf8 s" string_arg
  by unfold_locales (auto simp: bson_append_utf8_def append_string_spec)

interpretation w_symbol: element_writer "\<lambda>h b key n (p, len, s). bson_append_symbol h b key n p len"
    "\<lambda>(p, len, s). D_symbol s" string_arg
  by unfold_locales (auto simp: bson_append_symbol_def append_string_spec)

lemma string_size_spec:
  assumes "ptr_to p (s @ [0])" "0 \<notin> set s" "length s < INT32_MAX"
  shows "string_size p = Ret (of_nat (length s + 1))" "unat (of_nat (length s + 1) :: u32) = length (s @ [0])" "p \<noteq> None"
proof -
  show "unat (of_nat (length s + 1) :: u32) = length (s @ [0])"
    using assms(3) by (subst unat_of_nat) (simp add: INT32_MAX_def)
qed (use assms in \<open>auto simp: ptr_to_def string_size_def cptr_mem_def c_strlen_terminated\<close>)

definition code_arg :: "cptr \<times> byte list \<Rightarrow> bool" where
  "code_arg = (\<lambda>(p, s). ptr_to p (s @ [0]) \<and> 0 \<notin> set s)"

lemma append_code_spec:
  assumes rep: "bson_rep h b es" "key_arg mem kl key" and s: "code_arg (p, s)"
    and small: "elem_small (BSON_TYPE_CODE, key, enc_string s)"
  shows "appends h b es [(BSON_TYPE_CODE, key, enc_string s)] (bson_append_code h b mem kl p)"
proof -
  have "length s < INT32_MAX" using small by (simp add: elem_small_def enc_string_def)
  with s have z: "string_size p = Ret (of_nat (length s + 1))" "unat (of_nat (length s + 1) :: u32) = length (s @ [0])"
    "p \<noteq> None" "ptr_to p (s @ [0])"
    using string_size_spec [of p s] by (auto simp: code_arg_def)
  have ps: "list_all pair_ok [(4, Some (le32 (of_nat (length s + 1)))), (of_nat (length s + 1), p)]"
    "pairs_bytes [(4, Some (le32 (of_nat (length s + 1)))), (of_nat (length s + 1), p)] = enc_string s"
    using pair_to [OF z(4,2)] by (simp_all add: enc_string_def)
  show ?thesis
    unfolding bson_append_code_def
    using append_field_spec [OF rep ps _ small, of "4 + of_nat (length s + 1)"] z key_len_spec [OF rep(2)]
    by (simp add: enc_string_def)
qed

interpretation w_code: element_writer "\<lambda>h b key n (p, s). bson_append_code h b key n p" "\<lambda>(p, s). D_code s" code_arg
  by unfold_locales (auto simp: append_code_spec)


definition dbpointer_arg :: "cptr \<times> cptr \<times> byte list \<times> oid \<Rightarrow> bool" where
  "dbpointer_arg = (\<lambda>(p, q, c, oid). code_arg (p, c) \<and> oid_arg (q, oid))"

lemma append_dbpointer_spec:
  assumes rep: "bson_rep h b es" "key_arg mem kl key" and s: "dbpointer_arg (p, q, c, oid)"
    and small: "elem_small (BSON_TYPE_DBPOINTER, key, enc_string c @ oid)"
  shows "appends h b es [(BSON_TYPE_DBPOINTER, key, enc_string c @ oid)] (bson_append_dbpointer h b mem kl p q)"
proof -
  let ?n = "of_nat (length c + 1) :: u32"
  have "length c < INT32_MAX" using small by (simp add: elem_small_def enc_string_def)
  with s have z: "string_size p = Ret ?n" "unat ?n = length (c @ [0])" "p \<noteq> None" "ptr_to p (c @ [0])"
    and o: "ptr_to q oid" "length oid = 12" "q \<noteq> None"
    using string_size_spec [of p c] by (auto simp: dbpointer_arg_def code_arg_def oid_arg_def ptr_to_def)
  let ?ps = "[(4, Some (le32 ?n)), (?n, p), (12, q)]"
  have ps: "list_all pair_ok ?ps" "pairs_bytes ?ps = enc_string c @ oid"
    using pair_to [OF z(4,2)] pair_to [OF o(1), of 12] o(2) by (simp_all add: enc_string_def)
  show ?thesis
    unfolding bson_append_dbpointer_def
    using append_field_spec [OF rep ps _ small, of "4 + ?n + 12"] z o key_len_spec [OF rep(2)]
    by (simp add: enc_string_def)
qed

interpretation w_dbpointer: element_writer "\<lambda>h b key n (p, q, c, oid). bson_append_dbpointer h b key n p q"
    "\<lambda>(p, q, c, oid). D_dbpointer c oid" dbpointer_arg
  by unfold_locales (auto simp: append_dbpointer_spec, auto simp: dbpointer_arg_def oid_arg_def)

section \<open>Embedded documents\<close>

text \<open>A \<open>bson_t\<close> argument with the bytes \<open>d\<close>.\<close>

definition doc_arg :: "bson_view \<times> byte list \<Rightarrow> bool" where
  "doc_arg = (\<lambda>(view, d). sub_ok d \<and> length d \<le> INT32_MAX \<and> bv_len view = of_nat (length d) \<and> ptr_to (Some (bv_data view)) d)"

lemma doc_argD:
  assumes "doc_arg (view, d)"
  shows "sub_ok d" "unat (bv_len view) = length d" "ptr_to (Some (bv_data view)) d"
    "pair_ok (bv_len view, Some (bv_data view))" "pair_bytes (bv_len view, Some (bv_data view)) = d"
proof -
  show "sub_ok d" "ptr_to (Some (bv_data view)) d" using assms by (simp_all add: doc_arg_def)
  show "unat (bv_len view) = length d" using assms by (simp add: doc_arg_def unat_of_nat INT32_MAX_def)
  with pair_to [OF \<open>ptr_to (Some (bv_data view)) d\<close>] show "pair_ok (bv_len view, Some (bv_data view))"
    "pair_bytes (bv_len view, Some (bv_data view)) = d" by auto
qed

lemma append_sub_spec:
  assumes "bson_rep h b es" "key_arg mem kl key" "doc_arg (view, d)" "elem_small (ty, key, d)"
  shows "appends h b es [(ty, key, d)]
    (append_field h b ty mem (of_nat (length key)) (bv_len view) [(bv_len view, Some (bv_data view))])"
  using assms doc_argD [OF assms(3)] by (intro append_field_spec) (auto simp: doc_arg_def)

interpretation w_document: element_writer "\<lambda>h b key n (view, d). bson_append_document h b key n view"
    "\<lambda>(view, d). D_document d" doc_arg
  by unfold_locales (auto simp: bson_append_document_def key_len_spec append_sub_spec, auto simp: doc_arg_def)

text \<open>The check of the first key of an array never leaves the array.\<close>

lemma key_cmp_total: "cstr_len key \<noteq> None \<Longrightarrow> \<exists>r. c_strncmp_eq [0x30, 0] key 2 = Ret r"
  by (cases key; cases "tl key") (auto simp: numeral_2_eq_2 cstr_len_def rd8_def)

lemma array_key_check_spec:
  assumes "unat (bv_len view) \<le> length (bv_data view)" "unat (bv_len view) \<le> INT32_MAX" "5 \<le> unat (bv_len view)"
  shows "array_key_check view = Ret ()"
proof -
  have e: "\<exists>r. bson_empty view = Ret r" using assms by (auto simp: bson_empty_def rd8_def)
  let ?it = "iter_start (bv_data view) (bv_len view)"
  have init: "bson_iter_init view = (True, ?it)" using assms by (simp add: bson_iter_init_def word_less_nat_alt)
  have it: "it_raw ?it = Some (bv_data view)" "iter_ok ?it" "unat (it_next_off ?it) = 4" "it_len ?it = bv_len view"
    using assms by (simp_all add: iter_start_def iter_ok_def)
  obtain r it1 where n: "bson_iter_next ?it = Ret (r, it1)"
    and v: "r \<Longrightarrow> \<exists>k n. step_view (iter_doc ?it) 4 = View_elem k n \<and> iter_at (bv_data view) (bv_len view) 4 k n it1"
    using next_view [OF it(1,2)] it(3,4) by (cases "step_view (iter_doc ?it) 4") auto
  have "\<exists>key r. iter_key_mem it1 = Ret key \<and> c_strncmp_eq [0x30, 0] key 2 = Ret r" if r
  proof -
    from v [OF that] obtain k m where sv: "step_view (iter_doc ?it) 4 = View_elem k m"
      and at: "it_raw it1 = Some (bv_data view)" "unat (it_key it1) = 5" by (auto simp: iter_at_def)
    from sv have "0 \<in> set (drop 5 (take (unat (bv_len view)) (bv_data view)))"
      by (auto simp: step_view_def iter_doc_def iter_start_def cstr_len_def split: option.splits if_splits)
    then have "0 \<in> set (drop 5 (bv_data view))" by (metis drop_take in_set_takeD)
    then have "cstr_len (drop 5 (bv_data view)) \<noteq> None" by (simp add: cstr_len_def)
    with key_cmp_total at show ?thesis by (simp add: iter_key_mem_def bson_iter_key_def iter_ptr_def iter_mem_def)
  qed
  with e init n show ?thesis by (auto simp: array_key_check_def)
qed

interpretation w_array: element_writer "\<lambda>h b key n (view, d). bson_append_array h b key n view"
    "\<lambda>(view, d). D_array d" doc_arg
proof unfold_locales
  fix h b es mem kl key and v :: "bson_view \<times> byte list"
  obtain view d where v: "v = (view, d)" by (cases v)
  assume a: "bson_rep h b es" "key_arg mem kl key" "doc_arg v"
    "elem_small (data_type (case v of (view, d) \<Rightarrow> D_array d), key, data_bytes (case v of (view, d) \<Rightarrow> D_array d))"
  have "array_key_check view = Ret ()"
    using doc_argD [of view d] a(3) v by (intro array_key_check_spec) (auto simp: doc_arg_def ptr_to_def sub_ok_def)
  then show "appends h b es [(data_type (case v of (view, d) \<Rightarrow> D_array d), key, data_bytes (case v of (view, d) \<Rightarrow> D_array d))]
     ((case v of (view, d) \<Rightarrow> bson_append_array h b mem kl view))"
    using a v append_sub_spec [OF a(1,2), of view d] key_len_spec [OF a(2)] by (simp add: bson_append_array_def)
qed (auto simp: doc_arg_def)

definition scope_arg :: "cptr \<times> bson_view \<times> byte list \<times> byte list \<Rightarrow> bool" where
  "scope_arg = (\<lambda>(p, view, c, sc). code_arg (p, c) \<and> doc_arg (view, sc))"

lemma append_code_with_scope_spec:
  assumes rep: "bson_rep h b es" "key_arg mem kl key" and s: "scope_arg (p, view, c, sc)"
    and small: "elem_small (BSON_TYPE_CODEWSCOPE, key, data_bytes (D_codewscope c sc))"
  shows "appends h b es [(BSON_TYPE_CODEWSCOPE, key, data_bytes (D_codewscope c sc))]
    (bson_append_code_with_scope h b mem kl p (Some view))"
proof -
  let ?n = "of_nat (length c + 1) :: u32" and ?w = "4 + 4 + of_nat (length c + 1) + bv_len view"
  have "length c < INT32_MAX" using small by (simp add: elem_small_def enc_string_def)
  with s have z: "string_size p = Ret ?n" "unat ?n = length (c @ [0])" "p \<noteq> None" "ptr_to p (c @ [0])"
    using string_size_spec [of p c] by (auto simp: scope_arg_def code_arg_def)
  have view: "doc_arg (view, sc)" "bv_len view = of_nat (length sc)" using s by (auto simp: scope_arg_def doc_arg_def)
  let ?ps = "[(4, Some (le32 ?w)), (4, Some (le32 ?n)), (?n, p), (bv_len view, Some (bv_data view))]"
  have w: "?w = of_nat (length c + 9 + length sc)" "?w = of_nat (length (data_bytes (D_codewscope c sc)))"
    using view(2) by (simp_all add: enc_string_def)
  have ps: "list_all pair_ok ?ps" "pairs_bytes ?ps = data_bytes (D_codewscope c sc)"
    using pair_to [OF z(4,2)] doc_argD [OF view(1)] w(1) by (simp_all add: enc_string_def ac_simps)
  show ?thesis
    unfolding bson_append_code_with_scope_def
    using append_field_spec [OF rep ps w(2) small] z key_len_spec [OF rep(2)] by simp
qed

interpretation w_codewscope: element_writer "\<lambda>h b key n (p, view, c, sc). bson_append_code_with_scope h b key n p (Some view)"
    "\<lambda>(p, view, c, sc). D_codewscope c sc" scope_arg
  by unfold_locales
    (auto simp: append_code_with_scope_spec simp del: data_bytes.simps, auto simp: scope_arg_def doc_arg_def)

section \<open>Binary data and regular expressions\<close>

definition binary_arg :: "byte \<times> cptr \<times> byte list \<Rightarrow> bool" where
  "binary_arg = (\<lambda>(st, p, bs). bs = [] \<or> ptr_to p bs)"

lemma append_binary_spec:
  assumes rep: "bson_rep h b es" "key_arg mem kl key" and s: "binary_arg (st, p, bs)"
    and small: "elem_small (BSON_TYPE_BINARY, key, data_bytes (D_binary st bs))"
  shows "appends h b es [(BSON_TYPE_BINARY, key, data_bytes (D_binary st bs))]
    (bson_append_binary h b mem kl st p (of_nat (length bs)))"
proof -
  let ?n = "of_nat (length bs) :: u32"
  have "length bs < 4294967296" using small by (simp add: elem_small_def INT32_MAX_def split: if_splits)
  then have n: "unat ?n = length bs" by (simp add: unat_of_nat)
  have P: "pair_ok (?n, p)" "pair_bytes (?n, p) = bs"
    using s pair_to [of p bs ?n] n by (auto simp: binary_arg_def pair_ok.simps pair_bytes.simps split: option.split)
  show ?thesis
  proof (cases "st = BSON_SUBTYPE_BINARY_DEPRECATED")
    case True
    let ?ps = "[(4, Some (le32 (?n + 4))), (1, Some [st]), (4, Some (le32 ?n)), (?n, p)]"
    have "list_all pair_ok ?ps" "pairs_bytes ?ps = data_bytes (D_binary st bs)" using True P by simp_all
    from append_field_spec [OF rep this _ small, of "4 + 1 + 4 + ?n"] True key_len_spec [OF rep(2)]
    show ?thesis by (simp add: bson_append_binary_def)
  next
    case False
    let ?ps = "[(4, Some (le32 ?n)), (1, Some [st]), (?n, p)]"
    have "list_all pair_ok ?ps" "pairs_bytes ?ps = data_bytes (D_binary st bs)" using False P by simp_all
    from append_field_spec [OF rep this _ small, of "4 + 1 + ?n"] False key_len_spec [OF rep(2)]
    show ?thesis by (simp add: bson_append_binary_def)
  qed
qed

interpretation w_binary: element_writer "\<lambda>h b key n (st, p, bs). bson_append_binary h b key n st p (of_nat (length bs))"
    "\<lambda>(st, p, bs). D_binary st bs" binary_arg
  by unfold_locales (auto simp: append_binary_spec simp del: data_bytes.simps)

text \<open>The options of a regular expression are put in the order \<open>ilmsux\<close>; others are dropped.\<close>

definition sorted_options :: "byte list \<Rightarrow> byte list" where
  "sorted_options opts = filter (\<lambda>c. c \<in> set opts) BSON_REGEX_OPTIONS_SORTED"

lemma sorted_options_no_nul: "0 \<notin> set opts \<Longrightarrow> 0 \<notin> set (sorted_options opts)"
  by (simp add: sorted_options_def)

lemma append_regex_options_spec:
  assumes "escape_inv s c" "0 \<notin> set opts" "0 \<notin> set cs" "length c + length cs \<le> 6"
  shows "\<exists>s'. append_regex_options s (opts @ 0 # r) cs = Ret s' \<and> escape_inv s' (c @ filter (\<lambda>x. x \<in> set opts) cs)"
  using assms
proof (induction cs arbitrary: s c)
  case (Cons x cs)
  have len: "c_strlen (opts @ 0 # r) = Ret (length opts)" using Cons.prems(2) by (rule c_strlen_terminated)
  show ?case
  proof (cases "x \<in> set opts")
    case True
    obtain s1 where "bson_string_append_c s x = Ret s1" "escape_inv s1 (c @ [x])"
      using escape_inv_append_c [OF Cons.prems(1), of x] Cons.prems by auto
    with Cons.IH [of s1 "c @ [x]"] Cons.prems True len show ?thesis by simp
  next
    case False
    with Cons.IH [of s c] Cons.prems len show ?thesis by simp
  qed
qed simp

lemma regex_options_sorted:
  assumes "0 \<notin> set opts"
  shows "\<exists>s s'. bson_string_new None = Ret s \<and> bson_append_regex_options_sorted s (opts @ 0 # r) = Ret s' \<and>
    unat (bs_len s') = length (sorted_options opts) \<and>
    take (Suc (length (sorted_options opts))) (bs_str s') = sorted_options opts @ [0]"
proof -
  obtain s where s: "bson_string_new None = Ret s" "escape_inv s []"
    using bson_string_new_ok by (auto simp: escape_inv_def)
  have "0 \<notin> set BSON_REGEX_OPTIONS_SORTED" "length BSON_REGEX_OPTIONS_SORTED = 6"
    by (simp_all add: BSON_REGEX_OPTIONS_SORTED_def)
  with append_regex_options_spec [OF s(2) assms, of BSON_REGEX_OPTIONS_SORTED r] s(1) show ?thesis
    by (auto simp: bson_append_regex_options_sorted_def sorted_options_def escape_inv_def bson_string_ok_def)
qed


text \<open>\<open>(regex, regex_length, options)\<close> with the strings they stand for.\<close>

definition regex_arg :: "cptr \<times> int \<times> cptr \<times> byte list \<times> byte list \<Rightarrow> bool" where
  "regex_arg = (\<lambda>(p, len, q, re, opts). 0 \<notin> set re \<and> 0 \<notin> set opts \<and> string_arg (p, len, re) \<and>
     (q = None \<and> opts = [] \<or> ptr_to q (opts @ [0])))"

lemma append_regex_spec:
  assumes rep: "bson_rep h b es" "key_arg mem kl key" and s: "regex_arg (p, len, q, re, opts)"
    and small: "elem_small (BSON_TYPE_REGEX, key, data_bytes (D_regex re (sorted_options opts)))"
  shows "appends h b es [(BSON_TYPE_REGEX, key, data_bytes (D_regex re (sorted_options opts)))]
    (bson_append_regex_w_len h b mem kl p len q)"
proof -
  let ?so = "sorted_options opts" and ?n = "of_nat (length re) :: u32"
  from s obtain r where p: "p = Some (re @ r)" and len: "length re < INT32_MAX"
    "len = int (length re) \<or> len < 0 \<and> 0 \<notin> set re \<and> (\<exists>r'. r = 0 # r')"
    by (auto simp: string_arg_def ptr_to_def regex_arg_def)
  have n: "unat ?n = length re" using len(1) by (simp add: unat_of_nat INT32_MAX_def)
  have rl: "(if len < 0 then cbind (cptr_mem p) (\<lambda>m. cbind (c_strlen m) (\<lambda>n. Ret (of_nat n))) else Ret (of_int len)) = Ret ?n"
    using len(2) p by (auto simp: c_strlen_terminated cptr_mem_def)
  obtain r2 where q: "(case q of None \<Rightarrow> [0] | Some m \<Rightarrow> m) = opts @ 0 # r2" "0 \<notin> set opts"
    using s by (auto simp: regex_arg_def ptr_to_def)
  from regex_options_sorted [OF q(2), of r2] obtain sb sb' where so: "bson_string_new None = Ret sb"
    "bson_append_regex_options_sorted sb (opts @ 0 # r2) = Ret sb'" "unat (bs_len sb') = length ?so"
    "take (Suc (length ?so)) (bs_str sb') = ?so @ [0]" by blast
  have l6: "length ?so \<le> 6"
    using length_filter_le [of "\<lambda>c. c \<in> set opts" BSON_REGEX_OPTIONS_SORTED]
    by (simp add: sorted_options_def BSON_REGEX_OPTIONS_SORTED_def)
  have bl: "bs_len sb' = of_nat (length ?so)" using so(3) by (metis of_nat_unat ucast_id)
  have bl1: "unat (bs_len sb' + 1) = length (?so @ [0])" using so(3) l6 by (simp add: word_nat)
  have pt: "ptr_to (Some (bs_str sb')) (?so @ [0])" unfolding ptr_to_def using so(4) by (metis append_take_drop_id)
  let ?ps = "[(?n, Some (re @ r)), (1, Some [0]), (bs_len sb' + 1, Some (bs_str sb'))]"
  have ps: "list_all pair_ok ?ps" "pairs_bytes ?ps = data_bytes (D_regex re ?so)"
    using pair_to [OF pt bl1] pair_to [of "Some (re @ r)" re ?n] n by (auto simp: ptr_to_def)
  show ?thesis
    unfolding bson_append_regex_w_len_def
    using append_field_spec [OF rep ps _ small, of "?n + 1 + bs_len sb' + 1"] key_len_spec [OF rep(2)] rl q so(1,2) p bl
    by (simp add: Let_def)
qed

interpretation w_regex: element_writer "\<lambda>h b key n (p, len, q, re, opts). bson_append_regex_w_len h b key n p len q"
    "\<lambda>(p, len, q, re, opts). D_regex re (sorted_options opts)" regex_arg
  by unfold_locales (auto simp: append_regex_spec simp del: data_bytes.simps,
      auto simp: regex_arg_def sorted_options_no_nul)

section \<open>Copying values\<close>

text \<open>
  What a copy makes of a value: strings passed without a length end at their first NUL, and the
  options of a regular expression are put in order.
\<close>

definition c_str :: "byte list \<Rightarrow> byte list" where
  "c_str s = takeWhile (\<lambda>c. c \<noteq> 0) s"

fun copied :: "bson_data \<Rightarrow> bson_data" where
  "copied (D_regex re opts) = D_regex re (sorted_options opts)"
| "copied (D_dbpointer c oid) = D_dbpointer (c_str c) oid"
| "copied (D_code s) = D_code (c_str s)"
| "copied (D_codewscope c sc) = D_codewscope (c_str c) sc"
| "copied d = d"

text \<open>Embedded documents end in NUL.\<close>

fun closed :: "bson_data \<Rightarrow> bool" where
  "closed (D_document d) \<longleftrightarrow> last d = 0"
| "closed (D_array d) \<longleftrightarrow> last d = 0"
| "closed (D_codewscope c sc) \<longleftrightarrow> last sc = 0"
| "closed d \<longleftrightarrow> True"

lemma c_str_split: "\<exists>t. s @ 0 # r = c_str s @ 0 # t"
  by (induction s) (auto simp: c_str_def)

lemma c_str_no_nul: "0 \<notin> set (c_str s)"
  by (auto simp: c_str_def dest: set_takeWhileD)

lemma code_arg_c_str: "ptr_to p (s @ [0]) \<Longrightarrow> code_arg (p, c_str s)"
  using c_str_split [of s] by (auto simp: code_arg_def ptr_to_def c_str_no_nul)

lemma copied_ok: "data_ok d \<Longrightarrow> data_ok (copied d)"
  by (cases d) (auto simp: sorted_options_no_nul)

lemma init_static_sub:
  assumes "sub_ok d" "last d = 0" "length d \<le> INT32_MAX"
  shows "bson_init_static (d @ r) (length d) = Ret (Some \<lparr>bv_data = d @ r, bv_len = of_nat (length d)\<rparr>)"
proof -
  have d: "5 \<le> length d" "take 4 d = le32 (of_nat (length d))" using assms by (auto simp: sub_ok_def)
  have "rd32 (d @ r) 0 = Ret (of_nat (length d))" using d by (simp add: rd32_in_range)
  moreover have "unat (of_nat (length d) :: u32) = length d" using assms(3) by (simp add: unat_of_nat INT32_MAX_def)
  moreover have "rd8 (d @ r) (length d - 1) = Ret 0"
    using d(1) assms(2) last_conv_nth [of d] by (cases "d = []") (simp_all add: rd8_def nth_append)
  ultimately show ?thesis using d(1) assms(3) by (simp add: bson_init_static_def)
qed

lemma append_static_spec:
  assumes "ptr_len p n d []" "sub_ok d" "last d = 0" "length d \<le> INT32_MAX"
  shows "\<exists>view. append_static h b p n k = k view \<and> doc_arg (view, d)"
proof -
  from assms(1) obtain r where p: "p = Some (d @ r)" "unat n = length d" by (auto simp: ptr_len_def ptr_to_def)
  let ?v = "\<lparr>bv_data = d @ r, bv_len = of_nat (length d)\<rparr> :: bson_view"
  have "append_static h b p n k = k ?v"
    using init_static_sub [OF assms(2-4), of r] p by (simp add: append_static_def cptr_mem_def)
  moreover have "doc_arg (?v, d)" using assms by (auto simp: doc_arg_def ptr_to_def)
  ultimately show ?thesis by blast
qed

lemma sint_len: "unat n = length s \<Longrightarrow> length s \<le> INT32_MAX \<Longrightarrow> sint (n :: u32) = int (length s)"
proof -
  assume a: "unat n = length s" "length s \<le> INT32_MAX"
  then have "uint n = int (length s)" by (metis uint_nat)
  with a(2) show ?thesis by (simp add: sint_uint signed_take_bit_int_eq_self INT32_MAX_def)
qed

lemma string_arg_counted: "ptr_len p n s [0] \<Longrightarrow> length s < INT32_MAX \<Longrightarrow> string_arg (p, sint n, s)"
  using sint_len [of n s] by (auto simp: ptr_len_def string_arg_def ptr_to_def)

definition value_arg :: "bson_value \<times> bson_data \<Rightarrow> bool" where
  "value_arg = (\<lambda>(v, d). value_shows d v \<and> data_ok d \<and> closed d)"

lemma append_value_spec:
  assumes rep: "bson_rep h b es" "key_arg mem kl key" and v: "value_shows d v" "data_ok d" "closed d"
    and small: "elem_small (data_type (copied d), key, data_bytes (copied d))"
  shows "appends h b es [(data_type (copied d), key, data_bytes (copied d))] (bson_append_value h b mem kl v)"
proof (cases d)
  case (D_utf8 s)
  with v obtain p n where p: "v = V_utf8 p n" "ptr_len p n s [0]" by auto
  have "length s < INT32_MAX" using small D_utf8 by (simp add: elem_small_def enc_string_def)
  note str = string_arg_counted [OF p(2) this]
  with w_utf8.writes [OF rep str] small D_utf8 p(1) show ?thesis by simp
next
  case (D_symbol s)
  with v obtain p n where p: "v = V_symbol p n" "ptr_len p n s [0]" by auto
  have "length s < INT32_MAX" using small D_symbol by (simp add: elem_small_def enc_string_def)
  note str = string_arg_counted [OF p(2) this]
  with w_symbol.writes [OF rep str] small D_symbol p(1) show ?thesis by simp
next
  case (D_document x)
  with v small obtain p n where p: "v = V_document n p" "ptr_len p n x []" "sub_ok x" "last x = 0" "length x \<le> INT32_MAX"
    by (auto simp: elem_small_def)
  from append_static_spec [OF p(2-5), of h b "bson_append_document h b mem kl"] obtain view where
    "append_static h b p n (bson_append_document h b mem kl) = bson_append_document h b mem kl view" "doc_arg (view, x)" by blast
  with w_document.writes [OF rep, of "(view, x)"] small D_document p(1) show ?thesis by simp
next
  case (D_array x)
  with v small obtain p n where p: "v = V_array n p" "ptr_len p n x []" "sub_ok x" "last x = 0" "length x \<le> INT32_MAX"
    by (auto simp: elem_small_def)
  from append_static_spec [OF p(2-5), of h b "bson_append_array h b mem kl"] obtain view where
    "append_static h b p n (bson_append_array h b mem kl) = bson_append_array h b mem kl view" "doc_arg (view, x)" by blast
  with w_array.writes [OF rep, of "(view, x)"] small D_array p(1) show ?thesis by simp
next
  case (D_codewscope c sc)
  with v small obtain p n q m where p: "v = V_codewscope p n m q" "code_arg (p, c_str c)" "ptr_len q m sc []" "sub_ok sc"
    "last sc = 0" "length sc \<le> INT32_MAX"
    by (auto simp: elem_small_def ptr_len_def code_arg_c_str)
  let ?k = "\<lambda>doc. bson_append_code_with_scope h b mem kl p (Some doc)"
  from append_static_spec [OF p(3-6), of h b ?k] obtain view where
    "append_static h b q m ?k = ?k view" "doc_arg (view, sc)" by blast
  with w_codewscope.writes [OF rep, of "(p, view, c_str c, sc)"] small D_codewscope p(1,2)
  show ?thesis by (simp add: scope_arg_def)
next
  case (D_binary st bs)
  with v obtain p n where p: "v = V_binary st n p" "binary_arg (st, p, bs)" "unat n = length bs"
    by (auto simp: ptr_len_def binary_arg_def)
  then have "n = of_nat (length bs)" by (metis of_nat_unat ucast_id)
  with w_binary.writes [OF rep p(2)] small D_binary p(1) show ?thesis by simp
next
  case (D_regex re opts)
  with v small obtain p q where p: "v = V_regex p q" "regex_arg (p, - 1, q, re, opts)"
    by (auto simp: regex_arg_def string_arg_def elem_small_def)
  with w_regex.writes [OF rep p(2)] small D_regex show ?thesis by (simp add: bson_append_regex_def)
next
  case (D_dbpointer c oid)
  with v small obtain p n where p: "v = V_dbpointer n p oid" "dbpointer_arg (p, Some oid, c_str c, oid)"
    by (auto simp: dbpointer_arg_def ptr_len_def oid_arg_def ptr_to_def [of "Some oid"] code_arg_c_str)
  with w_dbpointer.writes [OF rep p(2)] small D_dbpointer show ?thesis by simp
next
  case (D_code c)
  with v small obtain p n where p: "v = V_code p n" "code_arg (p, c_str c)"
    by (auto simp: ptr_len_def code_arg_c_str)
  with w_code.writes [OF rep p(2)] small D_code show ?thesis by simp
next
  case (D_oid oid)
  with v have "oid_arg (Some oid, oid)" by (auto simp: oid_arg_def ptr_to_def)
  with w_oid.writes [OF rep this] small D_oid v show ?thesis by simp
next
  case (D_decimal128 l u)
  with w_decimal128.writes [OF rep, of "(l, u)"] v small show ?thesis by simp
next
  case (D_timestamp t i)
  with w_timestamp.writes [OF rep, of "(t, i)"] v small show ?thesis by simp
qed (use v small w_double.writes [OF rep] w_bool.writes [OF rep] w_int32.writes [OF rep] w_int64.writes [OF rep]
    w_date_time.writes [OF rep] w_null.writes [OF rep] w_undefined.writes [OF rep] w_maxkey.writes [OF rep]
    w_minkey.writes [OF rep] in simp_all)

interpretation w_value: element_writer "\<lambda>h b key n (v, d). bson_append_value h b key n v" "\<lambda>(v, d). copied d" value_arg
  by unfold_locales (auto simp: value_arg_def append_value_spec copied_ok)

end
