(* ===== verification/Bson_Nested.thy ===== *)
theory Bson_Nested
  imports Bson_Append
begin

text \<open>
  Documents built in place inside their parent: \<open>bson_append_document_begin\<close>/\<open>_end\<close> and the array
  variants. The child writes into the buffer of its parent, which may be reallocated meanwhile; any
  well-nested sequence of calls leaves the outermost document with the elements of the calls.
\<close>

section \<open>Beginning and ending an embedded document\<close>

definition child_of :: "bson_t \<Rightarrow> bson_t" where
  "child_of b = \<lparr>b_flags = BSON_FLAG_CHILD OR BSON_FLAG_NO_FREE OR BSON_FLAG_STATIC, b_len = 5,
     b_inline = [], b_depth = (if has_flag b BSON_FLAG_CHILD then b_depth b + 1 else 1),
     b_buf = b_buf b, b_own = False, b_offset = b_offset b + ucast (b_len b) - 1 - 5,
     b_realloc = b_realloc b\<rparr>"

definition suspended :: "bson_t \<Rightarrow> bson_t" where
  "suspended b = b\<lparr>b_flags := b_flags b OR BSON_FLAG_IN_CHILD\<rparr>"

lemma child_flags [simp]:
  "\<not> has_flag (child_of b) BSON_FLAG_INLINE" "has_flag (child_of b) BSON_FLAG_CHILD"
  "\<not> has_flag (child_of b) BSON_FLAG_IN_CHILD" "\<not> has_flag (child_of b) BSON_FLAG_RDONLY"
  by (simp_all add: child_of_def flag_simps)

lemma child_buf [simp]: "b_buf (child_of b) = b_buf b"
  by (simp add: child_of_def)

lemma keeps_alloc:
  assumes "keeps h b h' b'" "\<not> has_flag b BSON_FLAG_INLINE"
  shows "\<not> has_flag b' BSON_FLAG_INLINE" "b_buf b' = b_buf b" "b_offset b' = b_offset b" "b_depth b' = b_depth b"
    "take (unat (b_offset b)) (cell_bytes h' (b_buf b)) = take (unat (b_offset b)) (cell_bytes h (b_buf b))"
  using assms by (simp_all add: keeps_def) (simp add: has_flag_def)

lemma suspended_flags [simp]:
  "has_flag (suspended b) BSON_FLAG_IN_CHILD"
  "has_flag (suspended b) BSON_FLAG_INLINE = has_flag b BSON_FLAG_INLINE"
  by (simp_all add: suspended_def flag_simps)

lemma resume_flags:
  "\<not> has_flag b BSON_FLAG_IN_CHILD \<Longrightarrow> (b_flags b OR BSON_FLAG_IN_CHILD) AND NOT BSON_FLAG_IN_CHILD = b_flags b"
  by (rule bit_word_eqI) (auto simp: flag_simps)

text \<open>The bytes in front of an empty document that was just appended, and the document itself.\<close>

definition front :: "bson_elem list \<Rightarrow> byte \<Rightarrow> byte list \<Rightarrow> byte list \<Rightarrow> byte list" where
  "front es t key d = le32 (of_nat (length (enc_elems es) + length key + length d + 7)) @ enc_elems es @ t # key @ [0]"

lemma doc_front: "doc_bytes (es @ [(t, key, d)]) = front es t key d @ d @ [0]"
  by (simp add: doc_bytes_def front_def ac_simps)

lemma length_front: "length (front es t key d) = length (enc_elems es) + length key + 6"
  by (simp add: front_def)

lemma empty_doc: "doc_bytes [] = [5, 0, 0, 0, 0]"
  by (simp add: doc_bytes_def le32_eq)

text \<open>Where the child lies in the buffer of its parent.\<close>

lemma rep_cell:
  assumes "bson_rep h b es" "\<not> has_flag b BSON_FLAG_INLINE"
  obtains pre junk cap where "h_cells h (b_buf b) = Some (Some (pre @ doc_bytes es @ junk), length pre + cap)"
    "unat (b_offset b) = length pre" "length pre + cap \<le> INT32_MAX" "length (doc_bytes es @ junk) \<le> cap"
    "length (doc_bytes es) + unat (b_depth b) \<le> cap" "\<not> has_flag b BSON_FLAG_CHILD \<longrightarrow> b_depth b = 0" "heap_ok h"
    "unat (b_len b) = length (doc_bytes es)"
  using assms by (auto simp: bson_rep_def bson_holds_def bson_mem_def reserve_def)

lemma child_position:
  assumes rep: "bson_rep h b (es @ [(t, key, doc_bytes [])])" and al: "\<not> has_flag b BSON_FLAG_INLINE"
  shows "unat (b_offset (child_of b)) = unat (b_offset b) + length (front es t key (doc_bytes []))"
    "unat (b_depth (child_of b)) = unat (b_depth b) + 1"
proof -
  let ?D = "doc_bytes (es @ [(t, key, doc_bytes [])])"
  obtain pre :: "byte list" and junk cap where m: "unat (b_offset b) = length pre" "length pre + cap \<le> INT32_MAX"
    "length (?D @ junk) \<le> cap" "length ?D + unat (b_depth b) \<le> cap" "\<not> has_flag b BSON_FLAG_CHILD \<longrightarrow> b_depth b = 0"
    "unat (b_len b) = length ?D" by (rule rep_cell [OF rep al]) blast
  have l: "length ?D = length (front es t key (doc_bytes [])) + 6" by (simp add: doc_front empty_doc)
  have a: "unat (b_offset b + ucast (b_len b)) = length pre + length ?D"
    using m l by (simp add: word_nat INT32_MAX_def)
  have "unat (b_offset b + ucast (b_len b) - 1 - 5) = length pre + length ?D - 6"
    using a l by (simp add: unat_sub_le)
  then show "unat (b_offset (child_of b)) = unat (b_offset b) + length (front es t key (doc_bytes []))"
    using m l by (simp add: child_of_def)
  show "unat (b_depth (child_of b)) = unat (b_depth b) + 1"
    using m by (simp add: child_of_def word_nat INT32_MAX_def)
qed

lemma child_rep:
  assumes rep: "bson_rep h b (es @ [(t, key, doc_bytes [])])" and al: "\<not> has_flag b BSON_FLAG_INLINE"
  shows "bson_rep h (child_of b) []"
proof -
  let ?D = "doc_bytes (es @ [(t, key, doc_bytes [])])" and ?f = "front es t key (doc_bytes [])"
  from rep_cell [OF rep al] obtain pre junk cap where
    m: "h_cells h (b_buf b) = Some (Some (pre @ ?D @ junk), length pre + cap)" "unat (b_offset b) = length pre"
    "length pre + cap \<le> INT32_MAX" "length (?D @ junk) \<le> cap" "length ?D + unat (b_depth b) \<le> cap" "heap_ok h" by metis
  note pos = child_position [OF rep al]
  have D: "?D = ?f @ doc_bytes [] @ [0]" by (rule doc_front)
  have "bson_mem h (child_of b) (doc_bytes [] @ [0] @ junk) (cap - length ?f)"
    unfolding bson_mem_def using m D pos by (auto intro!: exI [of _ "pre @ ?f"])
  moreover have "length (doc_bytes []) + reserve (child_of b) \<le> cap - length ?f"
    using m(4,5) D pos by (simp add: reserve_def)
  moreover have "unat (b_len (child_of b)) = length (doc_bytes [])" by (simp add: child_of_def empty_doc)
  ultimately show ?thesis by (auto simp: bson_rep_def bson_holds_def empty_doc)
qed

lemma begin_spec:
  assumes rep: "bson_rep h b es" and key: "key_arg mem kl key" and t: "t \<in> {BSON_TYPE_DOCUMENT, BSON_TYPE_ARRAY}"
    and small: "elem_small (t, key, doc_bytes [])"
  shows "(\<exists>b1 h1. bson_append_bson_begin h b mem kl t = Ret (None, b1, h1) \<and> keeps h b h1 b1 \<and> bson_rep h1 b1 es \<and>
       \<not> has_room h1 b1 (length (enc_elem (t, key, doc_bytes [])))) \<or>
    (\<exists>b1 h1. bson_append_bson_begin h b mem kl t = Ret (Some (child_of b1), suspended b1, h1) \<and> keeps h b h1 b1 \<and>
       \<not> has_flag b1 BSON_FLAG_INLINE \<and> bson_rep h1 b1 (es @ [(t, key, doc_bytes [])]))"
proof -
  have fl: "\<not> has_flag b BSON_FLAG_IN_CHILD" "\<not> has_flag b BSON_FLAG_RDONLY" using rep by (auto simp: bson_rep_def)
  let ?spill = "if has_flag b BSON_FLAG_INLINE then
               c_assert (b_len b \<le> 120) (cbind (bson_grow h b (128 - b_len b)) (\<lambda>(ok, b, h).
                 if \<not> ok then Ret (False, b, h)
                 else c_assert (\<not> has_flag b BSON_FLAG_INLINE) (Ret (True, b, h))))
             else Ret (True, b, h)"
  have "\<exists>b0 h0. ?spill = Ret (True, b0, h0) \<and> keeps h b h0 b0 \<and> bson_rep h0 b0 es \<and> \<not> has_flag b0 BSON_FLAG_INLINE"
  proof (cases "has_flag b BSON_FLAG_INLINE")
    case inl: True
    have holds: "bson_holds h b (doc_bytes es)" using rep by (simp add: bson_rep_def)
    then have len: "unat (b_len b) = length (doc_bytes es)" "length (doc_bytes es) \<le> 120"
      using inl by (auto simp: bson_holds_def bson_mem_def BSON_INLINE_DATA_SIZE_def)
    then have n: "unat (128 - b_len b) = 128 - length (doc_bytes es)" by (simp add: word_nat)
    have "has_room h b (unat (128 - b_len b))" using inl len n by (simp add: has_room_def)
    with grow_spec [OF holds, of "128 - b_len b"] obtain b0 h0 junk cap where
      g: "bson_grow h b (128 - b_len b) = Ret (True, b0, h0)" "keeps h b h0 b0" "b_len b0 = b_len b"
      "bson_mem h0 b0 (doc_bytes es @ junk) cap" "length (doc_bytes es) + unat (128 - b_len b) + reserve b0 \<le> cap"
      by (auto simp: grown_def)
    have "\<not> has_flag b0 BSON_FLAG_INLINE"
      using g(4,5) n len by (auto simp: bson_mem_def BSON_INLINE_DATA_SIZE_def)
    moreover have "bson_rep h0 b0 es"
      unfolding bson_rep_def bson_holds_def using g holds len keeps_rep_flags [OF g(2)] fl
      by (auto simp: length_doc_bytes intro!: exI [of _ junk] exI [of _ cap])
    ultimately show ?thesis using inl g len by (auto simp: word_le_nat_alt)
  qed (use rep in simp)
  then obtain b0 h0 where s: "?spill = Ret (True, b0, h0)" "keeps h b h0 b0" "bson_rep h0 b0 es" "\<not> has_flag b0 BSON_FLAG_INLINE"
    by blast
  let ?a = "append_field h0 b0 t mem (of_nat (length key)) 5 [(5, Some [5, 0, 0, 0, 0])]"
  have unf: "bson_append_bson_begin h b mem kl t = cbind ?a (\<lambda>(ok, b, h).
      if \<not> ok then Ret (None, b, h) else Ret (Some (child_of b), suspended b, h))"
    unfolding bson_append_bson_begin_def child_of_def suspended_def
    using fl t key_len_spec(1) [OF key] s(1) by auto
  have "appends h0 b0 es [(t, key, doc_bytes [])] ?a"
    by (rule append_field_spec [OF s(3) key _ _ _ small]) (auto simp: empty_doc pair_ok.simps pair_bytes.simps)
  then show ?thesis
  proof (cases "has_room h0 b0 (length (enc_elems [(t, key, doc_bytes [])]))")
    case True
    with \<open>appends h0 b0 es [(t, key, doc_bytes [])] ?a\<close> obtain b1 h1 where
      a: "?a = Ret (True, b1, h1)" "keeps h0 b0 h1 b1" "bson_rep h1 b1 (es @ [(t, key, doc_bytes [])])"
      by (auto simp: appends_def)
    have "\<not> has_flag b1 BSON_FLAG_INLINE" using a(2) s(4) by (auto simp: keeps_def has_flag_def)
    with a unf keeps_trans [OF s(2) a(2)] show ?thesis by auto
  next
    case False
    with \<open>appends h0 b0 es [(t, key, doc_bytes [])] ?a\<close> have "?a = Ret (False, b0, h0)" by (simp add: appends_def)
    with False s unf show ?thesis by auto
  qed
qed

lemma close_spec:
  assumes mem: "bson_mem h b (f @ d @ junk) cap" and len: "unat (b_len b) = length f + length d + 1"
    and fits: "4 \<le> length f" "length f + length d + 1 \<le> cap"
  shows "\<exists>b' h'. cbind (bson_data_put h b (unat (b_len b - 1)) [0]) (\<lambda>(b, h).
        cbind (bson_encode_length h b) (\<lambda>(b, h). Ret (True, b, h))) = Ret (True, b', h') \<and>
    keeps h b h' b' \<and> b_len b' = b_len b \<and> reserve b' = reserve b \<and>
    bson_mem h' b' (le32 (b_len b) @ drop 4 f @ d @ [0] @ drop 1 junk) cap"
proof -
  have len1: "unat (b_len b - 1) = length f + length d" using unat_sub_le [of 1 "b_len b"] len by simp
  from data_put_spec [OF mem, of "unat (b_len b - 1)" "[0]"] len1 fits obtain b2 h2 where
    z: "bson_data_put h b (unat (b_len b - 1)) [0] = Ret (b2, h2)" "keeps h b h2 b2" "b_len b2 = b_len b"
    "reserve b2 = reserve b" "bson_mem h2 b2 (f @ d @ [0] @ drop 1 junk) cap" by auto
  from data_put_spec [OF z(5), of 0 "le32 (b_len b2)"] fits obtain b3 h3 where
    e: "bson_encode_length h2 b2 = Ret (b3, h3)" "keeps h2 b2 h3 b3" "b_len b3 = b_len b2" "reserve b3 = reserve b2"
    "bson_mem h3 b3 (le32 (b_len b2) @ drop 4 f @ d @ [0] @ drop 1 junk) cap"
    by (auto simp: bson_encode_length_def)
  with z keeps_trans [OF z(2) e(2)] show ?thesis by auto
qed

lemma end_spec:
  assumes rep: "bson_rep h1 b1 (es @ [(t, key, doc_bytes [])])" and al: "\<not> has_flag b1 BSON_FLAG_INLINE"
    and child: "keeps h1 (child_of b1) h2 c" "bson_rep h2 c fs"
  shows "\<exists>b3 h3. bson_append_bson_end h2 (suspended b1) c = Ret (True, b3, h3) \<and> keeps h1 b1 h3 b3 \<and>
    bson_rep h3 b3 (es @ [(t, key, doc_bytes fs)])"
proof -
  let ?D = "doc_bytes (es @ [(t, key, doc_bytes [])])" and ?f = "front es t key (doc_bytes [])" and ?i = "b_buf b1"
  let ?E = "doc_bytes (es @ [(t, key, doc_bytes fs)])"
  from rep_cell [OF rep al] obtain pre junk cap where
    m: "h_cells h1 ?i = Some (Some (pre @ ?D @ junk), length pre + cap)" "unat (b_offset b1) = length pre"
    "\<not> has_flag b1 BSON_FLAG_CHILD \<longrightarrow> b_depth b1 = 0" "unat (b_len b1) = length ?D" by metis
  note pos = child_position [OF rep al]
  have c: "\<not> has_flag c BSON_FLAG_INLINE" "b_buf c = ?i" "b_offset c = b_offset (child_of b1)" "b_depth c = b_depth (child_of b1)"
    "take (unat (b_offset c)) (cell_bytes h2 ?i) = take (unat (b_offset c)) (cell_bytes h1 ?i)"
    using keeps_alloc [OF child(1)] by simp_all
  from rep_cell [OF child(2) c(1)] c(2) obtain pre2 junk2 cap2 where
    m2: "h_cells h2 ?i = Some (Some (pre2 @ doc_bytes fs @ junk2), length pre2 + cap2)" "unat (b_offset c) = length pre2"
    "length pre2 + cap2 \<le> INT32_MAX" "length (doc_bytes fs @ junk2) \<le> cap2" "length (doc_bytes fs) + unat (b_depth c) \<le> cap2"
    "heap_ok h2" "unat (b_len c) = length (doc_bytes fs)" by metis
  have pre2: "pre2 = pre @ ?f"
  proof -
    have "unat (b_offset c) = length (pre @ ?f)" using pos(1) m(2) c(3) by simp
    moreover have "cell_bytes h1 ?i = (pre @ ?f) @ doc_bytes [] @ [0] @ junk" using m(1) by (simp add: cell_bytes_def doc_front)
    moreover have "cell_bytes h2 ?i = pre2 @ doc_bytes fs @ junk2" using m2(1) by (simp add: cell_bytes_def)
    ultimately show ?thesis using c(5) m2(2) by simp
  qed
  have lD: "length ?D = length ?f + 6" by (simp add: doc_front empty_doc)
  have lE: "length ?E = length ?f + length (doc_bytes fs) + 1" by (simp add: doc_front length_front)
  let ?b = "b1\<lparr>b_len := b_len b1 + b_len c - 5\<rparr>"
  have res: "suspended b1\<lparr>b_flags := b_flags (suspended b1) AND NOT BSON_FLAG_IN_CHILD, b_len := b_len (suspended b1) + b_len c - 5\<rparr> = ?b"
    using resume_flags rep by (simp add: suspended_def bson_rep_def)
  have fits: "length ?E + unat (b_depth b1) \<le> length ?f + cap2" using m2(5) pos(2) c(4) lE by simp
  have "length ?f + cap2 \<le> INT32_MAX" using m2(3) pre2 by simp
  then have sumlt: "length ?D + length (doc_bytes fs) < 2 ^ 32" using lD lE fits by (simp add: INT32_MAX_def)
  have blen: "unat (b_len ?b) = length ?E"
  proof -
    have "unat (b_len b1 + b_len c) = length ?D + length (doc_bytes fs)" using m(4) m2(7) sumlt by (simp add: word_nat)
    then show ?thesis using lD lE by (simp add: unat_sub_le)
  qed
  have mem: "bson_mem h2 ?b (?f @ doc_bytes fs @ junk2) (length ?f + cap2)"
    unfolding bson_mem_len unfolding bson_mem_def using al m m2 pre2
    by (auto intro!: exI [of _ pre])
  from close_spec [OF mem] blen lE fits length_front [of es t key "doc_bytes []"] obtain b3 h4 where
    e: "cbind (bson_data_put h2 ?b (unat (b_len ?b - 1)) [0]) (\<lambda>(b, h).
        cbind (bson_encode_length h b) (\<lambda>(b, h). Ret (True, b, h))) = Ret (True, b3, h4)"
    "keeps h2 ?b h4 b3" "b_len b3 = b_len ?b" "reserve b3 = reserve ?b"
    "bson_mem h4 b3 (le32 (b_len ?b) @ drop 4 ?f @ doc_bytes fs @ [0] @ drop 1 junk2) (length ?f + cap2)" by auto
  have bl: "b_len ?b = of_nat (length ?E)" using blen by (metis of_nat_unat ucast_id)
  have "le32 (b_len ?b) @ drop 4 ?f = front es t key (doc_bytes fs)"
    unfolding bl lE by (simp add: front_def ac_simps)
  then have "le32 (b_len ?b) @ drop 4 ?f @ doc_bytes fs @ [0] @ drop 1 junk2 = ?E @ drop 1 junk2"
    by (metis append_assoc doc_front)
  then have mE: "bson_mem h4 b3 (?E @ drop 1 junk2) (length ?f + cap2)" using e(5) by metis
  have "keeps h2 b1 h4 b3" using e(2) by simp
  moreover have "keeps h1 b1 h2 b1"
    using child(1) al c(5) m(1) m2(1,2) pre2 m(2) unfolding keeps_def by (auto simp: cell_bytes_def child_of_def)
  ultimately have k: "keeps h1 b1 h4 b3" by (blast intro: keeps_trans)
  have "bson_rep h4 b3 (es @ [(t, key, doc_bytes fs)])"
    unfolding bson_rep_def bson_holds_def using mE e(3,4) blen fits al keeps_rep_flags [OF k] rep
    by (auto simp: bson_rep_def reserve_def length_doc_bytes intro!: exI [of _ "drop 1 junk2"] exI [of _ "length ?f + cap2"])
  moreover have "bson_append_bson_end h2 (suspended b1) c = Ret (True, b3, h4)"
    using child(2) e(1) by (simp add: bson_append_bson_end_def res bson_rep_def)
  ultimately show ?thesis using k by blast
qed


section \<open>Sequences of builder calls\<close>

text \<open>
  The calls that build up a document \<open>b\<close>: values are appended, and embedded documents and arrays are
  begun, built up in turn and ended, to any depth. All calls succeed.
\<close>

inductive built :: "bheap \<Rightarrow> bson_t \<Rightarrow> bheap \<Rightarrow> bson_t \<Rightarrow> bson_elem list \<Rightarrow> bool" where
  nothing: "built h b h b []"
| appended_value:
    "built h b h1 b1 es \<Longrightarrow> value_arg (v, d) \<Longrightarrow> key_arg mem kl key \<Longrightarrow>
     elem_small (data_type (copied d), key, data_bytes (copied d)) \<Longrightarrow>
     bson_append_value h1 b1 mem kl v = Ret (True, b2, h2) \<Longrightarrow>
     built h b h2 b2 (es @ [(data_type (copied d), key, data_bytes (copied d))])"
| embedded:
    "built h b h1 b1 es \<Longrightarrow> key_arg mem kl key \<Longrightarrow> t \<in> {BSON_TYPE_DOCUMENT, BSON_TYPE_ARRAY} \<Longrightarrow>
     elem_small (t, key, doc_bytes []) \<Longrightarrow>
     bson_append_bson_begin h1 b1 mem kl t = Ret (Some c, b2, h2) \<Longrightarrow>
     built h2 c h3 c3 fs \<Longrightarrow>
     bson_append_bson_end h3 b2 c3 = Ret (ok, b4, h4) \<Longrightarrow>
     built h b h4 b4 (es @ [(t, key, doc_bytes fs)])"

lemma begin_child:
  assumes "bson_rep h b es" "key_arg mem kl key" "t \<in> {BSON_TYPE_DOCUMENT, BSON_TYPE_ARRAY}"
    "elem_small (t, key, doc_bytes [])" "bson_append_bson_begin h b mem kl t = Ret (Some c, p, h1)"
  obtains b1 where "c = child_of b1" "p = suspended b1" "keeps h b h1 b1" "\<not> has_flag b1 BSON_FLAG_INLINE"
    "bson_rep h1 b1 (es @ [(t, key, doc_bytes [])])" "bson_rep h1 c []"
  using begin_spec [OF assms(1-4)] assms(5) child_rep by fastforce

lemma built_rep:
  "built h b h' b' es \<Longrightarrow> bson_rep h b es0 \<Longrightarrow> bson_rep h' b' (es0 @ es) \<and> keeps h b h' b'"
proof (induction arbitrary: es0 rule: built.induct)
  case (nothing h b)
  then show ?case by simp
next
  case (appended_value h b h1 b1 es v d mem kl key b2 h2)
  from appended_value.IH [OF appended_value.prems] have r: "bson_rep h1 b1 (es0 @ es)" "keeps h b h1 b1" by auto
  have "appends h1 b1 (es0 @ es) [(data_type (copied d), key, data_bytes (copied d))] (bson_append_value h1 b1 mem kl v)"
    using append_value_spec [OF r(1) appended_value.hyps(3)] appended_value.hyps(2,4) by (simp add: value_arg_def)
  with appended_value.hyps(5) r(2) show ?case by (auto simp: appends_def intro: keeps_trans split: if_splits)
next
  case (embedded h b h1 b1 es mem kl key t c b2 h2 h3 c3 fs ok b4 h4)
  from embedded.IH(1) [OF embedded.prems] have r: "bson_rep h1 b1 (es0 @ es)" "keeps h b h1 b1" by auto
  obtain b0 where c: "c = child_of b0" "b2 = suspended b0" "keeps h1 b1 h2 b0" "\<not> has_flag b0 BSON_FLAG_INLINE"
    "bson_rep h2 b0 ((es0 @ es) @ [(t, key, doc_bytes [])])" "bson_rep h2 c []"
    by (rule begin_child [OF r(1) embedded.hyps(2-5)])
  from embedded.IH(2) [OF c(6)] have "bson_rep h3 c3 fs" "keeps h2 (child_of b0) h3 c3" by (auto simp: c(1))
  from end_spec [OF c(5,4) this(2,1)] embedded.hyps(7) c(2)
  have "bson_rep h4 b4 ((es0 @ es) @ [(t, key, doc_bytes fs)])" "keeps h2 b0 h4 b4" by auto
  with r(2) c(3) show ?case by (auto intro: keeps_trans)
qed

end
