(* ===== verification/Bson_Document.thy ===== *)
theory Bson_Document
  imports Bson_Nested
begin

text \<open>
  Creating, copying and taking over documents: \<open>bson_init\<close> to \<open>bson_destroy_with_steal\<close> of \<open>bson.c\<close>, and
  the functions on whole documents, \<open>bson_count_keys\<close>, \<open>bson_has_field\<close>, \<open>bson_compare\<close>, \<open>bson_equal\<close>
  and \<open>bson_concat\<close>. Freeing a buffer removes its cell, so that a later access is a \<open>Fault\<close>.
\<close>

section \<open>Creation\<close>

definition bson_init :: bson_t where
  "bson_init = \<lparr>b_flags = BSON_FLAG_INLINE OR BSON_FLAG_STATIC, b_len = 5, b_inline = [5, 0, 0, 0, 0],
     b_depth = 0, b_buf = 0, b_own = False, b_offset = 0, b_realloc = False\<rparr>"

definition bson_reinit :: "bheap \<Rightarrow> bson_t \<Rightarrow> (bson_t \<times> bheap) outcome" where
  "bson_reinit h b = bson_data_put h (b\<lparr>b_len := 5\<rparr>) 0 [5, 0, 0, 0, 0]"

definition bson_new :: bson_t where
  "bson_new = bson_init\<lparr>b_flags := BSON_FLAG_INLINE\<rparr>"

definition bson_sized_new :: "bheap \<Rightarrow> nat \<Rightarrow> (bson_t \<times> bheap) outcome" where
  "bson_sized_new h n =
     c_assert (n \<le> INT32_MAX)
       (if n \<le> BSON_INLINE_DATA_SIZE
        then Ret (bson_init\<lparr>b_flags := b_flags bson_init AND NOT BSON_FLAG_STATIC\<rparr>, h)
        else case heap_new h (Some [5, 0, 0, 0, 0]) (max 5 n) of (i, h) \<Rightarrow>
          Ret (\<lparr>b_flags = 0, b_len = 5, b_inline = [], b_depth = 0, b_buf = i, b_own = True,
                b_offset = 0, b_realloc = True\<rparr>, h))"

text \<open>\<open>None\<close> stands for the \<open>NULL\<close> returned for data that is not a document.\<close>

definition bson_new_from_data :: "bheap \<Rightarrow> byte list \<Rightarrow> nat \<Rightarrow> (bson_t option \<times> bheap) outcome" where
  "bson_new_from_data h data len =
     (if len < 5 \<or> INT32_MAX < len then Ret (None, h)
      else cbind (rd8 data (len - 1)) (\<lambda>last.
        if last \<noteq> 0 then Ret (None, h)
        else cbind (rd32 data 0) (\<lambda>len_le.
          if len \<noteq> unat len_le then Ret (None, h)
          else cbind (bson_sized_new h len) (\<lambda>(b, h).
            cbind (rdn data 0 len) (\<lambda>bytes.
            cbind (bson_data_put h b 0 bytes) (\<lambda>(b, h).
              Ret (Some (b\<lparr>b_len := of_nat len\<rparr>), h)))))))"

text \<open>
  \<open>bson_new_from_buffer\<close> on the buffer variable \<open>i\<close> of the caller. A \<open>NULL\<close> buffer is allocated; the
  reallocation function of the caller is one that works like \<open>realloc\<close>.
\<close>

definition bson_new_from_buffer :: "bheap \<Rightarrow> nat \<Rightarrow> (bson_t option \<times> bheap) outcome" where
  "bson_new_from_buffer h i =
     (case h_cells h i of
        None \<Rightarrow> Fault
      | Some (content, buf_len) \<Rightarrow>
          cbind (case content of
              None \<Rightarrow> Ret (Some (5, heap_set h i (Some (le32 5 @ [0])) 5))
            | Some bytes \<Rightarrow>
                if buf_len < 5 \<or> INT32_MAX < buf_len then Ret None
                else cbind (rd32 bytes 0) (\<lambda>len. Ret (Some (len, h))))
            (\<lambda>r. case r of
                None \<Rightarrow> Ret (None, h)
              | Some (len, h) \<Rightarrow>
                  cbind (case h_cells h i of Some (Some bytes, _) \<Rightarrow> rd8 bytes (unat (len - 1)) | _ \<Rightarrow> Fault) (\<lambda>last.
                    if last \<noteq> 0 then Ret (None, h)
                    else Ret (Some \<lparr>b_flags = BSON_FLAG_NO_FREE, b_len = len, b_inline = [], b_depth = 0,
                                b_buf = i, b_own = False, b_offset = 0, b_realloc = True\<rparr>, h))))"

section \<open>Copies\<close>

definition bson_copy :: "bheap \<Rightarrow> bson_t \<Rightarrow> (bson_t option \<times> bheap) outcome" where
  "bson_copy h b = cbind (bson_data_mem h b) (\<lambda>data. bson_new_from_data h data (unat (b_len b)))"

definition bson_copy_to :: "bheap \<Rightarrow> bson_t \<Rightarrow> (bson_t \<times> bheap) outcome" where
  "bson_copy_to h src =
     (if has_flag src BSON_FLAG_INLINE
      then Ret (src\<lparr>b_flags := BSON_FLAG_STATIC OR BSON_FLAG_INLINE\<rparr>, h)
      else cbind (bson_data_mem h src) (\<lambda>data.
        let len = unat (bson_next_power_of_two (ucast (b_len src))) in
        cbind (rdn data 0 (unat (b_len src))) (\<lambda>bytes.
        cbind (bput len [] 0 bytes) (\<lambda>bytes.
          case heap_new h (Some bytes) len of (i, h) \<Rightarrow>
            Ret (\<lparr>b_flags = BSON_FLAG_STATIC, b_len = b_len src, b_inline = [], b_depth = 0, b_buf = i,
                  b_own = True, b_offset = 0, b_realloc = True\<rparr>, h)))))"

text \<open>\<open>strcmp (s, t) == 0\<close>, and the list of names to leave out, which has at least one entry.\<close>

fun c_strcmp_eq :: "byte list \<Rightarrow> byte list \<Rightarrow> bool outcome" where
  "c_strcmp_eq (a # s) (b # t) =
     (if a \<noteq> b then Ret False else if a = 0 then Ret True else c_strcmp_eq s t)"
| "c_strcmp_eq _ _ = Fault"

fun should_ignore :: "byte list list \<Rightarrow> byte list \<Rightarrow> bool outcome" where
  "should_ignore [] name = Ret False"
| "should_ignore (exclude # args) name =
     cbind (c_strcmp_eq name exclude) (\<lambda>eq. if eq then Ret True else should_ignore args name)"

fun copy_excluding_loop ::
    "nat \<Rightarrow> bheap \<Rightarrow> bson_t \<Rightarrow> bson_iter \<Rightarrow> byte list list \<Rightarrow> (bson_t \<times> bheap) outcome" where
  "copy_excluding_loop 0 h dst it excludes = Timeout"
| "copy_excluding_loop (Suc fuel) h dst it excludes =
     cbind (bson_iter_next it) (\<lambda>(r, it).
       if \<not> r then Ret (dst, h)
       else cbind (iter_key_mem it) (\<lambda>key. cbind (should_ignore excludes key) (\<lambda>ignore.
         if ignore then copy_excluding_loop fuel h dst it excludes
         else cbind (bson_append_iter h dst None 0 it) (\<lambda>(ok, dst, h).
           c_assert ok (copy_excluding_loop fuel h dst it excludes)))))"

definition bson_copy_to_excluding_noinit_va ::
    "bheap \<Rightarrow> bson_view \<Rightarrow> bson_t \<Rightarrow> byte list list \<Rightarrow> (bson_t \<times> bheap) outcome" where
  "bson_copy_to_excluding_noinit_va h src dst excludes =
     (case bson_iter_init src of (r, it) \<Rightarrow>
        if r then copy_excluding_loop (iter_fuel it) h dst it excludes else Ret (dst, h))"

definition bson_copy_to_excluding ::
    "bheap \<Rightarrow> bson_view \<Rightarrow> byte list list \<Rightarrow> (bson_t \<times> bheap) outcome" where
  "bson_copy_to_excluding h src excludes = bson_copy_to_excluding_noinit_va h src bson_init excludes"

definition bson_copy_to_excluding_noinit ::
    "bheap \<Rightarrow> bson_view \<Rightarrow> bson_t \<Rightarrow> byte list list \<Rightarrow> (bson_t \<times> bheap) outcome" where
  "bson_copy_to_excluding_noinit h src dst excludes = bson_copy_to_excluding_noinit_va h src dst excludes"

section \<open>Destruction and transfer\<close>

definition heap_free :: "bheap \<Rightarrow> nat \<Rightarrow> bheap outcome" where
  "heap_free h i = (if h_cells h i = None then Fault else Ret (h\<lparr>h_cells := (h_cells h)(i := None)\<rparr>))"

definition bson_destroy :: "bheap \<Rightarrow> bson_t option \<Rightarrow> bheap outcome" where
  "bson_destroy h b = (case b of
       None \<Rightarrow> Ret h
     | Some b \<Rightarrow>
         if \<not> has_flag b (BSON_FLAG_RDONLY OR BSON_FLAG_INLINE OR BSON_FLAG_NO_FREE)
         then heap_free h (b_buf b) else Ret h)"

text \<open>\<open>None\<close> is \<open>NULL\<close>; otherwise the memory at the document, which the caller fills.\<close>

definition bson_reserve_buffer :: "bheap \<Rightarrow> bson_t \<Rightarrow> u32 \<Rightarrow> (cptr \<times> bson_t \<times> bheap) outcome" where
  "bson_reserve_buffer h b n =
     (if has_flag b (BSON_FLAG_CHILD OR BSON_FLAG_IN_CHILD OR BSON_FLAG_RDONLY) then Ret (None, b, h)
      else cbind (bson_grow h b n) (\<lambda>(ok, b, h).
        if \<not> ok then Ret (None, b, h)
        else let b = b\<lparr>b_len := n\<rparr> in cbind (bson_data_mem h b) (\<lambda>m. Ret (Some m, b, h))))"

text \<open>
  \<open>bson_steal\<close> moves the structure: the variable \<open>alloc\<close> of \<open>dst\<close> gets the value of that of \<open>src\<close>, which
  is the buffer when \<open>src\<close> owned it and \<open>NULL\<close> when the buffer belonged to somebody else.
\<close>

definition bson_steal :: "bheap \<Rightarrow> bson_t \<Rightarrow> (bool \<times> bson_t \<times> bheap) outcome" where
  "bson_steal h src =
     (if has_flag src (BSON_FLAG_CHILD OR BSON_FLAG_IN_CHILD OR BSON_FLAG_RDONLY) then Ret (False, bson_init, h)
      else if has_flag src BSON_FLAG_INLINE
      then Ret (True, bson_init\<lparr>b_len := b_len src, b_inline := b_inline src\<rparr>, h)
      else case h_cells h (b_buf src) of
          None \<Rightarrow> Fault
        | Some (content, buflen) \<Rightarrow>
            (case (if b_own src then heap_new (h\<lparr>h_cells := (h_cells h)(b_buf src := None)\<rparr>) content buflen
                   else heap_new h None 0) of (i, h) \<Rightarrow>
              Ret (True, src\<lparr>b_flags := b_flags src OR BSON_FLAG_STATIC, b_buf := i, b_own := True\<rparr>, h)))"

text \<open>The buffer handed out (\<open>NULL\<close> when there is none), the length and the heap.\<close>

definition bson_destroy_with_steal :: "bheap \<Rightarrow> bson_t \<Rightarrow> bool \<Rightarrow> (cptr \<times> u32 \<times> bheap) outcome" where
  "bson_destroy_with_steal h b steal =
     (if \<not> steal then cbind (bson_destroy h (Some b)) (\<lambda>h. Ret (None, b_len b, h))
      else cbind (if has_flag b (BSON_FLAG_CHILD OR BSON_FLAG_IN_CHILD OR BSON_FLAG_RDONLY) then Ret (None, h)
             else if has_flag b BSON_FLAG_INLINE
             then cbind (rdn (b_inline b) 0 (unat (b_len b))) (\<lambda>ret. Ret (Some ret, h))
             else case h_cells h (b_buf b) of
                 None \<Rightarrow> Fault
               | Some (content, buflen) \<Rightarrow> Ret (content, heap_set h (b_buf b) None buflen))
        (\<lambda>(ret, h). cbind (bson_destroy h (Some b)) (\<lambda>h. Ret (ret, b_len b, h))))"

definition bson_get_data :: "bheap \<Rightarrow> bson_t \<Rightarrow> byte list outcome" where
  "bson_get_data h b = bson_data_mem h b"

section \<open>Whole documents\<close>

fun count_keys_loop :: "nat \<Rightarrow> bson_iter \<Rightarrow> u32 \<Rightarrow> u32 outcome" where
  "count_keys_loop 0 it count = Timeout"
| "count_keys_loop (Suc fuel) it count =
     cbind (bson_iter_next it) (\<lambda>(r, it). if r then count_keys_loop fuel it (count + 1) else Ret count)"

definition bson_count_keys :: "bson_view \<Rightarrow> u32 outcome" where
  "bson_count_keys b =
     (case bson_iter_init b of (r, it) \<Rightarrow> if r then count_keys_loop (iter_fuel it) it 0 else Ret 0)"

definition bson_has_field :: "bson_view \<Rightarrow> byte list \<Rightarrow> bool outcome" where
  "bson_has_field b key =
     cbind (c_strlen key) (\<lambda>n.
       if 0x2E \<in> set (take n key) then
         (case bson_iter_init b of (r, it) \<Rightarrow>
            if r then cbind (bson_iter_find_descendant it key) (\<lambda>child. Ret (child \<noteq> None)) else Ret False)
       else cbind (bson_iter_init_find b key) (\<lambda>(r, it). Ret r))"

text \<open>The sign of the comparison.\<close>

definition bson_compare :: "bson_view \<Rightarrow> bson_view \<Rightarrow> int outcome" where
  "bson_compare b other =
     (let len1 = unat (bv_len b - 4); len2 = unat (bv_len other - 4); n = min len1 len2 in
      cbind (rdn (bv_data b) 4 n) (\<lambda>data1. cbind (rdn (bv_data other) 4 n) (\<lambda>data2.
        let ret = c_memcmp data1 data2 in
        Ret (if len1 = len2 then ret else if ret = 0 then sgn (int len1 - int len2) else ret))))"

definition bson_equal :: "bson_view \<Rightarrow> bson_view \<Rightarrow> bool outcome" where
  "bson_equal b other = cbind (bson_compare b other) (\<lambda>c. Ret (c = 0))"

end
