(* ===== verification/Bson_Document_Spec.thy ===== *)
theory Bson_Document_Spec
  imports Bson_Document
begin

text \<open>
  What the document functions do: fresh documents are empty, copies hold the same elements in storage
  of their own, a filtered copy holds the elements that are not excluded, and comparison,
  concatenation, counting and lookup work on the elements.
\<close>

section \<open>Fresh documents\<close>

lemma repI:
  assumes "bson_mem h b (doc_bytes es @ junk) cap" "length (doc_bytes es) + reserve b \<le> cap"
    "b_len b = of_nat (length (doc_bytes es))" "\<not> has_flag b BSON_FLAG_IN_CHILD" "\<not> has_flag b BSON_FLAG_RDONLY"
  shows "bson_rep h b es"
proof -
  have "length (doc_bytes es) < 4294967296"
    using assms(1) by (auto simp: bson_mem_def BSON_INLINE_DATA_SIZE_def INT32_MAX_def split: if_splits)
  then have "unat (b_len b) = length (doc_bytes es)" by (simp add: assms(3) unat_of_nat)
  with assms show ?thesis by (auto simp: bson_rep_def bson_holds_def length_doc_bytes)
qed

lemma init_rep: "heap_ok h \<Longrightarrow> bson_rep h bson_init []"
  by (rule repI [where junk = "[]" and cap = 120])
    (simp_all add: bson_init_def flag_simps bson_mem_def reserve_def empty_doc BSON_INLINE_DATA_SIZE_def)

lemma new_rep: "heap_ok h \<Longrightarrow> bson_rep h bson_new []"
  by (rule repI [where junk = "[]" and cap = 120])
    (simp_all add: bson_new_def bson_init_def flag_simps bson_mem_def reserve_def empty_doc BSON_INLINE_DATA_SIZE_def)

lemma reinit_rep:
  assumes "bson_rep h b es"
  shows "\<exists>b' h'. bson_reinit h b = Ret (b', h') \<and> keeps h b h' b' \<and> bson_rep h' b' []"
proof -
  from assms obtain junk cap where m: "bson_mem h b (doc_bytes es @ junk) cap" "length (doc_bytes es) + reserve b \<le> cap"
    and fl: "\<not> has_flag b BSON_FLAG_IN_CHILD" "\<not> has_flag b BSON_FLAG_RDONLY"
    by (auto simp: bson_rep_def bson_holds_def)
  have "bson_mem h (b\<lparr>b_len := 5\<rparr>) (doc_bytes es @ junk) cap" using m(1) by simp
  from data_put_spec [OF this, of 0 "doc_bytes []"] m(2) obtain b' h' where
    p: "bson_reinit h b = Ret (b', h')" "keeps h b h' b'" "b_len b' = 5" "reserve b' = reserve b"
    "bson_mem h' b' (doc_bytes [] @ drop (length (doc_bytes [])) (doc_bytes es @ junk)) cap"
    unfolding bson_reinit_def empty_doc [symmetric] by (auto simp: length_doc_bytes)
  have "bson_rep h' b' []"
    by (rule repI [OF p(5)]) (use p m(2) fl keeps_rep_flags [OF p(2)] in \<open>auto simp: length_doc_bytes\<close>)
  with p show ?thesis by blast
qed

lemma heap_ok_new: "heap_ok h \<Longrightarrow> heap_new h c n = (i, h') \<Longrightarrow>
    i = h_next h \<and> heap_ok h' \<and> h_next h' = Suc (h_next h) \<and> h_cells h' = (h_cells h)(i \<mapsto> (c, n))"
  by (auto simp: heap_new_def heap_ok_def)

text \<open>Documents whose storage does not overlap.\<close>

definition apart :: "bson_t \<Rightarrow> bson_t \<Rightarrow> bool" where
  "apart b c \<longleftrightarrow> has_flag b BSON_FLAG_INLINE \<or> has_flag c BSON_FLAG_INLINE \<or> b_buf b \<noteq> b_buf c"

lemma heap_ok_cell: "heap_ok h \<Longrightarrow> h_cells h i = Some x \<Longrightarrow> i < h_next h"
  unfolding heap_ok_def by (metis not_le option.distinct(1))

lemma rep_apart:
  assumes rep: "bson_rep h b es" and other: "keeps h c h' c'" "bson_rep h' c' fs" and ap: "apart b c"
  shows "bson_rep h' b es"
proof -
  have ok: "heap_ok h'" using other(2) by (auto simp: bson_rep_def bson_holds_def bson_mem_def)
  from rep obtain junk cap where m: "bson_mem h b (doc_bytes es @ junk) cap" "length (doc_bytes es) + reserve b \<le> cap"
    by (auto simp: bson_rep_def bson_holds_def)
  have "bson_mem h' b (doc_bytes es @ junk) cap"
  proof (cases "has_flag b BSON_FLAG_INLINE")
    case True
    with m ok show ?thesis by (simp add: bson_mem_def)
  next
    case False
    with m(1) have "\<exists>x. h_cells h (b_buf b) = Some x" "heap_ok h" by (auto simp: bson_mem_def)
    then have "b_buf b < h_next h" using heap_ok_cell by blast
    with False ap other(1) have "h_cells h' (b_buf b) = h_cells h (b_buf b)" by (auto simp: keeps_def apart_def)
    with False m ok show ?thesis by (simp add: bson_mem_def)
  qed
  with rep m(2) show ?thesis by (auto simp: bson_rep_def bson_holds_def)
qed

section \<open>Documents from data\<close>

text \<open>The bytes are a document as far as \<open>bson_new_from_data\<close> looks at them.\<close>

definition framed :: "byte list \<Rightarrow> bool" where
  "framed D \<longleftrightarrow> sub_ok D \<and> last D = 0 \<and> length D \<le> INT32_MAX"

lemma framed_doc: "length (doc_bytes es) \<le> INT32_MAX \<Longrightarrow> framed (doc_bytes es)"
  by (simp add: framed_def sub_ok_def length_doc_bytes) (simp add: doc_bytes_def)

lemma sized_new_spec:
  assumes ok: "heap_ok h" and n: "n \<le> INT32_MAX"
  shows "\<exists>b h'. bson_sized_new h n = Ret (b, h') \<and> bson_rep h' b [] \<and> h_next h \<le> h_next h' \<and>
    (\<forall>i<h_next h. h_cells h' i = h_cells h i) \<and> \<not> has_flag b BSON_FLAG_CHILD \<and>
    (\<exists>m cap. bson_mem h' b m cap \<and> n \<le> cap) \<and> reserve b = 0 \<and>
    (\<not> has_flag b BSON_FLAG_INLINE \<longrightarrow> h_next h \<le> b_buf b)"
proof (cases "n \<le> BSON_INLINE_DATA_SIZE")
  case True
  let ?b = "bson_init\<lparr>b_flags := b_flags bson_init AND NOT BSON_FLAG_STATIC\<rparr>"
  have m: "bson_mem h ?b (doc_bytes [] @ []) 120" "reserve ?b = 0"
    using ok by (simp_all add: bson_init_def flag_simps bson_mem_def reserve_def empty_doc BSON_INLINE_DATA_SIZE_def)
  then have "bson_rep h ?b []" by (intro repI [OF m(1)]) (simp_all add: bson_init_def flag_simps empty_doc)
  moreover have "bson_sized_new h n = Ret (?b, h)" using True n by (simp add: bson_sized_new_def)
  moreover have "\<not> has_flag ?b BSON_FLAG_CHILD" "has_flag ?b BSON_FLAG_INLINE" by (simp_all add: bson_init_def flag_simps)
  ultimately show ?thesis using m True unfolding BSON_INLINE_DATA_SIZE_def by (intro exI [of _ ?b] exI [of _ h]) auto
next
  case False
  then have big: "max 5 n = n" "120 < n" by (simp_all add: BSON_INLINE_DATA_SIZE_def)
  obtain i h' where i: "heap_new h (Some [5, 0, 0, 0, 0]) n = (i, h')" by fastforce
  note hn = heap_ok_new [OF ok i]
  let ?b = "\<lparr>b_flags = 0, b_len = 5, b_inline = [], b_depth = 0, b_buf = i, b_own = True, b_offset = 0, b_realloc = True\<rparr>"
  have fl: "\<not> has_flag ?b f" for f by (simp add: has_flag_def)
  have m: "bson_mem h' ?b (doc_bytes [] @ []) n" "reserve ?b = 0"
    using hn n big by (simp_all add: bson_mem_def has_flag_def reserve_def empty_doc)
  then have "bson_rep h' ?b []" by (intro repI [OF m(1)]) (use big in \<open>simp_all add: fl empty_doc\<close>)
  moreover have "bson_sized_new h n = Ret (?b, h')" using False n big i by (simp add: bson_sized_new_def)
  ultimately show ?thesis using m hn fl by (intro exI [of _ ?b] exI [of _ h']) auto
qed

lemma new_from_data_spec:
  assumes ok: "heap_ok h" and D: "framed D"
  shows "\<exists>b h'. bson_new_from_data h (D @ r) (length D) = Ret (Some b, h') \<and> bson_holds h' b D \<and>
    \<not> has_flag b BSON_FLAG_IN_CHILD \<and> \<not> has_flag b BSON_FLAG_RDONLY \<and>
    h_next h \<le> h_next h' \<and> (\<forall>i<h_next h. h_cells h' i = h_cells h i) \<and>
    (\<not> has_flag b BSON_FLAG_INLINE \<longrightarrow> h_next h \<le> b_buf b)"
proof -
  have len: "5 \<le> length D" "length D \<le> INT32_MAX" "take 4 D = le32 (of_nat (length D))" "last D = 0"
    using D by (auto simp: framed_def sub_ok_def)
  have w: "unat (of_nat (length D) :: u32) = length D" using len by (simp add: unat_of_nat INT32_MAX_def)
  have rd: "rd8 (D @ r) (length D - 1) = Ret 0" "rd32 (D @ r) 0 = Ret (of_nat (length D))" "rdn (D @ r) 0 (length D) = Ret D"
    using len last_conv_nth [of D] by (cases "D = []"; simp add: rd8_def nth_append rd32_in_range rdn_def)+
  from sized_new_spec [OF ok len(2)] obtain b h1 m cap where s: "bson_sized_new h (length D) = Ret (b, h1)"
    "bson_rep h1 b []" "h_next h \<le> h_next h1" "\<forall>i<h_next h. h_cells h1 i = h_cells h i" "bson_mem h1 b m cap"
    "length D \<le> cap" "reserve b = 0" "\<not> has_flag b BSON_FLAG_INLINE \<longrightarrow> h_next h \<le> b_buf b" by blast
  from data_put_spec [OF s(5), of 0 D] s(6) obtain b2 h2 where p: "bson_data_put h1 b 0 D = Ret (b2, h2)"
    "keeps h1 b h2 b2" "reserve b2 = 0" "bson_mem h2 b2 (D @ drop (length D) m) cap" using s(7) by auto
  have "bson_new_from_data h (D @ r) (length D) = Ret (Some (b2\<lparr>b_len := of_nat (length D)\<rparr>), h2)"
    using len rd w s(1) p(1) by (simp add: bson_new_from_data_def)
  moreover have "bson_holds h2 (b2\<lparr>b_len := of_nat (length D)\<rparr>) D"
    using p s(6) len w by (auto simp: bson_holds_def)
  moreover have "\<forall>i<h_next h. h_cells h2 i = h_cells h i" using p(2) s(3,4,8) by (auto simp: keeps_def)
  moreover have "\<not> has_flag b2 BSON_FLAG_INLINE \<longrightarrow> h_next h \<le> b_buf b2" "h_next h \<le> h_next h2"
    using p(2) s(3,8) by (auto simp: keeps_def has_flag_def split: if_splits)
  ultimately show ?thesis using keeps_rep_flags [OF p(2)] s(2)
    by (intro exI conjI) (assumption | simp add: bson_rep_def has_flag_def)+
qed

lemma copy_spec:
  assumes "bson_rep h b es"
  shows "\<exists>c h'. bson_copy h b = Ret (Some c, h') \<and> bson_rep h' c es \<and> bson_rep h' b es \<and> apart b c"
proof -
  let ?D = "doc_bytes es"
  from assms obtain junk cap where m: "bson_mem h b (?D @ junk) cap" "unat (b_len b) = length ?D" "length ?D + reserve b \<le> cap"
    by (auto simp: bson_rep_def bson_holds_def)
  have ok: "heap_ok h" using m by (simp add: bson_mem_def)
  from new_from_data_spec [OF ok framed_doc, of es junk] view_of_rep(2) [OF assms] obtain c h' where
    c: "bson_new_from_data h (?D @ junk) (length ?D) = Ret (Some c, h')" "bson_rep h' c es" "h_next h \<le> h_next h'"
    "\<forall>i<h_next h. h_cells h' i = h_cells h i" "\<not> has_flag c BSON_FLAG_INLINE \<longrightarrow> h_next h \<le> b_buf c"
    by (auto simp: bson_rep_def)
  have ok': "heap_ok h'" using c(2) by (auto simp: bson_rep_def bson_holds_def bson_mem_def)
  have cell: "b_buf b < h_next h" if "\<not> has_flag b BSON_FLAG_INLINE"
    using that m(1) heap_ok_cell by (auto simp: bson_mem_def)
  then have "bson_mem h' b (?D @ junk) cap" using m(1) c(4) ok' by (auto simp: bson_mem_def split: if_splits)
  then have "bson_rep h' b es" using assms m by (auto simp: bson_rep_def bson_holds_def)
  moreover have "apart b c" using c(5) cell by (auto simp: apart_def)
  moreover have "bson_copy h b = Ret (Some c, h')" using c(1) data_mem_spec [OF m(1)] m(2) by (simp add: bson_copy_def)
  ultimately show ?thesis using c(2) by blast
qed


section \<open>Copying elements through an iterator\<close>

lemma key_mem_on:
  assumes "iter_on data len (t, k, v) it"
  shows "\<exists>r. iter_key_mem it = Ret (k @ 0 # r)" "length k \<le> INT32_MAX"
proof -
  from iter_on_memory [OF assms] obtain rest where m: "it_raw it = Some data"
    "drop (unat (it_type it)) data = enc_elem (t, k, v) @ rest" "unat (it_key it) = unat (it_type it) + 1"
    "unat (it_d1 it) = unat (it_type it) + length k + 2" "unat (it_d1 it) + length v < unat len" "unat len \<le> INT32_MAX"
    by metis
  have "drop (unat (it_type it) + 1) data = k @ 0 # (v @ rest)"
    using arg_cong [OF m(2), of "drop 1"] by (simp add: add.commute)
  with m show "\<exists>r. iter_key_mem it = Ret (k @ 0 # r)"
    by (simp add: iter_key_mem_def bson_iter_key_def iter_ptr_def iter_mem_def)
  show "length k \<le> INT32_MAX" using m by linarith
qed

lemma append_iter_value:
  assumes "ITER_TYPE it = Ret (data_type x)" "bson_iter_value it = Ret (Some v)" "value_shows x v"
    "iter_key_mem it = Ret mem" "\<And>oid. x \<noteq> D_oid oid" "\<And>c oid. x \<noteq> D_dbpointer c oid"
  shows "bson_append_iter h b None n it = bson_append_value h b mem (- 1) v"
  using assms by (cases x) (auto simp: bson_append_iter_def bson_iter_value_def bson_type_defs split: option.splits)

lemma append_iter_spec:
  assumes rep: "bson_rep h b es" and on: "iter_on data len (data_type x, k, data_bytes x) it"
    and x: "data_ok x" "closed x" and k: "0 \<notin> set k"
    and small: "elem_small (data_type (copied x), k, data_bytes (copied x))"
  shows "appends h b es [(data_type (copied x), k, data_bytes (copied x))] (bson_append_iter h b None n it)"
proof -
  obtain r where mem: "iter_key_mem it = Ret (k @ 0 # r)" using key_mem_on(1) [OF on] by blast
  have key: "key_arg (k @ 0 # r) (- 1) k" using k key_mem_on(2) [OF on] by (simp add: key_arg_def)
  have t: "ITER_TYPE it = Ret (data_type x)" using on_facts [OF on] by metis
  obtain v where v: "bson_iter_value it = Ret (Some v)" "value_shows x v" using value_on [OF on x(1)] by blast
  show ?thesis
  proof (cases "\<exists>oid c. x = D_oid oid \<or> x = D_dbpointer c oid")
    case False
    then have "bson_append_iter h b None n it = bson_append_value h b (k @ 0 # r) (- 1) v"
      using append_iter_value [OF t v mem] by blast
    with append_value_spec [OF rep key v(2) x small] show ?thesis by simp
  next
    case True
    then consider (oid) oid where "x = D_oid oid" | (dbp) c oid where "x = D_dbpointer c oid" by blast
    then show ?thesis
    proof cases
      case oid
      with v t obtain p where p: "bson_iter_oid it = Ret p" "cptr_oid p = Ret oid"
        by (auto simp: bson_iter_value_def bson_type_defs)
      then have "oid_arg (p, oid)" using x oid
        by (auto simp: oid_arg_def cptr_oid_def ptr_to_def rdn_def split: option.splits if_splits)
          (metis append_take_drop_id)
      from w_oid.writes [OF rep key this] small oid t p mem show ?thesis
        by (simp add: bson_append_iter_def bson_type_defs)
    next
      case dbp
      with v t obtain p q m where p: "bson_iter_dbpointer it = Ret (m, p, q)" "cptr_oid q = Ret oid" "ptr_to p (c @ [0])"
        by (auto simp: bson_iter_value_def bson_type_defs ptr_len_def)
      then have "dbpointer_arg (p, q, c_str c, oid)" using x dbp
        by (auto simp: dbpointer_arg_def oid_arg_def cptr_oid_def ptr_to_def [of q] rdn_def code_arg_c_str split: option.splits if_splits)
          (metis append_take_drop_id)
      from w_dbpointer.writes [OF rep key this] small dbp t p mem show ?thesis
        by (simp add: bson_append_iter_def bson_type_defs)
    qed
  qed
qed

text \<open>A document that can grow on its own, and for which 1 GiB is always available.\<close>

definition roomy :: "bson_t \<Rightarrow> bool" where
  "roomy b \<longleftrightarrow> \<not> has_flag b BSON_FLAG_CHILD \<and> (has_flag b BSON_FLAG_INLINE \<or> b_realloc b \<and> b_offset b = 0)"

lemma roomy_keeps: "roomy b \<Longrightarrow> keeps h b h' b' \<Longrightarrow> roomy b'"
  using keeps_rep_flags(3) [of h b h' b'] by (auto simp: roomy_def keeps_def has_flag_def split: if_splits)

lemma roomy_room:
  assumes "roomy b" "bson_rep h b es" "length (doc_bytes es) + n \<le> 2 ^ 30"
  shows "has_room h b n"
proof -
  have "unat (b_len b) = length (doc_bytes es)" "\<not> has_flag b BSON_FLAG_INLINE \<Longrightarrow> b_depth b = 0"
    using assms(1,2) by (auto simp: bson_rep_def bson_holds_def bson_mem_def roomy_def split: if_splits)
  with assms show ?thesis by (auto simp: has_room_def roomy_def Let_def)
qed

section \<open>Filtered copies\<close>

text \<open>A field of a document: its key and its value.\<close>

fun field :: "byte list \<times> bson_data \<Rightarrow> bson_elem" where
  "field (k, x) = (data_type x, k, data_bytes x)"

fun field_ok :: "byte list \<times> bson_data \<Rightarrow> bool" where
  "field_ok (k, x) \<longleftrightarrow> 0 \<notin> set k \<and> data_ok x \<and> closed x"

lemma field_elem_ok: "field_ok f \<Longrightarrow> elem_ok (field f)"
  by (cases f) (simp add: data_payload_ok)

lemma length_sorted_options: "length (sorted_options opts) \<le> length opts"
proof -
  have "distinct BSON_REGEX_OPTIONS_SORTED" by (simp add: BSON_REGEX_OPTIONS_SORTED_def)
  then have "length (sorted_options opts) = card (set (sorted_options opts))"
    unfolding sorted_options_def by (metis distinct_card distinct_filter)
  also have "\<dots> \<le> card (set opts)" by (rule card_mono) (auto simp: sorted_options_def)
  also have "\<dots> \<le> length opts" by (rule card_length)
  finally show ?thesis .
qed

lemma copied_shorter: "length (data_bytes (copied x)) \<le> length (data_bytes x)" "data_type (copied x) = data_type x"
proof -
  have "length (c_str s) \<le> length s" for s by (simp add: c_str_def length_takeWhile_le)
  then show "length (data_bytes (copied x)) \<le> length (data_bytes x)"
    by (cases x) (simp_all add: enc_string_def length_sorted_options)
qed (cases x, simp_all)

lemma strcmp_eq_spec: "0 \<notin> set s \<Longrightarrow> 0 \<notin> set t \<Longrightarrow> c_strcmp_eq (s @ 0 # r1) (t @ 0 # r2) = Ret (s = t)"
proof (induction s arbitrary: t)
  case Nil
  then show ?case by (cases t) auto
next
  case (Cons a s)
  then show ?case by (cases t) auto
qed

lemma should_ignore_spec:
  "0 \<notin> set name \<Longrightarrow> \<forall>e \<in> set excludes. 0 \<notin> set e \<Longrightarrow>
   should_ignore (map (\<lambda>e. e @ [0]) excludes) (name @ 0 # r) = Ret (name \<in> set excludes)"
  by (induction excludes) (auto simp: strcmp_eq_spec)

definition kept :: "byte list list \<Rightarrow> (byte list \<times> bson_data) list \<Rightarrow> bson_elem list" where
  "kept excludes fs = map (\<lambda>(k, x). field (k, copied x)) (filter (\<lambda>(k, x). k \<notin> set excludes) fs)"

lemma length_kept: "length (enc_elems (kept excludes fs)) \<le> length (enc_elems (map field fs))"
  using copied_shorter by (induction fs) (auto simp: kept_def intro: add_mono le_trans)

lemma copy_excluding_loop_spec:
  assumes "iter_before data len (map field fs) it" "unat len - unat (it_next_off it) < fuel"
    "list_all field_ok fs" "\<forall>e \<in> set excludes. 0 \<notin> set e"
    "bson_rep h dst es" "roomy dst" "length (doc_bytes es) + length (enc_elems (map field fs)) \<le> 2 ^ 30"
  shows "\<exists>dst' h'. copy_excluding_loop fuel h dst it (map (\<lambda>e. e @ [0]) excludes) = Ret (dst', h') \<and>
    keeps h dst h' dst' \<and> bson_rep h' dst' (es @ kept excludes fs)"
  using assms
proof (induction fuel arbitrary: it fs h dst es)
  case (Suc fuel)
  show ?case
  proof (cases fs)
    case Nil
    with next_before [OF Suc.prems(1)] Suc.prems(5) show ?thesis by (auto simp: kept_def)
  next
    case (Cons f rest)
    obtain k x where f: "f = (k, x)" by (cases f)
    with Cons next_before [OF Suc.prems(1)] obtain it1 where n: "bson_iter_next it = Ret (True, it1)"
      "iter_on data len (field (k, x)) it1" "iter_before data len (map field rest) it1"
      "unat (it_next_off it) < unat (it_next_off it1)" "unat (it_next_off it1) < unat len" by auto
    have kx: "0 \<notin> set k" "data_ok x" "closed x" using Suc.prems(3) Cons f by auto
    have on: "iter_on data len (data_type x, k, data_bytes x) it1" using n(2) by simp
    obtain r where key: "iter_key_mem it1 = Ret (k @ 0 # r)" using key_mem_on(1) [OF on] by blast
    have ign: "should_ignore (map (\<lambda>e. e @ [0]) excludes) (k @ 0 # r) = Ret (k \<in> set excludes)"
      using should_ignore_spec kx(1) Suc.prems(4) by blast
    have fuel: "unat len - unat (it_next_off it1) < fuel" using n(4,5) Suc.prems(2) by linarith
    have ok: "list_all field_ok rest" using Suc.prems(3) Cons by simp
    show ?thesis
    proof (cases "k \<in> set excludes")
      case True
      have "length (doc_bytes es) + length (enc_elems (map field rest)) \<le> 2 ^ 30" using Suc.prems(7) Cons by simp
      from Suc.IH [OF n(3) fuel ok Suc.prems(4-6) this] True n(1) key ign show ?thesis by (simp add: Cons f kept_def)
    next
      case False
      let ?e = "field (k, copied x)"
      have le: "length (enc_elem ?e) \<le> length (enc_elem (field (k, x)))" using copied_shorter [of x] by simp
      have sum: "length (doc_bytes es) + length (enc_elem ?e) + length (enc_elems (map field rest)) \<le> 2 ^ 30"
        using Suc.prems(7) Cons f le by simp
      then have "has_room h dst (length (enc_elems [?e]))" by (intro roomy_room [OF Suc.prems(6,5)]) simp
      moreover have "elem_small ?e" using sum by (simp add: elem_small_def INT32_MAX_def)
      ultimately obtain dst1 h1 where a: "bson_append_iter h dst None 0 it1 = Ret (True, dst1, h1)"
        "keeps h dst h1 dst1" "bson_rep h1 dst1 (es @ [?e])"
        using append_iter_spec [OF Suc.prems(5) on kx(2,3,1), of 0] by (auto simp: appends_def)
      have "length (doc_bytes (es @ [?e])) + length (enc_elems (map field rest)) \<le> 2 ^ 30"
        using sum by (simp add: length_doc_bytes)
      from Suc.IH [OF n(3) fuel ok Suc.prems(4) a(3) roomy_keeps [OF Suc.prems(6) a(2)] this] obtain dst2 h2 where
        "copy_excluding_loop fuel h1 dst1 it1 (map (\<lambda>e. e @ [0]) excludes) = Ret (dst2, h2)" "keeps h1 dst1 h2 dst2"
        "bson_rep h2 dst2 ((es @ [?e]) @ kept excludes rest)" by blast
      with False n(1) key ign a keeps_trans [OF a(2)] show ?thesis by (auto simp: Cons f kept_def)
    qed
  qed
qed simp


section \<open>Concatenation and comparison\<close>

text \<open>A \<open>const bson_t *\<close> argument that holds the document \<open>es\<close>.\<close>

definition views :: "bson_view \<Rightarrow> bson_elem list \<Rightarrow> bool" where
  "views view es \<longleftrightarrow> length (doc_bytes es) \<le> INT32_MAX \<and> bv_len view = of_nat (length (doc_bytes es)) \<and>
     (\<exists>junk. bv_data view = doc_bytes es @ junk)"

lemma viewsD:
  assumes "views view es"
  shows "unat (bv_len view) = length (doc_bytes es)" "unat (bv_len view - 4) = length (enc_elems es) + 1"
    "unat (bv_len view - 5) = length (enc_elems es)" "\<exists>junk. drop 4 (bv_data view) = enc_elems es @ [0] @ junk"
proof -
  show l: "unat (bv_len view) = length (doc_bytes es)"
    using assms by (simp add: views_def unat_of_nat INT32_MAX_def)
  show "unat (bv_len view - 4) = length (enc_elems es) + 1" "unat (bv_len view - 5) = length (enc_elems es)"
    using l unat_sub_le [of 4 "bv_len view"] unat_sub_le [of 5 "bv_len view"] by (simp_all add: length_doc_bytes)
  show "\<exists>junk. drop 4 (bv_data view) = enc_elems es @ [0] @ junk"
    using assms by (auto simp: views_def doc_bytes_def)
qed

lemma views_of_rep: "bson_rep h b es \<Longrightarrow> \<exists>view. bson_view_of h b = Ret view \<and> views view es"
  using view_of_rep [of h b es] by (fastforce simp: views_def)

lemma views_doc_view: "length (doc_bytes es) \<le> INT32_MAX \<Longrightarrow> views (doc_view es) es"
  by (simp add: views_def doc_view_def)

lemma empty_spec:
  assumes "views view es" "\<forall>(t, k, v) \<in> set es. t \<noteq> 0"
  shows "bson_empty view = Ret (es = [])"
proof (cases es)
  case Nil
  with viewsD(1) [OF assms(1)] show ?thesis
    by (simp add: bson_empty_def empty_doc word_unat_eq_iff)
next
  case (Cons e fs)
  obtain t k v where e: "e = (t, k, v)" by (cases e)
  have "bv_len view \<noteq> 5" using viewsD(1) [OF assms(1)] Cons e by (auto simp: length_doc_bytes)
  moreover obtain junk where "bv_data view = doc_bytes es @ junk" using assms(1) by (auto simp: views_def)
  then have "rd8 (bv_data view) 4 = Ret t" by (simp add: Cons e doc_bytes_def rd8_def nth_append le32_eq)
  ultimately show ?thesis using assms(2) Cons e by (simp add: bson_empty_def)
qed

lemma concat_spec:
  assumes rep: "bson_rep h dst es" and src: "views src fs" "\<forall>(t, k, v) \<in> set fs. t \<noteq> 0"
  shows "if fs = [] then bson_concat h dst src = Ret (True, dst, h) else appends h dst es fs (bson_concat h dst src)"
proof (cases fs)
  case Nil
  with empty_spec [OF src] show ?thesis by (simp add: bson_concat_def)
next
  case (Cons f fs')
  then have ne: "fs \<noteq> []" "enc_elems fs \<noteq> []" by (cases f; simp)+
  let ?n = "bv_len src - 5" and ?ps = "[(bv_len src - 5, Some (drop 4 (bv_data src)))]"
  obtain junk where d: "drop 4 (bv_data src) = enc_elems fs @ [0] @ junk" using viewsD(4) [OF src(1)] by blast
  then have "ptr_to (Some (drop 4 (bv_data src))) (enc_elems fs)" by (simp add: ptr_to_def)
  note P = pair_to [OF this viewsD(3) [OF src(1)]]
  have nz: "?n \<noteq> 0" using viewsD(3) [OF src(1)] ne(2) by auto
  have "appended h dst (doc_bytes es) (pairs_bytes ?ps) (bson_append h dst ?n ?ps)"
    by (rule append_spec [where rest = "[]"]) (use rep P viewsD(3) [OF src(1)] nz in \<open>auto simp: bson_rep_def\<close>)
  then have "appended h dst (doc_bytes es) (enc_elems fs) (bson_append h dst ?n ?ps)" using P by simp
  from appended_appends [OF rep this] empty_spec [OF src] ne show ?thesis by (simp add: bson_concat_def)
qed

lemma memcmp_prefix: "c_memcmp (take n xs) (take n ys) = 0 \<Longrightarrow> n \<le> length xs \<Longrightarrow> n \<le> length ys \<Longrightarrow> take n xs = take n ys"
  using c_memcmp_eq_0 [of "take n xs" "take n ys"] by simp

lemma compare_spec:
  assumes "views a es" "views b fs"
  shows "\<exists>c. bson_compare a b = Ret c \<and> (c = 0 \<longleftrightarrow> enc_elems es = enc_elems fs)"
proof -
  define xs ys where "xs = enc_elems es @ [0]" and "ys = enc_elems fs @ [0]"
  let ?n = "min (length xs) (length ys)"
  obtain j1 j2 where d: "drop 4 (bv_data a) = xs @ j1" "drop 4 (bv_data b) = ys @ j2"
    using viewsD(4) [OF assms(1)] viewsD(4) [OF assms(2)] by (auto simp: xs_def ys_def)
  have l: "unat (bv_len a - 4) = length xs" "unat (bv_len b - 4) = length ys"
    using viewsD(2) assms by (auto simp: xs_def ys_def)
  have "4 + ?n \<le> length (bv_data a)" "4 + ?n \<le> length (bv_data b)"
    using arg_cong [OF d(1), of length] arg_cong [OF d(2), of length] by (simp_all add: xs_def ys_def)
  then have rd: "rdn (bv_data a) 4 ?n = Ret (take ?n xs)" "rdn (bv_data b) 4 ?n = Ret (take ?n ys)"
    using d by (simp_all add: rdn_def)
  let ?m = "c_memcmp (take ?n xs) (take ?n ys)"
  have c: "bson_compare a b = Ret (if length xs = length ys then ?m else if ?m = 0 then sgn (int (length xs) - int (length ys)) else ?m)"
    unfolding bson_compare_def Let_def l rd by simp
  have "(if length xs = length ys then ?m else if ?m = 0 then sgn (int (length xs) - int (length ys)) else ?m) = 0 \<longleftrightarrow>
      enc_elems es = enc_elems fs"
    using c_memcmp_eq_0 [of xs ys] by (auto simp: sgn_0_0 xs_def ys_def)
  with c show ?thesis by blast
qed

section \<open>Counting and lookup\<close>

lemma count_keys_loop_spec:
  assumes "iter_before data len es it" "unat len - unat (it_next_off it) < fuel"
  shows "count_keys_loop fuel it n = Ret (n + of_nat (length es))"
  using assms
proof (induction fuel arbitrary: it es n)
  case (Suc fuel)
  show ?case
  proof (cases es)
    case Nil
    with next_before [OF Suc.prems(1)] show ?thesis by auto
  next
    case (Cons e fs)
    with next_before [OF Suc.prems(1)] obtain it1 where "bson_iter_next it = Ret (True, it1)"
      "iter_before data len fs it1" "unat (it_next_off it) < unat (it_next_off it1)" "unat (it_next_off it1) < unat len" by auto
    with Suc.IH [of fs it1 "n + 1"] Suc.prems(2) Cons show ?thesis by (simp add: add.assoc)
  qed
qed simp

lemma views_init:
  assumes "views view es" "list_all elem_ok es"
  obtains junk where "bson_iter_init view = (True, iter_start (doc_bytes es @ junk) (of_nat (length (doc_bytes es))))" "doc_ok es"
    "view = \<lparr>bv_data = doc_bytes es @ junk, bv_len = of_nat (length (doc_bytes es))\<rparr>"
proof -
  from assms(1) obtain junk where v: "bv_data view = doc_bytes es @ junk" "bv_len view = of_nat (length (doc_bytes es))"
    by (auto simp: views_def)
  have "\<not> bv_len view < 5" using viewsD(1) [OF assms(1)] by (simp add: word_less_nat_alt length_doc_bytes)
  with v have "bson_iter_init view = (True, iter_start (doc_bytes es @ junk) (of_nat (length (doc_bytes es))))"
    by (simp add: bson_iter_init_def)
  moreover have "doc_ok es" using assms by (simp add: doc_ok_def views_def)
  ultimately show ?thesis using that v by (cases view) auto
qed

lemma count_keys_spec:
  assumes "views view es" "list_all elem_ok es"
  shows "bson_count_keys view = Ret (of_nat (length es))"
proof -
  from views_init [OF assms] obtain junk where i: "bson_iter_init view = (True, iter_start (doc_bytes es @ junk) (of_nat (length (doc_bytes es))))"
    "doc_ok es" by metis
  have "unat (of_nat (length (doc_bytes es)) :: u32) - 4 < iter_fuel (iter_start (doc_bytes es @ junk) (of_nat (length (doc_bytes es))))"
    by (simp add: iter_fuel_def iter_start_def)
  with count_keys_loop_spec [OF doc_start_before [OF i(2), of junk], of _ 0] i(1) show ?thesis
    by (simp add: bson_count_keys_def iter_start_def)
qed

lemma has_field_spec:
  assumes "views view es" "list_all elem_ok es" "0 \<notin> set key" "0x2E \<notin> set key"
  shows "bson_has_field view (key @ [0]) = Ret (\<exists>t v. (t, key, v) \<in> set es)"
proof -
  from views_init [OF assms(1,2)] obtain junk where "doc_ok es"
    "view = \<lparr>bv_data = doc_bytes es @ junk, bv_len = of_nat (length (doc_bytes es))\<rparr>" by metis
  with init_find_view [OF this(1) assms(3), of junk] obtain it where
    "bson_iter_init_find view (key @ [0]) = Ret (find (\<lambda>(t, k, v). k = key) es \<noteq> None, it)" by blast
  moreover have "find (\<lambda>(t, k, v). k = key) es \<noteq> None \<longleftrightarrow> (\<exists>t v. (t, key, v) \<in> set es)"
    by (auto simp: find_None_iff split: prod.splits)
  ultimately show ?thesis using assms(3,4) by (simp add: bson_has_field_def c_strlen_terminated)
qed

section \<open>Transfer of ownership\<close>

lemma flag_or: "has_flag b (f OR g) \<longleftrightarrow> has_flag b f \<or> has_flag b g"
  by (auto simp: has_flag_def word_eq_bits [of _ 0] bit_and_iff bit_or_iff)

lemma steal_spec:
  assumes rep: "bson_rep h src es" and top: "\<not> has_flag src BSON_FLAG_CHILD" "has_flag src BSON_FLAG_INLINE \<or> b_own src"
  shows "\<exists>dst h'. bson_steal h src = Ret (True, dst, h') \<and> bson_rep h' dst es"
proof -
  have fl: "\<not> has_flag src (BSON_FLAG_CHILD OR BSON_FLAG_IN_CHILD OR BSON_FLAG_RDONLY)"
    using rep top by (simp add: flag_or bson_rep_def)
  from rep obtain junk cap where m: "bson_mem h src (doc_bytes es @ junk) cap" "length (doc_bytes es) + reserve src \<le> cap"
    "b_len src = of_nat (length (doc_bytes es))"
    by (auto simp: bson_rep_def bson_holds_def) (metis of_nat_unat ucast_id)
  show ?thesis
  proof (cases "has_flag src BSON_FLAG_INLINE")
    case True
    let ?dst = "bson_init\<lparr>b_len := b_len src, b_inline := b_inline src\<rparr>"
    have "bson_mem h ?dst (doc_bytes es @ junk) cap" "reserve ?dst = 0"
      using m True by (auto simp: bson_mem_def bson_init_def flag_simps reserve_def)
    then have "bson_rep h ?dst es" by (intro repI) (use m in \<open>auto simp: bson_init_def flag_simps\<close>)
    with True fl show ?thesis by (auto simp: bson_steal_def)
  next
    case False
    with m(1) obtain pre where c: "h_cells h (b_buf src) = Some (Some (pre @ doc_bytes es @ junk), length pre + cap)"
      "unat (b_offset src) = length pre" "length pre + cap \<le> INT32_MAX" "b_depth src = 0" "heap_ok h"
      using top by (auto simp: bson_mem_def)
    let ?h = "h\<lparr>h_cells := (h_cells h)(b_buf src := None)\<rparr>"
    obtain i h' where n: "heap_new ?h (Some (pre @ doc_bytes es @ junk)) (length pre + cap) = (i, h')" by fastforce
    have "heap_ok ?h" using c(5) by (simp add: heap_ok_def)
    note hn = heap_ok_new [OF this n]
    let ?dst = "src\<lparr>b_flags := b_flags src OR BSON_FLAG_STATIC, b_buf := i, b_own := True\<rparr>"
    have "bson_mem h' ?dst (doc_bytes es @ junk) cap" "reserve ?dst = reserve src"
      using m(1) c hn False top by (auto simp: bson_mem_def flag_simps reserve_def)
    then have "bson_rep h' ?dst es" by (intro repI) (use m rep in \<open>auto simp: flag_simps bson_rep_def\<close>)
    moreover have "bson_steal h src = Ret (True, ?dst, h')"
      unfolding bson_steal_def using False fl c(1) top n by simp
    ultimately show ?thesis by blast
  qed
qed

end
