(* ===== verification/Bson_Document_Props.thy ===== *)
theory Bson_Document_Props
  imports Bson_Document_Spec
begin

text \<open>
  The properties of the document builder and of the functions on whole documents, over the append
  contracts of \<open>Bson_Append\<close>, the nesting lemmas of \<open>Bson_Nested\<close> and the iterator.
\<close>

section \<open>Building documents\<close>

lemma walk_before:
  assumes "iter_before data len es it" "it_err_off it = 0"
  shows "\<exists>it'. iter_walk (iter_fuel it) it = Ret (es, it') \<and> it_err_off it' = 0"
proof -
  have i: "it_raw it = Some data" "iter_ok it" "iter_doc it = take (unat len) data"
    "drop (unat (it_next_off it)) (iter_doc it) = enc_elems es @ [0]" "list_all elem_ok es"
    using assms(1) by (auto simp: iter_before_def iter_doc_def)
  have "length (iter_doc it) < 2147483648"
    using i(1-3) assms(1) by (auto simp: iter_ok_def iter_before_def INT32_MAX_def)
  from doc_walk_complete [OF i(4,5) this] iter_walk_view [OF i(1,2) assms(2) iter_fuel_enough] show ?thesis by blast
qed

text \<open>
  C2. Building a document is correct whatever the nesting: after any well-nested sequence of successful
  append, begin and end calls on a document that held \<open>es0\<close>, in which embedded documents are written
  into the buffer of their parents while it grows and moves, the document holds exactly \<open>es0\<close> followed
  by the elements of the calls, and iterating over it yields them without error.
\<close>

theorem build_then_iterate:
  assumes "built h b h' b' es" "bson_rep h b es0" "list_all elem_ok (es0 @ es)"
  shows "bson_rep h' b' (es0 @ es) \<and> (\<exists>view it it'. bson_view_of h' b' = Ret view \<and> bson_iter_init view = (True, it) \<and>
    iter_walk (iter_fuel it) it = Ret (es0 @ es, it') \<and> it_err_off it' = 0)"
proof -
  have rep: "bson_rep h' b' (es0 @ es)" using built_rep [OF assms(1,2)] by simp
  from views_of_rep [OF this] obtain view where v: "bson_view_of h' b' = Ret view" "views view (es0 @ es)" by blast
  from views_init [OF v(2) assms(3)] obtain junk where i: "doc_ok (es0 @ es)" "bson_iter_init view =
      (True, iter_start (doc_bytes (es0 @ es) @ junk) (of_nat (length (doc_bytes (es0 @ es)))))" by metis
  from walk_before [OF doc_start_before [OF i(1), of junk]] rep v(1) i(2) show ?thesis by (simp add: iter_start_def)
qed

text \<open>The smallest store and, for the examples, a document \<open>{"b": {"a": 7}}\<close> built in place.\<close>

definition heap0 :: bheap where
  "heap0 = \<lparr>h_cells = (\<lambda>_. None), h_next = 0\<rparr>"

lemma heap0_ok: "heap_ok heap0"
  by (simp add: heap0_def heap_ok_def)

lemma init_roomy: "roomy bson_init"
  by (simp add: roomy_def bson_init_def flag_simps)

lemma example_value: "value_arg (V_int32 7, D_int32 7)" "copied (D_int32 7) = D_int32 7"
  "(data_type (D_int32 7), [0x61], data_bytes (D_int32 7)) = (BSON_TYPE_INT32, [0x61], [7, 0, 0, 0])"
  by (simp_all add: value_arg_def le32_eq)

lemma example_key: "key_arg [0x61, 0] (- 1) [0x61]" "key_arg [0x62, 0] (- 1) [0x62]"
  by (simp_all add: key_arg_def INT32_MAX_def)

lemma append_example:
  assumes "bson_rep h b es" "has_room h b (length (enc_elems example_doc))"
  shows "\<exists>b' h'. bson_append_value h b [0x61, 0] (- 1) (V_int32 7) = Ret (True, b', h') \<and> bson_rep h' b' (es @ example_doc) \<and>
    keeps h b h' b'"
proof -
  have "elem_small (BSON_TYPE_INT32, [0x61], [7, 0, 0, 0])" by (simp add: elem_small_def INT32_MAX_def)
  with append_value_spec [OF assms(1) example_key(1), of "D_int32 7" "V_int32 7"]
  have "appends h b es example_doc (bson_append_value h b [0x61, 0] (- 1) (V_int32 7))"
    by (simp add: example_doc_def le32_eq)
  with assms(2) show ?thesis unfolding appends_def by auto
qed

lemma begin_example:
  "\<exists>b h. bson_append_bson_begin heap0 bson_init [0x62, 0] (- 1) BSON_TYPE_DOCUMENT = Ret (Some (child_of b), suspended b, h) \<and>
     \<not> has_flag b BSON_FLAG_INLINE \<and> bson_rep h b [(BSON_TYPE_DOCUMENT, [0x62], doc_bytes [])] \<and> keeps heap0 bson_init h b"
proof -
  have small: "elem_small (BSON_TYPE_DOCUMENT, [0x62], doc_bytes [])" by (simp add: elem_small_def empty_doc INT32_MAX_def)
  have "has_room h1 b1 (length (enc_elem (BSON_TYPE_DOCUMENT, [0x62], doc_bytes [])))"
    if "keeps heap0 bson_init h1 b1" "bson_rep h1 b1 []" for h1 b1
    by (rule roomy_room [OF roomy_keeps [OF init_roomy that(1)] that(2)]) (simp add: empty_doc)
  with begin_spec [OF init_rep [OF heap0_ok] example_key(2) _ small] show ?thesis by fastforce
qed

lemma build_example:
  "\<exists>b1 c1 h1 h2 b3 h3. bson_append_bson_begin heap0 bson_init [0x62, 0] (- 1) BSON_TYPE_DOCUMENT = Ret (Some (child_of b1), suspended b1, h1) \<and>
     built h1 (child_of b1) h2 c1 example_doc \<and> bson_append_bson_end h2 (suspended b1) c1 = Ret (True, b3, h3) \<and>
     built heap0 bson_init h3 b3 [(BSON_TYPE_DOCUMENT, [0x62], doc_bytes example_doc)]"
proof -
  let ?e = "(BSON_TYPE_DOCUMENT, [0x62], doc_bytes [])"
  obtain b1 h1 where b: "bson_append_bson_begin heap0 bson_init [0x62, 0] (- 1) BSON_TYPE_DOCUMENT = Ret (Some (child_of b1), suspended b1, h1)"
    "\<not> has_flag b1 BSON_FLAG_INLINE" "bson_rep h1 b1 [?e]" "keeps heap0 bson_init h1 b1" using begin_example by blast
  have rep1: "bson_rep h1 b1 ([] @ [?e])" using b(3) by simp
  note c = child_rep [OF rep1 b(2)]
  have fl: "has_flag bson_init BSON_FLAG_INLINE" "\<not> has_flag bson_init BSON_FLAG_CHILD" by (simp_all add: bson_init_def flag_simps)
  have "b_realloc b1" "b_offset b1 = 0" using b(2,4) fl(1) by (auto simp: keeps_def has_flag_def)
  moreover have "b_depth b1 = 0" using b(2,3) keeps_rep_flags(3) [OF b(4)] fl(2)
    by (auto simp: bson_rep_def bson_holds_def bson_mem_def)
  ultimately have "has_room h1 (child_of b1) (length (enc_elems example_doc))"
    using child_position [OF rep1 b(2)]
    by (simp add: has_room_def Let_def length_front example_doc_def) (simp add: child_of_def)
  from append_example [OF c this] obtain c1 h2 where a: "bson_append_value h1 (child_of b1) [0x61, 0] (- 1) (V_int32 7) = Ret (True, c1, h2)"
    "bson_rep h2 c1 example_doc" "keeps h1 (child_of b1) h2 c1" by auto
  have bc: "built h1 (child_of b1) h2 c1 example_doc"
    using built.appended_value [OF built.nothing example_value(1) example_key(1) _ a(1)] example_value(2,3)
    by (simp add: elem_small_def INT32_MAX_def example_doc_def)
  from end_spec [OF rep1 b(2) a(3,2)] obtain b3 h3 where
    e: "bson_append_bson_end h2 (suspended b1) c1 = Ret (True, b3, h3)" by blast
  have "elem_small ?e" by (simp add: elem_small_def empty_doc INT32_MAX_def)
  with built.embedded [OF built.nothing example_key(2) _ _ b(1) bc e] b(1) bc e show ?thesis by fastforce
qed

theorem build_then_iterate_witness:
  "\<exists>b h view it it'. built heap0 bson_init h b [(BSON_TYPE_DOCUMENT, [0x62], doc_bytes example_doc)] \<and>
     bson_view_of h b = Ret view \<and> bson_iter_init view = (True, it) \<and>
     iter_walk (iter_fuel it) it = Ret ([(BSON_TYPE_DOCUMENT, [0x62], doc_bytes example_doc)], it') \<and> it_err_off it' = 0"
proof -
  obtain b h where b: "built heap0 bson_init h b [(BSON_TYPE_DOCUMENT, [0x62], doc_bytes example_doc)]"
    using build_example by blast
  have "elem_ok (BSON_TYPE_DOCUMENT, [0x62], doc_bytes example_doc)"
    by (simp add: payload_ok_structured example_doc_bytes le32_eq)
  with build_then_iterate [OF b init_rep [OF heap0_ok]] have "\<exists>view it it'. bson_view_of h b = Ret view \<and>
      bson_iter_init view = (True, it) \<and>
      iter_walk (iter_fuel it) it = Ret ([(BSON_TYPE_DOCUMENT, [0x62], doc_bytes example_doc)], it') \<and> it_err_off it' = 0"
    by simp
  with b show ?thesis by blast
qed

text \<open>
  C26. A document that was begun can always be ended: once \<open>bson_append_document_begin\<close> or
  \<open>bson_append_array_begin\<close> has succeeded, whatever is then appended to the child successfully, ending it
  returns true and adds the child as one element. The room for the final NUL of every enclosing
  document is reserved while the child grows.
\<close>

theorem end_always_succeeds:
  assumes "bson_rep h b es" "key_arg mem kl key" "t \<in> {BSON_TYPE_DOCUMENT, BSON_TYPE_ARRAY}"
    "elem_small (t, key, doc_bytes [])" "bson_append_bson_begin h b mem kl t = Ret (Some c, p, h1)" "built h1 c h2 c2 fs"
  shows "\<exists>b' h'. bson_append_bson_end h2 p c2 = Ret (True, b', h') \<and> bson_rep h' b' (es @ [(t, key, doc_bytes fs)])"
proof -
  obtain b1 where c: "c = child_of b1" "p = suspended b1" "\<not> has_flag b1 BSON_FLAG_INLINE"
    "bson_rep h1 b1 (es @ [(t, key, doc_bytes [])])" "bson_rep h1 c []"
    using begin_child [OF assms(1-5)] by metis
  from built_rep [OF assms(6) c(5)] have "bson_rep h2 c2 fs" "keeps h1 (child_of b1) h2 c2" by (simp_all add: c(1))
  from end_spec [OF c(4,3) this(2,1)] c(2) show ?thesis by blast
qed

theorem end_always_succeeds_witness:
  "\<exists>c p h1 h2 c2 b' h'. bson_append_bson_begin heap0 bson_init [0x62, 0] (- 1) BSON_TYPE_DOCUMENT = Ret (Some c, p, h1) \<and>
     built h1 c h2 c2 example_doc \<and> bson_append_bson_end h2 p c2 = Ret (True, b', h') \<and>
     bson_rep h' b' [(BSON_TYPE_DOCUMENT, [0x62], doc_bytes example_doc)]"
proof -
  obtain b1 c1 h1 h2 where b: "bson_append_bson_begin heap0 bson_init [0x62, 0] (- 1) BSON_TYPE_DOCUMENT = Ret (Some (child_of b1), suspended b1, h1)"
    "built h1 (child_of b1) h2 c1 example_doc" using build_example by blast
  from end_always_succeeds [OF init_rep [OF heap0_ok] example_key(2) _ _ b] b show ?thesis
    by (force simp: elem_small_def empty_doc INT32_MAX_def)
qed


section \<open>Single values\<close>



text \<open>
  C25. What was appended is found again: after \<open>bson_append_value\<close> returned true for a key that the
  document did not have, \<open>bson_iter_init_find\<close> with that key succeeds and \<open>bson_iter_value\<close> yields the
  value, up to the copy's truncation of strings at NUL and ordering of regular expression options.
\<close>

theorem append_then_find:
  assumes "bson_rep h b es" "list_all elem_ok es" "key_arg mem kl key" "0 \<notin> set key" "value_arg (v, d)"
    "\<forall>(t, k, w) \<in> set es. k \<noteq> key" "bson_append_value h b mem kl v = Ret (True, b', h')"
    "elem_small (data_type (copied d), key, data_bytes (copied d))"
  shows "\<exists>view it value. bson_view_of h' b' = Ret view \<and> bson_iter_init_find view (key @ [0]) = Ret (True, it) \<and>
    bson_iter_value it = Ret (Some value) \<and> value_shows (copied d) value"
  using w_value.write_then_find [OF assms(1-6)] assms(7,8) by simp

theorem append_then_find_witness:
  "\<exists>b h view it. bson_append_value heap0 bson_init [0x61, 0] (- 1) (V_int32 7) = Ret (True, b, h) \<and>
     bson_view_of h b = Ret view \<and> bson_iter_init_find view [0x61, 0] = Ret (True, it) \<and> bson_iter_value it = Ret (Some (V_int32 7))"
proof -
  have "has_room heap0 bson_init (length (enc_elems example_doc))"
    by (simp add: has_room_def bson_init_def flag_simps example_doc_def)
  from append_example [OF init_rep [OF heap0_ok] this] obtain b h where
    a: "bson_append_value heap0 bson_init [0x61, 0] (- 1) (V_int32 7) = Ret (True, b, h)" by blast
  from append_then_find [OF init_rep [OF heap0_ok] _ example_key(1) _ example_value(1) _ a] a show ?thesis
    by (auto simp: elem_small_def INT32_MAX_def)
qed

section \<open>Copies\<close>

text \<open>
  C27. \<open>bson_copy\<close> makes a document with the same elements and storage of its own: whatever is then
  appended to the copy, at any nesting, the original keeps its elements and the copy has them followed
  by the new ones.
\<close>

theorem copy_independent:
  assumes "bson_rep h b es"
  shows "\<exists>c h1. bson_copy h b = Ret (Some c, h1) \<and>
    (\<forall>h2 c2 fs. built h1 c h2 c2 fs \<longrightarrow> bson_rep h2 c2 (es @ fs) \<and> bson_rep h2 b es)"
proof -
  obtain c h1 where c: "bson_copy h b = Ret (Some c, h1)" "bson_rep h1 c es" "bson_rep h1 b es" "apart b c"
    using copy_spec [OF assms] by blast
  have "bson_rep h2 c2 (es @ fs) \<and> bson_rep h2 b es" if "built h1 c h2 c2 fs" for h2 c2 fs
    using built_rep [OF that c(2)] rep_apart [OF c(3) _ _ c(4)] by blast
  with c(1) show ?thesis by blast
qed

theorem copy_independent_witness:
  "\<exists>c h1. bson_copy heap0 bson_init = Ret (Some c, h1) \<and>
     (\<forall>h2 c2 fs. built h1 c h2 c2 fs \<longrightarrow> bson_rep h2 c2 fs \<and> bson_rep h2 bson_init [])"
  using copy_independent [OF init_rep [OF heap0_ok]] by simp



section \<open>Whole documents\<close>

lemma enc_elems_inject:
  assumes "enc_elems es = enc_elems fs" "list_all elem_ok es" "list_all elem_ok fs" "length (enc_elems es) < 2147483647"
  shows "es = fs"
proof -
  let ?D = "enc_elems es @ [0]"
  have "doc_walk ?D 0 = (es, True)" by (rule doc_walk_complete) (use assms in auto)
  moreover have "doc_walk ?D 0 = (fs, True)" by (rule doc_walk_complete) (use assms in auto)
  ultimately show ?thesis by simp
qed

text \<open>
  C29. \<open>bson_equal\<close> decides equality: for two documents it returns true exactly when they have the same
  elements in the same order; \<open>bson_compare\<close> returns 0 exactly then.
\<close>

theorem equal_iff_same_elements:
  assumes "views a es" "views b fs" "list_all elem_ok es" "list_all elem_ok fs"
  shows "bson_equal a b = Ret (es = fs) \<and> (\<exists>c. bson_compare a b = Ret c \<and> (c = 0 \<longleftrightarrow> es = fs))"
proof -
  have "length (enc_elems es) < 2147483647" using assms(1) by (simp add: views_def length_doc_bytes INT32_MAX_def)
  then have "enc_elems es = enc_elems fs \<longleftrightarrow> es = fs" using enc_elems_inject assms(3,4) by blast
  with compare_spec [OF assms(1,2)] show ?thesis by (auto simp: bson_equal_def)
qed

theorem equal_iff_same_elements_witness:
  "bson_equal (doc_view example_doc) (doc_view []) = Ret False"
proof -
  have "views (doc_view example_doc) example_doc" "views (doc_view []) []"
    by (simp_all add: views_doc_view example_doc_bytes empty_doc INT32_MAX_def)
  from equal_iff_same_elements [OF this] show ?thesis by (simp add: example_doc_elems) (simp add: example_doc_def)
qed

text \<open>
  \<open>bson_concat\<close> appends all elements of its source to the destination, in order, as one step: it
  adds all of them or, for lack of room, none.
\<close>

theorem concat_appends_all:
  assumes "bson_rep h dst es" "views src fs" "list_all elem_ok fs" "bson_concat h dst src = Ret (ok, dst', h')"
  shows "if ok then bson_rep h' dst' (es @ fs) \<and> keeps h dst h' dst' else dst' = dst \<and> h' = h"
proof -
  have "\<forall>(t, k, v) \<in> set fs. t \<noteq> 0"
    using assms(3) by (auto simp: list_all_iff payload_ok_def bson_type_defs split: if_splits)
  from concat_spec [OF assms(1,2) this] assms(1,4) show ?thesis by (auto simp: appends_def split: if_splits)
qed

theorem concat_appends_all_witness:
  "\<exists>dst h. bson_concat heap0 bson_init (doc_view example_doc) = Ret (True, dst, h) \<and> bson_rep h dst example_doc"
proof -
  have v: "views (doc_view example_doc) example_doc" by (simp add: views_doc_view example_doc_bytes INT32_MAX_def)
  have "has_room heap0 bson_init (length (enc_elems example_doc))"
    by (simp add: has_room_def bson_init_def flag_simps example_doc_def)
  with concat_spec [OF init_rep [OF heap0_ok] v] obtain dst h where
    c: "bson_concat heap0 bson_init (doc_view example_doc) = Ret (True, dst, h)"
    by (auto simp: appends_def example_doc_def bson_type_defs split: if_splits)
  from concat_appends_all [OF init_rep [OF heap0_ok] v example_doc_elems c] c show ?thesis by simp
qed

text \<open>
  \<open>bson_count_keys\<close> returns the number of elements and \<open>bson_has_field\<close>, for a key without a dot,
  whether there is an element with that key.
\<close>

theorem count_and_has_field:
  assumes "views view es" "list_all elem_ok es" "0 \<notin> set key" "0x2E \<notin> set key"
  shows "bson_count_keys view = Ret (of_nat (length es)) \<and>
    bson_has_field view (key @ [0]) = Ret (\<exists>t v. (t, key, v) \<in> set es)"
  using count_keys_spec [OF assms(1,2)] has_field_spec [OF assms] by simp

theorem count_and_has_field_witness:
  "bson_count_keys (doc_view example_doc) = Ret 1 \<and> bson_has_field (doc_view example_doc) [0x61, 0] = Ret True"
proof -
  have "views (doc_view example_doc) example_doc" by (simp add: views_doc_view example_doc_bytes INT32_MAX_def)
  from count_and_has_field [OF this example_doc_elems, of "[0x61]"] show ?thesis by (simp add: example_doc_def)
qed

section \<open>Misuse the code does not catch\<close>

text \<open>
  \<open>bson_append_regex\<close> with a \<open>NULL\<close> regex dereferences it in \<open>strlen\<close>, although the function is
  written to treat \<open>NULL\<close> as the empty string: the replacement comes after the \<open>strlen\<close>.
\<close>

theorem append_regex_null_faults:
  assumes "key_arg mem kl key"
  shows "bson_append_regex h b mem kl None options = Fault"
  using key_len_spec(1) [OF assms] by (simp add: bson_append_regex_def bson_append_regex_w_len_def cptr_mem_def)

theorem append_regex_null_faults_witness:
  "bson_append_regex heap0 bson_init [0x61, 0] (- 1) None (Some [0x69, 0]) = Fault"
  using append_regex_null_faults [OF example_key(1)] .

text \<open>
  C30. \<open>bson_steal\<close> loses a document that lives in a buffer of the caller (\<open>bson_new_from_buffer\<close>): it
  returns true and the new document keeps the length, but its buffer is \<open>NULL\<close>, so that reading it
  faults.
\<close>

theorem steal_loses_foreign_buffer:
  assumes "h_cells h i = Some (Some (doc_bytes es @ junk), n)" "length (doc_bytes es) \<le> n" "n \<le> INT32_MAX"
  shows "\<exists>src h1 dst h2. bson_new_from_buffer h i = Ret (Some src, h1) \<and> bson_steal h1 src = Ret (True, dst, h2) \<and>
    unat (b_len dst) = length (doc_bytes es) \<and> bson_get_data h2 dst = Fault"
proof -
  let ?n = "of_nat (length (doc_bytes es)) :: u32"
  have n: "unat ?n = length (doc_bytes es)" using assms(2,3) by (simp add: unat_of_nat INT32_MAX_def)
  have rd: "rd32 (doc_bytes es @ junk) 0 = Ret ?n" by (simp add: doc_bytes_def rd32_in_range)
  have "unat (?n - 1) = length (doc_bytes es) - 1" using n unat_sub_le [of 1 ?n] by (simp add: length_doc_bytes)
  then have last: "rd8 (doc_bytes es @ junk) (unat (?n - 1)) = Ret 0"
    by (simp add: rd8_def length_doc_bytes) (simp add: doc_bytes_def nth_append)
  let ?src = "\<lparr>b_flags = BSON_FLAG_NO_FREE, b_len = ?n, b_inline = [], b_depth = 0,
      b_buf = i, b_own = False, b_offset = 0, b_realloc = True\<rparr>"
  have "bson_new_from_buffer h i = Ret (Some ?src, h)"
    using assms rd last by (simp add: bson_new_from_buffer_def length_doc_bytes)
  moreover have "\<exists>dst h2. bson_steal h ?src = Ret (True, dst, h2) \<and> b_len dst = ?n \<and> bson_get_data h2 dst = Fault"
    using assms(1) by (simp add: bson_steal_def flag_or flag_simps heap_new_def bson_get_data_def bson_data_mem_def)
  ultimately show ?thesis using n by fastforce
qed

theorem steal_loses_foreign_buffer_witness:
  "\<exists>src h1 dst h2. bson_new_from_buffer \<lparr>h_cells = [0 \<mapsto> (Some (doc_bytes example_doc), 12)], h_next = 1\<rparr> 0 = Ret (Some src, h1) \<and>
     bson_steal h1 src = Ret (True, dst, h2) \<and> unat (b_len dst) = 12 \<and> bson_get_data h2 dst = Fault"
proof -
  have l: "length (doc_bytes example_doc) = 12" by (simp add: example_doc_bytes)
  from steal_loses_foreign_buffer [of "\<lparr>h_cells = [0 \<mapsto> (Some (doc_bytes example_doc), 12)], h_next = 1\<rparr>" 0 example_doc "[]" 12]
  show ?thesis unfolding l by (simp add: INT32_MAX_def)
qed

end
