(* ===== verification/Common_B64.thy ===== *)
theory Common_B64
  imports Bson_Prelude
begin

text \<open>
  Base64, \<open>common/common-b64.c\<close>: \<open>bson_b64_ntop\<close> writes the text of a byte array, \<open>bson_b64_pton\<close>
  decodes a text into a buffer, or without a buffer computes the length (\<open>mongoc_b64_pton_do\<close>,
  \<open>mongoc_b64_pton_len\<close>). The C string \<open>src\<close> is the bytes readable from the pointer on; the target is
  a memory object and \<open>targsize\<close> the size the caller states. \<open>tarindex\<close> is an \<open>int\<close>: an increment
  past \<open>INT_MAX\<close> is undefined and a \<open>Fault\<close> of the model. \<open>isspace\<close> is that of the C locale.

  The reference is \<open>b64_text\<close>, the text of RFC 4648 by the digits of the 24-bit groups. The lemmas show
  that the encoder writes it, and that the decoder accepts a string exactly when, white space removed,
  it is the text of some bytes.
\<close>

section \<open>Encoding\<close>

definition Base64 :: "byte list" where
  "Base64 = map of_char ''ABCDEFGHIJKLMNOPQRSTUVWXYZabcdefghijklmnopqrstuvwxyz0123456789+/''"

definition Pad64 :: byte where
  "Pad64 = of_char (CHR ''='')"

text \<open>The four values \<open>output[0]\<close> to \<open>output[3]\<close> of a group \<open>input[0..2]\<close>.\<close>

definition b64_out :: "byte list \<Rightarrow> byte list" where
  "b64_out input =
     [drop_bit 2 (input ! 0),
      push_bit 4 (input ! 0 AND 0x03) + drop_bit 4 (input ! 1),
      push_bit 2 (input ! 1 AND 0x0f) + drop_bit 6 (input ! 2),
      input ! 2 AND 0x3f]"

text \<open>The loop over the full groups (\<open>None\<close>: the target is full) and the padded last group.\<close>

fun ntop_groups ::
  "byte list \<Rightarrow> nat \<Rightarrow> byte list \<Rightarrow> nat \<Rightarrow> nat \<Rightarrow> (byte list \<times> (byte list \<times> nat \<times> nat) option) outcome" where
  "ntop_groups src srclength target datalength targsize =
     (if 2 < srclength then
        cbind (rdn src 0 3) (\<lambda>input.
        let output = b64_out input in
        c_assert (output ! 0 < 64) (c_assert (output ! 1 < 64)
        (c_assert (output ! 2 < 64) (c_assert (output ! 3 < 64)
        (if datalength + 4 > targsize then Ret (target, None)
         else cbind (wrn target datalength (map (\<lambda>d. Base64 ! unat d) output)) (\<lambda>target.
              ntop_groups (drop 3 src) (srclength - 3) target (datalength + 4) targsize))))))
      else Ret (target, Some (src, srclength, datalength)))"

declare ntop_groups.simps [simp del]

definition ntop_rest ::
  "byte list \<Rightarrow> nat \<Rightarrow> byte list \<Rightarrow> nat \<Rightarrow> nat \<Rightarrow> (byte list \<times> nat option) outcome" where
  "ntop_rest src srclength target datalength targsize =
     (if srclength \<noteq> 0 then
        cbind (rdn src 0 srclength) (\<lambda>bs.
        let output = b64_out (bs @ replicate (3 - srclength) 0) in
        c_assert (output ! 0 < 64) (c_assert (output ! 1 < 64) (c_assert (output ! 2 < 64)
        (if datalength + 4 > targsize then Ret (target, None)
         else cbind (wrn target datalength
                [Base64 ! unat (output ! 0), Base64 ! unat (output ! 1),
                 (if srclength = 1 then Pad64 else Base64 ! unat (output ! 2)), Pad64])
                (\<lambda>target. Ret (target, Some (datalength + 4)))))))
      else Ret (target, Some datalength))"

definition bson_b64_ntop :: "byte list \<Rightarrow> nat \<Rightarrow> byte list \<Rightarrow> nat \<Rightarrow> (byte list \<times> int) outcome" where
  "bson_b64_ntop src srclength target targsize =
     cbind (ntop_groups src srclength target 0 targsize) (\<lambda>(target, r). case r of
       None \<Rightarrow> Ret (target, - 1)
     | Some (src, srclength, datalength) \<Rightarrow>
         cbind (ntop_rest src srclength target datalength targsize) (\<lambda>(target, r). case r of
           None \<Rightarrow> Ret (target, - 1)
         | Some datalength \<Rightarrow>
             if datalength \<ge> targsize then Ret (target, - 1)
             else cbind (wrn target datalength [0]) (\<lambda>target.
                  Ret (target, sint (of_nat datalength :: 32 word)))))"

section \<open>Decoding\<close>

definition bson_isspace :: "int \<Rightarrow> bool" where
  "bson_isspace c \<longleftrightarrow> - 1 \<le> c \<and> c \<le> 255 \<and> (c = 32 \<or> 9 \<le> c \<and> c \<le> 13)"

definition mongoc_b64rmap_special :: byte where "mongoc_b64rmap_special = 0xf0"
definition mongoc_b64rmap_end :: byte where "mongoc_b64rmap_end = 0xfd"
definition mongoc_b64rmap_space :: byte where "mongoc_b64rmap_space = 0xfe"
definition mongoc_b64rmap_invalid :: byte where "mongoc_b64rmap_invalid = 0xff"

text \<open>The contents of \<open>mongoc_b64rmap\<close> after \<open>bson_b64_initialize_rmap\<close>, which \<open>pthread_once\<close> runs
  before the first decoding.\<close>

definition bson_b64_initialize_rmap :: "byte list" where
  "bson_b64_initialize_rmap =
     fold (\<lambda>i rmap. rmap[unat (Base64 ! i) := word_of_nat i]) [0..<length Base64]
       (mongoc_b64rmap_end #
        map (\<lambda>i. if bson_isspace (int i) then mongoc_b64rmap_space
                 else if word_of_nat i = Pad64 then mongoc_b64rmap_end
                 else mongoc_b64rmap_invalid) [1..<256])"

definition b64_ofs :: "byte \<Rightarrow> byte" where
  "b64_ofs ch = bson_b64_initialize_rmap ! unat ch"


definition int_inc :: "nat \<Rightarrow> nat outcome" where
  "int_inc i = (if i < 2147483647 then Ret (i + 1) else Fault)"

text \<open>How the decoding loop ends: \<open>return -1\<close>, or \<open>break\<close> with the current \<open>ch\<close>, \<open>src\<close>, \<open>tarindex\<close> and
  \<open>state\<close>.\<close>

datatype b64_exit = B64_Error | B64_Stop byte "byte list" nat nat

fun pton_loop :: "nat \<Rightarrow> byte list \<Rightarrow> byte list \<Rightarrow> nat \<Rightarrow> nat \<Rightarrow> (byte list \<times> b64_exit) outcome" where
  "pton_loop targsize [] target tarindex state = Fault"
| "pton_loop targsize (ch # src) target tarindex state =
     (let ofs = b64_ofs ch in
      if mongoc_b64rmap_special \<le> ofs then
        (if ofs = mongoc_b64rmap_space then pton_loop targsize src target tarindex state
         else if ofs = mongoc_b64rmap_end then Ret (target, B64_Stop ch src tarindex state)
         else Ret (target, B64_Error))
      else if state = 0 then
        (if tarindex \<ge> targsize then Ret (target, B64_Error)
         else cbind (wrn target tarindex [push_bit 2 ofs]) (\<lambda>target.
              pton_loop targsize src target tarindex 1))
      else if state = 1 then
        (if tarindex + 1 \<ge> targsize then Ret (target, B64_Error)
         else cbind (rd8 target tarindex) (\<lambda>b.
              cbind (wrn target tarindex [b OR drop_bit 4 ofs, push_bit 4 (ofs AND 0x0f)]) (\<lambda>target.
              cbind (int_inc tarindex) (\<lambda>tarindex. pton_loop targsize src target tarindex 2))))
      else if state = 2 then
        (if tarindex + 1 \<ge> targsize then Ret (target, B64_Error)
         else cbind (rd8 target tarindex) (\<lambda>b.
              cbind (wrn target tarindex [b OR drop_bit 2 ofs, push_bit 6 (ofs AND 0x03)]) (\<lambda>target.
              cbind (int_inc tarindex) (\<lambda>tarindex. pton_loop targsize src target tarindex 3))))
      else if state = 3 then
        (if tarindex \<ge> targsize then Ret (target, B64_Error)
         else cbind (rd8 target tarindex) (\<lambda>b.
              cbind (wrn target tarindex [b OR ofs]) (\<lambda>target.
              cbind (int_inc tarindex) (\<lambda>tarindex. pton_loop targsize src target tarindex 0))))
      else Abort)"

fun skip_spaces :: "byte \<Rightarrow> byte list \<Rightarrow> (byte \<times> byte list) outcome" where
  "skip_spaces ch src =
     (if ch = 0 \<or> b64_ofs ch \<noteq> mongoc_b64rmap_space then Ret (ch, src)
      else case src of [] \<Rightarrow> Fault | c # cs \<Rightarrow> skip_spaces c cs)"

fun only_spaces :: "byte \<Rightarrow> byte list \<Rightarrow> bool outcome" where
  "only_spaces ch src =
     (if ch = 0 then Ret True
      else if b64_ofs ch \<noteq> mongoc_b64rmap_space then Ret False
      else case src of [] \<Rightarrow> Fault | c # cs \<Rightarrow> only_spaces c cs)"

declare skip_spaces.simps [simp del] only_spaces.simps [simp del]

definition c_next :: "byte list \<Rightarrow> (byte \<times> byte list) outcome" where
  "c_next src = (case src of [] \<Rightarrow> Fault | c # cs \<Rightarrow> Ret (c, cs))"

text \<open>The checks after the loop, which are the same code in \<open>mongoc_b64_pton_do\<close> and
  \<open>mongoc_b64_pton_len\<close>, up to the check of the left-over bits.\<close>

definition pton_tail :: "byte \<Rightarrow> byte list \<Rightarrow> nat \<Rightarrow> bool outcome" where
  "pton_tail ch src state =
     (if ch = Pad64 then
        cbind (c_next src) (\<lambda>(ch, src).
        if state = 0 \<or> state = 1 then Ret False
        else if state = 2 then
          cbind (skip_spaces ch src) (\<lambda>(ch, src).
          if ch \<noteq> Pad64 then Ret False
          else cbind (c_next src) (\<lambda>(ch, src). only_spaces ch src))
        else only_spaces ch src)
      else Ret (state = 0))"

definition mongoc_b64_pton_do :: "byte list \<Rightarrow> byte list \<Rightarrow> nat \<Rightarrow> (byte list \<times> int) outcome" where
  "mongoc_b64_pton_do src target targsize =
     cbind (pton_loop targsize src target 0 0) (\<lambda>(target, r). case r of
       B64_Error \<Rightarrow> Ret (target, - 1)
     | B64_Stop ch src tarindex state \<Rightarrow>
         cbind (pton_tail ch src state) (\<lambda>ok.
         if \<not> ok then Ret (target, - 1)
         else if ch = Pad64 then
           cbind (rd8 target tarindex) (\<lambda>b.
           if b \<noteq> 0 then Ret (target, - 1) else Ret (target, int tarindex))
         else Ret (target, int tarindex)))"

fun pton_len_loop :: "byte list \<Rightarrow> nat \<Rightarrow> nat \<Rightarrow> b64_exit outcome" where
  "pton_len_loop [] tarindex state = Fault"
| "pton_len_loop (ch # src) tarindex state =
     (let ofs = b64_ofs ch in
      if mongoc_b64rmap_special \<le> ofs then
        (if ofs = mongoc_b64rmap_space then pton_len_loop src tarindex state
         else if ofs = mongoc_b64rmap_end then Ret (B64_Stop ch src tarindex state)
         else Ret B64_Error)
      else if state = 0 then pton_len_loop src tarindex 1
      else if state = 1 then cbind (int_inc tarindex) (\<lambda>tarindex. pton_len_loop src tarindex 2)
      else if state = 2 then cbind (int_inc tarindex) (\<lambda>tarindex. pton_len_loop src tarindex 3)
      else if state = 3 then cbind (int_inc tarindex) (\<lambda>tarindex. pton_len_loop src tarindex 0)
      else Abort)"

definition mongoc_b64_pton_len :: "byte list \<Rightarrow> int outcome" where
  "mongoc_b64_pton_len src =
     cbind (pton_len_loop src 0 0) (\<lambda>r. case r of
       B64_Error \<Rightarrow> Ret (- 1)
     | B64_Stop ch src tarindex state \<Rightarrow>
         cbind (pton_tail ch src state) (\<lambda>ok. Ret (if ok then int tarindex else - 1)))"

definition bson_b64_pton ::
  "byte list \<Rightarrow> byte list option \<Rightarrow> nat \<Rightarrow> (byte list option \<times> int) outcome" where
  "bson_b64_pton src target targsize = (case target of
     Some t \<Rightarrow> cbind (mongoc_b64_pton_do src t targsize) (\<lambda>(t, r). Ret (Some t, r))
   | None \<Rightarrow> cbind (mongoc_b64_pton_len src) (\<lambda>r. Ret (None, r)))"

section \<open>Arithmetic of groups\<close>

lemma mod4_cases:
  obtains q where "(k::nat) = 4 * q" | q where "k = 4 * q + 1" | q where "k = 4 * q + 2" | q where "k = 4 * q + 3"
proof -
  have "k = 4 * (k div 4) \<or> k = 4 * (k div 4) + 1 \<or> k = 4 * (k div 4) + 2 \<or> k = 4 * (k div 4) + 3"
    by linarith
  with that show ?thesis by blast
qed

lemma div_12_4: "(3 + 12 * q) div 4 = 3 * q" "(6 + 12 * q) div 4 = 3 * q + 1" "(9 + 12 * q) div 4 = 3 * q + (2::nat)"
  "(12 * q + 9) div 4 = 3 * q + 2"
  by linarith+

lemma b64_state_step:
     "k mod 4 = 0 \<and> Suc k mod 4 = 1 \<and> 3 * Suc k div 4 = 3 * k div 4
        \<or> k mod 4 = 1 \<and> Suc k mod 4 = 2 \<and> 3 * Suc k div 4 = Suc (3 * k div 4)
        \<or> k mod 4 = 2 \<and> Suc k mod 4 = 3 \<and> 3 * Suc k div 4 = Suc (3 * k div 4)
        \<or> k mod 4 = 3 \<and> Suc k mod 4 = 0 \<and> 3 * Suc k div 4 = Suc (3 * k div 4)"
  by (rule mod4_cases [of k]) (simp_all add: mod_Suc div_12_4)

lemma b64_length_arith: "(3 * n + 3) div 4 = 3 * n div 4 + (if n mod 4 = 0 then 0 else (1::nat))"
  by (rule mod4_cases [of n]) (simp_all add: div_12_4 mod_Suc)
lemma b64_room_arith: "n mod 4 \<noteq> 1 \<Longrightarrow> (3 * n div 4) mod 3 = 0 \<longleftrightarrow> n mod 4 = (0::nat)"
  by (rule mod4_cases [of n]) (simp_all add: mod_Suc div_12_4)
section \<open>The reverse map\<close>



lemma length_Base64: "length Base64 = 64"
  by (simp add: Base64_def)

lemma Base64_chars: "distinct Base64" "list_all (\<lambda>b. b \<noteq> 0 \<and> b \<noteq> Pad64 \<and> \<not> bson_isspace (uint b)) Base64"
  by code_simp+


lemma fold_update_miss: "j \<notin> f ` set ns \<Longrightarrow> fold (\<lambda>n m. m[f n := g n]) ns xs ! j = xs ! j"
  by (induction ns arbitrary: xs) auto

lemma fold_update_hit:
  "distinct (map f ns) \<Longrightarrow> \<forall>n\<in>set ns. f n < length xs \<Longrightarrow> i \<in> set ns \<Longrightarrow>
     fold (\<lambda>n m. m[f n := g n]) ns xs ! f i = g i"
  by (induction ns arbitrary: xs) (auto simp: fold_update_miss)

lemma b64_ofs_digit [simp]: "i < 64 \<Longrightarrow> b64_ofs (Base64 ! i) = word_of_nat i"
  and b64_ofs_other: "ch \<notin> set Base64 \<Longrightarrow> b64_ofs ch =
        (if ch = 0 \<or> ch = Pad64 then mongoc_b64rmap_end
         else if bson_isspace (uint ch) then mongoc_b64rmap_space else mongoc_b64rmap_invalid)"
proof -
  define xs where "xs = mongoc_b64rmap_end #
        map (\<lambda>i. if bson_isspace (int i) then mongoc_b64rmap_space
                 else if word_of_nat i = Pad64 then mongoc_b64rmap_end
                 else mongoc_b64rmap_invalid) [1..<256]"
  let ?f = "\<lambda>i. unat (Base64 ! i)"
  have l: "length xs = 256" by (simp add: xs_def)
  have b: "unat (b :: byte) < 256" for b
    using unsigned_less [of b] by simp
  have d: "distinct (map ?f [0..<64])"
    using Base64_chars(1)
    by (auto simp: distinct_map inj_on_def length_Base64 nth_eq_iff_index_eq
          word_unat_eq_iff [symmetric])
  have r: "\<forall>n\<in>set [0..<64]. ?f n < length xs" by (simp add: b l)
  have rm: "bson_b64_initialize_rmap = fold (\<lambda>n m. m[?f n := word_of_nat n]) [0..<64] xs"
    by (simp add: bson_b64_initialize_rmap_def xs_def length_Base64)
  show "b64_ofs (Base64 ! i) = word_of_nat i" if "i < 64" for i
    using fold_update_hit [OF d r] that by (simp add: b64_ofs_def rm)
  show "b64_ofs ch =
        (if ch = 0 \<or> ch = Pad64 then mongoc_b64rmap_end
         else if bson_isspace (uint ch) then mongoc_b64rmap_space else mongoc_b64rmap_invalid)"
    if "ch \<notin> set Base64" for ch
  proof -
    have "unat ch \<notin> ?f ` set [0..<64]" using that
      by (auto simp: in_set_conv_nth length_Base64 simp flip: word_unat_eq_iff)
    then have "b64_ofs ch = xs ! unat ch"
      unfolding b64_ofs_def rm by (rule fold_update_miss)
    moreover have "xs ! unat ch = (if ch = 0 \<or> ch = Pad64 then mongoc_b64rmap_end
         else if bson_isspace (uint ch) then mongoc_b64rmap_space else mongoc_b64rmap_invalid)"
    proof (cases "unat ch")
      case 0 then show ?thesis by (simp add: xs_def unat_eq_0)
    next
      case (Suc k)
      moreover have "word_of_nat (Suc k) = ch" "int (Suc k) = uint ch"
        using Suc by (metis of_nat_unat ucast_id, metis uint_nat)
      moreover have "\<not> bson_isspace (uint Pad64)" by (simp add: bson_isspace_def Pad64_def)
      ultimately show ?thesis using b [of ch] by (auto simp: xs_def)
    qed
    ultimately show ?thesis by simp
  qed
qed

lemma b64_ofs_less: "c \<in> set Base64 \<Longrightarrow> b64_ofs c < 64"
  by (auto simp: in_set_conv_nth length_Base64 word_less_nat_alt unat_of_nat)

lemma Base64_ofs: "c \<in> set Base64 \<Longrightarrow> Base64 ! unat (b64_ofs c) = c"
  by (auto simp: in_set_conv_nth length_Base64 unat_of_nat)

section \<open>The decoding loop\<close>

definition b64_space :: "byte \<Rightarrow> bool" where
  "b64_space c \<longleftrightarrow> bson_isspace (uint c)"

text \<open>The bytes of a digit sequence, the partial last byte included.\<close>

fun b64_bytes :: "byte list \<Rightarrow> byte list" where
  "b64_bytes (a # b # c # d # ds) =
     [push_bit 2 a OR drop_bit 4 b, push_bit 4 (b AND 0x0f) OR drop_bit 2 c,
      push_bit 6 (c AND 0x03) OR d] @ b64_bytes ds"
| "b64_bytes [a, b, c] =
     [push_bit 2 a OR drop_bit 4 b, push_bit 4 (b AND 0x0f) OR drop_bit 2 c, push_bit 6 (c AND 0x03)]"
| "b64_bytes [a, b] = [push_bit 2 a OR drop_bit 4 b, push_bit 4 (b AND 0x0f)]"
| "b64_bytes [a] = [push_bit 2 a]"
| "b64_bytes [] = []"

lemma length_b64_bytes:
  "length (b64_bytes ds) = (3 * length ds + 3) div 4"
  by (induction ds rule: b64_bytes.induct) auto

lemma length_b64_bytes_mod:
  "length (b64_bytes ds) = 3 * length ds div 4 + (if length ds mod 4 = 0 then 0 else 1)"
  unfolding length_b64_bytes by (rule b64_length_arith)

lemma b64_bytes_eq_Nil [simp]: "b64_bytes ds = [] \<longleftrightarrow> ds = []"
  by (cases ds rule: b64_bytes.cases) auto

lemma b64_bytes_snoc:
  "b64_bytes (ds @ [x]) =
     (if length ds mod 4 = 0 then b64_bytes ds @ [push_bit 2 x]
      else butlast (b64_bytes ds) @
        (if length ds mod 4 = 1 then
           [last (b64_bytes ds) OR drop_bit 4 x, push_bit 4 (x AND 0x0f)]
         else if length ds mod 4 = 2 then
           [last (b64_bytes ds) OR drop_bit 2 x, push_bit 6 (x AND 0x03)]
         else [last (b64_bytes ds) OR x]))"
  by (induction ds rule: b64_bytes.induct) (auto simp: butlast_append)

definition b64_upd :: "byte list \<Rightarrow> byte list \<Rightarrow> byte list" where
  "b64_upd t ds = b64_bytes ds @ drop (length (b64_bytes ds)) t"

lemma pton_digit:
  assumes c: "c \<in> set Base64" and n: "n \<le> length t" "length (b64_bytes ds) \<le> n"
    and b: "length ds < 2147483647"
  shows "pton_loop n (c # src) (b64_upd t ds) (3 * length ds div 4) (length ds mod 4) =
    (let ds' = ds @ [b64_ofs c] in
     if length (b64_bytes ds') \<le> n
     then pton_loop n src (b64_upd t ds') (3 * length ds' div 4) (length ds' mod 4)
     else Ret (b64_upd t ds, B64_Error))"
proof -
  have sp: "\<not> mongoc_b64rmap_special \<le> b64_ofs c"
    using b64_ofs_less [OF c] by (simp add: mongoc_b64rmap_special_def word_le_nat_alt word_less_nat_alt)
  define X where "X = b64_bytes ds"
  define q where "q = length ds div 4"
  have upd: "b64_upd t (ds @ [x]) = b64_bytes (ds @ [x]) @ drop (length (b64_bytes (ds @ [x]))) t" for x
    by (simp add: b64_upd_def)
  have "length ds mod 4 = 0 \<or> length ds mod 4 = 1 \<or> length ds mod 4 = 2 \<or> length ds mod 4 = 3"
    by linarith
  then consider "length ds = 4 * q" | r where "r \<in> {1, 2, 3}" "length ds = 4 * q + r"
    unfolding q_def by (metis insertCI mult_div_mod_eq add.right_neutral)
  then show ?thesis
  proof cases
    case 1
    then have "length X = 3 * q" by (simp add: X_def length_b64_bytes)
    moreover have "(3 + 12 * q) div 4 = 3 * q" by linarith
    ultimately show ?thesis using 1 sp n
      by (simp add: b64_bytes_snoc b64_upd_def wrn_def Let_def flip: X_def)
  next
    case 2
    then have "ds \<noteq> []" by auto
    then obtain Y y where X: "X = Y @ [y]"
      by (metis X_def b64_bytes_eq_Nil rev_exhaust)
    have lY: "length Y = 3 * q + r - 1"
      using 2 length_b64_bytes [of ds] unfolding X [unfolded X_def] by auto
    from X n lY have m: "n \<le> length t" "3 * q + r \<le> n" "0 < r"
      using 2(1) by (auto simp flip: X_def)
    have u: "b64_upd t ds = Y @ y # drop (Suc (length Y)) t"
      using X by (simp add: b64_upd_def X_def [symmetric])
    have i: "3 * length ds div 4 = length Y" "(3 + 3 * length ds) div 4 = Suc (length Y)"
      "length ds mod 4 = r"
      using 2 lY by auto
    have w: "wrn (Y @ y # drop (Suc (length Y)) t) (length Y) [v, w] =
        Ret (Y @ [v, w] @ drop (Suc (Suc (length Y))) t)"
      if "Suc (Suc (length Y)) \<le> n" for v w
      using that m by (simp add: wrn_def)
    have v: "wrn (Y @ y # drop (Suc (length Y)) t) (length Y) [v] = Ret (Y @ [v] @ drop (Suc (length Y)) t)" for v
      using m lY by (simp add: wrn_def)
    have ii: "int_inc (length Y) = Ret (Suc (length Y))"
      using lY 2 b by (auto simp: int_inc_def)
    have "Suc (length Y) \<le> n" using m lY by simp
    then show ?thesis using sp 2(1) X
      by (elim insertE emptyE)
        (simp_all add: i u ii w v b64_bytes_snoc Let_def b64_upd_def [of t "ds @ _"] mod_Suc
          flip: X_def numeral_2_eq_2)
  qed
qed


lemma b64_ofs_class:
  "b64_ofs c = mongoc_b64rmap_end \<longleftrightarrow> c = 0 \<or> c = Pad64"
  "b64_ofs c = mongoc_b64rmap_space \<longleftrightarrow> b64_space c"
  "mongoc_b64rmap_special \<le> b64_ofs c \<longleftrightarrow> c \<notin> set Base64"
proof -
  note rm = mongoc_b64rmap_special_def mongoc_b64rmap_end_def mongoc_b64rmap_space_def
    mongoc_b64rmap_invalid_def
  have "b64_ofs c = mongoc_b64rmap_end \<longleftrightarrow> c = 0 \<or> c = Pad64" "b64_ofs c = mongoc_b64rmap_space \<longleftrightarrow> b64_space c"
    "mongoc_b64rmap_special \<le> b64_ofs c \<longleftrightarrow> c \<notin> set Base64" if "c \<in> set Base64"
    using b64_ofs_less [OF that] that Base64_chars(2)
    by (auto simp: rm list_all_iff b64_space_def word_le_nat_alt word_less_nat_alt)
  moreover have "\<not> bson_isspace (uint Pad64)" by (simp add: bson_isspace_def Pad64_def)
  then have "b64_ofs c = mongoc_b64rmap_end \<longleftrightarrow> c = 0 \<or> c = Pad64" "b64_ofs c = mongoc_b64rmap_space \<longleftrightarrow> b64_space c"
    "mongoc_b64rmap_special \<le> b64_ofs c \<longleftrightarrow> c \<notin> set Base64" if "c \<notin> set Base64"
    using that by (auto simp: b64_ofs_other b64_space_def rm bson_isspace_def)
  ultimately show "b64_ofs c = mongoc_b64rmap_end \<longleftrightarrow> c = 0 \<or> c = Pad64"
    "b64_ofs c = mongoc_b64rmap_space \<longleftrightarrow> b64_space c"
    "mongoc_b64rmap_special \<le> b64_ofs c \<longleftrightarrow> c \<notin> set Base64"
    by blast+
qed

definition b64_digits :: "byte list \<Rightarrow> byte list" where
  "b64_digits p = map b64_ofs (filter (\<lambda>c. c \<in> set Base64) p)"

lemma b64_bytes_mono: "length (b64_bytes ds) \<le> length (b64_bytes (ds @ ds'))"
  by (simp add: length_b64_bytes div_le_mono)

lemma not_space_digit: "c \<in> set Base64 \<Longrightarrow> \<not> b64_space c"
  using Base64_chars(2) by (auto simp: list_all_iff b64_space_def)

lemma pton_loop_spec:
  assumes "\<forall>c\<in>set p. c \<in> set Base64 \<or> b64_space c" "e \<notin> set Base64" "\<not> b64_space e"
    and "n \<le> length t" "length (b64_bytes ds) \<le> n" "length ds + length p < 2147483647"
  shows "\<exists>ds''. length (b64_bytes ds'') \<le> n \<and>
     pton_loop n (p @ e # rest) (b64_upd t ds) (3 * length ds div 4) (length ds mod 4) =
       Ret (b64_upd t ds'',
         let ds' = ds @ b64_digits p in
         if length (b64_bytes ds') \<le> n \<and> (e = 0 \<or> e = Pad64)
         then B64_Stop e rest (3 * length ds' div 4) (length ds' mod 4) else B64_Error) \<and>
     (length (b64_bytes (ds @ b64_digits p)) \<le> n \<longrightarrow> ds'' = ds @ b64_digits p)"
  using assms
proof (induction p arbitrary: ds)
  case Nil
  then show ?case
    by (intro exI [of _ ds]) (simp add: b64_digits_def b64_ofs_class)
next
  case (Cons c p)
  show ?case
  proof (cases "c \<in> set Base64")
    case False
    with Cons.prems have "b64_space c" by auto
    with False Cons.IH [of ds] Cons.prems show ?thesis
      by (simp add: b64_ofs_class b64_digits_def del: pton_loop.simps(1))
  next
    case True
    let ?ds = "ds @ [b64_ofs c]"
    have d: "ds @ b64_digits (c # p) = ?ds @ b64_digits p"
      using True by (simp add: b64_digits_def)
    note step = pton_digit [OF True Cons.prems(4,5)]
    show ?thesis
    proof (cases "length (b64_bytes ?ds) \<le> n")
      case le: True
      then show ?thesis using Cons.IH [of ?ds] Cons.prems step
        by (simp only: d) (simp add: Let_def del: pton_loop.simps)
    next
      case False
      with b64_bytes_mono [of ?ds "b64_digits p"] have "\<not> length (b64_bytes (?ds @ b64_digits p)) \<le> n"
        by simp
      with False show ?thesis using step Cons.prems
        unfolding d by (intro exI [of _ ds]) (simp add: Let_def del: pton_loop.simps append_assoc)
    qed
  qed
qed


section \<open>The text of a byte sequence\<close>

text \<open>The reference: every 3 bytes are one number of 24 bits, written as 4 digits in base 64; a shorter
  last group is filled up with zero bits, and the digits that hold no data are replaced by \<open>=\<close>.\<close>

fun b64_text :: "byte list \<Rightarrow> byte list" where
  "b64_text (a # b # c # bs) =
     (let n = (unat a * 256 + unat b) * 256 + unat c in
      [Base64 ! (n div 262144), Base64 ! (n div 4096 mod 64), Base64 ! (n div 64 mod 64),
       Base64 ! (n mod 64)]) @ b64_text bs"
| "b64_text [a, b] =
     (let n = (unat a * 256 + unat b) * 4 in
      [Base64 ! (n div 4096), Base64 ! (n div 64 mod 64), Base64 ! (n mod 64), Pad64])"
| "b64_text [a] = (let n = unat a * 16 in [Base64 ! (n div 64), Base64 ! (n mod 64), Pad64, Pad64])"
| "b64_text [] = []"

fun b64_code :: "byte list \<Rightarrow> byte list" where
  "b64_code (a # b # c # bs) = b64_out [a, b, c] @ b64_code bs"
| "b64_code [a, b] = take 3 (b64_out [a, b, 0])"
| "b64_code [a] = take 2 (b64_out [a, 0, 0])"
| "b64_code [] = []"

definition b64_pads :: "byte list \<Rightarrow> byte list" where
  "b64_pads bs = replicate ((3 - length bs mod 3) mod 3) Pad64"

lemma unat_byte: "unat (b :: byte) < 256"
  using unsigned_less [of b] by simp

lemma byte_bit_high [simp]: "8 \<le> n \<Longrightarrow> \<not> bit (b :: byte) n"
  by (auto dest: bit_imp_le_length)

lemmas b64_bits = byte_bits numeral_2_eq_2 [symmetric]

lemma small_digit: "d < (64 :: byte) \<Longrightarrow> \<not> bit d 6 \<and> \<not> bit d 7"
  using bit_below_bound [of d 6] by (auto simp: word_less_nat_alt)

lemma b64_out_or:
  "b64_out [a, b, c] =
     [drop_bit 2 a, push_bit 4 (a AND 0x03) OR drop_bit 4 b, push_bit 2 (b AND 0x0f) OR drop_bit 6 c,
      c AND 0x3f]"
proof -
  have "push_bit 4 (a AND 0x03) + drop_bit 4 b = push_bit 4 (a AND 0x03) OR drop_bit 4 b"
    "push_bit 2 (b AND 0x0f) + drop_bit 6 c = push_bit 2 (b AND 0x0f) OR drop_bit 6 c"
    by (rule disjunctive_add_eq_or, simp add: b64_bits)+
  then show ?thesis by (simp add: b64_out_def)
qed

lemma unat_mask_byte:
  "unat (w AND 3) = unat w mod 4" "unat (w AND 15) = unat w mod 16" "unat (w AND 63) = unat w mod 64"
  for w :: byte
  using take_bit_eq_mask [of 2 w] take_bit_eq_mask [of 4 w] take_bit_eq_mask [of 6 w]
    unsigned_take_bit_eq [of 2 w] unsigned_take_bit_eq [of 4 w] unsigned_take_bit_eq [of 6 w]
  by (simp_all add: mask_eq_exp_minus_1 take_bit_eq_mod)

lemma mod_low:
  assumes "y < k" "0 < m" shows "(a * k + y) mod (m * k) = a mod m * k + (y::nat)"
proof -
  have "a * k + y = a mod m * k + y + a div m * (m * k)"
    using div_mult_mod_eq [of a m] by (metis ab_semigroup_add_class.add_ac(1) add.commute distrib_right mult.assoc)
  moreover have "a mod m * k + y < m * k"
  proof -
    have "Suc (a mod m) * k \<le> m * k" using assms by (intro mult_le_mono1) (simp add: Suc_leI)
    then show ?thesis using assms by simp
  qed
  ultimately show ?thesis by (metis mod_mult_self1 mod_less)
qed

lemma b64_group:
  assumes "a < 256" "b < 256" "c < (256::nat)"
  defines "n \<equiv> (a * 256 + b) * 256 + c"
  shows "n div 262144 = a div 4" "n div 4096 mod 64 = a mod 4 * 16 + b div 16"
    "n div 64 mod 64 = b mod 16 * 4 + c div 64" "n mod 64 = c mod 64"
proof -
  have 1: "n div 65536 = a" "n div 256 = a * 256 + b" using assms by auto
  have "n div 262144 = n div 65536 div 4" by (simp flip: div_mult2_eq)
  then show "n div 262144 = a div 4" by (simp add: 1)
  have "n div 4096 = n div 256 div 16" by (simp flip: div_mult2_eq)
  also have "\<dots> = a * 16 + b div 16" unfolding 1 by simp
  finally show "n div 4096 mod 64 = a mod 4 * 16 + b div 16" using assms(2)
    mod_low [of "b div 16" 16 4 a] by simp
  have "n div 64 = (a * 256 + b) * 4 + c div 64" by (simp add: n_def)
  then show "n div 64 mod 64 = b mod 16 * 4 + c div 64" 
    using assms(3) mod_low [of "c div 64" 4 16 "a * 256 + b"] mod_mult_self3 [of "a * 16" 16 b] by (simp add: mult.assoc)
  show "n mod 64 = c mod 64" unfolding n_def using mod_mult_self3 [of "(a * 256 + b) * 4" 64 c] by (simp add: mult.assoc)
qed
lemma unat_b64_out:
  "map unat (b64_out [a, b, c]) =
     (let n = (unat a * 256 + unat b) * 256 + unat c in
      [n div 262144, n div 4096 mod 64, n div 64 mod 64, n mod 64])"
proof -
  have p: "unat (push_bit 4 (a AND 3)) = unat a mod 4 * 16" "unat (push_bit 2 (b AND 15)) = unat b mod 16 * 4" 
    unfolding unsigned_push_bit_eq unat_mask_byte
    by (simp_all add: take_bit_eq_mod push_bit_eq_mult)
  have d: "unat (drop_bit 2 a) = unat a div 4" "unat (drop_bit 4 b) = unat b div 16" "unat (drop_bit 6 c) = unat c div 64"
    by (simp_all only: unat_drop_bit_eq drop_bit_eq_div [of _ "unat _"]) simp_all
  have "unat (push_bit 4 (a AND 3) + drop_bit 4 b) = unat a mod 4 * 16 + unat b div 16"
    "unat (push_bit 2 (b AND 15) + drop_bit 6 c) = unat b mod 16 * 4 + unat c div 64"
    using unat_byte [of b] unat_byte [of c] p d by (simp_all add: unat_add_small)
  then show ?thesis
    unfolding Let_def b64_group [OF unat_byte unat_byte unat_byte]
    by (simp add: b64_out_def d unat_mask_byte del: push_bit_and)
qed

lemma Base64_b64_out:
  "map (\<lambda>d. Base64 ! unat d) (b64_out [a, b, c]) =
     (let n = (unat a * 256 + unat b) * 256 + unat c in
      [Base64 ! (n div 262144), Base64 ! (n div 4096 mod 64), Base64 ! (n div 64 mod 64),
       Base64 ! (n mod 64)])"
  using arg_cong [OF unat_b64_out, of "map ((!) Base64)"] by (simp add: Let_def o_def)

lemma replicate_2: "replicate 2 x = [x, x]"
  by (simp add: numeral_2_eq_2)

lemma b64_code_text: "b64_text bs = map (\<lambda>d. Base64 ! unat d) (b64_code bs) @ b64_pads bs"
proof (induction bs rule: b64_text.induct)
  case (1 a b c bs)
  then show ?case by (simp add: Base64_b64_out b64_pads_def)
next
  case (2 a b)
  define m where "m = unat a * 256 + unat b"
  show ?case
    by (simp add: Base64_b64_out b64_pads_def Let_def mult.commute [of 4] flip: take_map m_def)
next
  case (3 a)
  then show ?case
    by (simp add: Base64_b64_out b64_pads_def Let_def mult.commute [of 16] replicate_2 flip: take_map)
qed (simp add: b64_pads_def)

lemma b64_out_small: "d \<in> set (b64_out [a, b, c]) \<Longrightarrow> d < 64"
proof -
  assume "d \<in> set (b64_out [a, b, c])"
  then have "unat d \<in> set (map unat (b64_out [a, b, c]))" by auto
  then have "unat d < 64" unfolding unat_b64_out
    using unat_byte [of a] unat_byte [of b] unat_byte [of c] by (auto simp: Let_def)
  then show ?thesis by (simp add: word_less_nat_alt)
qed

lemma b64_code_small: "d \<in> set (b64_code bs) \<Longrightarrow> d < 64"
  by (induction bs rule: b64_code.induct) (auto dest: b64_out_small in_set_takeD)

lemma b64_bytes_code: "b64_bytes (b64_code bs) = bs @ (if length bs mod 3 = 0 then [] else [0])"
proof (induction bs rule: b64_code.induct)
  case (1 a b c bs)
  then show ?case by (simp add: b64_out_or b64_bits)
next
  case (2 a b)
  then show ?case by (simp add: b64_out_or b64_bits)
next
  case (3 a)
  then show ?case by (simp add: b64_out_or b64_bits)
qed auto

lemma b64_out_group:
  assumes "a < 64" "b < 64" "c < 64" "d < 64"
  shows "b64_out [push_bit 2 a OR drop_bit 4 b, push_bit 4 (b AND 0x0f) OR drop_bit 2 c,
      push_bit 6 (c AND 0x03) OR d] = [a, b, c, d]"
  using assms [THEN small_digit] by (simp add: b64_out_or b64_bits)

lemma b64_code_bytes:
  assumes "\<forall>d\<in>set ds. d < 64" "length ds mod 4 \<noteq> 1" "length ds mod 4 \<noteq> 0 \<longrightarrow> last (b64_bytes ds) = 0"
  shows "b64_code (take (3 * length ds div 4) (b64_bytes ds)) = ds"
  using assms
proof (induction ds rule: b64_bytes.induct)
  case (1 a b c d ds)
  have "3 * length (a # b # c # d # ds) div 4 = Suc (Suc (Suc (3 * length ds div 4)))"
    by simp
  with 1 b64_out_group [of a b c d] show ?case
    by (cases "ds = []") simp_all
next
  case (2 a b c)
  then show ?case by (auto simp add: b64_out_or b64_bits small_digit)
next
  case (3 a b)
  then show ?case by (auto simp add: b64_out_or b64_bits small_digit)
qed auto


section \<open>The rest of the input after the digits\<close>

definition b64_strip :: "byte list \<Rightarrow> byte list" where
  "b64_strip w = filter (\<lambda>c. \<not> b64_space c) w"

lemma b64_strip_Cons:
  "b64_strip (c # w) = (if b64_space c then b64_strip w else c # b64_strip w)"
  "b64_strip [] = []" "b64_strip (v @ w) = b64_strip v @ b64_strip w"
  by (simp_all add: b64_strip_def)

lemma not_space [simp]: "\<not> b64_space 0" "\<not> b64_space Pad64"
  by (simp_all add: b64_space_def bson_isspace_def Pad64_def)

lemma c_next_terminated:
  "c_next (w @ 0 # junk) = Ret (hd (w @ [0]), tl (w @ 0 # junk))"
  by (cases w) (simp_all add: c_next_def)

lemma only_spaces_spec:
  "0 \<notin> set w \<Longrightarrow> cbind (c_next (w @ 0 # junk)) (\<lambda>(ch, src). only_spaces ch src) = Ret (b64_strip w = [])"
proof (induction w)
  case Nil then show ?case by (simp add: c_next_def only_spaces.simps b64_strip_def)
next
  case (Cons c w)
  then show ?case
    by (cases w) (simp_all add: c_next_def only_spaces.simps [of c] b64_ofs_class b64_strip_Cons only_spaces.simps [of 0])
qed

lemma skip_spaces_spec:
  "0 \<notin> set w \<Longrightarrow> cbind (c_next (w @ 0 # junk)) (\<lambda>(ch, src). skip_spaces ch src) =
     c_next (dropWhile b64_space w @ 0 # junk)"
proof (induction w)
  case Nil then show ?case by (simp add: c_next_def skip_spaces.simps)
next
  case (Cons c w)
  then show ?case
    by (cases w) (simp_all add: c_next_def skip_spaces.simps [of c] b64_ofs_class skip_spaces.simps [of 0])
qed

lemma b64_strip_dropWhile: "b64_strip (dropWhile b64_space w) = b64_strip w"
  by (induction w) (simp_all add: b64_strip_Cons)

lemma pton_tail_pad:
  assumes "0 \<notin> set w" "st < 4"
  shows "pton_tail Pad64 (w @ 0 # junk) st =
     Ret (st = 2 \<and> b64_strip w = [Pad64] \<or> st = 3 \<and> b64_strip w = [])"
proof -
  consider "st < 2" | "st = 2" | "st = 3" using assms(2) by linarith
  then show ?thesis
  proof cases
    case 1
    then show ?thesis by (auto simp: pton_tail_def c_next_terminated)
  next
    case 2
    define v where "v = dropWhile b64_space w"
    have v: "0 \<notin> set v" "v = [] \<or> \<not> b64_space (hd v)" "b64_strip v = b64_strip w"
      using assms(1) hd_dropWhile [of b64_space w]
      by (auto simp: v_def b64_strip_dropWhile dest: set_dropWhileD)
    have "pton_tail Pad64 (w @ 0 # junk) st =
       cbind (cbind (c_next (w @ 0 # junk)) (\<lambda>(ch, src). skip_spaces ch src)) (\<lambda>(ch, src).
          if ch \<noteq> Pad64 then Ret False else cbind (c_next src) (\<lambda>(ch, src). only_spaces ch src))"
      using 2 by (simp add: pton_tail_def cbind_assoc case_prod_beta')
    also have "\<dots> = cbind (c_next (v @ 0 # junk)) (\<lambda>(ch, src).
          if ch \<noteq> Pad64 then Ret False else cbind (c_next src) (\<lambda>(ch, src). only_spaces ch src))"
      by (simp only: skip_spaces_spec [OF assms(1)] v_def)
    also have "\<dots> = Ret (b64_strip v = [Pad64])"
    proof (cases v)
      case Nil
      have "Pad64 \<noteq> 0" by (simp add: Pad64_def)
      then show ?thesis using Nil by (simp add: c_next_def b64_strip_Cons)
    next
      case (Cons c u)
      then show ?thesis using v(1,2) only_spaces_spec [of u junk]
        by (simp add: c_next_def [of "c # _"] b64_strip_Cons)
    qed
    finally show ?thesis using 2 v(3) by simp
  next
    case 3
    then show ?thesis using only_spaces_spec [OF assms(1)] by (simp add: pton_tail_def)
  qed
qed


section \<open>Decoding accepts exactly the texts of byte sequences\<close>

definition b64_head :: "byte list \<Rightarrow> byte list" where
  "b64_head s = takeWhile (\<lambda>c. c \<in> set Base64 \<or> b64_space c) s"

definition b64_rest :: "byte list \<Rightarrow> byte list" where
  "b64_rest s = dropWhile (\<lambda>c. c \<in> set Base64 \<or> b64_space c) s"

definition b64_ends :: "nat \<Rightarrow> byte list \<Rightarrow> bool" where
  "b64_ends st q = (case q of [] \<Rightarrow> st = 0
     | e # w \<Rightarrow> e = Pad64 \<and> (st = 2 \<and> b64_strip w = [Pad64] \<or> st = 3 \<and> b64_strip w = []))"

lemma b64_head_rest: "s = b64_head s @ b64_rest s"
  by (simp add: b64_head_def b64_rest_def)

lemma b64_head_chars: "\<forall>c\<in>set (b64_head s). c \<in> set Base64 \<or> b64_space c"
  by (auto simp: b64_head_def dest: set_takeWhileD)

lemma b64_rest_first: "b64_rest s = e # w \<Longrightarrow> e \<notin> set Base64 \<and> \<not> b64_space e"
  unfolding b64_rest_def by (auto simp: dropWhile_eq_Cons_conv)

lemma not_digit: "0 \<notin> set Base64" "Pad64 \<notin> set Base64"
  using Base64_chars(2) by (auto simp: list_all_iff)

definition b64_accepts :: "byte list \<Rightarrow> byte list \<Rightarrow> bool" where
  "b64_accepts ds q \<longleftrightarrow> b64_ends (length ds mod 4) q \<and> (q \<noteq> [] \<longrightarrow> last (b64_bytes ds) = 0)"

lemma b64_split:
  assumes "0 \<notin> set s"
  obtains e rest where "s @ 0 # junk = b64_head s @ e # rest" "e \<notin> set Base64" "\<not> b64_space e"
    "\<And>st. e = 0 \<or> e = Pad64 \<Longrightarrow> pton_tail e rest (st mod 4) = Ret (b64_ends (st mod 4) (b64_rest s))"
    "\<And>st. b64_ends st (b64_rest s) \<Longrightarrow> e = 0 \<or> e = Pad64" "b64_rest s = [] \<longleftrightarrow> e = 0"
proof (cases "b64_rest s")
  case Nil
  with b64_head_rest [of s] have "s @ 0 # junk = b64_head s @ 0 # junk" by simp
  with that [of 0 junk] show ?thesis
    using Nil not_digit by (simp add: pton_tail_def b64_ends_def Pad64_def)
next
  case (Cons c w)
  have z: "0 \<notin> set (c # w)"
    using assms b64_head_rest [of s] by (metis Cons UnCI set_append)
  have "s @ 0 # junk = b64_head s @ c # w @ 0 # junk"
    using b64_head_rest [of s] Cons by (metis append.assoc append_Cons)
  with that [of c "w @ 0 # junk"] z b64_rest_first [OF Cons] show ?thesis
    using pton_tail_pad [of w] by (simp add: b64_ends_def Cons)
qed

lemma b64_head_length: "length (b64_head s) \<le> length s"
  by (simp add: b64_head_def length_takeWhile_le)

lemma pton_do_spec:
  assumes z: "0 \<notin> set s" and n: "n \<le> length t" and l: "length s < 2147483647"
  defines "ds \<equiv> b64_digits (b64_head s)" and "q \<equiv> b64_rest s"
  shows "\<exists>ds''. length (b64_bytes ds'') \<le> n \<and>
     mongoc_b64_pton_do (s @ 0 # junk) t n =
       Ret (b64_upd t ds'', if length (b64_bytes ds) \<le> n \<and> b64_accepts ds q
                            then int (3 * length ds div 4) else - 1) \<and>
     (length (b64_bytes ds) \<le> n \<and> b64_accepts ds q \<longrightarrow> ds'' = ds)"
proof -
  obtain e rest where s: "s @ 0 # junk = b64_head s @ e # rest" "e \<notin> set Base64" "\<not> b64_space e"
    "e = 0 \<or> e = Pad64 \<Longrightarrow> pton_tail e rest (length ds mod 4) = Ret (b64_ends (length ds mod 4) q)"
    "b64_ends (length ds mod 4) q \<Longrightarrow> e = 0 \<or> e = Pad64" "q = [] \<longleftrightarrow> e = 0"
    using b64_split [OF z, of junk] unfolding q_def by metis
  obtain ds'' where ds: "length (b64_bytes ds'') \<le> n"
    "pton_loop n (s @ 0 # junk) t 0 0 = Ret (b64_upd t ds'',
         if length (b64_bytes ds) \<le> n \<and> (e = 0 \<or> e = Pad64)
         then B64_Stop e rest (3 * length ds div 4) (length ds mod 4) else B64_Error)"
    "length (b64_bytes ds) \<le> n \<longrightarrow> ds'' = ds"
    using pton_loop_spec [OF b64_head_chars s(2,3) n, of "[]" s rest] l b64_head_length [of s]
    by (auto simp: s(1) b64_upd_def ds_def Let_def)
  have "rd8 (b64_upd t ds) (3 * length ds div 4) = Ret (last (b64_bytes ds))"
    if "b64_ends (length ds mod 4) q" "q \<noteq> []"
  proof -
    have "length ds mod 4 \<noteq> 0" using that by (auto simp: b64_ends_def split: list.splits)
    then have "b64_bytes ds \<noteq> []" "length (b64_bytes ds) = Suc (3 * length ds div 4)"
      by (auto simp: length_b64_bytes_mod)
    then show ?thesis by (simp add: rd8_def b64_upd_def nth_append last_conv_nth)
  qed
  moreover have "Pad64 \<noteq> 0" by (simp add: Pad64_def)
  ultimately show ?thesis using ds s(4-6)
    by (intro exI [of _ ds'']) (auto simp: mongoc_b64_pton_do_def b64_accepts_def)
qed

lemma length_b64_code:
  "length (b64_code bs) mod 4 = (if length bs mod 3 = 0 then 0 else length bs mod 3 + 1)"
  "3 * length (b64_code bs) div 4 = length bs"
  by (induction bs rule: b64_code.induct) (auto simp: b64_out_def)

lemma takeWhile_split: "\<forall>x\<in>set xs. P x \<Longrightarrow> ys = [] \<or> \<not> P (hd ys) \<Longrightarrow> takeWhile P (xs @ ys) = xs"
  by (induction xs) (auto simp: takeWhile_eq_Nil_iff)

lemma digits_code: "\<forall>d\<in>set ds. d < 64 \<Longrightarrow> map b64_ofs (map (\<lambda>d. Base64 ! unat d) ds) = ds"
  by (induction ds) (auto simp: word_less_nat_alt)

lemma code_digits: "\<forall>c\<in>set p. c \<in> set Base64 \<or> b64_space c \<Longrightarrow>
   map (\<lambda>d. Base64 ! unat d) (b64_digits p) = b64_strip p"
  by (induction p) (auto simp: b64_digits_def b64_strip_def Base64_ofs not_space_digit)

lemma b64_strip_head: "set (b64_strip (b64_head s)) \<subseteq> set Base64"
  using b64_head_chars [of s] by (auto simp: b64_strip_def)

lemma b64_strip_rest: "b64_strip (b64_rest s) =
   (case b64_rest s of [] \<Rightarrow> [] | e # w \<Rightarrow> e # b64_strip w)"
  using b64_rest_first [of s] by (auto simp: b64_strip_Cons split: list.splits)

lemma b64_accepts_iff:
  fixes s
  defines "ds \<equiv> b64_digits (b64_head s)" and "q \<equiv> b64_rest s"
  shows "b64_strip s = b64_text bs \<longleftrightarrow>
     b64_accepts ds q \<and> bs = take (3 * length ds div 4) (b64_bytes ds)"
proof -
  have s: "b64_strip s = map (\<lambda>d. Base64 ! unat d) ds @ b64_strip q"
    using code_digits [OF b64_head_chars, of s] b64_head_rest [of s]
    by (metis b64_strip_Cons(3) ds_def q_def)
  have small: "\<forall>d\<in>set ds. d < 64"
    by (auto simp: ds_def b64_digits_def b64_ofs_less)
  have sq: "b64_strip q = (case q of [] \<Rightarrow> [] | e # w \<Rightarrow> e # b64_strip w)"
    unfolding q_def by (rule b64_strip_rest)
  have pads: "b64_pads bs = b64_strip q \<longleftrightarrow> b64_ends (length (b64_code bs) mod 4) q" for bs
  proof -
    consider "length bs mod 3 = 0" | "length bs mod 3 = 1" | "length bs mod 3 = 2" by linarith
    then show ?thesis
      by cases (auto simp: sq b64_pads_def length_b64_code b64_ends_def replicate_2 split: list.splits)
  qed
  have B: "\<forall>c\<in>set (map (\<lambda>d. Base64 ! unat d) xs). c \<in> set Base64" 
    if "\<forall>d\<in>set xs. d < 64" for xs :: "byte list"
    using that by (auto simp: length_Base64 word_less_nat_alt intro!: nth_mem)
  show ?thesis
  proof
    assume "b64_strip s = b64_text bs"
    then have "map (\<lambda>d. Base64 ! unat d) ds @ b64_strip q = map (\<lambda>d. Base64 ! unat d) (b64_code bs) @ b64_pads bs"
      by (simp add: s b64_code_text)
    moreover have "takeWhile (\<lambda>c. c \<in> set Base64) (map (\<lambda>d. Base64 ! unat d) ds @ b64_strip q) =
        map (\<lambda>d. Base64 ! unat d) ds"
      using B [OF small] b64_rest_first [of s]
      by (intro takeWhile_split) (auto simp: b64_strip_rest q_def split: list.splits)
    moreover have "takeWhile (\<lambda>c. c \<in> set Base64) (map (\<lambda>d. Base64 ! unat d) (b64_code bs) @ b64_pads bs) =
        map (\<lambda>d. Base64 ! unat d) (b64_code bs)"
      using B [of "b64_code bs"] b64_code_small not_digit
      by (intro takeWhile_split) (auto simp: b64_pads_def)
    ultimately have eq: "map (\<lambda>d. Base64 ! unat d) ds = map (\<lambda>d. Base64 ! unat d) (b64_code bs)"
      "b64_strip q = b64_pads bs"
      by auto
    then have "ds = b64_code bs"
      using digits_code [OF small] digits_code [of "b64_code bs"] b64_code_small by metis
    with pads [of bs] eq(2) b64_bytes_code [of bs] show "b64_accepts ds q \<and> bs = take (3 * length ds div 4) (b64_bytes ds)"
      by (auto simp: b64_accepts_def length_b64_code b64_ends_def split: list.splits if_splits)
  next
    assume a: "b64_accepts ds q \<and> bs = take (3 * length ds div 4) (b64_bytes ds)"
    then have "b64_code bs = ds" 
      using b64_code_bytes [OF small] by (auto simp: b64_accepts_def b64_ends_def split: list.splits)
    with a pads [of bs] show "b64_strip s = b64_text bs"
      by (simp add: s b64_code_text b64_accepts_def)
  qed
qed


definition b64_room :: "byte list \<Rightarrow> nat" where
  "b64_room bs = length bs + (if length bs mod 3 = 0 then 0 else 1)"

lemma b64_accepts_bytes:
  assumes "b64_accepts ds q" "\<forall>d\<in>set ds. d < 64" "bs = take (3 * length ds div 4) (b64_bytes ds)"
  shows "length bs = 3 * length ds div 4" "b64_room bs = length (b64_bytes ds)"
proof -
  have l: "length bs = 3 * length ds div 4"
    using assms by (simp add: length_b64_bytes_mod min_def)
  then show "length bs = 3 * length ds div 4" .
  have "length ds mod 4 \<noteq> 1"
    using assms(1) by (auto simp: b64_accepts_def b64_ends_def split: list.splits)
  then have "length bs mod 3 = 0 \<longleftrightarrow> length ds mod 4 = 0" unfolding l by (rule b64_room_arith)
  then show "b64_room bs = length (b64_bytes ds)" by (simp add: b64_room_def l length_b64_bytes_mod)
qed

lemma b64_pton_exact:
  assumes "0 \<notin> set s" "n \<le> length t" "length s < 2147483647"
  shows "\<exists>t' r. bson_b64_pton (s @ 0 # junk) (Some t) n = Ret (Some t', r) \<and>
    length t' = length t \<and> drop n t' = drop n t \<and>
    (\<forall>bs. b64_strip s = b64_text bs \<and> b64_room bs \<le> n \<longrightarrow>
       r = int (length bs) \<and> take (length bs) t' = bs) \<and>
    ((\<nexists>bs. b64_strip s = b64_text bs \<and> b64_room bs \<le> n) \<longrightarrow> r = - 1)"
proof -
  define ds where "ds = b64_digits (b64_head s)"
  define q where "q = b64_rest s"
  define bs where "bs = take (3 * length ds div 4) (b64_bytes ds)"
  have small: "\<forall>d\<in>set ds. d < 64"
    by (auto simp: ds_def b64_digits_def b64_ofs_less)
  have iff: "b64_strip s = b64_text bs' \<longleftrightarrow> b64_accepts ds q \<and> bs' = bs" for bs'
    unfolding ds_def q_def bs_def by (rule b64_accepts_iff)
  obtain ds'' where d: "length (b64_bytes ds'') \<le> n" "mongoc_b64_pton_do (s @ 0 # junk) t n =
       Ret (b64_upd t ds'', if length (b64_bytes ds) \<le> n \<and> b64_accepts ds q
                            then int (3 * length ds div 4) else - 1)"
     "length (b64_bytes ds) \<le> n \<and> b64_accepts ds q \<longrightarrow> ds'' = ds"
    using pton_do_spec [OF assms, of junk] unfolding ds_def [symmetric] q_def [symmetric] by blast
  have t: "length (b64_upd t ds'') = length t" "drop n (b64_upd t ds'') = drop n t"
    using d(1) assms(2) by (simp_all add: b64_upd_def)
  show ?thesis
  proof (cases "b64_accepts ds q")
    case True
    note ab = b64_accepts_bytes [OF True small bs_def]
    have "take (length bs) (b64_upd t ds) = bs"
      unfolding ab(1) by (simp add: b64_upd_def bs_def length_b64_bytes_mod)
    with True ab d t show ?thesis
      by (intro exI [of _ "b64_upd t ds''"]) (simp add: bson_b64_pton_def iff)
  qed (use d t in \<open>simp add: bson_b64_pton_def iff\<close>)
qed

lemma pton_len_loop_spec:
  assumes "\<forall>c\<in>set p. c \<in> set Base64 \<or> b64_space c" "e \<notin> set Base64" "\<not> b64_space e"
    and "k + length p < 2147483647"
  shows "pton_len_loop (p @ e # rest) (3 * k div 4) (k mod 4) =
       (let k' = k + length (b64_digits p) in
        Ret (if e = 0 \<or> e = Pad64 then B64_Stop e rest (3 * k' div 4) (k' mod 4) else B64_Error))"
  using assms
proof (induction p arbitrary: k)
  case Nil
  then show ?case by (simp add: b64_digits_def b64_ofs_class)
next
  case (Cons c p)
  show ?case
  proof (cases "c \<in> set Base64")
    case False
    with Cons.prems have "b64_space c" by auto
    with False Cons.IH [of k] Cons.prems show ?thesis
      by (simp add: b64_ofs_class b64_digits_def)
  next
    case True
    have d: "k + length (b64_digits (c # p)) = Suc k + length (b64_digits p)"
      using True by (simp add: b64_digits_def)
    have "pton_len_loop (c # p @ e # rest) (3 * k div 4) (k mod 4) =
      pton_len_loop (p @ e # rest) (3 * Suc k div 4) (Suc k mod 4)"
    proof -
      have "3 * k div 4 < 2147483647" using Cons.prems(4) by simp
      then show ?thesis using True b64_state_step [of k]
        by (elim disjE conjE) (simp_all add: b64_ofs_class int_inc_def del: mult_Suc_right)
    qed
    with Cons.IH [of "Suc k"] Cons.prems d show ?thesis by simp
  qed
qed

lemma pton_len_spec:
  assumes "0 \<notin> set s" "length s < 2147483647"
  defines "ds \<equiv> b64_digits (b64_head s)"
  shows "mongoc_b64_pton_len (s @ 0 # junk) =
     Ret (if b64_ends (length ds mod 4) (b64_rest s) then int (3 * length ds div 4) else - 1)"
proof -
  obtain e rest where s: "s @ 0 # junk = b64_head s @ e # rest" "e \<notin> set Base64" "\<not> b64_space e"
    "e = 0 \<or> e = Pad64 \<Longrightarrow>
       pton_tail e rest (length ds mod 4) = Ret (b64_ends (length ds mod 4) (b64_rest s))"
    "b64_ends (length ds mod 4) (b64_rest s) \<Longrightarrow> e = 0 \<or> e = Pad64"
    using b64_split [OF assms(1), of junk] by metis
  have "pton_len_loop (s @ 0 # junk) 0 0 =
      Ret (if e = 0 \<or> e = Pad64 then B64_Stop e rest (3 * length ds div 4) (length ds mod 4) else B64_Error)"
    using pton_len_loop_spec [OF b64_head_chars s(2,3), of 0 s rest] assms(2) b64_head_length [of s]
    by (simp add: s(1) ds_def Let_def)
  with s(4,5) show ?thesis by (auto simp: mongoc_b64_pton_len_def)
qed

lemma pton_len_text:
  assumes "0 \<notin> set s" "length s < 2147483647" "b64_strip s = b64_text bs"
  shows "mongoc_b64_pton_len (s @ 0 # junk) = Ret (int (length bs))"
proof -
  define ds where "ds = b64_digits (b64_head s)"
  have small: "\<forall>d\<in>set ds. d < 64"
    by (auto simp: ds_def b64_digits_def b64_ofs_less)
  have a: "b64_accepts ds (b64_rest s)" "bs = take (3 * length ds div 4) (b64_bytes ds)"
    using assms(3) unfolding b64_accepts_iff ds_def by auto
  from b64_accepts_bytes(1) [OF a(1) small a(2)] a(1) show ?thesis
    using pton_len_spec [OF assms(1,2)] by (simp add: b64_accepts_def flip: ds_def)
qed

section \<open>Encoding writes the text\<close>

lemma length_b64_text: "length (b64_text bs) = 4 * ((length bs + 2) div 3)"
proof (induction bs rule: b64_text.induct)
  case (1 a b c bs)
  have "(length (a # b # c # bs) + 2) div 3 = Suc ((length bs + 2) div 3)" by simp
  with 1 show ?case by (simp add: Let_def)
qed (simp_all add: Let_def)

lemma b64_text_take: "b64_text bs = b64_text (take (3 * k) bs) @ b64_text (drop (3 * k) bs)" if "3 * k \<le> length bs"
  using that
proof (induction k arbitrary: bs)
  case (Suc k)
  then have "3 \<le> length bs" by simp
  then obtain a b c bs' where bs: "bs = a # b # c # bs'"
    by (metis Suc_le_length_iff numeral_3_eq_3)
  have "b64_text bs' = b64_text (take (3 * k) bs') @ b64_text (drop (3 * k) bs')"
    by (rule Suc.IH) (use Suc.prems bs in simp)
  moreover have "3 * Suc k = Suc (Suc (Suc (3 * k)))" by simp
  ultimately show ?case
    by (simp only: bs take_Suc_Cons drop_Suc_Cons b64_text.simps append_assoc)
qed simp

lemma b64_out_asserts:
  "b64_out [a, b, c] ! 0 < 64 \<and> b64_out [a, b, c] ! 1 < 64 \<and> b64_out [a, b, c] ! 2 < 64 \<and>
   b64_out [a, b, c] ! 3 < 64"
  using b64_out_small [of _ a b c] by (simp add: b64_out_def del: push_bit_and)

lemma ntop_groups_spec:
  assumes "n \<le> length pre + length u" "length pre \<le> n"
  shows "\<exists>u' r. ntop_groups (bs @ x) (length bs) (pre @ u) (length pre) n = Ret (pre @ u', r) \<and>
    length u' = length u \<and> drop (n - length pre) u' = drop (n - length pre) u \<and>
    (let k = length bs div 3; T = b64_text (take (3 * k) bs) in
     if length pre + 4 * k \<le> n
     then u' = T @ drop (4 * k) u \<and> r = Some (drop (3 * k) bs @ x, length bs mod 3, length pre + 4 * k)
     else r = None)"
  using assms
proof (induction bs arbitrary: pre u rule: b64_text.induct)
  case (1 a b c bs)
  define G where "G = b64_text [a, b, c]"
  define k where "k = length bs div 3"
  have g: "map (\<lambda>d. Base64 ! unat d) (b64_out [a, b, c]) = G" "length G = 4"
    by (simp_all add: Base64_b64_out Let_def G_def)
  have G': "(let n = (unat a * 256 + unat b) * 256 + unat c in
      [Base64 ! (n div 262144), Base64 ! (n div 4096 mod 64), Base64 ! (n div 64 mod 64),
       Base64 ! (n mod 64)]) = G"
    by (simp add: G_def)
  have e: "3 * Suc k = Suc (Suc (Suc (3 * k)))" by simp
  have k: "length (a # b # c # bs) div 3 = Suc k" "length (a # b # c # bs) mod 3 = length bs mod 3"
    "take (3 * Suc k) (a # b # c # bs) = a # b # c # take (3 * k) bs"
    "drop (3 * Suc k) (a # b # c # bs) = drop (3 * k) bs"
    unfolding e by (simp_all add: k_def)
  have step: "ntop_groups ((a # b # c # bs) @ x) (length (a # b # c # bs)) (pre @ u) (length pre) n =
     (if length pre + 4 > n then Ret (pre @ u, None)
      else ntop_groups (bs @ x) (length bs) ((pre @ G) @ drop 4 u) (length (pre @ G)) n)"
    using b64_out_asserts [of a b c] 1(2,3)
    by (subst ntop_groups.simps) (simp add: rdn_def Let_def g wrn_def)
  show ?case
  proof (cases "length pre + 4 > n")
    case True
    then show ?thesis unfolding step k(1) by (simp add: Let_def)
  next
    case False
    with 1(2,3) have "n \<le> length (pre @ G) + length (drop 4 u)" "length (pre @ G) \<le> n" "4 \<le> length u"
      using g(2) by auto
    with 1(1) [of "pre @ G" "drop 4 u"] obtain u' r where i:
      "ntop_groups (bs @ x) (length bs) ((pre @ G) @ drop 4 u) (length (pre @ G)) n = Ret ((pre @ G) @ u', r)"
      "length u' = length u - 4" "drop (n - (length pre + 4)) u' = drop (n - (length pre + 4)) (drop 4 u)"
      "if length pre + 4 + 4 * k \<le> n
       then u' = b64_text (take (3 * k) bs) @ drop (4 * k) (drop 4 u) \<and>
         r = Some (drop (3 * k) bs @ x, length bs mod 3, length pre + 4 + 4 * k)
       else r = None"
      using g(2) by (auto simp: Let_def k_def)
    have "drop (n - length pre) (G @ u') = drop (n - length pre) u"
      using i(3) False g(2) by (simp add: add.commute)
    with i False \<open>4 \<le> length u\<close> g(2) show ?thesis
      unfolding step k(1) Let_def k(2-4) b64_text.simps(1) [of a b c "take (3 * k) bs", unfolded G']
      by (intro exI [of _ "G @ u'"] exI [of _ r]) (simp add: Let_def algebra_simps)
  qed
qed (simp_all add: ntop_groups.simps)


lemma Suc4: "4 = Suc (Suc (Suc (Suc 0)))"
  by simp

lemma ntop_rest_spec:
  assumes "length bs < 3" "n \<le> length pre + length u" "length pre \<le> n"
  shows "ntop_rest (bs @ x) (length bs) (pre @ u) (length pre) n =
     (if length pre + length (b64_text bs) \<le> n
      then Ret (pre @ b64_text bs @ drop (length (b64_text bs)) u, Some (length pre + length (b64_text bs)))
      else Ret (pre @ u, None))"
proof -
  consider "bs = []" | a where "bs = [a]" | a b where "bs = [a, b]"
    using assms(1) by (cases bs rule: b64_text.cases) auto
  then show ?thesis
  proof cases
    case 1
    then show ?thesis using assms by (simp add: ntop_rest_def)
  next
    case (2 a)
    have "Base64 ! unat (b64_out [a, 0, 0] ! 0) = b64_text [a] ! 0"
      "Base64 ! unat (b64_out [a, 0, 0] ! 1) = b64_text [a] ! 1"
      by (simp_all add: b64_code_text b64_out_def)
    then show ?thesis using 2 assms b64_out_asserts [of a 0 0]
      by (simp add: ntop_rest_def rdn_def wrn_def replicate_2 Let_def flip: Suc4)
  next
    case (3 a b)
    have "Base64 ! unat (b64_out [a, b, 0] ! 0) = b64_text [a, b] ! 0"
      "Base64 ! unat (b64_out [a, b, 0] ! 1) = b64_text [a, b] ! 1"
      "Base64 ! unat (b64_out [a, b, 0] ! 2) = b64_text [a, b] ! 2"
      by (simp_all add: b64_code_text b64_out_def)
    then show ?thesis using 3 assms b64_out_asserts [of a b 0]
      by (simp add: ntop_rest_def rdn_def wrn_def Let_def flip: Suc4)
  qed
qed

lemma ntop_spec:
  assumes "n \<le> length t"
  shows "\<exists>t' r. bson_b64_ntop (bs @ x) (length bs) t n = Ret (t', r) \<and> length t' = length t \<and>
    drop n t' = drop n t \<and>
    (if length (b64_text bs) < n
     then t' = b64_text bs @ 0 # drop (length (b64_text bs) + 1) t \<and>
       r = sint (of_nat (length (b64_text bs)) :: 32 word)
     else r = - 1)"
proof -
  define k where "k = length bs div 3"
  define T where "T = b64_text (take (3 * k) bs)"
  define v where "v = drop (3 * k) bs"
  have v: "length v < 3" "length v = length bs mod 3"
    by (auto simp: v_def k_def modulo_nat_def mult.commute)
  have T: "length T = 4 * k" "b64_text bs = T @ b64_text v"
    using b64_text_take [of k bs] by (auto simp: T_def v_def k_def length_b64_text)
  obtain t' r where g: "ntop_groups (bs @ x) (length bs) t 0 n = Ret (t', r)" "length t' = length t"
    "drop n t' = drop n t"
    "if 4 * k \<le> n then t' = T @ drop (4 * k) t \<and> r = Some (v @ x, length v, 4 * k) else r = None"
    using ntop_groups_spec [of n "[]" t bs x] assms
    unfolding Let_def k_def [symmetric] T_def [symmetric] v_def [symmetric] v(2) [symmetric] by auto
  show ?thesis
  proof (cases "4 * k \<le> n")
    case False
    with g T show ?thesis by (auto simp: bson_b64_ntop_def)
  next
    case True
    have "n \<le> length T + length (drop (4 * k) t)" "length T \<le> n" using assms True T(1) by auto
    note rest = ntop_rest_spec [OF v(1) this, of x, unfolded T(1)]
    show ?thesis using g True T rest assms
      by (auto simp: bson_b64_ntop_def wrn_def add.commute [of "length (b64_text v)"] drop_Cons')
  qed
qed


lemma b64_text_chars: "set (b64_text bs) \<subseteq> set Base64 \<union> {Pad64}"
  by (auto simp: b64_code_text b64_pads_def length_Base64 word_less_nat_alt [of _ "64 :: byte"]
      dest!: b64_code_small intro!: nth_mem)

lemma b64_text_plain: "b64_strip (b64_text bs) = b64_text bs" "0 \<notin> set (b64_text bs)"
proof -
  show "b64_strip (b64_text bs) = b64_text bs"
    using b64_text_chars [of bs] not_space_digit
    unfolding b64_strip_def by (intro filter_True) (use not_space in blast)
  have "(0 :: byte) \<noteq> Pad64" by (simp add: Pad64_def)
  then show "0 \<notin> set (b64_text bs)"
    using b64_text_chars [of bs] not_digit by blast
qed

text \<open>C31. Encoding any byte sequence with \<open>bson_b64_ntop\<close> into a buffer with room for the text and its
  terminator writes a string that \<open>bson_b64_pton\<close> decodes to the same bytes: without a target it returns
  their number, and with a target of that size (plus one byte when the text is padded) it stores them and
  touches nothing past the stated size.\<close>

theorem base64_roundtrip:
  assumes "length (b64_text bs) < n" "n \<le> length t" "length (b64_text bs) < 2147483647"
    and "b64_room bs \<le> m" "m \<le> length u"
  shows "\<exists>t' u'. bson_b64_ntop (bs @ x) (length bs) t n = Ret (t', int (length (b64_text bs))) \<and>
    bson_b64_pton t' None 0 = Ret (None, int (length bs)) \<and>
    bson_b64_pton t' (Some u) m = Ret (Some u', int (length bs)) \<and>
    take (length bs) u' = bs \<and> drop m u' = drop m u"
proof -
  define t' where "t' = b64_text bs @ 0 # drop (length (b64_text bs) + 1) t"
  have "sint (word_of_nat (length (b64_text bs)) :: 32 word) = int (length (b64_text bs))"
    using assms(3) by (simp add: signed_of_nat signed_take_bit_int_eq_self)
  then have n: "bson_b64_ntop (bs @ x) (length bs) t n = Ret (t', int (length (b64_text bs)))"
    using ntop_spec [OF assms(2), of bs x] assms(1) by (auto simp: t'_def)
  show ?thesis
    using n b64_pton_exact [OF b64_text_plain(2) assms(5,3), of "drop (length (b64_text bs) + 1) t"]
      pton_len_text [OF b64_text_plain(2) assms(3) b64_text_plain(1)] assms(4)
    by (auto simp: t'_def bson_b64_pton_def b64_text_plain split: option.splits)
qed

theorem base64_roundtrip_witness:
  "\<exists>t' u'. bson_b64_ntop [0x4d, 0x61] 2 (replicate 8 0) 5 = Ret (t', 4) \<and>
    bson_b64_pton t' None 0 = Ret (None, 2) \<and>
    bson_b64_pton t' (Some (replicate 3 0)) 3 = Ret (Some u', 2) \<and>
    take 2 u' = [0x4d, 0x61] \<and> drop 3 u' = []"
  using base64_roundtrip [of "[0x4d, 0x61]" 5 "replicate 8 0" 3 "replicate 3 0" "[]"]
  by (simp add: length_b64_text b64_room_def del: b64_text.simps flip: numeral_2_eq_2)

text \<open>C32. \<open>bson_b64_pton\<close> on any NUL-terminated string of less than \<open>INT_MAX\<close> characters stays inside the
  string and the target, and accepts exactly the strings that are, white space removed, the base64 text of
  some bytes that fit: it then returns their number and stores them. Every other string (foreign
  characters, missing or misplaced padding, non-zero left-over bits, no room) gives -1.\<close>

theorem base64_decodes_exactly:
  assumes "0 \<notin> set s" "n \<le> length t" "length s < 2147483647"
  shows "\<exists>t' r. bson_b64_pton (s @ 0 # junk) (Some t) n = Ret (Some t', r) \<and>
    length t' = length t \<and> drop n t' = drop n t \<and>
    (\<forall>bs. b64_strip s = b64_text bs \<and> b64_room bs \<le> n \<longrightarrow>
       r = int (length bs) \<and> take (length bs) t' = bs) \<and>
    ((\<nexists>bs. b64_strip s = b64_text bs \<and> b64_room bs \<le> n) \<longrightarrow> r = - 1)"
  by (rule b64_pton_exact [OF assms])

theorem base64_decodes_exactly_witness:
  "\<exists>t' r. bson_b64_pton [0x54, 0x57, 0x20, 0x45, 0x3d, 0, 7] (Some (replicate 4 9)) 3 = Ret (Some t', r) \<and>
    drop 3 t' = [9] \<and> take 2 t' = [0x4d, 0x61] \<and> r = 2"
proof -
  have s: "b64_strip [0x54, 0x57, 0x20, 0x45, 0x3d] = b64_text [0x4d, 0x61]"
    by (simp add: b64_strip_def b64_space_def bson_isspace_def Base64_def Pad64_def Let_def)
  have p: "0 \<notin> set [0x54, 0x57, 0x20, 0x45, 0x3d :: byte]" "3 \<le> length (replicate 4 (9 :: byte))"
    "length [0x54, 0x57, 0x20, 0x45, 0x3d :: byte] < 2147483647"
    by simp_all
  from base64_decodes_exactly [OF p, of "[7]"] obtain t' r where
    "bson_b64_pton ([0x54, 0x57, 0x20, 0x45, 0x3d] @ 0 # [7]) (Some (replicate 4 9)) 3 = Ret (Some t', r)"
    "drop 3 t' = drop 3 (replicate 4 9)"
    "\<forall>bs. b64_strip [0x54, 0x57, 0x20, 0x45, 0x3d] = b64_text bs \<and> b64_room bs \<le> 3 \<longrightarrow>
       r = int (length bs) \<and> take (length bs) t' = bs"
    by blast
  moreover from this(3) [rule_format, of "[0x4d, 0x61]"] s
  have "r = int (length [0x4d, 0x61 :: byte])" "take (length [0x4d, 0x61 :: byte]) t' = [0x4d, 0x61]"
    by (simp_all only: b64_room_def) simp_all
  ultimately show ?thesis
    by (intro exI [of _ t'] exI [of _ r]) (simp flip: numeral_2_eq_2)
qed

end
