(* ===== verification/Mongoc_Host.thy ===== *)
theory Mongoc_Host
  imports Bson_Iter
begin

text \<open>
  Host names and ports, \<open>mongoc/mongoc-host-list.c\<close> with \<open>mongoc_parse_port\<close> and \<open>mongoc_lowercase\<close> of
  \<open>mongoc/mongoc-util.c\<close>. From here on a C string (\<open>cstr\<close>) is the list of its characters before the
  terminator, and a chain of \<open>mongoc_host_list_t\<close> is the list of its nodes. The arrays \<open>host\<close> and
  \<open>host_and_port\<close> have 256 and 262 characters; \<open>bson_snprintf\<close> cuts what does not fit. Character
  classes are those of the C locale.
\<close>

section \<open>C strings\<close>

type_synonym cstr = "byte list"

definition cs :: "string \<Rightarrow> cstr" where
  "cs s = map of_char s"

definition c_strchr :: "cstr \<Rightarrow> byte \<Rightarrow> nat option" where
  "c_strchr s c = (let n = length (takeWhile (\<lambda>b. b \<noteq> c) s) in if n < length s then Some n else None)"

fun c_strstr :: "cstr \<Rightarrow> cstr \<Rightarrow> bool" where
  "c_strstr [] needle = (needle = [])"
| "c_strstr (b # hay) needle = (take (length needle) (b # hay) = needle \<or> c_strstr hay needle)"

definition c_isspace :: "byte \<Rightarrow> bool" where
  "c_isspace c \<longleftrightarrow> c = 32 \<or> 9 \<le> c \<and> c \<le> 13"

definition c_isdigit :: "byte \<Rightarrow> bool" where
  "c_isdigit c \<longleftrightarrow> 0x30 \<le> c \<and> c \<le> 0x39"

definition digits_value :: "cstr \<Rightarrow> int" where
  "digits_value s = foldl (\<lambda>n c. n * 10 + uint (c - 0x30)) 0 s"

text \<open>\<open>strtoul (s, NULL, 10)\<close> for a 64-bit \<open>unsigned long\<close>.\<close>

definition c_strtoul :: "cstr \<Rightarrow> int" where
  "c_strtoul s =
     (let s = dropWhile c_isspace s;
          neg = (s \<noteq> [] \<and> hd s = 0x2d);
          s = (if s \<noteq> [] \<and> (hd s = 0x2d \<or> hd s = 0x2b) then tl s else s);
          n = digits_value (takeWhile c_isdigit s) in
      if n > 18446744073709551615 then 18446744073709551615
      else if neg then (18446744073709551616 - n) mod 18446744073709551616 else n)"

function dec_digits :: "int \<Rightarrow> cstr" where
  "dec_digits n =
     (if n < 10 then [0x30 + word_of_int n] else dec_digits (n div 10) @ [0x30 + word_of_int (n mod 10)])"
  by pat_completeness auto
termination
  by (relation "measure nat") auto

declare dec_digits.simps [simp del]

section \<open>Hosts\<close>

datatype af = AF_UNSPEC | AF_UNIX | AF_INET6

record mongoc_host_list =
  hl_host :: cstr
  hl_host_and_port :: cstr
  hl_port :: "16 word"
  hl_family :: af

definition BSON_HOST_NAME_MAX :: nat where
  "BSON_HOST_NAME_MAX = 255"

definition mongoc_lowercase :: "cstr \<Rightarrow> cstr" where
  "mongoc_lowercase s = map (\<lambda>c. if c AND 0x80 = 0 then c_tolower c else c) s"

definition mongoc_parse_port :: "cstr \<Rightarrow> 16 word option" where
  "mongoc_parse_port str =
     (let ul_port = c_strtoul str in
      if ul_port = 0 \<or> ul_port > 65535 then None else Some (word_of_int ul_port))"

text \<open>\<open>bson_snprintf\<close> into \<open>host_and_port\<close> cuts at the size of the array less one.\<close>

definition print_host_and_port :: "cstr \<Rightarrow> cstr" where
  "print_host_and_port s = take (BSON_HOST_NAME_MAX + 6) s"

definition mongoc_host_list_from_hostport ::
  "mongoc_host_list \<Rightarrow> cstr \<Rightarrow> 16 word \<Rightarrow> bool \<times> mongoc_host_list" where
  "mongoc_host_list_from_hostport link host port =
     (let link = link\<lparr>hl_port := port\<rparr> in
      if length host = 0 then (False, link)
      else if length host > BSON_HOST_NAME_MAX then (False, link)
      else if c_strchr host 0x3a \<noteq> None then
        let h = mongoc_lowercase host in
        (True, link\<lparr>hl_family := AF_INET6, hl_host := h,
           hl_host_and_port := print_host_and_port ([0x5b] @ h @ [0x5d, 0x3a] @ dec_digits (uint port))\<rparr>)
      else if c_strchr host 0x2f \<noteq> None \<and> c_strstr host (cs ''.sock'') then
        (True, link\<lparr>hl_family := AF_UNIX, hl_host := host, hl_host_and_port := host\<rparr>)
      else
        let h = mongoc_lowercase host in
        (True, link\<lparr>hl_family := AF_UNSPEC, hl_host := h,
           hl_host_and_port := print_host_and_port (h @ [0x3a] @ dec_digits (uint port))\<rparr>))"

definition mongoc_host_list_from_string ::
  "mongoc_host_list \<Rightarrow> cstr \<Rightarrow> bool \<times> mongoc_host_list" where
  "mongoc_host_list_from_string link address =
     (case c_strchr address 0x5d of
        Some close_bracket \<Rightarrow>
          (let sport = map_option (\<lambda>n. close_bracket + n) (c_strchr (drop close_bracket address) 0x3a);
               host = take (close_bracket - 1) (drop 1 address) in
           if (case sport of None \<Rightarrow> False | Some p \<Rightarrow> p > close_bracket + 1) then (False, link)
           else if sport = None \<and> close_bracket + 1 < length address then (False, link)
           else if hd address \<noteq> 0x5b then (False, link)
           else case sport of
             Some p \<Rightarrow> (case mongoc_parse_port (drop (p + 1) address) of
                 None \<Rightarrow> (False, link)
               | Some port \<Rightarrow> mongoc_host_list_from_hostport link host port)
           | None \<Rightarrow> mongoc_host_list_from_hostport link host 27017)
      | None \<Rightarrow>
          (case c_strchr address 0x3a of
             Some p \<Rightarrow>
               (if p = 0 then (False, link)
                else case mongoc_parse_port (drop (p + 1) address) of
                  None \<Rightarrow> (False, link)
                | Some port \<Rightarrow> mongoc_host_list_from_hostport link (take p address) port)
           | None \<Rightarrow> mongoc_host_list_from_hostport link address 27017))"

text \<open>Chains of hosts are lists.\<close>

definition mongoc_host_list_push ::
  "cstr \<Rightarrow> 16 word \<Rightarrow> af \<Rightarrow> mongoc_host_list list \<Rightarrow> mongoc_host_list list" where
  "mongoc_host_list_push host port family next =
     \<lparr>hl_host = take BSON_HOST_NAME_MAX host,
      hl_host_and_port = print_host_and_port (host @ [0x3a] @ dec_digits (uint port)),
      hl_port = port, hl_family = family\<rparr> # next"

fun mongoc_host_list_upsert :: "mongoc_host_list list \<Rightarrow> mongoc_host_list option \<Rightarrow> mongoc_host_list list" where
  "mongoc_host_list_upsert list None = list"
| "mongoc_host_list_upsert [] (Some new_host) = [new_host]"
| "mongoc_host_list_upsert (h # hs) (Some new_host) =
     (if hl_host_and_port h = hl_host_and_port new_host then new_host # hs
      else h # mongoc_host_list_upsert hs (Some new_host))"

definition mongoc_host_list_copy :: "mongoc_host_list list \<Rightarrow> mongoc_host_list list \<Rightarrow> mongoc_host_list list" where
  "mongoc_host_list_copy src next = (if src = [] then [] else foldl (\<lambda>next h. h # next) next src)"

definition mongoc_host_list_length :: "mongoc_host_list list \<Rightarrow> nat" where
  "mongoc_host_list_length list = foldl (\<lambda>counter _. counter + 1) 0 list"

definition mongoc_host_list_equal :: "mongoc_host_list \<Rightarrow> mongoc_host_list \<Rightarrow> bool" where
  "mongoc_host_list_equal a b \<longleftrightarrow>
     map c_tolower (hl_host_and_port a) = map c_tolower (hl_host_and_port b) \<and> hl_family a = hl_family b"

fun mongoc_host_list_remove_host :: "mongoc_host_list list \<Rightarrow> cstr \<Rightarrow> 16 word \<Rightarrow> mongoc_host_list list" where
  "mongoc_host_list_remove_host [] host port = []"
| "mongoc_host_list_remove_host (h # hs) host port =
     (if hl_port h = port \<and> hl_host h = host then hs else h # mongoc_host_list_remove_host hs host port)"



section \<open>Chains\<close>

lemma upsert_hosts:
  "hl_host_and_port ` set (mongoc_host_list_upsert list (Some h)) = insert (hl_host_and_port h) (hl_host_and_port ` set list)"
  by (induction list "Some h" rule: mongoc_host_list_upsert.induct) auto

lemma upsert_distinct:
  "distinct (map hl_host_and_port list) \<Longrightarrow>
     distinct (map hl_host_and_port (mongoc_host_list_upsert list (Some h))) \<and> h \<in> set (mongoc_host_list_upsert list (Some h))"
proof (induction list "Some h" rule: mongoc_host_list_upsert.induct)
  case (3 g list)
  have "hl_host_and_port g \<notin> hl_host_and_port ` set (mongoc_host_list_upsert list (Some h))"
    if "hl_host_and_port g \<noteq> hl_host_and_port h"
    using 3(2) that by (auto simp only: upsert_hosts) auto
  with 3 show ?case by auto
qed auto

text \<open>\<open>_mongoc_host_list_copy\<close> puts the reversed copy in front of \<open>next\<close>, but with an empty \<open>src\<close> it returns
  \<open>NULL\<close>, not \<open>next\<close>.\<close>

lemma host_list_copy: "mongoc_host_list_copy src next = (if src = [] then [] else rev src @ next)"
proof -
  have "foldl (\<lambda>next h. h # next) next src = rev src @ next"
    by (induction src arbitrary: "next") auto
  then show ?thesis by (simp add: mongoc_host_list_copy_def)
qed

end
