(* ===== verification/Mongoc_Server.thy ===== *)
theory Mongoc_Server
  imports Mongoc_Host
begin

text \<open>
  Server descriptions, \<open>mongoc/mongoc-server-description.c\<close>: what the driver knows about one server,
  and how an \<open>ismaster\<close> reply changes it. A reply is a BSON view and is read with the iterator of
  \<open>Bson_Iter\<close>, field by field as in the C loop; strings that point into the reply (\<open>me\<close>, \<open>set_name\<close>,
  \<open>current_primary\<close>) and the static documents on it (\<open>hosts\<close>, \<open>passives\<close>, \<open>arbiters\<close>, \<open>tags\<close>,
  \<open>compressors\<close>) are held by value. Of an error the domain and the code are kept, not the message.
  64-bit signed fields are \<open>int\<close>.

  The lemmas show that a reply never changes what identifies a server, and that it makes a server a
  replica set member only when it carries the name of the set.
\<close>

section \<open>Documents and strings at this level\<close>

definition bson_empty_view :: bson_view where
  "bson_empty_view = \<lparr>bv_data = [5, 0, 0, 0, 0], bv_len = 5\<rparr>"

text \<open>\<open>bson_copy_to\<close> and \<open>bson_empty\<close> on a view.\<close>

definition bson_view_copy :: "bson_view \<Rightarrow> bson_view outcome" where
  "bson_view_copy v = cbind (rdn (bv_data v) 0 (unat (bv_len v))) (\<lambda>d. Ret \<lparr>bv_data = d, bv_len = bv_len v\<rparr>)"

definition bson_view_empty :: "bson_view \<Rightarrow> bool outcome" where
  "bson_view_empty v = (if bv_len v = 5 then Ret True else cbind (rd8 (bv_data v) 4) (\<lambda>b. Ret (b = 0)))"

definition cstr_at :: "cptr \<Rightarrow> cstr option outcome" where
  "cstr_at p = (case p of
       None \<Rightarrow> Ret None
     | Some m \<Rightarrow> if 0 \<in> set m then Ret (Some (takeWhile (\<lambda>b. b \<noteq> 0) m)) else Fault)"

definition iter_utf8_str :: "bson_iter \<Rightarrow> cstr option outcome" where
  "iter_utf8_str it = cbind (bson_iter_utf8 it) (\<lambda>(p, n). cstr_at p)"

text \<open>\<open>while (bson_iter_next (&iter)) body\<close>, where the body may leave the loop.\<close>

fun iter_while :: "nat \<Rightarrow> (bson_iter \<Rightarrow> 's \<Rightarrow> (bool \<times> 's) outcome) \<Rightarrow> bson_iter \<Rightarrow> 's \<Rightarrow> (bool \<times> 's) outcome" where
  "iter_while 0 body it s = Timeout"
| "iter_while (Suc fuel) body it s =
     cbind (bson_iter_next it) (\<lambda>(r, it).
     if \<not> r then Ret (True, s)
     else cbind (body it s) (\<lambda>(go, s). if go then iter_while fuel body it s else Ret (False, s)))"

definition view_while :: "(bson_iter \<Rightarrow> 's \<Rightarrow> (bool \<times> 's) outcome) \<Rightarrow> bson_view \<Rightarrow> 's \<Rightarrow> (bool \<times> 's) outcome" where
  "view_while body v s = (case bson_iter_init v of (r, it) \<Rightarrow> c_assert r (iter_while (iter_fuel it) body it s))"

definition c_strcasecmp_0 :: "cstr option \<Rightarrow> cstr option \<Rightarrow> bool outcome" where
  "c_strcasecmp_0 a b = (case (a, b) of
       (Some s, Some t) \<Rightarrow> Ret (map c_tolower s = map c_tolower t)
     | _ \<Rightarrow> Fault)"

section \<open>Server descriptions\<close>

datatype sd_type =
    MONGOC_SERVER_UNKNOWN | MONGOC_SERVER_STANDALONE | MONGOC_SERVER_MONGOS
  | MONGOC_SERVER_POSSIBLE_PRIMARY | MONGOC_SERVER_RS_PRIMARY | MONGOC_SERVER_RS_SECONDARY
  | MONGOC_SERVER_RS_ARBITER | MONGOC_SERVER_RS_OTHER | MONGOC_SERVER_RS_GHOST

record bson_error =
  err_domain :: nat
  err_code :: nat

definition no_error :: bson_error where
  "no_error = \<lparr>err_domain = 0, err_code = 0\<rparr>"

definition MONGOC_ERROR_CLIENT :: nat where "MONGOC_ERROR_CLIENT = 1"
definition MONGOC_ERROR_STREAM :: nat where "MONGOC_ERROR_STREAM = 2"
definition MONGOC_ERROR_PROTOCOL :: nat where "MONGOC_ERROR_PROTOCOL = 3"
definition MONGOC_ERROR_STREAM_CONNECT :: nat where "MONGOC_ERROR_STREAM_CONNECT = 5"
definition MONGOC_ERROR_CLIENT_AUTHENTICATE :: nat where "MONGOC_ERROR_CLIENT_AUTHENTICATE = 11"
definition MONGOC_ERROR_PROTOCOL_BAD_WIRE_VERSION :: nat where "MONGOC_ERROR_PROTOCOL_BAD_WIRE_VERSION = 15"
definition MONGOC_NO_SESSIONS :: int where "MONGOC_NO_SESSIONS = - 1"
definition MONGOC_NO_SET_VERSION :: int where "MONGOC_NO_SET_VERSION = - 1"

definition kObjectIdZero :: oid where
  "kObjectIdZero = replicate 12 0"

record server_description =
  sd_id :: u32
  sd_host :: mongoc_host_list
  sd_rtt :: int
  sd_last_update :: int
  sd_last_is_master :: bson_view
  sd_has_is_master :: bool
  sd_connection_address :: "cstr option"
  sd_me :: "cstr option"
  sd_opened :: bool
  sd_set_name :: "cstr option"
  sd_error :: bson_error
  sd_type :: sd_type
  sd_min_wire_version :: int
  sd_max_wire_version :: int
  sd_max_msg_size :: int
  sd_max_bson_obj_size :: int
  sd_max_write_batch_size :: int
  sd_session_timeout :: int
  sd_hosts :: bson_view
  sd_passives :: bson_view
  sd_arbiters :: bson_view
  sd_tags :: bson_view
  sd_current_primary :: "cstr option"
  sd_set_version :: int
  sd_election_id :: oid
  sd_last_write_date_ms :: int
  sd_compressors :: bson_view

text \<open>
  What the handlers take from the outside: the monotonic clock, and the value of the \<open>double\<close>
  expression \<open>ALPHA * rtt_msec + (1 - ALPHA) * round_trip_time_msec\<close> as an \<open>int64_t\<close>.
\<close>

record sdam_env =
  env_now :: int
  env_average :: "int \<Rightarrow> int \<Rightarrow> int"

text \<open>The bytes of a fresh \<open>bson_malloc0\<close>.\<close>

definition sd_zero :: server_description where
  "sd_zero = \<lparr>sd_id = 0, sd_host = \<lparr>hl_host = [], hl_host_and_port = [], hl_port = 0, hl_family = AF_UNSPEC\<rparr>,
     sd_rtt = 0, sd_last_update = 0, sd_last_is_master = \<lparr>bv_data = [], bv_len = 0\<rparr>, sd_has_is_master = False,
     sd_connection_address = None, sd_me = None, sd_opened = False, sd_set_name = None, sd_error = no_error,
     sd_type = MONGOC_SERVER_UNKNOWN, sd_min_wire_version = 0, sd_max_wire_version = 0, sd_max_msg_size = 0,
     sd_max_bson_obj_size = 0, sd_max_write_batch_size = 0, sd_session_timeout = 0,
     sd_hosts = \<lparr>bv_data = [], bv_len = 0\<rparr>, sd_passives = \<lparr>bv_data = [], bv_len = 0\<rparr>,
     sd_arbiters = \<lparr>bv_data = [], bv_len = 0\<rparr>, sd_tags = \<lparr>bv_data = [], bv_len = 0\<rparr>,
     sd_current_primary = None, sd_set_version = 0, sd_election_id = kObjectIdZero,
     sd_last_write_date_ms = 0, sd_compressors = \<lparr>bv_data = [], bv_len = 0\<rparr>\<rparr>"

definition mongoc_server_description_reset :: "sdam_env \<Rightarrow> server_description \<Rightarrow> server_description" where
  "mongoc_server_description_reset env sd = sd\<lparr>
     sd_error := no_error, sd_set_name := None, sd_type := MONGOC_SERVER_UNKNOWN,
     sd_min_wire_version := 0, sd_max_wire_version := 0, sd_max_msg_size := 48000000,
     sd_max_bson_obj_size := 16 * 1024 * 1024, sd_max_write_batch_size := 1000,
     sd_session_timeout := MONGOC_NO_SESSIONS, sd_last_write_date_ms := - 1,
     sd_last_is_master := bson_empty_view, sd_has_is_master := False, sd_last_update := env_now env,
     sd_hosts := bson_empty_view, sd_passives := bson_empty_view, sd_arbiters := bson_empty_view,
     sd_tags := bson_empty_view, sd_compressors := bson_empty_view,
     sd_me := None, sd_current_primary := None, sd_set_version := MONGOC_NO_SET_VERSION,
     sd_election_id := kObjectIdZero\<rparr>"

definition mongoc_server_description_init ::
  "sdam_env \<Rightarrow> server_description \<Rightarrow> cstr \<Rightarrow> u32 \<Rightarrow> server_description" where
  "mongoc_server_description_init env sd address key =
     (let sd = sd\<lparr>sd_id := key, sd_type := MONGOC_SERVER_UNKNOWN, sd_rtt := - 1\<rparr> in
      case mongoc_host_list_from_string (sd_host sd) address of
        (ok, host) \<Rightarrow>
          let sd = sd\<lparr>sd_host := host\<rparr> in
          if \<not> ok then sd
          else mongoc_server_description_reset env
            (sd\<lparr>sd_connection_address := Some (hl_host_and_port host),
                sd_last_is_master := bson_empty_view, sd_hosts := bson_empty_view,
                sd_passives := bson_empty_view, sd_arbiters := bson_empty_view,
                sd_tags := bson_empty_view, sd_compressors := bson_empty_view\<rparr>))"

definition mongoc_server_description_has_set_version :: "server_description \<Rightarrow> bool" where
  "mongoc_server_description_has_set_version sd \<longleftrightarrow> sd_set_version sd \<noteq> MONGOC_NO_SET_VERSION"

definition mongoc_server_description_has_election_id :: "server_description \<Rightarrow> bool" where
  "mongoc_server_description_has_election_id sd \<longleftrightarrow> bson_oid_compare (sd_election_id sd) kObjectIdZero \<noteq> 0"

definition mongoc_server_description_set_state :: "server_description \<Rightarrow> sd_type \<Rightarrow> server_description" where
  "mongoc_server_description_set_state sd t = sd\<lparr>sd_type := t\<rparr>"

definition mongoc_server_description_set_set_version :: "server_description \<Rightarrow> int \<Rightarrow> server_description" where
  "mongoc_server_description_set_set_version sd v = sd\<lparr>sd_set_version := v\<rparr>"

definition mongoc_server_description_set_election_id ::
  "server_description \<Rightarrow> oid option \<Rightarrow> server_description" where
  "mongoc_server_description_set_election_id sd eid =
     (case eid of Some i \<Rightarrow> sd\<lparr>sd_election_id := i\<rparr> | None \<Rightarrow> sd\<lparr>sd_election_id := kObjectIdZero\<rparr>)"

definition mongoc_server_description_update_rtt ::
  "sdam_env \<Rightarrow> server_description \<Rightarrow> int \<Rightarrow> server_description" where
  "mongoc_server_description_update_rtt env sd rtt_msec =
     sd\<lparr>sd_rtt := (if sd_rtt sd = - 1 then rtt_msec else env_average env rtt_msec (sd_rtt sd))\<rparr>"

definition mongoc_server_description_set_error ::
  "server_description \<Rightarrow> bson_error option \<Rightarrow> server_description" where
  "mongoc_server_description_set_error sd error =
     sd\<lparr>sd_error := (case error of
           Some e \<Rightarrow> if err_code e \<noteq> 0 then e
                     else \<lparr>err_domain = MONGOC_ERROR_STREAM, err_code = MONGOC_ERROR_STREAM_CONNECT\<rparr>
         | None \<Rightarrow> \<lparr>err_domain = MONGOC_ERROR_STREAM, err_code = MONGOC_ERROR_STREAM_CONNECT\<rparr>),
        sd_rtt := - 1\<rparr>"

definition rs_member_body :: "cstr option \<Rightarrow> bson_iter \<Rightarrow> bool \<Rightarrow> (bool \<times> bool) outcome" where
  "rs_member_body address it found =
     cbind (iter_utf8_str it) (\<lambda>s. cbind (c_strcasecmp_0 address s) (\<lambda>eq. Ret (\<not> eq, eq)))"

primrec rs_member_loop :: "cstr option \<Rightarrow> bson_view list \<Rightarrow> bool outcome" where
  "rs_member_loop address [] = Ret False"
| "rs_member_loop address (v # vs) =
     cbind (view_while (rs_member_body address) v False) (\<lambda>(_, found).
     if found then Ret True else rs_member_loop address vs)"

definition mongoc_server_description_has_rs_member ::
  "server_description \<Rightarrow> cstr option \<Rightarrow> bool outcome" where
  "mongoc_server_description_has_rs_member sd address =
     (if sd_type sd \<noteq> MONGOC_SERVER_UNKNOWN
      then rs_member_loop address [sd_hosts sd, sd_arbiters sd, sd_passives sd]
      else Ret False)"

section \<open>Reading an \<open>ismaster\<close> reply\<close>

record ismaster_state =
  im_sd :: server_description
  im_is_master :: bool
  im_is_shard :: bool
  im_is_secondary :: bool
  im_is_arbiter :: bool
  im_is_replicaset :: bool
  im_is_hidden :: bool
  im_num_keys :: nat

definition holds :: "byte \<Rightarrow> bson_iter \<Rightarrow> ismaster_state \<Rightarrow> (bool \<times> ismaster_state) outcome \<Rightarrow> (bool \<times> ismaster_state) outcome" where
  "holds t it s k = cbind (bson_iter_type it) (\<lambda>u. if u = t then k else Ret (False, s))"

definition im_upd :: "(server_description \<Rightarrow> server_description) \<Rightarrow> ismaster_state \<Rightarrow> (bool \<times> ismaster_state) outcome" where
  "im_upd f s = Ret (True, s\<lparr>im_sd := f (im_sd s)\<rparr>)"

text \<open>\<open>bson_iter_array\<close> or \<open>bson_iter_document\<close>, then \<open>BSON_ASSERT (bson_init_static (...))\<close>.\<close>

definition im_static :: "(u32 \<times> cptr) outcome \<Rightarrow> (bson_view \<Rightarrow> (bool \<times> ismaster_state) outcome) \<Rightarrow> (bool \<times> ismaster_state) outcome" where
  "im_static sub k = cbind sub (\<lambda>(len, bytes). cbind (cptr_mem bytes) (\<lambda>m.
     cbind (bson_init_static m (unat len)) (\<lambda>v. case v of None \<Rightarrow> Abort | Some v \<Rightarrow> k v)))"

definition im_lastwrite :: "bson_iter \<Rightarrow> ismaster_state \<Rightarrow> (bool \<times> ismaster_state) outcome" where
  "im_lastwrite it s =
     holds BSON_TYPE_DOCUMENT it s (cbind (bson_iter_recurse it) (\<lambda>child. case child of
       None \<Rightarrow> Ret (False, s)
     | Some child \<Rightarrow> cbind (bson_iter_find child (cs ''lastWriteDate'' @ [0])) (\<lambda>(found, child).
         if \<not> found then Ret (False, s)
         else holds BSON_TYPE_DATE_TIME child s (cbind (bson_iter_date_time child) (\<lambda>d.
           im_upd (\<lambda>sd. sd\<lparr>sd_last_write_date_ms := sint d\<rparr>) s)))))"

definition ismaster_field :: "bson_iter \<Rightarrow> ismaster_state \<Rightarrow> (bool \<times> ismaster_state) outcome" where
  "ismaster_field it s0 =
     (let s = s0\<lparr>im_num_keys := im_num_keys s0 + 1\<rparr> in
      cbind (bson_iter_key it) (\<lambda>kp. cbind (cstr_at kp) (\<lambda>key.
      if key = Some (cs ''ok'') then cbind (bson_iter_as_bool it) (\<lambda>b.
        if \<not> b then Ret (False, s\<lparr>im_sd := im_sd s\<lparr>sd_error :=
            \<lparr>err_domain = MONGOC_ERROR_CLIENT, err_code = MONGOC_ERROR_CLIENT_AUTHENTICATE\<rparr>\<rparr>\<rparr>)
        else Ret (True, s))
      else if key = Some (cs ''ismaster'') then
        holds BSON_TYPE_BOOL it s (cbind (bson_iter_bool it) (\<lambda>b. Ret (True, s\<lparr>im_is_master := b\<rparr>)))
      else if key = Some (cs ''me'') then
        holds BSON_TYPE_UTF8 it s (cbind (iter_utf8_str it) (\<lambda>t. im_upd (\<lambda>sd. sd\<lparr>sd_me := t\<rparr>) s))
      else if key = Some (cs ''maxMessageSizeBytes'') then
        holds BSON_TYPE_INT32 it s (cbind (bson_iter_int32 it) (\<lambda>n. im_upd (\<lambda>sd. sd\<lparr>sd_max_msg_size := sint n\<rparr>) s))
      else if key = Some (cs ''maxBsonObjectSize'') then
        holds BSON_TYPE_INT32 it s (cbind (bson_iter_int32 it) (\<lambda>n. im_upd (\<lambda>sd. sd\<lparr>sd_max_bson_obj_size := sint n\<rparr>) s))
      else if key = Some (cs ''maxWriteBatchSize'') then
        holds BSON_TYPE_INT32 it s (cbind (bson_iter_int32 it) (\<lambda>n. im_upd (\<lambda>sd. sd\<lparr>sd_max_write_batch_size := sint n\<rparr>) s))
      else if key = Some (cs ''logicalSessionTimeoutMinutes'') then
        cbind (bson_iter_type it) (\<lambda>t.
        if t \<in> {BSON_TYPE_INT32, BSON_TYPE_INT64, BSON_TYPE_DOUBLE} then
          cbind (bson_iter_as_int64 it) (\<lambda>n. im_upd (\<lambda>sd. sd\<lparr>sd_session_timeout := sint n\<rparr>) s)
        else if t = BSON_TYPE_NULL then im_upd (\<lambda>sd. sd\<lparr>sd_session_timeout := MONGOC_NO_SESSIONS\<rparr>) s
        else Ret (False, s))
      else if key = Some (cs ''minWireVersion'') then
        holds BSON_TYPE_INT32 it s (cbind (bson_iter_int32 it) (\<lambda>n. im_upd (\<lambda>sd. sd\<lparr>sd_min_wire_version := sint n\<rparr>) s))
      else if key = Some (cs ''maxWireVersion'') then
        holds BSON_TYPE_INT32 it s (cbind (bson_iter_int32 it) (\<lambda>n. im_upd (\<lambda>sd. sd\<lparr>sd_max_wire_version := sint n\<rparr>) s))
      else if key = Some (cs ''msg'') then
        holds BSON_TYPE_UTF8 it s (cbind (iter_utf8_str it) (\<lambda>t. Ret (True, s\<lparr>im_is_shard := t \<noteq> None\<rparr>)))
      else if key = Some (cs ''setName'') then
        holds BSON_TYPE_UTF8 it s (cbind (iter_utf8_str it) (\<lambda>t. im_upd (\<lambda>sd. sd\<lparr>sd_set_name := t\<rparr>) s))
      else if key = Some (cs ''setVersion'') then
        cbind (bson_iter_as_int64 it) (\<lambda>n. im_upd (\<lambda>sd. mongoc_server_description_set_set_version sd (sint n)) s)
      else if key = Some (cs ''electionId'') then
        holds BSON_TYPE_OID it s (cbind (bson_iter_oid it) (\<lambda>p. cbind (cptr_mem p) (\<lambda>m. cbind (rdn m 0 12) (\<lambda>oid.
          im_upd (\<lambda>sd. mongoc_server_description_set_election_id sd (Some oid)) s))))
      else if key = Some (cs ''secondary'') then
        holds BSON_TYPE_BOOL it s (cbind (bson_iter_bool it) (\<lambda>b. Ret (True, s\<lparr>im_is_secondary := b\<rparr>)))
      else if key = Some (cs ''hosts'') then
        holds BSON_TYPE_ARRAY it s (im_static (bson_iter_array it) (\<lambda>v. im_upd (\<lambda>sd. sd\<lparr>sd_hosts := v\<rparr>) s))
      else if key = Some (cs ''passives'') then
        holds BSON_TYPE_ARRAY it s (im_static (bson_iter_array it) (\<lambda>v. im_upd (\<lambda>sd. sd\<lparr>sd_passives := v\<rparr>) s))
      else if key = Some (cs ''arbiters'') then
        holds BSON_TYPE_ARRAY it s (im_static (bson_iter_array it) (\<lambda>v. im_upd (\<lambda>sd. sd\<lparr>sd_arbiters := v\<rparr>) s))
      else if key = Some (cs ''primary'') then
        holds BSON_TYPE_UTF8 it s (cbind (iter_utf8_str it) (\<lambda>t. im_upd (\<lambda>sd. sd\<lparr>sd_current_primary := t\<rparr>) s))
      else if key = Some (cs ''arbiterOnly'') then
        holds BSON_TYPE_BOOL it s (cbind (bson_iter_bool it) (\<lambda>b. Ret (True, s\<lparr>im_is_arbiter := b\<rparr>)))
      else if key = Some (cs ''isreplicaset'') then
        holds BSON_TYPE_BOOL it s (cbind (bson_iter_bool it) (\<lambda>b. Ret (True, s\<lparr>im_is_replicaset := b\<rparr>)))
      else if key = Some (cs ''tags'') then
        holds BSON_TYPE_DOCUMENT it s (im_static (bson_iter_document it) (\<lambda>v. im_upd (\<lambda>sd. sd\<lparr>sd_tags := v\<rparr>) s))
      else if key = Some (cs ''hidden'') then
        cbind (bson_iter_bool it) (\<lambda>b. Ret (True, s\<lparr>im_is_hidden := b\<rparr>))
      else if key = Some (cs ''lastWrite'') then im_lastwrite it s
      else if key = Some (cs ''idleWritePeriodMillis'') then
        cbind (bson_iter_as_int64 it) (\<lambda>n. im_upd (\<lambda>sd. sd\<lparr>sd_last_write_date_ms := sint n\<rparr>) s)
      else if key = Some (cs ''compression'') then
        holds BSON_TYPE_ARRAY it s (im_static (bson_iter_array it) (\<lambda>v. im_upd (\<lambda>sd. sd\<lparr>sd_compressors := v\<rparr>) s))
      else Ret (True, s))))"

definition ismaster_type :: "ismaster_state \<Rightarrow> sd_type" where
  "ismaster_type s =
     (if im_is_shard s then MONGOC_SERVER_MONGOS
      else if sd_set_name (im_sd s) \<noteq> None then
        (if im_is_hidden s then MONGOC_SERVER_RS_OTHER
         else if im_is_master s then MONGOC_SERVER_RS_PRIMARY
         else if im_is_secondary s then MONGOC_SERVER_RS_SECONDARY
         else if im_is_arbiter s then MONGOC_SERVER_RS_ARBITER
         else MONGOC_SERVER_RS_OTHER)
      else if im_is_replicaset s then MONGOC_SERVER_RS_GHOST
      else if im_num_keys s > 0 then MONGOC_SERVER_STANDALONE
      else MONGOC_SERVER_UNKNOWN)"

definition mongoc_server_description_handle_ismaster ::
  "sdam_env \<Rightarrow> server_description \<Rightarrow> bson_view option \<Rightarrow> int \<Rightarrow> bson_error option \<Rightarrow> server_description outcome" where
  "mongoc_server_description_handle_ismaster env sd reply rtt_msec error =
     (let sd = mongoc_server_description_reset env sd in
      case reply of
        None \<Rightarrow> Ret (mongoc_server_description_set_error sd error)
      | Some reply \<Rightarrow>
          cbind (bson_view_copy reply) (\<lambda>copy.
          let sd = sd\<lparr>sd_last_is_master := copy, sd_has_is_master := True\<rparr> in
          cbind (view_while ismaster_field copy
            \<lparr>im_sd = sd, im_is_master = False, im_is_shard = False, im_is_secondary = False,
             im_is_arbiter = False, im_is_replicaset = False, im_is_hidden = False, im_num_keys = 0\<rparr>) (\<lambda>(ok, s).
          if \<not> ok then Ret ((im_sd s)\<lparr>sd_type := MONGOC_SERVER_UNKNOWN, sd_rtt := - 1\<rparr>)
          else
            let sd = (im_sd s)\<lparr>sd_type := ismaster_type s\<rparr>;
                sd = (if im_num_keys s = 0 then mongoc_server_description_set_error sd error else sd) in
            Ret (mongoc_server_description_update_rtt env sd rtt_msec))))"

definition mongoc_server_description_new_copy :: "sdam_env \<Rightarrow> server_description \<Rightarrow> server_description outcome" where
  "mongoc_server_description_new_copy env sd =
     (let copy = sd_zero\<lparr>sd_id := sd_id sd, sd_opened := sd_opened sd, sd_host := sd_host sd, sd_rtt := - 1,
            sd_connection_address := Some (hl_host_and_port (sd_host sd)),
            sd_last_is_master := bson_empty_view, sd_hosts := bson_empty_view, sd_passives := bson_empty_view,
            sd_arbiters := bson_empty_view, sd_tags := bson_empty_view, sd_compressors := bson_empty_view\<rparr> in
      cbind (if sd_has_is_master sd
             then mongoc_server_description_handle_ismaster env copy (Some (sd_last_is_master sd)) (sd_rtt sd) (Some (sd_error sd))
             else Ret (mongoc_server_description_reset env copy))
        (\<lambda>copy. Ret (copy\<lparr>sd_error := sd_error sd\<rparr>)))"


section \<open>Lemmas\<close>

text \<open>Every state that a computation can return satisfies \<open>P\<close>.\<close>

definition ends :: "('a \<Rightarrow> bool) \<Rightarrow> 'a outcome \<Rightarrow> bool" where
  "ends P m \<longleftrightarrow> (\<forall>x. m = Ret x \<longrightarrow> P x)"

named_theorems ends_intro \<comment> \<open>rules that push \<open>ends\<close> into a computation\<close>

lemma endsD: "ends P m \<Longrightarrow> m = Ret x \<Longrightarrow> P x"
  by (simp add: ends_def)

lemma ends_Ret [ends_intro]: "P x \<Longrightarrow> ends P (Ret x)"
  and ends_Abort [ends_intro]: "ends P Abort"
  and ends_Fault [ends_intro]: "ends P Fault"
  and ends_cbind [ends_intro]: "(\<And>x. ends P (k x)) \<Longrightarrow> ends P (cbind m k)"
  and ends_assert [ends_intro]: "ends P m' \<Longrightarrow> ends P (c_assert b m')"
  and ends_if [ends_intro]: "(b \<Longrightarrow> ends P m1) \<Longrightarrow> (\<not> b \<Longrightarrow> ends P m2) \<Longrightarrow> ends P (if b then m1 else m2)"
  by (auto simp: ends_def c_assert_def)

lemma ends_prod [ends_intro]: "(\<And>a b. x = (a, b) \<Longrightarrow> ends P (k a b)) \<Longrightarrow> ends P (case x of (a, b) \<Rightarrow> k a b)"
  by (cases x) simp

lemma ends_option [ends_intro]:
  "ends P m \<Longrightarrow> (\<And>y. x = Some y \<Longrightarrow> ends P (k y)) \<Longrightarrow> ends P (case x of None \<Rightarrow> m | Some y \<Rightarrow> k y)"
  by (cases x) simp_all

lemma iter_while_ends:
  assumes "\<And>it s. I s \<Longrightarrow> ends (\<lambda>(go, s'). I s') (body it s)" "I s"
  shows "ends (\<lambda>(ok, s'). I s') (iter_while fuel body it s)"
  using assms(2)
proof (induction fuel arbitrary: it s)
  case 0
  then show ?case by (simp add: ends_def)
next
  case (Suc fuel)
  have "ends (\<lambda>(ok, s'). I s') (case x of (go, s) \<Rightarrow> if go then iter_while fuel body it' s else Ret (False, s))"
    if "body it' s = Ret x" for x it'
    using endsD [OF assms(1) [OF Suc.prems] that] Suc.IH by (auto intro: ends_Ret)
  then have step: "ends (\<lambda>(ok, s'). I s') (cbind (body it' s) (\<lambda>(go, s). if go then iter_while fuel body it' s else Ret (False, s)))" for it'
    by (cases "body it' s") (simp_all add: ends_def)
  show ?case unfolding iter_while.simps
    by (rule ends_cbind, rule ends_prod, rule ends_if, rule ends_Ret, simp add: Suc.prems, rule step)
qed

lemma view_while_ends:
  assumes "\<And>it s. I s \<Longrightarrow> ends (\<lambda>(go, s'). I s') (body it s)" "I s"
  shows "ends (\<lambda>(ok, s'). I s') (view_while body v s)"
  unfolding view_while_def by (intro ends_intro iter_while_ends assms)

text \<open>What identifies a server is not touched by its replies.\<close>

definition sd_same :: "server_description \<Rightarrow> server_description \<Rightarrow> bool" where
  "sd_same sd sd' \<longleftrightarrow> sd_id sd' = sd_id sd \<and> sd_connection_address sd' = sd_connection_address sd \<and>
     sd_host sd' = sd_host sd \<and> sd_opened sd' = sd_opened sd"

lemma holds_ends: "P (False, s) \<Longrightarrow> ends P k \<Longrightarrow> ends P (holds t it s k)"
  unfolding holds_def by (intro ends_intro)

lemma im_upd_ends: "P (True, s\<lparr>im_sd := f (im_sd s)\<rparr>) \<Longrightarrow> ends P (im_upd f s)"
  by (simp add: im_upd_def ends_def)

lemma im_static_ends: "(\<And>v. ends P (k v)) \<Longrightarrow> ends P (im_static sub k)"
  unfolding im_static_def by (intro ends_intro)

lemma ismaster_field_same:
  assumes "sd_same sd (im_sd s)"
  shows "ends (\<lambda>(go, s'). sd_same sd (im_sd s')) (ismaster_field it s)"
  using assms unfolding ismaster_field_def Let_def im_lastwrite_def
  by (intro ends_intro holds_ends im_upd_ends im_static_ends)
    (simp_all add: sd_same_def mongoc_server_description_set_set_version_def
       mongoc_server_description_set_election_id_def)


lemma handle_ismaster_same:
  "ends (sd_same sd) (mongoc_server_description_handle_ismaster env sd reply rtt error)"
proof -
  have w: "ends (\<lambda>(ok, s'). sd_same sd (im_sd s'))
     (view_while ismaster_field v
        \<lparr>im_sd = (mongoc_server_description_reset env sd)\<lparr>sd_last_is_master := v, sd_has_is_master := True\<rparr>,
         im_is_master = False, im_is_shard = False, im_is_secondary = False, im_is_arbiter = False,
         im_is_replicaset = False, im_is_hidden = False, im_num_keys = 0\<rparr>)" for v
    by (intro view_while_ends ismaster_field_same)
      (simp_all add: sd_same_def mongoc_server_description_reset_def)
  have "sd_same sd sd'" if "mongoc_server_description_handle_ismaster env sd reply rtt error = Ret sd'" for sd'
  proof (cases reply)
    case None
    with that show ?thesis
      by (auto simp: mongoc_server_description_handle_ismaster_def Let_def sd_same_def
          mongoc_server_description_set_error_def mongoc_server_description_reset_def)
  next
    case (Some v)
    with that obtain ok s where s: "sd_same sd (im_sd s)" and
      "sd' = (if \<not> ok then (im_sd s)\<lparr>sd_type := MONGOC_SERVER_UNKNOWN, sd_rtt := - 1\<rparr>
              else mongoc_server_description_update_rtt env
                (if im_num_keys s = 0
                 then mongoc_server_description_set_error ((im_sd s)\<lparr>sd_type := ismaster_type s\<rparr>) error
                 else (im_sd s)\<lparr>sd_type := ismaster_type s\<rparr>) rtt)"
      using endsD [OF w]
      by (fastforce simp: mongoc_server_description_handle_ismaster_def Let_def split: if_splits)
    with s show ?thesis
      by (auto simp: sd_same_def mongoc_server_description_update_rtt_def mongoc_server_description_set_error_def)
  qed
  then show ?thesis by (simp add: ends_def)
qed

text \<open>A reply makes a server a member of a replica set only when it names the set.\<close>

definition sd_named :: "server_description \<Rightarrow> bool" where
  "sd_named sd \<longleftrightarrow> sd_type sd \<in> {MONGOC_SERVER_RS_PRIMARY, MONGOC_SERVER_RS_SECONDARY, MONGOC_SERVER_RS_ARBITER,
     MONGOC_SERVER_RS_OTHER} \<longrightarrow> sd_set_name sd \<noteq> None"

lemma handle_ismaster_named:
  "ends (\<lambda>sd'. sd_named sd' \<and> sd_type sd' \<noteq> MONGOC_SERVER_POSSIBLE_PRIMARY \<and>
      (reply = None \<longrightarrow> sd_type sd' = MONGOC_SERVER_UNKNOWN))
     (mongoc_server_description_handle_ismaster env sd reply rtt error)"
proof (cases reply)
  case None
  then show ?thesis
    by (simp add: mongoc_server_description_handle_ismaster_def Let_def ends_def sd_named_def
          mongoc_server_description_set_error_def mongoc_server_description_reset_def)
next
  case (Some v)
  have t: "sd_named (sd\<lparr>sd_type := ismaster_type s\<rparr>) \<and> ismaster_type s \<noteq> MONGOC_SERVER_POSSIBLE_PRIMARY"
    if "sd_set_name sd = sd_set_name (im_sd s)" for sd s
    using that by (auto simp: sd_named_def ismaster_type_def)
  show ?thesis
    unfolding mongoc_server_description_handle_ismaster_def Let_def Some option.case
    by (intro ends_intro)
      (auto simp: sd_named_def mongoc_server_description_update_rtt_def
        mongoc_server_description_set_error_def ismaster_type_def)
qed

end
