(* ===== verification/Mongoc_Set.thy ===== *)
theory Mongoc_Set
  imports Bson_Prelude
begin

text \<open>
  The sorted set of items with an id, \<open>mongoc/mongoc-set.c\<close>. The array is the list of its initialised
  items, \<open>items_len\<close> its length and \<open>set_allocated\<close> its capacity: a store past the capacity is a
  \<open>Fault\<close>. Items are pointers of a type \<open>'p\<close>; the destructor and the callbacks act on a state that the
  caller chooses (\<open>dtor_ctx\<close>, \<open>ctx\<close> and whatever they reach).

  \<open>c_qsort\<close> and \<open>c_bsearch\<close> are \<open>qsort\<close> and \<open>bsearch\<close> of the C library. C leaves the order of equal elements
  to \<open>qsort\<close>; the model is stable, and the lemmas are about items with distinct ids.

  The locale \<open>id_map\<close> states the contract (a map from ids to items, as long as new ids are fresh), and is
  interpreted on the model.
\<close>

section \<open>The C library functions the set calls\<close>

fun c_qinsert :: "('a \<Rightarrow> 'a \<Rightarrow> int) \<Rightarrow> 'a \<Rightarrow> 'a list \<Rightarrow> 'a list" where
  "c_qinsert cmp x [] = [x]"
| "c_qinsert cmp x (y # ys) = (if cmp x y \<le> 0 then x # y # ys else y # c_qinsert cmp x ys)"

definition c_qsort :: "('a \<Rightarrow> 'a \<Rightarrow> int) \<Rightarrow> 'a list \<Rightarrow> 'a list" where
  "c_qsort cmp xs = foldr (c_qinsert cmp) xs []"

function c_bsearch :: "('a \<Rightarrow> int) \<Rightarrow> 'a list \<Rightarrow> nat \<Rightarrow> nat \<Rightarrow> nat option" where
  "c_bsearch cmp xs l u =
     (if l < u then
        let idx = (l + u) div 2; r = cmp (xs ! idx) in
        if r < 0 then c_bsearch cmp xs l idx
        else if 0 < r then c_bsearch cmp xs (idx + 1) u
        else Some idx
      else None)"
  by pat_completeness auto
termination
  by (relation "measure (\<lambda>(_, _, l, u). u - l)") auto

declare c_bsearch.simps [simp del]

section \<open>The set\<close>

type_synonym 'p set_item = "u32 \<times> 'p"

record ('p, 's) mongoc_set =
  set_items :: "'p set_item list"
  set_allocated :: nat
  set_dtor :: "('p \<Rightarrow> 's \<Rightarrow> 's outcome) option"

abbreviation items_len :: "('p, 's) mongoc_set \<Rightarrow> nat" where
  "items_len s \<equiv> length (set_items s)"

definition mongoc_set_new :: "nat \<Rightarrow> ('p \<Rightarrow> 's \<Rightarrow> 's outcome) option \<Rightarrow> ('p, 's) mongoc_set" where
  "mongoc_set_new nitems dtor = \<lparr>set_items = [], set_allocated = nitems, set_dtor = dtor\<rparr>"

definition mongoc_set_id_cmp :: "'p set_item \<Rightarrow> 'q set_item \<Rightarrow> int" where
  "mongoc_set_id_cmp a b = (if fst a = fst b then 0 else if fst a < fst b then - 1 else 1)"

definition mongoc_set_add :: "('p, 's) mongoc_set \<Rightarrow> u32 \<Rightarrow> 'p \<Rightarrow> ('p, 's) mongoc_set outcome" where
  "mongoc_set_add s key item =
     (let n = items_len s;
          alloc = (if set_allocated s \<le> n then set_allocated s * 2 else set_allocated s) in
      if n < alloc then
        let items = set_items s @ [(key, item)] in
        Ret (s\<lparr>set_items := (if 1 < length items \<and> key < fst (items ! (length items - 2))
                              then c_qsort mongoc_set_id_cmp items else items),
               set_allocated := alloc\<rparr>)
      else Fault)"

definition set_search :: "('p, 's) mongoc_set \<Rightarrow> u32 \<Rightarrow> nat option" where
  "set_search s key = c_bsearch (mongoc_set_id_cmp (key, ())) (set_items s) 0 (items_len s)"

definition run_dtor :: "('p, 's) mongoc_set \<Rightarrow> 'p \<Rightarrow> 's \<Rightarrow> 's outcome" where
  "run_dtor s item st = (case set_dtor s of None \<Rightarrow> Ret st | Some dtor \<Rightarrow> dtor item st)"

definition mongoc_set_rm :: "('p, 's) mongoc_set \<Rightarrow> u32 \<Rightarrow> 's \<Rightarrow> (('p, 's) mongoc_set \<times> 's) outcome" where
  "mongoc_set_rm s key st = (case set_search s key of
       None \<Rightarrow> Ret (s, st)
     | Some i \<Rightarrow>
         cbind (run_dtor s (snd (set_items s ! i)) st) (\<lambda>st.
         let n = items_len s;
             items = (if i \<noteq> n - 1 then take i (set_items s) @ drop (i + 1) (set_items s) @ [last (set_items s)]
                      else set_items s) in
         Ret (s\<lparr>set_items := take (n - 1) items\<rparr>, st)))"

definition mongoc_set_get :: "('p, 's) mongoc_set \<Rightarrow> u32 \<Rightarrow> 'p option" where
  "mongoc_set_get s key = map_option (\<lambda>i. snd (set_items s ! i)) (set_search s key)"

definition mongoc_set_get_item_and_id :: "('p, 's) mongoc_set \<Rightarrow> int \<Rightarrow> 'p set_item outcome" where
  "mongoc_set_get_item_and_id s idx =
     c_assert (0 \<le> idx \<and> idx < int (items_len s)) (Ret (set_items s ! nat idx))"

definition mongoc_set_get_item :: "('p, 's) mongoc_set \<Rightarrow> int \<Rightarrow> 'p outcome" where
  "mongoc_set_get_item s idx =
     c_assert (0 \<le> idx \<and> idx < int (items_len s)) (Ret (snd (set_items s ! nat idx)))"

primrec destroy_items :: "('p \<Rightarrow> 's \<Rightarrow> 's outcome) \<Rightarrow> 'p set_item list \<Rightarrow> 's \<Rightarrow> 's outcome" where
  "destroy_items dtor [] st = Ret st"
| "destroy_items dtor (x # xs) st = cbind (dtor (snd x) st) (destroy_items dtor xs)"

definition mongoc_set_destroy :: "('p, 's) mongoc_set \<Rightarrow> 's \<Rightarrow> 's outcome" where
  "mongoc_set_destroy s st = (case set_dtor s of
       None \<Rightarrow> Ret st | Some dtor \<Rightarrow> destroy_items dtor (set_items s) st)"

text \<open>
  A callback gets the context \<open>ctx\<close> and returns it with its answer. \<open>mongoc_set_for_each_with_id\<close> passes
  the position \<open>i\<close>, not the id of the item, as the first argument.
\<close>

primrec for_each_items ::
  "(u32 \<Rightarrow> 'p \<Rightarrow> 'c \<Rightarrow> (bool \<times> 'c) outcome) \<Rightarrow> nat \<Rightarrow> 'p set_item list \<Rightarrow> 'c \<Rightarrow> 'c outcome" where
  "for_each_items cb i [] ctx = Ret ctx"
| "for_each_items cb i (x # xs) ctx =
     cbind (cb (word_of_nat i) (snd x) ctx) (\<lambda>(go, ctx).
     if \<not> go then Ret ctx else for_each_items cb (i + 1) xs ctx)"

definition mongoc_set_for_each_with_id ::
  "('p, 's) mongoc_set \<Rightarrow> (u32 \<Rightarrow> 'p \<Rightarrow> 'c \<Rightarrow> (bool \<times> 'c) outcome) \<Rightarrow> 'c \<Rightarrow> 'c outcome" where
  "mongoc_set_for_each_with_id s cb ctx =
     (if items_len s = 0 then Ret ctx else for_each_items cb 0 (set_items s) ctx)"

definition mongoc_set_for_each ::
  "('p, 's) mongoc_set \<Rightarrow> ('p \<Rightarrow> 'c \<Rightarrow> (bool \<times> 'c) outcome) \<Rightarrow> 'c \<Rightarrow> 'c outcome" where
  "mongoc_set_for_each s cb = mongoc_set_for_each_with_id s (\<lambda>key item ctx. cb item ctx)"

primrec set_find :: "('p \<Rightarrow> 'c \<Rightarrow> (bool \<times> 'c) outcome) \<Rightarrow> 'p set_item list \<Rightarrow> 'c \<Rightarrow> ('p set_item option \<times> 'c) outcome" where
  "set_find cb [] ctx = Ret (None, ctx)"
| "set_find cb (x # xs) ctx = cbind (cb (snd x) ctx) (\<lambda>(hit, ctx).
     if hit then Ret (Some x, ctx) else set_find cb xs ctx)"

definition mongoc_set_find_item ::
  "('p, 's) mongoc_set \<Rightarrow> ('p \<Rightarrow> 'c \<Rightarrow> (bool \<times> 'c) outcome) \<Rightarrow> 'c \<Rightarrow> ('p option \<times> 'c) outcome" where
  "mongoc_set_find_item s cb ctx =
     cbind (set_find cb (set_items s) ctx) (\<lambda>(x, ctx). Ret (map_option snd x, ctx))"

definition mongoc_set_find_id ::
  "('p, 's) mongoc_set \<Rightarrow> ('p \<Rightarrow> 'c \<Rightarrow> (bool \<times> 'c) outcome) \<Rightarrow> 'c \<Rightarrow> (u32 \<times> 'c) outcome" where
  "mongoc_set_find_id s cb ctx =
     cbind (set_find cb (set_items s) ctx) (\<lambda>(x, ctx). Ret (case x of None \<Rightarrow> 0 | Some x \<Rightarrow> fst x, ctx))"

section \<open>Searching and sorting\<close>

definition set_inv :: "('p, 's) mongoc_set \<Rightarrow> bool" where
  "set_inv s \<longleftrightarrow> sorted_wrt (<) (map fst (set_items s)) \<and> items_len s \<le> set_allocated s \<and> 0 < set_allocated s"

definition set_lookup :: "('p, 's) mongoc_set \<Rightarrow> u32 \<Rightarrow> 'p option" where
  "set_lookup s = map_of (set_items s)"

lemma bsearch_sorted:
  assumes "sorted_wrt (<) (map fst xs)" "u \<le> length xs"
  shows "c_bsearch (mongoc_set_id_cmp (key, ())) xs l u = Some i \<longleftrightarrow> l \<le> i \<and> i < u \<and> fst (xs ! i) = key"
  using assms
proof (induction "mongoc_set_id_cmp (key, ()) :: (u32 \<times> 'a) \<Rightarrow> int" xs l u rule: c_bsearch.induct)
  case (1 xs l u)
  define m where "m = (l + u) div 2"
  have lt: "fst (xs ! a) < fst (xs ! b) \<longleftrightarrow> a < b" if "a < length xs" "b < length xs" for a b
    using sorted_wrt_nth_less [OF 1(3), of a b] sorted_wrt_nth_less [OF 1(3), of b a] that
    by (cases a b rule: linorder_cases) auto
  show ?case
  proof (cases "l < u")
    case True
    then have m: "l \<le> m" "m < u" "m < length xs" using 1(4) by (auto simp: m_def)
    let ?s = "c_bsearch (mongoc_set_id_cmp (key, ())) xs"
    have step: "?s l u = (if key < fst (xs ! m) then ?s l m else if fst (xs ! m) < key then ?s (m + 1) u else Some m)"
      using True by (subst c_bsearch.simps) (auto simp: Let_def m_def mongoc_set_id_cmp_def)
    have *: "i < length xs \<Longrightarrow> fst (xs ! i) = key \<Longrightarrow>
      (key < fst (xs ! m) \<longleftrightarrow> i < m) \<and> (fst (xs ! m) < key \<longleftrightarrow> m < i)"
      using lt [of i m] lt [of m i] m by auto
    consider "key < fst (xs ! m)" | "fst (xs ! m) < key" | "key = fst (xs ! m)" by force
    then show ?thesis
    proof cases
      case k: 1
      have "?s l m = Some i \<longleftrightarrow> l \<le> i \<and> i < m \<and> fst (xs ! i) = key"
        by (rule 1(1) [OF True m_def refl]) (use 1(3) m k in \<open>auto simp: mongoc_set_id_cmp_def\<close>)
      with k m * 1(4) show ?thesis unfolding step by auto
    next
      case k: 2
      have "?s (m + 1) u = Some i \<longleftrightarrow> m + 1 \<le> i \<and> i < u \<and> fst (xs ! i) = key"
        by (rule 1(2) [OF True m_def refl]) (use 1(3,4) k in \<open>auto simp: mongoc_set_id_cmp_def\<close>)
      with k m * 1(4) show ?thesis unfolding step by auto
    next
      case k: 3
      then have "i < length xs \<Longrightarrow> fst (xs ! i) = key \<Longrightarrow> i = m" using * by force
      with k m 1(4) show ?thesis unfolding step by auto
    qed
  qed (auto simp: c_bsearch.simps)
qed

lemma set_search_iff:
  "set_inv s \<Longrightarrow> set_search s key = Some i \<longleftrightarrow> i < items_len s \<and> fst (set_items s ! i) = key"
  by (simp add: set_search_def set_inv_def bsearch_sorted)

lemma set_get_lookup: "set_inv s \<Longrightarrow> mongoc_set_get s key = set_lookup s key"
proof -
  assume s: "set_inv s"
  then have d: "distinct (map fst (set_items s))"
    by (simp add: set_inv_def strict_sorted_iff)
  show ?thesis
  proof (cases "set_search s key")
    case None
    then have "key \<notin> fst ` set (set_items s)"
      using set_search_iff [OF s, of key] by (force simp: in_set_conv_nth)
    then have "set_lookup s key = None" by (simp add: set_lookup_def map_of_eq_None_iff)
    then show ?thesis using None by (simp add: mongoc_set_get_def)
  next
    case (Some i)
    then have "i < items_len s" "fst (set_items s ! i) = key"
      using set_search_iff [OF s] by blast+
    then have "set_lookup s key = Some (snd (set_items s ! i))"
      unfolding set_lookup_def by (metis d map_of_is_SomeI nth_mem prod.collapse)
    with Some show ?thesis by (simp add: mongoc_set_get_def)
  qed
qed

lemma set_search_None: "set_inv s \<Longrightarrow> set_search s key = None \<longleftrightarrow> set_lookup s key = None"
  using set_get_lookup [of s key] by (cases "set_search s key") (auto simp: mongoc_set_get_def dest: sym)

lemma qinsert_set: "set (c_qinsert cmp x ys) = insert x (set ys)"
  by (induction ys) auto

lemma qinsert_sorted:
  "sorted_wrt (<) (map fst ys) \<Longrightarrow> fst x \<notin> fst ` set ys \<Longrightarrow>
     sorted_wrt (<) (map fst (c_qinsert mongoc_set_id_cmp x ys))"
proof (induction ys)
  case (Cons y ys)
  then show ?case
    by (auto simp: mongoc_set_id_cmp_def qinsert_set split: if_splits)
qed simp

lemma qsort_spec:
  assumes "distinct (map fst xs)"
  shows "sorted_wrt (<) (map fst (c_qsort mongoc_set_id_cmp xs)) \<and> set (c_qsort mongoc_set_id_cmp xs) = set xs \<and>
     length (c_qsort mongoc_set_id_cmp xs) = length xs"
proof -
  have l: "length (c_qinsert cmp x ys) = Suc (length ys)" for cmp :: "'a set_item \<Rightarrow> 'a set_item \<Rightarrow> int" and x ys
    by (induction ys) auto
  show ?thesis using assms unfolding c_qsort_def
    by (induction xs) (auto simp: qinsert_set l intro!: qinsert_sorted)
qed

lemma set_add_spec:
  assumes s: "set_inv s" and k: "set_lookup s key = None"
  shows "\<exists>s'. mongoc_set_add s key x = Ret s' \<and> set_inv s' \<and> set_lookup s' = (set_lookup s)(key \<mapsto> x) \<and>
    set_dtor s' = set_dtor s \<and> set (set_items s') = insert (key, x) (set (set_items s)) \<and> items_len s' = Suc (items_len s)"
proof -
  let ?items = "set_items s @ [(key, x)]"
  let ?sorted = "if 1 < length ?items \<and> key < fst (?items ! (length ?items - 2))
                 then c_qsort mongoc_set_id_cmp ?items else ?items"
  have new: "key \<notin> fst ` set (set_items s)" using k by (simp add: set_lookup_def map_of_eq_None_iff)
  have so: "sorted_wrt (<) (map fst (set_items s))" and a: "items_len s \<le> set_allocated s" "0 < set_allocated s"
    using s by (simp_all add: set_inv_def)
  then have d: "distinct (map fst ?items)" using new by (auto simp: strict_sorted_iff)
  have sorted: "sorted_wrt (<) (map fst ?sorted) \<and> set ?sorted = set ?items \<and> length ?sorted = length ?items"
  proof (cases "1 < length ?items \<and> key < fst (?items ! (length ?items - 2))")
    case True
    with qsort_spec [OF d] show ?thesis by simp
  next
    case False
    have "fst y < key" if y: "y \<in> set (set_items s)" for y
    proof -
      obtain j where j: "j < items_len s" "y = set_items s ! j" using y unfolding in_set_conv_nth by blast
      then have "\<not> key < fst (set_items s ! (items_len s - 1))"
        using False by (auto simp: nth_append split: if_splits)
      moreover have "fst (set_items s ! j) \<le> fst (set_items s ! (items_len s - 1))"
      proof (cases "j < items_len s - 1")
        case True
        then have "items_len s - 1 < length (map fst (set_items s))" using j by simp
        from sorted_wrt_nth_less [OF so True this] show ?thesis using j True by simp
      next
        case False
        then have "j = items_len s - 1" using j by simp
        then show ?thesis by simp
      qed
      moreover have "fst y \<noteq> key" using new y by auto
      ultimately show ?thesis using j by auto
    qed
    with False so show ?thesis by (auto simp: sorted_wrt_append)
  qed
  have lk: "map_of ?sorted = (set_lookup s)(key \<mapsto> x)"
  proof -
    have "distinct (map fst ?sorted)" using sorted by (simp only: strict_sorted_iff)
    then have "map_of ?sorted = map_of ?items" using sorted d
      by (intro map_of_inject_set [THEN iffD2]) auto
    also have "\<dots> = (set_lookup s)(key \<mapsto> x)"
      using k by (auto simp: fun_eq_iff set_lookup_def map_add_def split: option.splits)
    finally show ?thesis .
  qed
  show ?thesis
    using sorted lk a
    by (auto simp: mongoc_set_add_def Let_def set_inv_def set_lookup_def)
qed

lemma map_of_filter_key: "map_of (filter (\<lambda>y. fst y \<noteq> k) xs) = (map_of xs)(k := None)"
  by (induction xs) auto

lemma set_rm_spec:
  assumes s: "set_inv s" and k: "set_lookup s key = Some x" and d: "run_dtor s x st = Ret st'"
  shows "\<exists>s'. mongoc_set_rm s key st = Ret (s', st') \<and> set_inv s' \<and> set_lookup s' = (set_lookup s)(key := None) \<and>
    set_dtor s' = set_dtor s \<and> set_items s' = filter (\<lambda>y. fst y \<noteq> key) (set_items s)"
proof -
  let ?xs = "set_items s"
  obtain i where i: "set_search s key = Some i" "i < items_len s" "fst (?xs ! i) = key"
    using k set_search_None [OF s, of key] set_search_iff [OF s, of key] by fastforce
  have so: "sorted_wrt (<) (map fst ?xs)" using s by (simp add: set_inv_def)
  then have dist: "distinct (map fst ?xs)" by (simp add: strict_sorted_iff)
  have x: "snd (?xs ! i) = x"
    using set_get_lookup [OF s, of key] i(1) k by (simp add: mongoc_set_get_def)
  have xs: "?xs = take i ?xs @ ?xs ! i # drop (Suc i) ?xs" using i(2) by (simp add: id_take_nth_drop)
  have split: "take i ?xs @ drop (Suc i) ?xs = filter (\<lambda>y. fst y \<noteq> key) ?xs"
  proof -
    have "distinct (map fst (take i ?xs @ ?xs ! i # drop (Suc i) ?xs))" using dist xs by simp
    then have "filter (\<lambda>y. fst y \<noteq> key) (take i ?xs @ ?xs ! i # drop (Suc i) ?xs) = take i ?xs @ drop (Suc i) ?xs"
      using i(3) by (auto simp: filter_id_conv rev_image_eqI intro!: arg_cong2 [of _ _ _ _ "(@)"])
    then show ?thesis using xs by simp
  qed
  have shift: "take (items_len s - 1) (if i \<noteq> items_len s - 1 then take i ?xs @ drop (i + 1) ?xs @ [last ?xs] else ?xs)
      = filter (\<lambda>y. fst y \<noteq> key) ?xs"
    unfolding split [symmetric] using i(2) by (auto simp: min_def not_less)
  have rm: "mongoc_set_rm s key st = Ret (s\<lparr>set_items := filter (\<lambda>y. fst y \<noteq> key) ?xs\<rparr>, st')"
    unfolding mongoc_set_rm_def by (simp only: i(1) x d shift option.case cbind.simps Let_def)
  have "sorted_wrt (<) (map fst (filter (\<lambda>y. fst y \<noteq> key) ?xs))"
    using so by (simp add: sorted_wrt_map sorted_wrt_filter)
  moreover have "length (filter (\<lambda>y. fst y \<noteq> key) ?xs) \<le> set_allocated s"
    using s by (auto simp: set_inv_def intro: order_trans [OF length_filter_le])
  moreover have "map_of (filter (\<lambda>y. fst y \<noteq> key) ?xs) = (map_of ?xs)(key := None)"
    by (rule map_of_filter_key)
  ultimately show ?thesis
    using s rm by (simp add: set_inv_def set_lookup_def)
qed

lemma set_rm_absent: "set_inv s \<Longrightarrow> set_lookup s key = None \<Longrightarrow> mongoc_set_rm s key st = Ret (s, st)"
  using set_search_None [of s key] by (simp add: mongoc_set_rm_def)

lemma set_new_spec: "0 < n \<Longrightarrow> set_inv (mongoc_set_new n d) \<and> set_lookup (mongoc_set_new n d) = Map.empty"
  by (simp add: set_inv_def mongoc_set_new_def set_lookup_def)


section \<open>The contract\<close>

text \<open>What the topology relies on: with fresh ids for new items, the set is a map from ids to items.\<close>

datatype 'p set_op = Op_add u32 'p | Op_rm u32

fun run_ops :: "('m \<Rightarrow> u32 \<Rightarrow> 'p \<Rightarrow> 'm outcome) \<Rightarrow> ('m \<Rightarrow> u32 \<Rightarrow> 's \<Rightarrow> ('m \<times> 's) outcome) \<Rightarrow>
    'p set_op list \<Rightarrow> 'm \<Rightarrow> 's \<Rightarrow> ('m \<times> 's) outcome" where
  "run_ops add rm [] m st = Ret (m, st)"
| "run_ops add rm (Op_add k x # ops) m st = cbind (add m k x) (\<lambda>m. run_ops add rm ops m st)"
| "run_ops add rm (Op_rm k # ops) m st = cbind (rm m k st) (\<lambda>(m, st). run_ops add rm ops m st)"

fun map_ops :: "('p \<Rightarrow> 's \<Rightarrow> 's outcome) \<Rightarrow> 'p set_op list \<Rightarrow> (u32 \<rightharpoonup> 'p) \<Rightarrow> 's \<Rightarrow> ((u32 \<rightharpoonup> 'p) \<times> 's) option" where
  "map_ops dtor [] f st = Some (f, st)"
| "map_ops dtor (Op_add k x # ops) f st = (if f k = None then map_ops dtor ops (f(k \<mapsto> x)) st else None)"
| "map_ops dtor (Op_rm k # ops) f st = (case f k of
       None \<Rightarrow> map_ops dtor ops f st
     | Some x \<Rightarrow> (case dtor x st of Ret st \<Rightarrow> map_ops dtor ops (f(k := None)) st | _ \<Rightarrow> None))"

locale id_map =
  fixes inv :: "'m \<Rightarrow> bool"
    and lookup :: "'m \<Rightarrow> u32 \<Rightarrow> 'p option"
    and add :: "'m \<Rightarrow> u32 \<Rightarrow> 'p \<Rightarrow> 'm outcome"
    and rm :: "'m \<Rightarrow> u32 \<Rightarrow> 's \<Rightarrow> ('m \<times> 's) outcome"
    and dtor :: "'p \<Rightarrow> 's \<Rightarrow> 's outcome"
  assumes add_fresh: "inv m \<Longrightarrow> lookup m k = None \<Longrightarrow>
      \<exists>m'. add m k x = Ret m' \<and> inv m' \<and> lookup m' = (lookup m)(k \<mapsto> x)"
    and rm_absent: "inv m \<Longrightarrow> lookup m k = None \<Longrightarrow> rm m k st = Ret (m, st)"
    and rm_present: "inv m \<Longrightarrow> lookup m k = Some x \<Longrightarrow> dtor x st = Ret st' \<Longrightarrow>
      \<exists>m'. rm m k st = Ret (m', st') \<and> inv m' \<and> lookup m' = (lookup m)(k := None)"
begin

lemma run_ops_refines:
  "inv m \<Longrightarrow> map_ops dtor ops (lookup m) st = Some (f, st') \<Longrightarrow>
     \<exists>m'. run_ops add rm ops m st = Ret (m', st') \<and> inv m' \<and> lookup m' = f"
proof (induction ops arbitrary: m st)
  case (Cons op ops)
  show ?case
  proof (cases op)
    case (Op_add k x)
    with Cons.prems add_fresh [of m k x] Cons.IH show ?thesis
      by (fastforce split: if_splits)
  next
    case (Op_rm k)
    with Cons.prems rm_absent [of m k st] rm_present [of m k _ st] Cons.IH show ?thesis
      by (fastforce split: option.splits outcome.splits)
  qed
qed simp

end

definition set_inv_dtor :: "('p \<Rightarrow> 's \<Rightarrow> 's outcome) \<Rightarrow> ('p, 's) mongoc_set \<Rightarrow> bool" where
  "set_inv_dtor dtor s \<longleftrightarrow> set_inv s \<and> set_dtor s = Some dtor"

interpretation mset: id_map "set_inv_dtor dtor" set_lookup mongoc_set_add mongoc_set_rm dtor for dtor
proof
  show "\<exists>m'. mongoc_set_add m k x = Ret m' \<and> set_inv_dtor dtor m' \<and> set_lookup m' = (set_lookup m)(k \<mapsto> x)"
    if "set_inv_dtor dtor m" "set_lookup m k = None" for m :: "('a, 'b) mongoc_set" and k x
    using set_add_spec [of m k x] that by (auto simp: set_inv_dtor_def)
  show "mongoc_set_rm m k st = Ret (m, st)"
    if "set_inv_dtor dtor m" "set_lookup m k = None" for m :: "('a, 'b) mongoc_set" and k st
    using that set_rm_absent by (auto simp: set_inv_dtor_def)
  show "\<exists>m'. mongoc_set_rm m k st = Ret (m', st') \<and> set_inv_dtor dtor m' \<and> set_lookup m' = (set_lookup m)(k := None)"
    if "set_inv_dtor dtor m" "set_lookup m k = Some x" "dtor x st = Ret st'"
    for m :: "('a, 'b) mongoc_set" and k x st st'
    using set_rm_spec [of m k x st st'] that by (auto simp: set_inv_dtor_def run_dtor_def)
qed

text \<open>C36. Any sequence of \<open>mongoc_set_add\<close> with fresh ids and \<open>mongoc_set_rm\<close>, from \<open>mongoc_set_new\<close> with a
  positive size on, stays inside the array however often it grows, runs the destructor exactly on the
  items it removes, and gives a set that behaves as the map of ids to items: its items are sorted by
  their ids and \<open>mongoc_set_get\<close> finds every item by binary search.\<close>

theorem set_refines_map:
  assumes "0 < n" "map_ops dtor ops Map.empty st = Some (f, st')"
  shows "\<exists>s. run_ops mongoc_set_add mongoc_set_rm ops (mongoc_set_new n (Some dtor)) st = Ret (s, st') \<and>
    mongoc_set_get s = f \<and> sorted_wrt (<) (map fst (set_items s)) \<and> map_of (set_items s) = f"
proof -
  have "set_inv_dtor dtor (mongoc_set_new n (Some dtor))" "set_lookup (mongoc_set_new n (Some dtor)) = Map.empty"
    using set_new_spec [OF assms(1), of "Some dtor"] by (auto simp: set_inv_dtor_def mongoc_set_new_def)
  from mset.run_ops_refines [OF this(1), unfolded this(2), OF assms(2)] show ?thesis
    using set_get_lookup by (fastforce simp: set_inv_dtor_def set_inv_def set_lookup_def fun_eq_iff)
qed

theorem set_refines_map_witness:
  "\<exists>s. run_ops mongoc_set_add mongoc_set_rm [Op_add 5 ''a'', Op_add 3 ''b'', Op_add 9 ''c'', Op_rm 5, Op_rm 7]
      (mongoc_set_new 1 (Some (\<lambda>x st. Ret (x # st)))) [] = Ret (s, [''a'']) \<and>
    mongoc_set_get s = [3 \<mapsto> ''b'', 9 \<mapsto> ''c''] \<and> sorted_wrt (<) (map fst (set_items s)) \<and>
    map_of (set_items s) = [3 \<mapsto> ''b'', 9 \<mapsto> ''c'']"
proof -
  have f: "(([5 \<mapsto> ''a'', 3 \<mapsto> ''b'', 9 \<mapsto> ''c''])(5 := None)) = [3 \<mapsto> ''b'', (9 :: u32) \<mapsto> ''c'']"
    by (auto simp: fun_eq_iff)
  show ?thesis
    by (rule set_refines_map) (simp_all add: f)
qed

text \<open>The first argument of the callback of \<open>mongoc_set_for_each_with_id\<close> is a position.\<close>

lemma for_each_with_id_passes_index:
  "mongoc_set_for_each_with_id s (\<lambda>key item ctx. Ret (True, ctx @ [(key, item)])) [] =
     Ret (map (\<lambda>i. (word_of_nat i, snd (set_items s ! i))) [0..<items_len s])"
proof -
  have "for_each_items (\<lambda>key item ctx. Ret (True, ctx @ [(key, item)])) i xs c =
      Ret (c @ map (\<lambda>j. (word_of_nat (i + j), snd (xs ! j))) [0..<length xs])" for i c and xs :: "'a set_item list"
    by (induction xs arbitrary: i c) (simp_all add: upt_conv_Cons del: upt_Suc flip: map_Suc_upt)
  then show ?thesis by (simp add: mongoc_set_for_each_with_id_def)
qed

end
