(* ===== verification/Mongoc_Topology.thy ===== *)
theory Mongoc_Topology
  imports Mongoc_Server Mongoc_Set
begin

text \<open>
  Server discovery and monitoring: the topology description of \<open>mongoc/mongoc-topology-description.c\<close>,
  its events (\<open>mongoc/mongoc-topology-description-apm.c\<close>) and the comparison of cluster times of
  \<open>mongoc/mongoc-client-session.c\<close>.

  The set of servers holds pointers (\<open>nat\<close>) to server descriptions; \<open>td_mem\<close> is the memory they point to
  and \<open>td_brk\<close> the next pointer that \<open>bson_malloc0\<close> hands out. Removing a server from the set frees its
  description, so that using the pointer afterwards is a \<open>Fault\<close>, as is using a \<open>NULL\<close> string. A call of
  a monitoring callback is an entry of \<open>td_events\<close>; callbacks get the descriptions for reading only. The
  random seed, the id of the topology and the context of the callbacks are left out.
\<close>

section \<open>State\<close>

datatype td_type =
    MONGOC_TOPOLOGY_UNKNOWN | MONGOC_TOPOLOGY_SHARDED | MONGOC_TOPOLOGY_RS_NO_PRIMARY
  | MONGOC_TOPOLOGY_RS_WITH_PRIMARY | MONGOC_TOPOLOGY_SINGLE

type_synonym sd_mem = "nat \<rightharpoonup> server_description"

record apm_callbacks =
  cb_server_changed :: bool
  cb_server_opening :: bool
  cb_server_closed :: bool
  cb_topology_changed :: bool

datatype sdam_event =
    Ev_server_opening mongoc_host_list
  | Ev_server_closed mongoc_host_list
  | Ev_server_changed server_description server_description
  | Ev_topology_changed td_type "server_description list" td_type "server_description list"

record topology_description =
  td_opened :: bool
  td_type :: td_type
  td_heartbeat_msec :: int
  td_servers :: "(nat, sd_mem) mongoc_set"
  td_set_name :: "cstr option"
  td_max_set_version :: int
  td_max_election_id :: oid
  td_compat_error :: bson_error
  td_max_server_id :: u32
  td_stale :: bool
  td_cluster_time :: bson_view
  td_session_timeout :: int
  td_callbacks :: apm_callbacks
  td_mem :: sd_mem
  td_brk :: nat
  td_events :: "sdam_event list"

text \<open>Following a pointer, storing through it, and calling a callback.\<close>

definition sd_get :: "topology_description \<Rightarrow> nat \<Rightarrow> server_description outcome" where
  "sd_get td p = (case td_mem td p of None \<Rightarrow> Fault | Some sd \<Rightarrow> Ret sd)"

definition sd_put :: "nat \<Rightarrow> server_description \<Rightarrow> topology_description \<Rightarrow> topology_description" where
  "sd_put p sd td = td\<lparr>td_mem := (td_mem td)(p \<mapsto> sd)\<rparr>"

definition td_emit :: "sdam_event \<Rightarrow> topology_description \<Rightarrow> topology_description" where
  "td_emit ev td = td\<lparr>td_events := td_events td @ [ev]\<rparr>"

definition mongoc_topology_server_dtor :: "nat \<Rightarrow> sd_mem \<Rightarrow> sd_mem outcome" where
  "mongoc_topology_server_dtor p mem = (case mem p of None \<Rightarrow> Fault | Some _ \<Rightarrow> Ret (mem(p := None)))"

definition mongoc_topology_description_init :: "int \<Rightarrow> apm_callbacks \<Rightarrow> topology_description" where
  "mongoc_topology_description_init heartbeat_msec callbacks =
     \<lparr>td_opened = False, td_type = MONGOC_TOPOLOGY_UNKNOWN, td_heartbeat_msec = heartbeat_msec,
      td_servers = mongoc_set_new 8 (Some mongoc_topology_server_dtor), td_set_name = None,
      td_max_set_version = MONGOC_NO_SET_VERSION, td_max_election_id = kObjectIdZero,
      td_compat_error = no_error, td_max_server_id = 0, td_stale = True, td_cluster_time = bson_empty_view,
      td_session_timeout = MONGOC_NO_SESSIONS, td_callbacks = callbacks, td_mem = Map.empty, td_brk = 0,
      td_events = []\<rparr>"

section \<open>Queries\<close>

definition is_data_node :: "server_description \<Rightarrow> bool" where
  "is_data_node sd = (case sd_type sd of
       MONGOC_SERVER_MONGOS \<Rightarrow> True | MONGOC_SERVER_STANDALONE \<Rightarrow> True
     | MONGOC_SERVER_RS_SECONDARY \<Rightarrow> True | MONGOC_SERVER_RS_PRIMARY \<Rightarrow> True
     | _ \<Rightarrow> False)"

definition has_primary_cb :: "topology_description \<Rightarrow> nat \<Rightarrow> nat option \<Rightarrow> (bool \<times> nat option) outcome" where
  "has_primary_cb td p primary = cbind (sd_get td p) (\<lambda>server.
     if sd_type server = MONGOC_SERVER_RS_PRIMARY \<or> sd_type server = MONGOC_SERVER_STANDALONE
     then Ret (False, Some p) else Ret (True, primary))"

definition mongoc_topology_description_has_primary :: "topology_description \<Rightarrow> nat option outcome" where
  "mongoc_topology_description_has_primary td = mongoc_set_for_each (td_servers td) (has_primary_cb td) None"

definition mongoc_topology_description_later_election ::
  "topology_description \<Rightarrow> server_description \<Rightarrow> bool" where
  "mongoc_topology_description_later_election td sd \<longleftrightarrow>
     td_max_set_version td > sd_set_version sd \<or>
     td_max_set_version td = sd_set_version sd \<and>
       bson_oid_compare (td_max_election_id td) (sd_election_id sd) > 0"

definition mongoc_topology_description_set_max_set_version ::
  "topology_description \<Rightarrow> server_description \<Rightarrow> topology_description" where
  "mongoc_topology_description_set_max_set_version td sd = td\<lparr>td_max_set_version := sd_set_version sd\<rparr>"

definition mongoc_topology_description_set_max_election_id ::
  "topology_description \<Rightarrow> server_description \<Rightarrow> topology_description" where
  "mongoc_topology_description_set_max_election_id td sd = td\<lparr>td_max_election_id := sd_election_id sd\<rparr>"

definition mongoc_topology_description_has_set_version :: "topology_description \<Rightarrow> bool" where
  "mongoc_topology_description_has_set_version td \<longleftrightarrow> td_max_set_version td \<noteq> MONGOC_NO_SET_VERSION"

definition mongoc_topology_description_server_by_id :: "topology_description \<Rightarrow> u32 \<Rightarrow> nat option" where
  "mongoc_topology_description_server_by_id td key = mongoc_set_get (td_servers td) key"

definition has_server_cb ::
  "topology_description \<Rightarrow> cstr option \<Rightarrow> nat \<Rightarrow> u32 option \<Rightarrow> (bool \<times> u32 option) outcome" where
  "has_server_cb td address p found = cbind (sd_get td p) (\<lambda>server.
     cbind (c_strcasecmp_0 address (sd_connection_address server)) (\<lambda>eq.
     if eq then Ret (False, Some (sd_id server)) else Ret (True, found)))"

definition mongoc_topology_description_has_server ::
  "topology_description \<Rightarrow> cstr option \<Rightarrow> u32 option outcome" where
  "mongoc_topology_description_has_server td address =
     c_assert (address \<noteq> None) (mongoc_set_for_each (td_servers td) (has_server_cb td address) None)"

definition mongoc_topology_description_matches_me :: "server_description \<Rightarrow> bool outcome" where
  "mongoc_topology_description_matches_me server =
     c_assert (sd_connection_address server \<noteq> None)
       (case sd_me server of None \<Rightarrow> Ret True
        | Some me \<Rightarrow> c_strcasecmp_0 (sd_connection_address server) (Some me))"

text \<open>The descriptions of all servers, in the order of the set.\<close>

primrec sd_list :: "topology_description \<Rightarrow> nat list \<Rightarrow> server_description list outcome" where
  "sd_list td [] = Ret []"
| "sd_list td (p # ps) = cbind (sd_get td p) (\<lambda>sd. cbind (sd_list td ps) (\<lambda>sds. Ret (sd # sds)))"

definition td_server_list :: "topology_description \<Rightarrow> server_description list outcome" where
  "td_server_list td = sd_list td (map snd (set_items (td_servers td)))"

section \<open>Monitoring events\<close>

definition monitor_server_opening :: "topology_description \<Rightarrow> nat \<Rightarrow> topology_description outcome" where
  "monitor_server_opening td p = cbind (sd_get td p) (\<lambda>sd.
     if cb_server_opening (td_callbacks td) \<and> \<not> sd_opened sd
     then Ret (td_emit (Ev_server_opening (sd_host sd)) (sd_put p (sd\<lparr>sd_opened := True\<rparr>) td)) else Ret td)"

definition monitor_server_changed ::
  "topology_description \<Rightarrow> server_description option \<Rightarrow> nat \<Rightarrow> topology_description outcome" where
  "monitor_server_changed td prev p =
     (if cb_server_changed (td_callbacks td)
      then case prev of None \<Rightarrow> Fault
        | Some prev_sd \<Rightarrow> cbind (sd_get td p) (\<lambda>sd. Ret (td_emit (Ev_server_changed prev_sd sd) td))
      else Ret td)"

definition monitor_server_closed :: "topology_description \<Rightarrow> nat \<Rightarrow> topology_description outcome" where
  "monitor_server_closed td p =
     (if cb_server_closed (td_callbacks td)
      then cbind (sd_get td p) (\<lambda>sd. Ret (td_emit (Ev_server_closed (sd_host sd)) td)) else Ret td)"

definition monitor_changed ::
  "(td_type \<times> server_description list) option \<Rightarrow> topology_description \<Rightarrow> topology_description outcome" where
  "monitor_changed prev td =
     (if cb_topology_changed (td_callbacks td)
      then case prev of None \<Rightarrow> Fault
        | Some (t, sds) \<Rightarrow> cbind (td_server_list td) (\<lambda>sds'.
            Ret (td_emit (Ev_topology_changed t sds (td_type td) sds') td))
      else Ret td)"

text \<open>The servers of the deep copy that \<open>_mongoc_topology_description_copy_to\<close> makes.\<close>

primrec copy_servers :: "sdam_env \<Rightarrow> server_description list \<Rightarrow> server_description list outcome" where
  "copy_servers env [] = Ret []"
| "copy_servers env (sd # sds) = cbind (mongoc_server_description_new_copy env sd) (\<lambda>c.
     cbind (copy_servers env sds) (\<lambda>cs. Ret (c # cs)))"

definition mongoc_topology_description_copy ::
  "sdam_env \<Rightarrow> topology_description \<Rightarrow> (td_type \<times> server_description list) outcome" where
  "mongoc_topology_description_copy env td =
     cbind (td_server_list td) (\<lambda>sds. cbind (copy_servers env sds) (\<lambda>cs. Ret (td_type td, cs)))"

section \<open>Changes\<close>

definition mongoc_topology_description_set_state :: "topology_description \<Rightarrow> td_type \<Rightarrow> topology_description" where
  "mongoc_topology_description_set_state td t = td\<lparr>td_type := t\<rparr>"

definition update_rs_type :: "topology_description \<Rightarrow> topology_description outcome" where
  "update_rs_type td = cbind (mongoc_topology_description_has_primary td) (\<lambda>primary.
     Ret (mongoc_topology_description_set_state td
       (if primary \<noteq> None then MONGOC_TOPOLOGY_RS_WITH_PRIMARY else MONGOC_TOPOLOGY_RS_NO_PRIMARY)))"

definition mongoc_topology_description_remove_server ::
  "topology_description \<Rightarrow> nat \<Rightarrow> topology_description outcome" where
  "mongoc_topology_description_remove_server td p =
     cbind (monitor_server_closed td p) (\<lambda>td.
     cbind (sd_get td p) (\<lambda>server.
     cbind (mongoc_set_rm (td_servers td) (sd_id server) (td_mem td)) (\<lambda>(servers, mem).
     Ret (td\<lparr>td_servers := servers, td_mem := mem\<rparr>))))"

definition label_unknown_member_cb ::
  "cstr option \<Rightarrow> sd_type \<Rightarrow> nat \<Rightarrow> topology_description \<Rightarrow> (bool \<times> topology_description) outcome" where
  "label_unknown_member_cb address t p td = cbind (sd_get td p) (\<lambda>server.
     cbind (c_strcasecmp_0 (sd_connection_address server) address) (\<lambda>eq.
     if eq \<and> sd_type server = MONGOC_SERVER_UNKNOWN
     then Ret (False, sd_put p (mongoc_server_description_set_state server t) td)
     else Ret (True, td)))"

definition mongoc_topology_description_label_unknown_member ::
  "topology_description \<Rightarrow> cstr option \<Rightarrow> sd_type \<Rightarrow> topology_description outcome" where
  "mongoc_topology_description_label_unknown_member td address t =
     c_assert (address \<noteq> None) (mongoc_set_for_each (td_servers td) (label_unknown_member_cb address t) td)"

definition mongoc_topology_description_add_server ::
  "sdam_env \<Rightarrow> topology_description \<Rightarrow> cstr option \<Rightarrow> (u32 \<times> topology_description) outcome" where
  "mongoc_topology_description_add_server env td server = (case server of
       None \<Rightarrow> Abort
     | Some address \<Rightarrow>
         cbind (mongoc_topology_description_has_server td server) (\<lambda>found. case found of
           Some server_id \<Rightarrow> Ret (server_id, td)
         | None \<Rightarrow>
             let server_id = td_max_server_id td + 1; p = td_brk td;
                 td = sd_put p (mongoc_server_description_init env sd_zero address server_id)
                   (td\<lparr>td_max_server_id := server_id, td_brk := p + 1\<rparr>) in
             cbind (mongoc_set_add (td_servers td) server_id p) (\<lambda>servers.
             cbind (monitor_server_opening (td\<lparr>td_servers := servers\<rparr>) p) (\<lambda>td. Ret (server_id, td)))))"

definition add_server_body ::
  "sdam_env \<Rightarrow> bson_iter \<Rightarrow> topology_description \<Rightarrow> (bool \<times> topology_description) outcome" where
  "add_server_body env it td = cbind (iter_utf8_str it) (\<lambda>s.
     cbind (mongoc_topology_description_add_server env td s) (\<lambda>(_, td). Ret (True, td)))"

primrec add_members :: "sdam_env \<Rightarrow> bson_view list \<Rightarrow> topology_description \<Rightarrow> topology_description outcome" where
  "add_members env [] td = Ret td"
| "add_members env (v # vs) td =
     cbind (view_while (add_server_body env) v td) (\<lambda>(_, td). add_members env vs td)"

definition mongoc_topology_description_add_new_servers ::
  "sdam_env \<Rightarrow> topology_description \<Rightarrow> nat \<Rightarrow> topology_description outcome" where
  "mongoc_topology_description_add_new_servers env td p = cbind (sd_get td p) (\<lambda>server.
     add_members env [sd_hosts server, sd_arbiters server, sd_passives server] td)"

definition invalidate_primaries_cb ::
  "nat \<Rightarrow> nat \<Rightarrow> topology_description \<Rightarrow> (bool \<times> topology_description) outcome" where
  "invalidate_primaries_cb primary p td = cbind (sd_get td p) (\<lambda>server. cbind (sd_get td primary) (\<lambda>prim.
     if sd_id server \<noteq> sd_id prim \<and> sd_type server = MONGOC_SERVER_RS_PRIMARY then
       Ret (True, sd_put p
         (mongoc_server_description_set_election_id
           (mongoc_server_description_set_set_version
             (mongoc_server_description_set_state server MONGOC_SERVER_UNKNOWN) MONGOC_NO_SET_VERSION) None) td)
     else Ret (True, td)))"

primrec unreported_servers ::
  "topology_description \<Rightarrow> nat \<Rightarrow> nat list \<Rightarrow> nat list outcome" where
  "unreported_servers td primary [] = Ret []"
| "unreported_servers td primary (m # ms) =
     cbind (sd_get td m) (\<lambda>member. cbind (sd_get td primary) (\<lambda>prim.
     cbind (mongoc_server_description_has_rs_member prim (sd_connection_address member)) (\<lambda>has.
     cbind (unreported_servers td primary ms) (\<lambda>rest. Ret (if has then rest else m # rest)))))"

primrec remove_all :: "nat list \<Rightarrow> topology_description \<Rightarrow> topology_description outcome" where
  "remove_all [] td = Ret td"
| "remove_all (m # ms) td = cbind (mongoc_topology_description_remove_server td m) (remove_all ms)"

definition mongoc_topology_description_remove_unreported_servers ::
  "topology_description \<Rightarrow> nat \<Rightarrow> topology_description outcome" where
  "mongoc_topology_description_remove_unreported_servers td primary =
     cbind (unreported_servers td primary (map snd (set_items (td_servers td)))) (\<lambda>to_remove. remove_all to_remove td)"

section \<open>Cluster time\<close>

definition mongoc_parse_cluster_time :: "bson_view \<Rightarrow> (u32 \<times> u32) option outcome" where
  "mongoc_parse_cluster_time v = cbind (bson_iter_init_find v (cs ''clusterTime'' @ [0])) (\<lambda>(found, it).
     if \<not> found then Ret None
     else cbind (bson_iter_type it) (\<lambda>t.
       if t \<noteq> BSON_TYPE_TIMESTAMP then Ret None
       else cbind (bson_iter_timestamp it) (\<lambda>ts. Ret (Some ts))))"

definition mongoc_cluster_time_greater :: "bson_view \<Rightarrow> bson_view \<Rightarrow> bool outcome" where
  "mongoc_cluster_time_greater new old = cbind (mongoc_parse_cluster_time new) (\<lambda>n. case n of
       None \<Rightarrow> Ret False
     | Some (new_t, new_i) \<Rightarrow> cbind (mongoc_parse_cluster_time old) (\<lambda>old. case old of
         None \<Rightarrow> Ret False
       | Some (old_t, old_i) \<Rightarrow> Ret (old_t < new_t \<or> new_t = old_t \<and> old_i < new_i)))"

definition mongoc_topology_description_update_cluster_time ::
  "topology_description \<Rightarrow> bson_view option \<Rightarrow> topology_description outcome" where
  "mongoc_topology_description_update_cluster_time td reply = (case reply of
       None \<Rightarrow> Ret td
     | Some reply \<Rightarrow> cbind (bson_iter_init_find reply (cs ''$clusterTime'' @ [0])) (\<lambda>(found, it).
         if \<not> found then Ret td
         else cbind (bson_iter_type it) (\<lambda>t.
           if t \<noteq> BSON_TYPE_DOCUMENT then Ret td
           else cbind (bson_iter_recurse it) (\<lambda>child. case child of
             None \<Rightarrow> Ret td
           | Some _ \<Rightarrow> cbind (bson_iter_document it) (\<lambda>(size, data). cbind (cptr_mem data) (\<lambda>m.
               cbind (bson_init_static m (unat size)) (\<lambda>v. case v of
                 None \<Rightarrow> Abort
               | Some cluster_time \<Rightarrow>
                   cbind (bson_view_empty (td_cluster_time td)) (\<lambda>empty.
                   cbind (if empty then Ret True
                          else mongoc_cluster_time_greater cluster_time (td_cluster_time td)) (\<lambda>g.
                   if g then cbind (bson_view_copy cluster_time) (\<lambda>c. Ret (td\<lparr>td_cluster_time := c\<rparr>))
                   else Ret td))))))))) "


section \<open>Transitions\<close>

type_synonym transition = "topology_description \<Rightarrow> nat \<Rightarrow> topology_description outcome"

definition mongoc_topology_description_check_if_has_primary :: transition where
  "mongoc_topology_description_check_if_has_primary td p = update_rs_type td"

text \<open>
  \<open>invalidate\<close> is \<open>mongoc_topology_description_invalidate_server\<close>, which calls the handler of \<open>ismaster\<close>
  replies again; the handler passes it in.
\<close>

definition mongoc_topology_description_update_rs_from_primary ::
  "sdam_env \<Rightarrow> (topology_description \<Rightarrow> u32 \<Rightarrow> bson_error \<Rightarrow> topology_description outcome) \<Rightarrow> transition" where
  "mongoc_topology_description_update_rs_from_primary env invalidate td p =
     cbind (sd_get td p) (\<lambda>server.
     cbind (mongoc_topology_description_has_server td (sd_connection_address server)) (\<lambda>found.
     if found = None then Ret td
     else if sd_set_name server \<noteq> None \<and> td_set_name td \<noteq> None \<and> td_set_name td \<noteq> sd_set_name server then
       cbind (mongoc_topology_description_remove_server td p) update_rs_type
     else
       let td = (if sd_set_name server \<noteq> None \<and> td_set_name td = None
                 then td\<lparr>td_set_name := sd_set_name server\<rparr> else td);
           both = (mongoc_server_description_has_set_version server \<and>
                   mongoc_server_description_has_election_id server) in
       if both \<and> mongoc_topology_description_later_election td server then
         cbind (invalidate td (sd_id server)
           \<lparr>err_domain = MONGOC_ERROR_STREAM, err_code = MONGOC_ERROR_STREAM_CONNECT\<rparr>) update_rs_type
       else
         let td = (if both then mongoc_topology_description_set_max_election_id td server else td);
             td = (if mongoc_server_description_has_set_version server \<and>
                      (\<not> mongoc_topology_description_has_set_version td \<or>
                       sd_set_version server > td_max_set_version td)
                   then mongoc_topology_description_set_max_set_version td server else td) in
         cbind (mongoc_set_for_each (td_servers td) (invalidate_primaries_cb p) td) (\<lambda>td.
         cbind (mongoc_topology_description_add_new_servers env td p) (\<lambda>td.
         cbind (mongoc_topology_description_remove_unreported_servers td p) update_rs_type))))"

definition mongoc_topology_description_update_rs_without_primary :: "sdam_env \<Rightarrow> transition" where
  "mongoc_topology_description_update_rs_without_primary env td p =
     cbind (sd_get td p) (\<lambda>server.
     cbind (mongoc_topology_description_has_server td (sd_connection_address server)) (\<lambda>found.
     if found = None then Ret td
     else if sd_set_name server \<noteq> None \<and> td_set_name td \<noteq> None \<and> td_set_name td \<noteq> sd_set_name server then
       mongoc_topology_description_remove_server td p
     else
       let td = (if sd_set_name server \<noteq> None \<and> td_set_name td = None
                 then td\<lparr>td_set_name := sd_set_name server\<rparr> else td) in
       cbind (mongoc_topology_description_add_new_servers env td p) (\<lambda>td.
       cbind (if sd_current_primary server \<noteq> None
              then mongoc_topology_description_label_unknown_member td (sd_current_primary server)
                     MONGOC_SERVER_POSSIBLE_PRIMARY
              else Ret td) (\<lambda>td.
       cbind (sd_get td p) (\<lambda>server.
       cbind (mongoc_topology_description_matches_me server) (\<lambda>me.
       if \<not> me then mongoc_topology_description_remove_server td p else Ret td))))))"

definition mongoc_topology_description_update_rs_with_primary_from_member :: transition where
  "mongoc_topology_description_update_rs_with_primary_from_member td p =
     cbind (sd_get td p) (\<lambda>server.
     cbind (mongoc_topology_description_has_server td (sd_connection_address server)) (\<lambda>found.
     if found = None then Ret td
     else case (td_set_name td, sd_set_name server) of
       (Some a, Some b) \<Rightarrow>
         if a \<noteq> b then cbind (mongoc_topology_description_remove_server td p) update_rs_type
         else cbind (mongoc_topology_description_matches_me server) (\<lambda>me.
           if \<not> me then mongoc_topology_description_remove_server td p
           else cbind (mongoc_topology_description_has_primary td) (\<lambda>primary.
             if primary = None \<and> sd_current_primary server \<noteq> None then
               mongoc_topology_description_label_unknown_member
                 (mongoc_topology_description_set_state td MONGOC_TOPOLOGY_RS_NO_PRIMARY)
                 (sd_current_primary server) MONGOC_SERVER_POSSIBLE_PRIMARY
             else Ret td))
     | _ \<Rightarrow> Fault))"

definition mongoc_topology_description_set_topology_type_to_sharded :: transition where
  "mongoc_topology_description_set_topology_type_to_sharded td p =
     Ret (mongoc_topology_description_set_state td MONGOC_TOPOLOGY_SHARDED)"

definition mongoc_topology_description_transition_unknown_to_rs_no_primary :: "sdam_env \<Rightarrow> transition" where
  "mongoc_topology_description_transition_unknown_to_rs_no_primary env td p =
     mongoc_topology_description_update_rs_without_primary env
       (mongoc_topology_description_set_state td MONGOC_TOPOLOGY_RS_NO_PRIMARY) p"

definition mongoc_topology_description_remove_and_check_primary :: transition where
  "mongoc_topology_description_remove_and_check_primary td p =
     cbind (mongoc_topology_description_remove_server td p) update_rs_type"

definition mongoc_topology_description_update_unknown_with_standalone :: transition where
  "mongoc_topology_description_update_unknown_with_standalone td p =
     cbind (sd_get td p) (\<lambda>server.
     cbind (mongoc_topology_description_has_server td (sd_connection_address server)) (\<lambda>found.
     if found = None then Ret td
     else if items_len (td_servers td) > 1 then mongoc_topology_description_remove_server td p
     else Ret (mongoc_topology_description_set_state td MONGOC_TOPOLOGY_SINGLE)))"

definition gSDAMTransitionTable ::
  "sdam_env \<Rightarrow> (topology_description \<Rightarrow> u32 \<Rightarrow> bson_error \<Rightarrow> topology_description outcome) \<Rightarrow>
   sd_type \<Rightarrow> td_type \<Rightarrow> transition option" where
  "gSDAMTransitionTable env invalidate st tt =
     (let row = (\<lambda>unknown sharded no_primary with_primary. case tt of
            MONGOC_TOPOLOGY_UNKNOWN \<Rightarrow> unknown
          | MONGOC_TOPOLOGY_SHARDED \<Rightarrow> sharded
          | MONGOC_TOPOLOGY_RS_NO_PRIMARY \<Rightarrow> no_primary
          | MONGOC_TOPOLOGY_RS_WITH_PRIMARY \<Rightarrow> with_primary
          | MONGOC_TOPOLOGY_SINGLE \<Rightarrow> None);
          remove = Some mongoc_topology_description_remove_server;
          from_primary = Some (mongoc_topology_description_update_rs_from_primary env invalidate);
          member = row (Some (mongoc_topology_description_transition_unknown_to_rs_no_primary env))
            remove
            (Some (mongoc_topology_description_update_rs_without_primary env))
            (Some mongoc_topology_description_update_rs_with_primary_from_member) in
      case st of
        MONGOC_SERVER_UNKNOWN \<Rightarrow> row None None None (Some mongoc_topology_description_check_if_has_primary)
      | MONGOC_SERVER_STANDALONE \<Rightarrow>
          row (Some mongoc_topology_description_update_unknown_with_standalone) remove remove
            (Some mongoc_topology_description_remove_and_check_primary)
      | MONGOC_SERVER_MONGOS \<Rightarrow>
          row (Some mongoc_topology_description_set_topology_type_to_sharded) None remove
            (Some mongoc_topology_description_remove_and_check_primary)
      | MONGOC_SERVER_POSSIBLE_PRIMARY \<Rightarrow> row None None None None
      | MONGOC_SERVER_RS_PRIMARY \<Rightarrow> row from_primary remove from_primary from_primary
      | MONGOC_SERVER_RS_SECONDARY \<Rightarrow> member
      | MONGOC_SERVER_RS_ARBITER \<Rightarrow> member
      | MONGOC_SERVER_RS_OTHER \<Rightarrow> member
      | MONGOC_SERVER_RS_GHOST \<Rightarrow>
          row None remove None (Some mongoc_topology_description_check_if_has_primary))"

section \<open>Handling a reply\<close>

fun session_timeout_loop :: "server_description list \<Rightarrow> int \<Rightarrow> int" where
  "session_timeout_loop [] t = t"
| "session_timeout_loop (sd # sds) t =
     (if \<not> is_data_node sd then session_timeout_loop sds t
      else if sd_session_timeout sd = MONGOC_NO_SESSIONS then MONGOC_NO_SESSIONS
      else if t = MONGOC_NO_SESSIONS then session_timeout_loop sds (sd_session_timeout sd)
      else if t > sd_session_timeout sd then session_timeout_loop sds (sd_session_timeout sd)
      else session_timeout_loop sds t)"

definition mongoc_topology_description_update_session_timeout :: "topology_description \<Rightarrow> topology_description outcome" where
  "mongoc_topology_description_update_session_timeout td = cbind (td_server_list td) (\<lambda>sds.
     Ret (td\<lparr>td_session_timeout := session_timeout_loop sds MONGOC_NO_SESSIONS\<rparr>))"

definition WIRE_VERSION_MIN :: int where "WIRE_VERSION_MIN = 3"
definition WIRE_VERSION_MAX :: int where "WIRE_VERSION_MAX = 8"

fun compatible_loop :: "server_description list \<Rightarrow> bson_error \<Rightarrow> bson_error" where
  "compatible_loop [] e = e"
| "compatible_loop (sd # sds) e =
     (if sd_type sd = MONGOC_SERVER_UNKNOWN \<or> sd_type sd = MONGOC_SERVER_POSSIBLE_PRIMARY then compatible_loop sds e
      else if sd_min_wire_version sd > WIRE_VERSION_MAX \<or> sd_max_wire_version sd < WIRE_VERSION_MIN then
        compatible_loop sds
          \<lparr>err_domain = MONGOC_ERROR_PROTOCOL, err_code = MONGOC_ERROR_PROTOCOL_BAD_WIRE_VERSION\<rparr>
      else compatible_loop sds e)"

definition mongoc_topology_description_check_compatible :: "topology_description \<Rightarrow> topology_description outcome" where
  "mongoc_topology_description_check_compatible td = cbind (td_server_list td) (\<lambda>sds.
     Ret (td\<lparr>td_compat_error := compatible_loop sds no_error\<rparr>))"

text \<open>
  The handler calls itself through \<open>mongoc_topology_description_invalidate_server\<close>, with no reply; the
  first argument bounds the depth of these calls.
\<close>

primrec handle_ismaster_depth ::
  "nat \<Rightarrow> sdam_env \<Rightarrow> topology_description \<Rightarrow> u32 \<Rightarrow> bson_view option \<Rightarrow> int \<Rightarrow> bson_error option \<Rightarrow>
   topology_description outcome" where
  "handle_ismaster_depth 0 env td server_id reply rtt_msec error = Timeout"
| "handle_ismaster_depth (Suc depth) env td server_id reply rtt_msec error =
     c_assert (server_id \<noteq> 0) (case mongoc_topology_description_server_by_id td server_id of
       None \<Rightarrow> Ret td
     | Some p \<Rightarrow>
         cbind (if cb_topology_changed (td_callbacks td)
                then cbind (mongoc_topology_description_copy env td) (\<lambda>c. Ret (Some c)) else Ret None) (\<lambda>prev_td.
         cbind (sd_get td p) (\<lambda>sd0.
         cbind (if cb_server_changed (td_callbacks td)
                then cbind (mongoc_server_description_new_copy env sd0) (\<lambda>c. Ret (Some c)) else Ret None) (\<lambda>prev_sd.
         cbind (mongoc_server_description_handle_ismaster env sd0 reply rtt_msec error) (\<lambda>sd.
         cbind (mongoc_topology_description_update_cluster_time (sd_put p sd td) reply) (\<lambda>td.
         cbind (monitor_server_changed td prev_sd p) (\<lambda>td.
         cbind (case gSDAMTransitionTable env
                   (\<lambda>td server_id e. handle_ismaster_depth depth env td server_id None 0 (Some e))
                   (sd_type sd) (td_type td) of
                  None \<Rightarrow> Ret td | Some transition \<Rightarrow> transition td p) (\<lambda>td.
         cbind (mongoc_topology_description_update_session_timeout td) (\<lambda>td.
         cbind (if reply \<noteq> None \<and> (case error of None \<Rightarrow> True | Some e \<Rightarrow> err_code e = 0)
                then mongoc_topology_description_check_compatible td else Ret td) (\<lambda>td.
         monitor_changed prev_td td))))))))))"

definition mongoc_topology_description_handle_ismaster ::
  "sdam_env \<Rightarrow> topology_description \<Rightarrow> u32 \<Rightarrow> bson_view option \<Rightarrow> int \<Rightarrow> bson_error option \<Rightarrow>
   topology_description outcome" where
  "mongoc_topology_description_handle_ismaster = handle_ismaster_depth 2"

definition mongoc_topology_description_invalidate_server ::
  "sdam_env \<Rightarrow> topology_description \<Rightarrow> u32 \<Rightarrow> bson_error \<Rightarrow> topology_description outcome" where
  "mongoc_topology_description_invalidate_server env td server_id error =
     mongoc_topology_description_handle_ismaster env td server_id None 0 (Some error)"

section \<open>The description of a new topology\<close>

text \<open>
  The part of \<open>mongoc_topology_new\<close> (\<open>mongoc/mongoc-topology.c\<close>) that sets up the description. What the URI
  holds is an argument: whether it names a service, its \<open>directConnection\<close> option, its replica set name
  (before and after the TXT records of the service are read) and its hosts. \<open>topology_valid\<close> says
  whether the service could be looked up. The scanner that gets the same hosts is left out.
\<close>

definition mongoc_topology_init_type ::
  "bool \<Rightarrow> bool \<Rightarrow> bool \<Rightarrow> cstr option \<Rightarrow> mongoc_host_list list \<Rightarrow> td_type" where
  "mongoc_topology_init_type service has_directconnection directconnection replica_set hl =
     (if service \<and> \<not> has_directconnection then MONGOC_TOPOLOGY_UNKNOWN
      else if has_directconnection then
        if directconnection then MONGOC_TOPOLOGY_SINGLE
        else if replica_set \<noteq> None then MONGOC_TOPOLOGY_RS_NO_PRIMARY else MONGOC_TOPOLOGY_UNKNOWN
      else if replica_set \<noteq> None then MONGOC_TOPOLOGY_RS_NO_PRIMARY
      else if length hl > 1 then MONGOC_TOPOLOGY_UNKNOWN
      else MONGOC_TOPOLOGY_SINGLE)"

primrec mongoc_topology_add_seeds ::
  "sdam_env \<Rightarrow> mongoc_host_list list \<Rightarrow> topology_description \<Rightarrow> topology_description outcome" where
  "mongoc_topology_add_seeds env [] td = Ret td"
| "mongoc_topology_add_seeds env (h # hl) td =
     cbind (mongoc_topology_description_add_server env td (Some (hl_host_and_port h))) (\<lambda>(_, td).
     mongoc_topology_add_seeds env hl td)"

definition no_callbacks :: apm_callbacks where
  "no_callbacks = \<lparr>cb_server_changed = False, cb_server_opening = False, cb_server_closed = False, cb_topology_changed = False\<rparr>"

definition mongoc_topology_new_description ::
  "sdam_env \<Rightarrow> int \<Rightarrow> bool \<Rightarrow> bool \<Rightarrow> bool \<Rightarrow> cstr option \<Rightarrow> cstr option \<Rightarrow> bool \<Rightarrow> mongoc_host_list list \<Rightarrow>
   topology_description outcome" where
  "mongoc_topology_new_description env heartbeat service has_directconnection directconnection uri_set replica_set topology_valid hl =
     (let td = (mongoc_topology_description_init heartbeat no_callbacks)\<lparr>td_set_name := uri_set,
            td_type := mongoc_topology_init_type service has_directconnection directconnection replica_set hl\<rparr> in
      if \<not> topology_valid then Ret td else mongoc_topology_add_seeds env hl td)"

definition mongoc_topology_set_apm_callbacks ::
  "topology_description \<Rightarrow> apm_callbacks option \<Rightarrow> topology_description" where
  "mongoc_topology_set_apm_callbacks td callbacks =
     td\<lparr>td_callbacks := (case callbacks of Some c \<Rightarrow> c | None \<Rightarrow> no_callbacks)\<rparr>"

end
