(* ===== verification/Mongoc_Topology_Ops.thy ===== *)
theory Mongoc_Topology_Ops
  imports Mongoc_Topology
begin

text \<open>
  The queries and the changes of a topology description, each with what it returns on a well-formed
  description (\<open>td_wf\<close>): it does not touch freed memory, and the lemma says what the memory of the
  servers is afterwards. \<open>td_frame\<close> and \<open>td_added\<close> name what stays as it is. A last section shows that a
  description whose reply was read can be copied.
\<close>

section \<open>Loops over the servers\<close>

primrec each_while :: "('p \<Rightarrow> 'c \<Rightarrow> (bool \<times> 'c) outcome) \<Rightarrow> 'p list \<Rightarrow> 'c \<Rightarrow> 'c outcome" where
  "each_while cb [] ctx = Ret ctx"
| "each_while cb (p # ps) ctx = cbind (cb p ctx) (\<lambda>(go, ctx). if go then each_while cb ps ctx else Ret ctx)"

abbreviation td_ptrs :: "topology_description \<Rightarrow> nat list" where
  "td_ptrs td \<equiv> map snd (set_items (td_servers td))"

lemma for_each_while: "mongoc_set_for_each s cb ctx = each_while cb (map snd (set_items s)) ctx"
proof -
  have "for_each_items (\<lambda>k p c. cb p c) i xs c = each_while cb (map snd xs) c" for i c and xs :: "'b set_item list"
  proof (induction xs arbitrary: i c)
    case (Cons x xs)
    then show ?case by (cases "cb (snd x) c") auto
  qed simp
  then show ?thesis
    by (auto simp: mongoc_set_for_each_def mongoc_set_for_each_with_id_def)
qed

section \<open>Well-formed topologies\<close>

text \<open>
  The pointers of the set are distinct and allocated, nothing else is allocated, and a description
  has the id of its item and a connection address. Ids are handed out in increasing order.
\<close>

definition item_ok :: "sd_mem \<Rightarrow> u32 \<Rightarrow> u32 \<Rightarrow> nat \<Rightarrow> bool" where
  "item_ok mem n k p \<longleftrightarrow> (case mem p of None \<Rightarrow> False
     | Some sd \<Rightarrow> sd_id sd = k \<and> sd_connection_address sd \<noteq> None \<and> k \<noteq> 0 \<and> k \<le> n)"

definition td_wf :: "topology_description \<Rightarrow> bool" where
  "td_wf td \<longleftrightarrow>
     set_inv_dtor mongoc_topology_server_dtor (td_servers td) \<and>
     distinct (td_ptrs td) \<and> dom (td_mem td) = set (td_ptrs td) \<and> (\<forall>p\<in>set (td_ptrs td). p < td_brk td) \<and>
     (\<forall>(k, p)\<in>set (set_items (td_servers td)). item_ok (td_mem td) (td_max_server_id td) k p)"

text \<open>The part of the state that only the transitions change.\<close>

definition td_ctl :: "topology_description \<Rightarrow> td_type \<times> cstr option \<times> int \<times> oid \<times> apm_callbacks" where
  "td_ctl td = (td_type td, td_set_name td, td_max_set_version td, td_max_election_id td, td_callbacks td)"

lemma td_wfI:
  assumes "set_inv_dtor mongoc_topology_server_dtor (td_servers td)" "distinct (td_ptrs td)"
    "dom (td_mem td) = set (td_ptrs td)" "\<And>p. p \<in> set (td_ptrs td) \<Longrightarrow> p < td_brk td"
    "\<And>k p. (k, p) \<in> set (set_items (td_servers td)) \<Longrightarrow> item_ok (td_mem td) (td_max_server_id td) k p"
  shows "td_wf td"
  using assms unfolding td_wf_def by blast

lemma td_wfD:
  assumes "td_wf td"
  shows "set_inv_dtor mongoc_topology_server_dtor (td_servers td)" "distinct (td_ptrs td)"
    "dom (td_mem td) = set (td_ptrs td)" "\<And>p. p \<in> set (td_ptrs td) \<Longrightarrow> p < td_brk td"
    "\<And>k p. (k, p) \<in> set (set_items (td_servers td)) \<Longrightarrow> item_ok (td_mem td) (td_max_server_id td) k p"
  using assms unfolding td_wf_def by blast+

lemma td_wf_set: "td_wf td \<Longrightarrow> set_inv (td_servers td) \<and> set_dtor (td_servers td) = Some mongoc_topology_server_dtor"
  using td_wfD(1) [of td] by (simp add: set_inv_dtor_def)

lemma td_wf_ptr:
  assumes "td_wf td" "td_mem td p = Some sd"
  shows "(sd_id sd, p) \<in> set (set_items (td_servers td))" "sd_connection_address sd \<noteq> None" "sd_id sd \<noteq> 0"
    "sd_id sd \<le> td_max_server_id td" "p \<in> set (td_ptrs td)" "p < td_brk td"
proof -
  show p: "p \<in> set (td_ptrs td)" using td_wfD(3) [OF assms(1)] assms(2) by blast
  then obtain k where k: "(k, p) \<in> set (set_items (td_servers td))" by auto
  from td_wfD(5) [OF assms(1) k] k assms(2)
  show "(sd_id sd, p) \<in> set (set_items (td_servers td))" "sd_connection_address sd \<noteq> None" "sd_id sd \<noteq> 0"
    "sd_id sd \<le> td_max_server_id td" by (auto simp: item_ok_def)
  show "p < td_brk td" using td_wfD(4) [OF assms(1) p] .
qed

lemma td_wf_lookup:
  assumes "td_wf td" "td_mem td p = Some sd"
  shows "set_lookup (td_servers td) (sd_id sd) = Some p"
proof -
  have "distinct (map fst (set_items (td_servers td)))"
    using td_wf_set [OF assms(1)] by (simp add: set_inv_def strict_sorted_iff)
  then show ?thesis using td_wf_ptr(1) [OF assms] by (simp add: set_lookup_def)
qed

lemma td_wf_mem:
  assumes "td_wf td" "set_lookup (td_servers td) k = Some p"
  shows "\<exists>sd. td_mem td p = Some sd \<and> sd_id sd = k"
proof -
  have "(k, p) \<in> set (set_items (td_servers td))" using assms(2) by (simp add: set_lookup_def map_of_SomeD)
  from td_wfD(5) [OF assms(1) this] show ?thesis by (auto simp: item_ok_def split: option.splits)
qed

lemma td_wf_id_inj:
  "td_wf td \<Longrightarrow> td_mem td p = Some sd \<Longrightarrow> td_mem td q = Some sd' \<Longrightarrow> sd_id sd = sd_id sd' \<Longrightarrow> p = q"
  using td_wf_lookup [of td p sd] td_wf_lookup [of td q sd'] by simp

lemma td_wf_get: "td_wf td \<Longrightarrow> p \<in> set (td_ptrs td) \<Longrightarrow> \<exists>sd. td_mem td p = Some sd \<and> sd_get td p = Ret sd"
  using td_wfD(3) [of td] by (auto simp: sd_get_def dom_def set_eq_iff simp del: set_map split: option.splits)

lemma sd_get_eq: "td_mem td p = Some sd \<Longrightarrow> sd_get td p = Ret sd"
  by (simp add: sd_get_def)

lemma td_wf_ctl:
  assumes "td_wf td" "td_servers td' = td_servers td" "td_mem td' = td_mem td" "td_brk td' = td_brk td"
    "td_max_server_id td' = td_max_server_id td"
  shows "td_wf td'"
  using assms by (simp add: td_wf_def)

lemma td_wf_put:
  assumes "td_wf td" "td_mem td p = Some sd" "sd_id sd' = sd_id sd" "sd_connection_address sd' \<noteq> None"
  shows "td_wf (sd_put p sd' td)"
proof (rule td_wfI)
  note wf = td_wfD [OF assms(1)]
  have eq: "td_ptrs (sd_put p sd' td) = td_ptrs td" by (simp add: sd_put_def)
  show "set_inv_dtor mongoc_topology_server_dtor (td_servers (sd_put p sd' td))" using wf(1) by (simp add: sd_put_def)
  show "distinct (td_ptrs (sd_put p sd' td))" using wf(2) by (simp add: sd_put_def)
  show "dom (td_mem (sd_put p sd' td)) = set (td_ptrs (sd_put p sd' td))"
    using wf(3) assms(2) unfolding eq by (auto simp: sd_put_def)
  show "q < td_brk (sd_put p sd' td)" if "q \<in> set (td_ptrs (sd_put p sd' td))" for q
    using wf(4) [of q] that unfolding eq by (simp add: sd_put_def)
  show "item_ok (td_mem (sd_put p sd' td)) (td_max_server_id (sd_put p sd' td)) k q"
    if "(k, q) \<in> set (set_items (td_servers (sd_put p sd' td)))" for k q
    using wf(5) [of k q] that assms by (auto simp: sd_put_def item_ok_def)
qed

lemma sd_put_simps [simp]:
  "td_servers (sd_put p sd td) = td_servers td" "td_mem (sd_put p sd td) = (td_mem td)(p \<mapsto> sd)"
  "td_ctl (sd_put p sd td) = td_ctl td" "td_brk (sd_put p sd td) = td_brk td"
  "td_max_server_id (sd_put p sd td) = td_max_server_id td" "td_callbacks (sd_put p sd td) = td_callbacks td"
  by (simp_all add: sd_put_def td_ctl_def)

lemma td_emit_simps [simp]:
  "td_servers (td_emit e td) = td_servers td" "td_mem (td_emit e td) = td_mem td"
  "td_ctl (td_emit e td) = td_ctl td" "td_brk (td_emit e td) = td_brk td"
  "td_max_server_id (td_emit e td) = td_max_server_id td" "td_callbacks (td_emit e td) = td_callbacks td"
  "td_wf (td_emit e td) = td_wf td"
  by (simp_all add: td_emit_def td_ctl_def td_wf_def)

section \<open>The queries\<close>

lemma has_primary_spec:
  assumes "td_wf td"
  shows "\<exists>r. mongoc_topology_description_has_primary td = Ret r \<and>
    (r \<noteq> None \<longleftrightarrow> (\<exists>p sd. td_mem td p = Some sd \<and> sd_type sd \<in> {MONGOC_SERVER_RS_PRIMARY, MONGOC_SERVER_STANDALONE}))"
proof -
  have "\<exists>r. each_while (has_primary_cb td) ps None = Ret r \<and>
    (r \<noteq> None \<longleftrightarrow> (\<exists>p\<in>set ps. \<exists>sd. td_mem td p = Some sd \<and> sd_type sd \<in> {MONGOC_SERVER_RS_PRIMARY, MONGOC_SERVER_STANDALONE}))"
    if "set ps \<subseteq> set (td_ptrs td)" for ps
    using that
  proof (induction ps)
    case (Cons p ps)
    then obtain sd where "td_mem td p = Some sd" "sd_get td p = Ret sd" using td_wf_get [OF assms, of p] by auto
    with Cons show ?case by (auto simp: has_primary_cb_def)
  qed simp
  from this [of "td_ptrs td"] show ?thesis
    unfolding mongoc_topology_description_has_primary_def for_each_while
    using td_wf_ptr(5) [OF assms] by blast
qed

lemma update_rs_type_spec:
  assumes "td_wf td"
  shows "update_rs_type td = Ret (td\<lparr>td_type :=
    (if \<exists>p sd. td_mem td p = Some sd \<and> sd_type sd \<in> {MONGOC_SERVER_RS_PRIMARY, MONGOC_SERVER_STANDALONE}
     then MONGOC_TOPOLOGY_RS_WITH_PRIMARY else MONGOC_TOPOLOGY_RS_NO_PRIMARY)\<rparr>)"
  using has_primary_spec [OF assms]
  by (auto simp: update_rs_type_def mongoc_topology_description_set_state_def)

definition addr_eq :: "cstr \<Rightarrow> cstr option \<Rightarrow> bool" where
  "addr_eq a b \<longleftrightarrow> (case b of None \<Rightarrow> False | Some b \<Rightarrow> map c_tolower a = map c_tolower b)"

lemma has_server_cb_spec:
  assumes "td_wf td" "td_mem td p = Some sd"
  shows "has_server_cb td (Some a) p r =
    Ret (if addr_eq a (sd_connection_address sd) then (False, Some (sd_id sd)) else (True, r))"
  using td_wf_ptr(2) [OF assms] assms(2)
  by (auto simp: has_server_cb_def sd_get_eq c_strcasecmp_0_def addr_eq_def)

lemma has_server_spec:
  assumes "td_wf td"
  shows "\<exists>r. mongoc_topology_description_has_server td (Some a) = Ret r \<and>
    (r \<noteq> None \<longleftrightarrow> (\<exists>p sd. td_mem td p = Some sd \<and> addr_eq a (sd_connection_address sd)))"
proof -
  have "\<exists>r. each_while (has_server_cb td (Some a)) ps None = Ret r \<and>
    (r \<noteq> None \<longleftrightarrow> (\<exists>p\<in>set ps. \<exists>sd. td_mem td p = Some sd \<and> addr_eq a (sd_connection_address sd)))"
    if "set ps \<subseteq> set (td_ptrs td)" for ps
    using that
  proof (induction ps)
    case (Cons p ps)
    then obtain sd where sd: "td_mem td p = Some sd" using td_wf_get [OF assms, of p] by auto
    with Cons show ?case by (auto simp: has_server_cb_spec [OF assms sd])
  qed simp
  from this [of "td_ptrs td"] show ?thesis
    unfolding mongoc_topology_description_has_server_def for_each_while
    using td_wf_ptr(5) [OF assms] by (simp only: option.distinct c_assert_True not_False_eq_True) blast
qed

lemma has_server_own:
  assumes "td_wf td" "td_mem td p = Some sd"
  shows "\<exists>k. mongoc_topology_description_has_server td (sd_connection_address sd) = Ret (Some k)"
proof -
  obtain a where a: "sd_connection_address sd = Some a" using td_wf_ptr(2) [OF assms] by blast
  obtain r where r: "mongoc_topology_description_has_server td (Some a) = Ret r"
    "r \<noteq> None \<longleftrightarrow> (\<exists>p sd. td_mem td p = Some sd \<and> addr_eq a (sd_connection_address sd))"
    using has_server_spec [OF assms(1)] by blast
  have "addr_eq a (sd_connection_address sd)" by (simp add: a addr_eq_def)
  with r assms(2) have "r \<noteq> None" by blast
  with r(1) a show ?thesis by auto
qed

lemma td_server_list_eq:
  assumes "td_wf td"
  shows "td_server_list td = Ret (map (\<lambda>p. the (td_mem td p)) (td_ptrs td))"
proof -
  have "sd_list td ps = Ret (map (\<lambda>p. the (td_mem td p)) ps)" if "set ps \<subseteq> set (td_ptrs td)" for ps
    using that
  proof (induction ps)
    case (Cons p ps)
    then obtain sd where "td_mem td p = Some sd" "sd_get td p = Ret sd" using td_wf_get [OF assms, of p] by auto
    with Cons show ?case by simp
  qed simp
  then show ?thesis by (simp add: td_server_list_def)
qed

lemma td_server_list_spec:
  assumes "td_wf td"
  shows "\<exists>sds. td_server_list td = Ret sds \<and> set sds = ran (td_mem td)"
proof -
  have "ran (td_mem td) = (\<lambda>p. the (td_mem td p)) ` dom (td_mem td)" by (force simp: ran_def dom_def image_iff)
  then have "(\<lambda>p. the (td_mem td p)) ` set (td_ptrs td) = ran (td_mem td)" using td_wfD(3) [OF assms] by simp
  then show ?thesis using td_server_list_eq [OF assms] by (simp add: image_image)
qed

section \<open>The changes\<close>

definition td_frame :: "topology_description \<Rightarrow> topology_description \<Rightarrow> bool" where
  "td_frame td td' \<longleftrightarrow> td_wf td' \<and> td_ctl td' = td_ctl td"

text \<open>A monitoring call changes no more than the events and the \<open>opened\<close> flag.\<close>

lemma monitor_server_closed_spec:
  assumes "td_mem td p = Some sd"
  shows "\<exists>ev. monitor_server_closed td p = Ret (if cb_server_closed (td_callbacks td) then td_emit ev td else td)"
  using assms by (auto simp: monitor_server_closed_def sd_get_eq)

lemma remove_server_spec:
  assumes wf: "td_wf td" and p: "td_mem td p = Some sd"
  shows "\<exists>td'. mongoc_topology_description_remove_server td p = Ret td' \<and> td_frame td td' \<and>
    td_mem td' = (td_mem td)(p := None) \<and> td_max_server_id td' = td_max_server_id td"
proof -
  have rm: "\<exists>td'. cbind (sd_get td p) (\<lambda>server.
     cbind (mongoc_set_rm (td_servers td) (sd_id server) (td_mem td)) (\<lambda>(servers, mem).
     Ret (td\<lparr>td_servers := servers, td_mem := mem\<rparr>))) = Ret td' \<and> td_frame td td' \<and>
    td_mem td' = (td_mem td)(p := None) \<and> td_max_server_id td' = td_max_server_id td"
    if wf: "td_wf td" and p: "td_mem td p = Some sd" for td
  proof -
    have d: "run_dtor (td_servers td) p (td_mem td) = Ret ((td_mem td)(p := None))"
      using p td_wf_set [OF wf] by (simp add: run_dtor_def mongoc_topology_server_dtor_def)
    obtain s' where s': "mongoc_set_rm (td_servers td) (sd_id sd) (td_mem td) = Ret (s', (td_mem td)(p := None))"
      "set_inv s'" "set_dtor s' = set_dtor (td_servers td)"
      "set_items s' = filter (\<lambda>y. fst y \<noteq> sd_id sd) (set_items (td_servers td))"
      using set_rm_spec [OF _ td_wf_lookup [OF wf p] d] td_wf_set [OF wf] by blast
    have eq: "fst y \<noteq> sd_id sd \<longleftrightarrow> snd y \<noteq> p" if y: "y \<in> set (set_items (td_servers td))" for y
    proof -
      obtain s where "td_mem td (snd y) = Some s" "sd_id s = fst y"
        using td_wfD(5) [OF wf, of "fst y" "snd y"] y by (auto simp: item_ok_def split: option.splits)
      then show ?thesis using td_wf_id_inj [OF wf, of "snd y" s p sd] p by auto
    qed
    have items: "set_items s' = filter (\<lambda>y. snd y \<noteq> p) (set_items (td_servers td))"
      unfolding s'(4) by (intro filter_cong refl eq)
    then have ptrs: "map snd (set_items s') = filter (\<lambda>q. q \<noteq> p) (td_ptrs td)"
      by (simp add: filter_map comp_def)
    let ?td = "td\<lparr>td_servers := s', td_mem := (td_mem td)(p := None)\<rparr>"
    note w = td_wfD [OF wf]
    have "td_wf ?td"
    proof (rule td_wfI)
      show "set_inv_dtor mongoc_topology_server_dtor (td_servers ?td)" using w(1) s'(2,3) by (simp add: set_inv_dtor_def)
      show "distinct (td_ptrs ?td)" using w(2) by (simp add: ptrs)
      have "dom (td_mem ?td) = dom (td_mem td) - {p}" by auto
      then show "dom (td_mem ?td) = set (td_ptrs ?td)" unfolding w(3) by (auto simp: ptrs)
      show "q < td_brk ?td" if "q \<in> set (td_ptrs ?td)" for q using w(4) [of q] that by (auto simp: ptrs)
      show "item_ok (td_mem ?td) (td_max_server_id ?td) k q" if "(k, q) \<in> set (set_items (td_servers ?td))" for k q
        using w(5) [of k q] that by (auto simp: items item_ok_def)
    qed
    then show ?thesis using s'(1) p by (simp add: sd_get_eq td_frame_def td_ctl_def)
  qed
  obtain ev where "monitor_server_closed td p = Ret (if cb_server_closed (td_callbacks td) then td_emit ev td else td)"
    using monitor_server_closed_spec [OF p] by blast
  then show ?thesis
    using rm [of td] rm [of "td_emit ev td"] wf p
    by (auto simp: mongoc_topology_description_remove_server_def td_frame_def)
qed

text \<open>What adding servers may change.\<close>

definition sd_fresh :: "server_description \<Rightarrow> bool" where
  "sd_fresh sd \<longleftrightarrow> sd_type sd = MONGOC_SERVER_UNKNOWN \<and> \<not> sd_has_is_master sd"

definition td_added :: "nat \<Rightarrow> topology_description \<Rightarrow> topology_description \<Rightarrow> bool" where
  "td_added n td td' \<longleftrightarrow> td_frame td td' \<and> td_mem td \<subseteq>\<^sub>m td_mem td' \<and>
     (\<forall>p sd. td_mem td' p = Some sd \<longrightarrow> td_mem td p = Some sd \<or> sd_fresh sd) \<and>
     unat (td_max_server_id td') \<le> unat (td_max_server_id td) + n \<and> card (dom (td_mem td')) \<le> card (dom (td_mem td)) + n"

lemma td_added_refl: "td_wf td \<Longrightarrow> td_added n td td"
  by (auto simp: td_added_def td_frame_def)

lemma td_added_trans: "td_added n td td' \<Longrightarrow> td_added m td' td'' \<Longrightarrow> td_added (n + m) td td''"
  unfolding td_added_def td_frame_def by (fastforce intro: map_le_trans)

definition host_ok :: "cstr option \<Rightarrow> bool" where
  "host_ok s \<longleftrightarrow> (case s of None \<Rightarrow> False | Some a \<Rightarrow> fst (mongoc_host_list_from_string (sd_host sd_zero) a))"

lemma init_fresh:
  assumes "host_ok (Some a)"
  shows "sd_id (mongoc_server_description_init env sd_zero a k) = k"
    "sd_connection_address (mongoc_server_description_init env sd_zero a k) \<noteq> None"
    "sd_fresh (mongoc_server_description_init env sd_zero a k)"
  using assms
  by (auto simp: host_ok_def mongoc_server_description_init_def Let_def sd_fresh_def
      mongoc_server_description_reset_def sd_zero_def split: prod.splits)

lemma td_wf_new:
  assumes wf: "td_wf td" and id: "sd_id sd = k" "k \<noteq> 0" "td_max_server_id td < k" and a: "sd_connection_address sd \<noteq> None"
    and s: "set_inv s" "set_dtor s = set_dtor (td_servers td)" "set (set_items s) = insert (k, td_brk td) (set (set_items (td_servers td)))"
    "items_len s = Suc (items_len (td_servers td))"
  shows "td_wf (sd_put (td_brk td) sd (td\<lparr>td_max_server_id := k, td_brk := td_brk td + 1, td_servers := s\<rparr>))"
proof (rule td_wfI)
  note w = td_wfD [OF wf]
  let ?td = "sd_put (td_brk td) sd (td\<lparr>td_max_server_id := k, td_brk := td_brk td + 1, td_servers := s\<rparr>)"
  have ptrs: "set (td_ptrs ?td) = insert (td_brk td) (set (td_ptrs td))" by (simp add: sd_put_def s(3))
  have new: "td_brk td \<notin> set (td_ptrs td)" using w(4) [of "td_brk td"] by blast
  show "set_inv_dtor mongoc_topology_server_dtor (td_servers ?td)" using w(1) s by (simp add: sd_put_def set_inv_dtor_def)
  show "distinct (td_ptrs ?td)"
  proof (rule card_distinct)
    have "card (set (td_ptrs td)) = items_len (td_servers td)" using distinct_card [OF w(2)] by simp
    then show "card (set (td_ptrs ?td)) = length (td_ptrs ?td)" unfolding ptrs
      by (simp add: new [unfolded set_map] s(4) sd_put_def)
  qed
  show "dom (td_mem ?td) = set (td_ptrs ?td)" unfolding ptrs using w(3) by (simp add: sd_put_def)
  show "q < td_brk ?td" if "q \<in> set (td_ptrs ?td)" for q
  proof -
    have "q = td_brk td \<or> q \<in> set (td_ptrs td)" using that unfolding ptrs by blast
    then have "q = td_brk td \<or> q < td_brk td" using w(4) by blast
    then show ?thesis by (auto simp: sd_put_def)
  qed
  show "item_ok (td_mem ?td) (td_max_server_id ?td) i q" if i: "(i, q) \<in> set (set_items (td_servers ?td))" for i q
  proof (cases "q = td_brk td")
    case True
    with i new id a show ?thesis by (force simp: sd_put_def s(3) item_ok_def)
  next
    case False
    with i have "(i, q) \<in> set (set_items (td_servers td))" by (simp add: sd_put_def s(3))
    from w(5) [OF this] False id show ?thesis by (auto simp: sd_put_def item_ok_def split: option.splits)
  qed
qed

lemma monitor_server_opening_spec:
  assumes "td_wf td" "td_mem td p = Some sd"
  shows "\<exists>td' sd'. monitor_server_opening td p = Ret td' \<and> td_frame td td' \<and> td_mem td' = (td_mem td)(p \<mapsto> sd') \<and>
    td_max_server_id td' = td_max_server_id td \<and> (sd' = sd \<or> sd' = sd\<lparr>sd_opened := True\<rparr>)"
proof (cases "cb_server_opening (td_callbacks td) \<and> \<not> sd_opened sd")
  case True
  with assms(2) td_wf_put [OF assms, of "sd\<lparr>sd_opened := True\<rparr>"] td_wf_ptr(2) [OF assms] show ?thesis
    by (simp add: monitor_server_opening_def sd_get_eq td_frame_def) blast
next
  case False
  with assms have "monitor_server_opening td p = Ret td" by (auto simp: monitor_server_opening_def sd_get_eq)
  moreover have "td_mem td = (td_mem td)(p \<mapsto> sd)" using assms(2) by (simp add: fun_upd_idem)
  ultimately show ?thesis using assms(1) by (simp add: td_frame_def) blast
qed

lemma add_server_spec:
  assumes wf: "td_wf td" and a: "host_ok s" and n: "unat (td_max_server_id td) + 1 < 2 ^ 32"
  shows "\<exists>k td'. mongoc_topology_description_add_server env td s = Ret (k, td') \<and> td_added 1 td td'"
proof -
  from a obtain a where s: "s = Some a" by (cases s) (auto simp: host_ok_def)
  obtain r where r: "mongoc_topology_description_has_server td (Some a) = Ret r" using has_server_spec [OF wf] by blast
  show ?thesis
  proof (cases r)
    case (Some k)
    with r wf show ?thesis by (auto simp: mongoc_topology_description_add_server_def s td_added_refl)
  next
    case None
    let ?k = "td_max_server_id td + 1" and ?p = "td_brk td"
    define new where "new = mongoc_server_description_init env sd_zero a ?k"
    have un: "unat ?k = unat (td_max_server_id td) + 1"
      using n by (subst unat_add_lem [THEN iffD1]) simp_all
    then have k: "td_max_server_id td < ?k" "?k \<noteq> 0" by (simp_all add: word_less_nat_alt) (metis One_nat_def Suc_eq_plus1 nat.simps(3) unat_0)
    have "set_lookup (td_servers td) ?k = None"
    proof (rule ccontr)
      assume "set_lookup (td_servers td) ?k \<noteq> None"
      then obtain q where "set_lookup (td_servers td) ?k = Some q" by blast
      from td_wf_mem [OF wf this] td_wf_ptr(4) [OF wf] k show False by fastforce
    qed
    then obtain s' where s': "mongoc_set_add (td_servers td) ?k ?p = Ret s'" "set_inv s'"
      "set_dtor s' = set_dtor (td_servers td)" "set (set_items s') = insert (?k, ?p) (set (set_items (td_servers td)))"
      "items_len s' = Suc (items_len (td_servers td))"
      using set_add_spec [of "td_servers td" ?k ?p] td_wf_set [OF wf] by blast
    note new = init_fresh [OF a [unfolded s], of env ?k, folded new_def]
    define td1 where "td1 = (sd_put ?p new (td\<lparr>td_max_server_id := ?k, td_brk := ?p + 1\<rparr>))\<lparr>td_servers := s'\<rparr>"
    have td1: "td1 = sd_put ?p new (td\<lparr>td_max_server_id := ?k, td_brk := ?p + 1, td_servers := s'\<rparr>)"
      by (simp add: td1_def sd_put_def)
    have wf1: "td_wf td1" unfolding td1 using td_wf_new [OF wf new(1) k(2,1) new(2) s'(2-5)] .
    have mp: "td_mem td1 ?p = Some new" by (simp add: td1)
    have fresh: "td_mem td ?p = None" using td_wf_ptr(6) [OF wf, of ?p] by (cases "td_mem td ?p") auto
    obtain td2 new' where m: "monitor_server_opening td1 ?p = Ret td2" and
      td2: "td_frame td1 td2" "td_mem td2 = (td_mem td1)(?p \<mapsto> new')" "td_max_server_id td2 = td_max_server_id td1"
      and new': "sd_fresh new'"
      using monitor_server_opening_spec [OF wf1 mp] new(3) by (fastforce simp: sd_fresh_def)
    have card: "card (dom ((td_mem td)(?p \<mapsto> new'))) \<le> card (dom (td_mem td)) + 1"
      by (simp add: card_insert_le_m1 card_insert_if)
    have "td_added 1 td td2"
      using td2 fresh new' un card
      by (auto simp: td_added_def td_frame_def map_le_def td1_def td_ctl_def sd_put_def split: if_splits)
    moreover have "mongoc_topology_description_add_server env td s = Ret (?k, td2)"
      using m s'(1) by (simp add: mongoc_topology_description_add_server_def s r None Let_def new_def td1_def)
    ultimately show ?thesis by blast
  qed
qed

section \<open>The members that a reply lists\<close>

definition string_body :: "(cstr option \<Rightarrow> 's \<Rightarrow> (bool \<times> 's) outcome) \<Rightarrow> bson_iter \<Rightarrow> 's \<Rightarrow> (bool \<times> 's) outcome" where
  "string_body g it s = cbind (iter_utf8_str it) (\<lambda>x. g x s)"

definition view_strings :: "bson_view \<Rightarrow> cstr option list outcome" where
  "view_strings v = cbind (view_while (string_body (\<lambda>x xs. Ret (True, xs @ [x]))) v []) (\<lambda>(_, xs). Ret xs)"

primrec str_while :: "(cstr option \<Rightarrow> 's \<Rightarrow> (bool \<times> 's) outcome) \<Rightarrow> cstr option list \<Rightarrow> 's \<Rightarrow> (bool \<times> 's) outcome" where
  "str_while g [] s = Ret (True, s)"
| "str_while g (x # xs) s = cbind (g x s) (\<lambda>(go, s). if go then str_while g xs s else Ret (False, s))"

lemma iter_strings:
  assumes "iter_while fuel (string_body (\<lambda>x xs. Ret (True, xs @ [x]))) it acc = Ret (r, ys)"
  shows "\<exists>xs. ys = acc @ xs \<and> iter_while fuel (string_body g) it s = str_while g xs s"
  using assms
proof (induction fuel arbitrary: it acc s)
  case (Suc fuel)
  from Suc.prems obtain r' it' where n: "bson_iter_next it = Ret (r', it')" by (auto split: prod.splits)
  show ?case
  proof (cases r')
    case True
    have step: "iter_while (Suc fuel) (string_body h) it c =
        cbind (iter_utf8_str it') (\<lambda>x. cbind (h x c) (\<lambda>(go, c). if go then iter_while fuel (string_body h) it' c else Ret (False, c)))"
      for h :: "cstr option \<Rightarrow> 'c \<Rightarrow> (bool \<times> 'c) outcome" and c
      by (simp add: n True string_body_def cbind_assoc)
    from Suc.prems [unfolded step] obtain x where x: "iter_utf8_str it' = Ret x"
      and rest: "iter_while fuel (string_body (\<lambda>x xs. Ret (True, xs @ [x]))) it' (acc @ [x]) = Ret (r, ys)"
      by auto
    obtain xs where xs: "ys = (acc @ [x]) @ xs" using Suc.IH [OF rest] by blast
    have "iter_while fuel (string_body g) it' s' = str_while g xs s'" for s'
      using Suc.IH [OF rest, of s'] xs by auto
    then have "ys = acc @ (x # xs) \<and> iter_while (Suc fuel) (string_body g) it s = str_while g (x # xs) s"
      using xs n x True by (simp add: string_body_def cong: if_cong)
    then show ?thesis by blast
  next
    case False
    with Suc.prems n show ?thesis by (auto intro: exI [of _ "[]"])
  qed
qed simp

lemma view_strings_while:
  assumes "view_strings v = Ret xs"
  shows "view_while (string_body g) v s = str_while g xs s"
  using assms iter_strings unfolding view_strings_def view_while_def
  by (fastforce simp: c_assert_def split: prod.splits if_splits)

primrec views_strings :: "bson_view list \<Rightarrow> cstr option list outcome" where
  "views_strings [] = Ret []"
| "views_strings (v # vs) = cbind (view_strings v) (\<lambda>xs. cbind (views_strings vs) (\<lambda>ys. Ret (xs @ ys)))"

definition sd_members :: "server_description \<Rightarrow> cstr option list outcome" where
  "sd_members sd = views_strings [sd_hosts sd, sd_arbiters sd, sd_passives sd]"

text \<open>The listed members can be read, and each is the name of a host.\<close>

definition members_ok :: "server_description \<Rightarrow> bool" where
  "members_ok sd \<longleftrightarrow> (case sd_members sd of Ret xs \<Rightarrow> list_all host_ok xs | _ \<Rightarrow> False)"

definition member_count :: "server_description \<Rightarrow> nat" where
  "member_count sd = (case sd_members sd of Ret xs \<Rightarrow> length xs | _ \<Rightarrow> 0)"

lemma add_strings_spec:
  assumes "td_wf td" "list_all host_ok xs" "unat (td_max_server_id td) + length xs < 2 ^ 32"
  shows "\<exists>td'. str_while (\<lambda>x td. cbind (mongoc_topology_description_add_server env td x) (\<lambda>(_, td). Ret (True, td))) xs td =
    Ret (True, td') \<and> td_added (length xs) td td'"
  using assms
proof (induction xs arbitrary: td)
  case (Cons x xs)
  then obtain k td1 where td1: "mongoc_topology_description_add_server env td x = Ret (k, td1)" "td_added 1 td td1"
    using add_server_spec [of td x env] by auto
  then have "td_wf td1" "unat (td_max_server_id td1) + length xs < 2 ^ 32"
    using Cons.prems by (auto simp: td_added_def td_frame_def)
  then obtain td2 where "str_while (\<lambda>x td. cbind (mongoc_topology_description_add_server env td x) (\<lambda>(_, td). Ret (True, td))) xs td1 =
    Ret (True, td2)" "td_added (length xs) td1 td2"
    using Cons.IH [of td1] Cons.prems by auto
  with td1 td_added_trans [OF td1(2), of "length xs" td2] show ?case by auto
qed (auto simp: td_added_refl)

lemma add_members_spec:
  assumes "td_wf td" "views_strings vs = Ret xs" "list_all host_ok xs" "unat (td_max_server_id td) + length xs < 2 ^ 32"
  shows "\<exists>td'. add_members env vs td = Ret td' \<and> td_added (length xs) td td'"
  using assms
proof (induction vs arbitrary: td xs)
  case (Cons v vs)
  from Cons.prems obtain ys zs where ys: "view_strings v = Ret ys" and zs: "views_strings vs = Ret zs" and xs: "xs = ys @ zs"
    by auto
  obtain td1 where td1: "view_while (add_server_body env) v td = Ret (True, td1)" "td_added (length ys) td td1"
    using add_strings_spec [of td ys env] Cons.prems xs
      view_strings_while [OF ys, of "\<lambda>x td. cbind (mongoc_topology_description_add_server env td x) (\<lambda>(_, td). Ret (True, td))" td]
    by (auto simp: string_body_def [abs_def] add_server_body_def [abs_def])
  then have "td_wf td1" "unat (td_max_server_id td1) + length zs < 2 ^ 32"
    using Cons.prems by (auto simp: td_added_def td_frame_def xs)
  then obtain td2 where "add_members env vs td1 = Ret td2" "td_added (length zs) td1 td2"
    using Cons.IH [of td1 zs] Cons.prems zs xs by auto
  with td1 td_added_trans [OF td1(2), of "length zs" td2] xs show ?case by auto
qed (auto simp: td_added_refl)

lemma add_new_servers_spec:
  assumes "td_wf td" "td_mem td p = Some sd" "members_ok sd" "unat (td_max_server_id td) + member_count sd < 2 ^ 32"
  shows "\<exists>td'. mongoc_topology_description_add_new_servers env td p = Ret td' \<and> td_added (member_count sd) td td'"
  using assms add_members_spec [OF assms(1), of "[sd_hosts sd, sd_arbiters sd, sd_passives sd]" _ env]
  by (auto simp: mongoc_topology_description_add_new_servers_def sd_get_eq members_ok_def sd_members_def
      member_count_def split: outcome.splits)

lemma has_rs_member_spec:
  assumes "sd_type sd \<noteq> MONGOC_SERVER_UNKNOWN" "members_ok sd"
  shows "\<exists>b. mongoc_server_description_has_rs_member sd (Some a) = Ret b \<and>
    (b \<longleftrightarrow> (\<forall>xs. sd_members sd = Ret xs \<longrightarrow> (\<exists>x\<in>set xs. addr_eq a x)))"
proof -
  have s: "\<exists>ok. str_while (\<lambda>x found. cbind (c_strcasecmp_0 (Some a) x) (\<lambda>eq. Ret (\<not> eq, eq))) xs False =
      Ret (ok, \<exists>x\<in>set xs. addr_eq a x)" if "list_all host_ok xs" for xs
    using that
  proof (induction xs)
    case (Cons x xs)
    then show ?case by (cases x) (auto simp: c_strcasecmp_0_def addr_eq_def host_ok_def)
  qed auto
  have "rs_member_loop (Some a) vs = Ret (\<exists>x\<in>set xs. addr_eq a x)" if "views_strings vs = Ret xs" "list_all host_ok xs" for vs xs
    using that
  proof (induction vs arbitrary: xs)
    case (Cons v vs)
    from Cons.prems obtain ys zs where ys: "view_strings v = Ret ys" and zs: "views_strings vs = Ret zs" and xs: "xs = ys @ zs"
      by auto
    have "\<exists>ok. view_while (rs_member_body (Some a)) v False = Ret (ok, \<exists>x\<in>set ys. addr_eq a x)"
      using view_strings_while [OF ys, of "\<lambda>x found. cbind (c_strcasecmp_0 (Some a) x) (\<lambda>eq. Ret (\<not> eq, eq))" False]
        s [of ys] Cons.prems xs by (simp add: string_body_def [abs_def] rs_member_body_def [abs_def])
    with Cons.IH [OF zs] Cons.prems xs show ?case by auto
  qed simp
  note loop = this
  obtain xs where xs: "sd_members sd = Ret xs" "list_all host_ok xs"
    using assms(2) by (auto simp: members_ok_def split: outcome.splits)
  from loop [OF xs(1) [unfolded sd_members_def] xs(2)] xs(1) assms(1) show ?thesis
    by (simp del: rs_member_loop.simps add: mongoc_server_description_has_rs_member_def)
qed

section \<open>Removing, demoting and labelling servers\<close>

lemma remove_all_spec:
  assumes "td_wf td" "distinct ps" "set ps \<subseteq> dom (td_mem td)"
  shows "\<exists>td'. remove_all ps td = Ret td' \<and> td_frame td td' \<and> td_mem td' = td_mem td |` (- set ps) \<and>
    td_max_server_id td' = td_max_server_id td"
  using assms
proof (induction ps arbitrary: td)
  case Nil
  then show ?case by (simp add: td_frame_def)
next
  case (Cons p ps)
  then obtain sd where p: "td_mem td p = Some sd" by auto
  obtain td1 where td1: "mongoc_topology_description_remove_server td p = Ret td1" "td_frame td td1"
    "td_mem td1 = (td_mem td)(p := None)" "td_max_server_id td1 = td_max_server_id td"
    using remove_server_spec [OF Cons.prems(1) p] by blast
  then have "td_wf td1" "set ps \<subseteq> dom (td_mem td1)" using Cons.prems by (auto simp: td_frame_def)
  with Cons.IH [of td1] Cons.prems obtain td2 where td2: "remove_all ps td1 = Ret td2" "td_frame td1 td2"
    "td_mem td2 = td_mem td1 |` (- set ps)" "td_max_server_id td2 = td_max_server_id td1" by auto
  have "td_mem td2 = td_mem td |` (- set (p # ps))"
    unfolding td2(3) td1(3) by (auto simp: fun_eq_iff restrict_map_def)
  with td1 td2 show ?case by (auto simp: td_frame_def)
qed

lemma unreported_servers_spec:
  assumes "td_wf td" "td_mem td p = Some prim" "sd_type prim \<noteq> MONGOC_SERVER_UNKNOWN" "members_ok prim"
    and "set ms \<subseteq> set (td_ptrs td)"
  shows "\<exists>ns. unreported_servers td p ms = Ret ns \<and> set ns \<subseteq> set ms \<and> (distinct ms \<longrightarrow> distinct ns)"
  using assms(5)
proof (induction ms)
  case (Cons m ms)
  then obtain sd where sd: "td_mem td m = Some sd" using td_wf_get [OF assms(1), of m] by auto
  then obtain a where a: "sd_connection_address sd = Some a" using td_wf_ptr(2) [OF assms(1)] by blast
  from has_rs_member_spec [OF assms(3,4), of a] Cons show ?case
    by (auto simp: sd_get_eq [OF sd] sd_get_eq [OF assms(2)] a)
qed simp

lemma remove_unreported_spec:
  assumes "td_wf td" "td_mem td p = Some prim" "sd_type prim \<noteq> MONGOC_SERVER_UNKNOWN" "members_ok prim"
  shows "\<exists>td' ns. mongoc_topology_description_remove_unreported_servers td p = Ret td' \<and> td_frame td td' \<and>
    td_mem td' = td_mem td |` (- ns) \<and> td_max_server_id td' = td_max_server_id td"
proof -
  obtain ns where ns: "unreported_servers td p (td_ptrs td) = Ret ns" "set ns \<subseteq> set (td_ptrs td)" "distinct ns"
    using unreported_servers_spec [OF assms subset_refl] td_wfD(2) [OF assms(1)] by blast
  then have "set ns \<subseteq> dom (td_mem td)" using td_wfD(3) [OF assms(1)] by simp
  from remove_all_spec [OF assms(1) ns(3) this] ns(1) show ?thesis
    by (auto simp: mongoc_topology_description_remove_unreported_servers_def)
qed

definition demote :: "server_description \<Rightarrow> server_description" where
  "demote sd = (if sd_type sd = MONGOC_SERVER_RS_PRIMARY
     then sd\<lparr>sd_type := MONGOC_SERVER_UNKNOWN, sd_set_version := MONGOC_NO_SET_VERSION, sd_election_id := kObjectIdZero\<rparr>
     else sd)"

lemma demote_simps [simp]:
  "sd_id (demote sd) = sd_id sd" "sd_connection_address (demote sd) = sd_connection_address sd"
  "sd_type (demote sd) = (if sd_type sd = MONGOC_SERVER_RS_PRIMARY then MONGOC_SERVER_UNKNOWN else sd_type sd)"
  "sd_has_is_master (demote sd) = sd_has_is_master sd" "sd_last_is_master (demote sd) = sd_last_is_master sd"
  by (simp_all add: demote_def)

lemma invalidate_primaries_cb_spec:
  assumes "td_wf td" "td_mem td p = Some prim" "td_mem td q = Some sd"
  shows "\<exists>td'. invalidate_primaries_cb p q td = Ret (True, td') \<and> td_frame td td' \<and> td_max_server_id td' = td_max_server_id td \<and>
    td_mem td' = (if q = p then td_mem td else (td_mem td)(q \<mapsto> demote sd))"
proof -
  have "sd_id sd \<noteq> sd_id prim \<longleftrightarrow> q \<noteq> p" using td_wf_id_inj [OF assms(1,3,2)] assms(2,3) by auto
  moreover have "td_wf (sd_put q (demote sd) td)"
    using td_wf_put [OF assms(1,3), of "demote sd"] td_wf_ptr(2) [OF assms(1,3)] by simp
  ultimately show ?thesis
    using assms
    by (auto simp: invalidate_primaries_cb_def sd_get_eq td_frame_def demote_def fun_upd_idem
        mongoc_server_description_set_state_def mongoc_server_description_set_set_version_def
        mongoc_server_description_set_election_id_def)
qed

lemma invalidate_primaries_spec:
  assumes "td_wf td" "td_mem td p = Some prim"
  shows "\<exists>td'. mongoc_set_for_each (td_servers td) (invalidate_primaries_cb p) td = Ret td' \<and> td_frame td td' \<and>
    td_max_server_id td' = td_max_server_id td \<and>
    td_mem td' = (\<lambda>q. if q = p then td_mem td q else map_option demote (td_mem td q))"
proof -
  have "\<exists>td'. each_while (invalidate_primaries_cb p) ps td = Ret td' \<and> td_frame td td' \<and>
      td_max_server_id td' = td_max_server_id td \<and>
      td_mem td' = (\<lambda>q. if q = p \<or> q \<notin> set ps then td_mem td q else map_option demote (td_mem td q))"
    if "td_wf td" "td_mem td p = Some prim" "distinct ps" "set ps \<subseteq> dom (td_mem td)" for ps td
    using that
  proof (induction ps arbitrary: td)
    case Nil
    then show ?case by (simp add: td_frame_def)
  next
    case (Cons q ps)
    then obtain sd where q: "td_mem td q = Some sd" by auto
    obtain td1 where td1: "invalidate_primaries_cb p q td = Ret (True, td1)" "td_frame td td1"
      "td_max_server_id td1 = td_max_server_id td" "td_mem td1 = (if q = p then td_mem td else (td_mem td)(q \<mapsto> demote sd))"
      using invalidate_primaries_cb_spec [OF Cons.prems(1,2) q] by blast
    then have "td_wf td1" "td_mem td1 p = Some prim" "set ps \<subseteq> dom (td_mem td1)"
      using Cons.prems by (auto simp: td_frame_def)
    with Cons.IH [of td1] Cons.prems obtain td2 where td2: "each_while (invalidate_primaries_cb p) ps td1 = Ret td2"
      "td_frame td1 td2" "td_max_server_id td2 = td_max_server_id td1"
      "td_mem td2 = (\<lambda>q. if q = p \<or> q \<notin> set ps then td_mem td1 q else map_option demote (td_mem td1 q))" by auto
    have "td_mem td2 = (\<lambda>r. if r = p \<or> r \<notin> set (q # ps) then td_mem td r else map_option demote (td_mem td r))"
      unfolding td2(4) td1(4) using Cons.prems(3) q by (auto simp: fun_eq_iff)
    with td1 td2 show ?case by (auto simp: td_frame_def)
  qed
  note loop = this [OF assms td_wfD(2) [OF assms(1)] equalityD2 [OF td_wfD(3) [OF assms(1)]]]
  have "(\<lambda>q. if q = p \<or> q \<notin> set (td_ptrs td) then td_mem td q else map_option demote (td_mem td q)) =
      (\<lambda>q. if q = p then td_mem td q else map_option demote (td_mem td q))"
    unfolding td_wfD(3) [OF assms(1), symmetric] by (auto simp: fun_eq_iff)
  with loop show ?thesis unfolding for_each_while by simp
qed

lemma label_unknown_member_spec:
  assumes "td_wf td"
  shows "\<exists>td'. mongoc_topology_description_label_unknown_member td (Some a) t = Ret td' \<and> td_frame td td' \<and>
    td_max_server_id td' = td_max_server_id td \<and> (td_mem td' = td_mem td \<or>
      (\<exists>q sd. td_mem td q = Some sd \<and> sd_type sd = MONGOC_SERVER_UNKNOWN \<and> td_mem td' = (td_mem td)(q \<mapsto> sd\<lparr>sd_type := t\<rparr>)))"
proof -
  have "\<exists>td'. each_while (label_unknown_member_cb (Some a) t) ps td = Ret td' \<and> td_frame td td' \<and>
    td_max_server_id td' = td_max_server_id td \<and> (td_mem td' = td_mem td \<or>
      (\<exists>q sd. td_mem td q = Some sd \<and> sd_type sd = MONGOC_SERVER_UNKNOWN \<and> td_mem td' = (td_mem td)(q \<mapsto> sd\<lparr>sd_type := t\<rparr>)))"
    if "set ps \<subseteq> set (td_ptrs td)" for ps
    using that
  proof (induction ps)
    case Nil
    then show ?case using assms by (simp add: td_frame_def)
  next
    case (Cons p ps)
    then obtain sd where sd: "td_mem td p = Some sd" using td_wf_get [OF assms, of p] by auto
    then obtain b where b: "sd_connection_address sd = Some b" using td_wf_ptr(2) [OF assms] by blast
    have cb: "label_unknown_member_cb (Some a) t p td =
      Ret (if map c_tolower b = map c_tolower a \<and> sd_type sd = MONGOC_SERVER_UNKNOWN
           then (False, sd_put p (sd\<lparr>sd_type := t\<rparr>) td) else (True, td))"
      by (simp add: label_unknown_member_cb_def sd_get_eq [OF sd] b c_strcasecmp_0_def mongoc_server_description_set_state_def)
    show ?case
    proof (cases "map c_tolower b = map c_tolower a \<and> sd_type sd = MONGOC_SERVER_UNKNOWN")
      case True
      have "td_wf (sd_put p (sd\<lparr>sd_type := t\<rparr>) td)" using td_wf_put [OF assms sd] b by simp
      with True sd show ?thesis unfolding each_while.simps cb by (simp add: td_frame_def del: fun_upd_apply) blast
    next
      case False
      with Cons show ?thesis unfolding each_while.simps cb if_not_P [OF False] by simp
    qed
  qed
  from this [OF subset_refl] show ?thesis
    by (simp add: mongoc_topology_description_label_unknown_member_def for_each_while)
qed

section \<open>Copies of server descriptions\<close>

text \<open>
  Reading a reply goes through the same steps whatever is known about the server, so that a
  description whose reply was read can be copied by reading it again.
\<close>

definition same_run :: "(bool \<times> 'a) outcome \<Rightarrow> (bool \<times> 'b) outcome \<Rightarrow> bool" where
  "same_run m m' \<longleftrightarrow> (\<forall>go s. m = Ret (go, s) \<longrightarrow> (\<exists>s'. m' = Ret (go, s')))"

named_theorems same_run_intro \<comment> \<open>rules that push \<open>same_run\<close> into two computations\<close>

lemma same_run_Ret [same_run_intro]: "same_run (Ret (go, s)) (Ret (go, s'))"
  and same_run_Abort [same_run_intro]: "same_run Abort m'"
  and same_run_cbind [same_run_intro]: "(\<And>x. same_run (k x) (k' x)) \<Longrightarrow> same_run (cbind m k) (cbind m k')"
  and same_run_if [same_run_intro]: "same_run m1 m1' \<Longrightarrow> same_run m2 m2' \<Longrightarrow> same_run (if b then m1 else m2) (if b then m1' else m2')"
  by (auto simp: same_run_def)

lemma same_run_prod [same_run_intro]: "(\<And>a b. same_run (k a b) (k' a b)) \<Longrightarrow> same_run (case x of (a, b) \<Rightarrow> k a b) (case x of (a, b) \<Rightarrow> k' a b)"
  by (cases x) simp

lemma same_run_option [same_run_intro]:
  "same_run m m' \<Longrightarrow> (\<And>y. same_run (k y) (k' y)) \<Longrightarrow> same_run (case x of None \<Rightarrow> m | Some y \<Rightarrow> k y) (case x of None \<Rightarrow> m' | Some y \<Rightarrow> k' y)"
  by (cases x) simp_all

lemma same_run_holds [same_run_intro]: "same_run k k' \<Longrightarrow> same_run (holds t it s k) (holds t it s' k')"
  unfolding holds_def by (intro same_run_intro)

lemma same_run_upd [same_run_intro]: "same_run (im_upd f s) (im_upd g s')"
  by (simp add: same_run_def im_upd_def)

lemma same_run_static [same_run_intro]: "(\<And>v. same_run (k v) (k' v)) \<Longrightarrow> same_run (im_static sub k) (im_static sub k')"
  unfolding im_static_def by (intro same_run_intro)

lemma ismaster_field_same_run: "same_run (ismaster_field it s) (ismaster_field it s')"
  unfolding ismaster_field_def Let_def im_lastwrite_def by (intro same_run_intro)

lemma iter_while_same_run: "same_run (iter_while fuel ismaster_field it s) (iter_while fuel ismaster_field it s')"
proof (induction fuel arbitrary: it s s')
  case (Suc fuel)
  have "same_run (cbind (ismaster_field i s) (\<lambda>(go, s). if go then iter_while fuel ismaster_field i s else Ret (False, s)))
      (cbind (ismaster_field i s') (\<lambda>(go, s). if go then iter_while fuel ismaster_field i s else Ret (False, s)))" for i
    using ismaster_field_same_run [of i s s'] Suc.IH unfolding same_run_def
    by (fastforce split: if_splits)
  then show ?case unfolding iter_while.simps by (intro same_run_intro)
qed (simp add: same_run_def)

lemma handle_ismaster_same_run:
  assumes "mongoc_server_description_handle_ismaster env sd (Some v) rtt error = Ret sd'"
  shows "\<exists>sd''. mongoc_server_description_handle_ismaster env' sd2 (Some v) rtt' error' = Ret sd''"
proof -
  define st where "st sd w = \<lparr>im_sd = sd\<lparr>sd_last_is_master := w, sd_has_is_master := True\<rparr>, im_is_master = False, im_is_shard = False,
      im_is_secondary = False, im_is_arbiter = False, im_is_replicaset = False, im_is_hidden = False, im_num_keys = 0\<rparr>"
    for sd :: server_description and w
  obtain w where w: "bson_view_copy v = Ret w"
    and r: "\<exists>ok s. view_while ismaster_field w (st (mongoc_server_description_reset env sd) w) = Ret (ok, s)"
    using assms by (auto simp: mongoc_server_description_handle_ismaster_def Let_def st_def)
  have "same_run (view_while ismaster_field w (st (mongoc_server_description_reset env sd) w))
      (view_while ismaster_field w (st (mongoc_server_description_reset env' sd2) w))"
    unfolding view_while_def c_assert_def by (intro same_run_intro iter_while_same_run)
  with r obtain ok s where "view_while ismaster_field w (st (mongoc_server_description_reset env' sd2) w) = Ret (ok, s)"
    unfolding same_run_def by blast
  then show ?thesis using w by (auto simp: mongoc_server_description_handle_ismaster_def Let_def st_def)
qed

definition sd_copyable :: "server_description \<Rightarrow> bool" where
  "sd_copyable sd \<longleftrightarrow> (sd_has_is_master sd \<longrightarrow> (\<exists>env sd0 rtt error sd'.
     mongoc_server_description_handle_ismaster env sd0 (Some (sd_last_is_master sd)) rtt error = Ret sd'))"

lemma new_copy_spec:
  assumes "sd_copyable sd"
  shows "\<exists>c. mongoc_server_description_new_copy env sd = Ret c"
proof (cases "sd_has_is_master sd")
  case True
  with assms obtain env0 sd0 rtt error sd' where
    "mongoc_server_description_handle_ismaster env0 sd0 (Some (sd_last_is_master sd)) rtt error = Ret sd'"
    unfolding sd_copyable_def by blast
  from handle_ismaster_same_run [OF this, of env _ "sd_rtt sd" "Some (sd_error sd)"] True show ?thesis
    by (fastforce simp: mongoc_server_description_new_copy_def Let_def cbind_eq_Ret)
next
  case False
  then show ?thesis by (simp add: mongoc_server_description_new_copy_def Let_def)
qed

lemma copy_servers_spec: "\<forall>sd\<in>set sds. sd_copyable sd \<Longrightarrow> \<exists>cs. copy_servers env sds = Ret cs"
proof (induction sds)
  case (Cons sd sds)
  then show ?case using new_copy_spec [of sd env] by auto
qed simp

lemma topology_copy_spec:
  assumes "td_wf td" "\<And>p sd. td_mem td p = Some sd \<Longrightarrow> sd_copyable sd"
  shows "\<exists>c. mongoc_topology_description_copy env td = Ret c"
proof -
  obtain sds where sds: "td_server_list td = Ret sds" "set sds = ran (td_mem td)" using td_server_list_spec [OF assms(1)] by blast
  then have "\<forall>sd\<in>set sds. sd_copyable sd" using assms(2) by (auto simp: ran_def)
  from copy_servers_spec [OF this, of env] sds show ?thesis by (auto simp: mongoc_topology_description_copy_def)
qed

lemma ismaster_field_keeps_reply:
  assumes "sd_has_is_master (im_sd s) \<and> sd_last_is_master (im_sd s) = v"
  shows "ends (\<lambda>(go, s'). sd_has_is_master (im_sd s') \<and> sd_last_is_master (im_sd s') = v) (ismaster_field it s)"
  using assms unfolding ismaster_field_def Let_def im_lastwrite_def
  by (intro ends_intro holds_ends im_upd_ends im_static_ends)
    (simp_all add: mongoc_server_description_set_set_version_def mongoc_server_description_set_election_id_def)

lemma handle_ismaster_copyable:
  assumes h: "mongoc_server_description_handle_ismaster env sd reply rtt error = Ret sd'"
  shows "sd_copyable sd'"
proof (cases reply)
  case None
  with h show ?thesis
    by (auto simp: mongoc_server_description_handle_ismaster_def Let_def sd_copyable_def
        mongoc_server_description_set_error_def mongoc_server_description_reset_def)
next
  case (Some v)
  obtain w ok s where w: "bson_view_copy v = Ret w"
    and r: "view_while ismaster_field w
      \<lparr>im_sd = (mongoc_server_description_reset env sd)\<lparr>sd_last_is_master := w, sd_has_is_master := True\<rparr>,
       im_is_master = False, im_is_shard = False, im_is_secondary = False, im_is_arbiter = False,
       im_is_replicaset = False, im_is_hidden = False, im_num_keys = 0\<rparr> = Ret (ok, s)"
    and sd': "sd_last_is_master sd' = sd_last_is_master (im_sd s)"
    using h Some by (fastforce simp: mongoc_server_description_handle_ismaster_def Let_def
        mongoc_server_description_set_error_def mongoc_server_description_update_rtt_def split: if_splits)
  have "ends (\<lambda>(ok, s'). sd_has_is_master (im_sd s') \<and> sd_last_is_master (im_sd s') = w) (Ret (ok, s))"
    unfolding r [symmetric] by (intro view_while_ends ismaster_field_keeps_reply) auto
  then have "sd_last_is_master sd' = w" using sd' by (simp add: ends_def)
  moreover have "bson_view_copy w = Ret w" using w by (auto simp: bson_view_copy_def rdn_def split: if_splits)
  ultimately have "mongoc_server_description_handle_ismaster env sd (Some (sd_last_is_master sd')) rtt error = Ret sd'"
    using h w by (simp add: mongoc_server_description_handle_ismaster_def Let_def Some)
  then show ?thesis unfolding sd_copyable_def by blast
qed

end
