(* ===== verification/Mongoc_Topology_Inv.thy ===== *)
theory Mongoc_Topology_Inv
  imports Mongoc_Topology_Ops
begin

text \<open>
  The invariant of topology descriptions and its preservation by every transition of
  \<open>gSDAMTransitionTable\<close> and by the handler of \<open>ismaster\<close> replies: the servers fit the type of the topology,
  there is at most one primary, a topology with a primary has a name, and a single topology has at most
  one server. \<open>td_mid\<close> is the invariant without the server whose reply is being handled. The lemma
  \<open>handle_ismaster_post\<close> shows that the handler returns, so that its two levels of calls are enough and
  no freed description is used.
\<close>

section \<open>The invariant\<close>

text \<open>The kinds of servers that a topology of each type may have.\<close>

fun td_allows :: "td_type \<Rightarrow> sd_type \<Rightarrow> bool" where
  "td_allows MONGOC_TOPOLOGY_UNKNOWN t \<longleftrightarrow> t \<in> {MONGOC_SERVER_UNKNOWN, MONGOC_SERVER_RS_GHOST}"
| "td_allows MONGOC_TOPOLOGY_SHARDED t \<longleftrightarrow> t \<in> {MONGOC_SERVER_UNKNOWN, MONGOC_SERVER_RS_GHOST, MONGOC_SERVER_MONGOS}"
| "td_allows MONGOC_TOPOLOGY_RS_NO_PRIMARY t \<longleftrightarrow>
     t \<notin> {MONGOC_SERVER_STANDALONE, MONGOC_SERVER_MONGOS, MONGOC_SERVER_RS_PRIMARY}"
| "td_allows MONGOC_TOPOLOGY_RS_WITH_PRIMARY t \<longleftrightarrow> t \<notin> {MONGOC_SERVER_STANDALONE, MONGOC_SERVER_MONGOS}"
| "td_allows MONGOC_TOPOLOGY_SINGLE t \<longleftrightarrow> True"

definition one_primary :: "sd_mem \<Rightarrow> bool" where
  "one_primary mem \<longleftrightarrow> (\<forall>p q sd sd'. mem p = Some sd \<longrightarrow> mem q = Some sd' \<longrightarrow>
     sd_type sd = MONGOC_SERVER_RS_PRIMARY \<longrightarrow> sd_type sd' = MONGOC_SERVER_RS_PRIMARY \<longrightarrow> p = q)"

definition mem_ok :: "td_type \<Rightarrow> sd_mem \<Rightarrow> bool" where
  "mem_ok t mem \<longleftrightarrow> (\<forall>p sd. mem p = Some sd \<longrightarrow> td_allows t (sd_type sd) \<and> sd_copyable sd) \<and> one_primary mem"

definition td_inv :: "topology_description \<Rightarrow> bool" where
  "td_inv td \<longleftrightarrow> td_wf td \<and> mem_ok (td_type td) (td_mem td) \<and>
     (td_type td = MONGOC_TOPOLOGY_RS_WITH_PRIMARY \<longrightarrow> td_set_name td \<noteq> None) \<and>
     (td_type td = MONGOC_TOPOLOGY_SINGLE \<longrightarrow> (\<forall>p q. p \<in> dom (td_mem td) \<longrightarrow> q \<in> dom (td_mem td) \<longrightarrow> p = q))"

lemma mem_okI:
  "(\<And>p sd. mem p = Some sd \<Longrightarrow> td_allows t (sd_type sd) \<and> sd_copyable sd) \<Longrightarrow> one_primary mem \<Longrightarrow> mem_ok t mem"
  by (auto simp: mem_ok_def)

lemma mem_ok_sub: "mem_ok t mem \<Longrightarrow> mem' \<subseteq>\<^sub>m mem \<Longrightarrow> mem_ok t mem'"
  unfolding mem_ok_def one_primary_def map_le_def by (metis domI)

lemma mem_ok_type:
  "mem_ok t mem \<Longrightarrow> (\<And>p sd. mem p = Some sd \<Longrightarrow> td_allows t (sd_type sd) \<Longrightarrow> td_allows t' (sd_type sd)) \<Longrightarrow> mem_ok t' mem"
  by (auto simp: mem_ok_def)

lemma no_primary_one: "(\<And>p sd. mem p = Some sd \<Longrightarrow> sd_type sd \<noteq> MONGOC_SERVER_RS_PRIMARY) \<Longrightarrow> one_primary mem"
  by (auto simp: one_primary_def)

lemma mem_ok_put:
  assumes "mem_ok t (mem(p := None))" "td_allows t (sd_type sd)" "sd_copyable sd"
    "sd_type sd = MONGOC_SERVER_RS_PRIMARY \<Longrightarrow> (\<And>q sd'. q \<noteq> p \<Longrightarrow> mem q = Some sd' \<Longrightarrow> sd_type sd' \<noteq> MONGOC_SERVER_RS_PRIMARY)"
  shows "mem_ok t (mem(p \<mapsto> sd))"
proof (rule mem_okI)
  show "td_allows t (sd_type s) \<and> sd_copyable s" if "(mem(p \<mapsto> sd)) q = Some s" for q s
    using that assms(1-3) unfolding mem_ok_def by (metis fun_upd_apply option.inject)
  have "one_primary (mem(p := None))" using assms(1) by (simp add: mem_ok_def)
  then show "one_primary (mem(p \<mapsto> sd))" using assms(4) unfolding one_primary_def by (smt (verit, best) fun_upd_other fun_upd_same option.inject)
qed

lemma mem_ok_added:
  assumes "mem_ok t mem" "mem \<subseteq>\<^sub>m mem'" "\<And>p sd. mem' p = Some sd \<Longrightarrow> mem p = Some sd \<or> sd_fresh sd"
  shows "mem_ok t mem'"
proof (rule mem_okI)
  have f: "td_allows t MONGOC_SERVER_UNKNOWN" for t by (cases t) auto
  show "td_allows t (sd_type sd) \<and> sd_copyable sd" if "mem' p = Some sd" for p sd
    using assms(1) assms(3) [OF that] f by (auto simp: mem_ok_def sd_fresh_def sd_copyable_def)
  have "one_primary mem" using assms(1) by (simp add: mem_ok_def)
  then show "one_primary mem'"
    using assms(3) unfolding one_primary_def sd_fresh_def by (metis sd_type.distinct(7))
qed

lemma copyable_relabel [simp]: "sd_copyable (sd\<lparr>sd_type := t\<rparr>) = sd_copyable sd"
  by (simp add: sd_copyable_def)

lemma mem_ok_relabel:
  assumes "mem_ok t mem" "mem q = Some sd" "td_allows t t'" "t' \<noteq> MONGOC_SERVER_RS_PRIMARY"
  shows "mem_ok t (mem(q \<mapsto> sd\<lparr>sd_type := t'\<rparr>))"
proof (rule mem_ok_put)
  show "mem_ok t (mem(q := None))" using mem_ok_sub [OF assms(1)] by (simp add: map_le_def)
  show "sd_copyable (sd\<lparr>sd_type := t'\<rparr>)" using assms(1,2) by (auto simp: mem_ok_def sd_copyable_def)
qed (use assms in auto)

lemma td_frameD:
  assumes "td_frame td td'"
  shows "td_wf td'" "td_type td' = td_type td" "td_set_name td' = td_set_name td"
    "td_max_set_version td' = td_max_set_version td" "td_max_election_id td' = td_max_election_id td"
    "td_callbacks td' = td_callbacks td"
  using assms by (auto simp: td_frame_def td_ctl_def)

section \<open>The order of elections\<close>

text \<open>What a topology has seen of the elections does not go back.\<close>

definition election_le :: "topology_description \<Rightarrow> topology_description \<Rightarrow> bool" where
  "election_le td td' \<longleftrightarrow> td_max_set_version td = MONGOC_NO_SET_VERSION \<or>
     td_max_set_version td' \<noteq> MONGOC_NO_SET_VERSION \<and>
     (td_max_set_version td < td_max_set_version td' \<or>
      td_max_set_version td = td_max_set_version td' \<and> bson_oid_compare (td_max_election_id td) (td_max_election_id td') \<le> 0)"

definition td_post :: "nat \<Rightarrow> topology_description \<Rightarrow> topology_description \<Rightarrow> bool" where
  "td_post n td td' \<longleftrightarrow> td_inv td' \<and> election_le td td' \<and> td_callbacks td' = td_callbacks td \<and>
     unat (td_max_server_id td') \<le> unat (td_max_server_id td) + n"

section \<open>The transitions\<close>

text \<open>
  Between the change of the server at \<open>p\<close> by its reply and the transition, the invariant holds but
  for that server.
\<close>

definition td_mid :: "nat \<Rightarrow> server_description \<Rightarrow> topology_description \<Rightarrow> bool" where
  "td_mid p sd td \<longleftrightarrow> td_wf td \<and> td_mem td p = Some sd \<and> mem_ok (td_type td) ((td_mem td)(p := None)) \<and>
     sd_copyable sd \<and> sd_named sd \<and> sd_type sd \<noteq> MONGOC_SERVER_POSSIBLE_PRIMARY \<and>
     (td_type td = MONGOC_TOPOLOGY_RS_WITH_PRIMARY \<longrightarrow> td_set_name td \<noteq> None) \<and>
     (td_type td = MONGOC_TOPOLOGY_SINGLE \<longrightarrow> (\<forall>p q. p \<in> dom (td_mem td) \<longrightarrow> q \<in> dom (td_mem td) \<longrightarrow> p = q))"

lemma mid_inv:
  assumes "td_mid p sd td" "td_allows (td_type td) (sd_type sd)"
    "sd_type sd = MONGOC_SERVER_RS_PRIMARY \<Longrightarrow> td_type td = MONGOC_TOPOLOGY_SINGLE"
  shows "td_inv td"
proof -
  have m: "(td_mem td)(p \<mapsto> sd) = td_mem td" using assms(1) by (simp add: td_mid_def fun_upd_idem)
  have "mem_ok (td_type td) ((td_mem td)(p \<mapsto> sd))"
    by (rule mem_ok_put) (use assms in \<open>auto simp: td_mid_def\<close>)
  with assms(1) show ?thesis unfolding m by (simp add: td_mid_def td_inv_def)
qed

lemma oid_compare_refl [simp]: "bson_oid_compare x x = 0"
  by (simp add: bson_oid_compare_def c_memcmp_eq_0)

lemma election_le_same:
  "td_max_set_version td' = td_max_set_version td \<Longrightarrow> td_max_election_id td' = td_max_election_id td \<Longrightarrow> election_le td td'"
  by (simp add: election_le_def)

lemma td_post_frame:
  assumes "td_frame td td'" "td_inv td'" "unat (td_max_server_id td') \<le> unat (td_max_server_id td) + n"
  shows "td_post n td td'"
  using assms td_frameD [OF assms(1)] by (simp add: td_post_def election_le_same)

lemma update_rs_type_post:
  assumes "td_wf td" "mem_ok MONGOC_TOPOLOGY_RS_WITH_PRIMARY (td_mem td)" "td_set_name td \<noteq> None"
    "td_callbacks td = td_callbacks td0" "election_le td0 td" "unat (td_max_server_id td) \<le> unat (td_max_server_id td0) + n"
  shows "\<exists>td'. update_rs_type td = Ret td' \<and> td_post n td0 td' \<and> td_mem td' = td_mem td"
proof -
  let ?t = "if \<exists>p sd. td_mem td p = Some sd \<and> sd_type sd \<in> {MONGOC_SERVER_RS_PRIMARY, MONGOC_SERVER_STANDALONE}
     then MONGOC_TOPOLOGY_RS_WITH_PRIMARY else MONGOC_TOPOLOGY_RS_NO_PRIMARY"
  have "td_wf (td\<lparr>td_type := ?t\<rparr>)" by (rule td_wf_ctl [OF assms(1)]) simp_all
  moreover have "mem_ok ?t (td_mem td)" by (rule mem_ok_type [OF assms(2)]) auto
  ultimately have "td_inv (td\<lparr>td_type := ?t\<rparr>)" using assms(3) by (auto simp: td_inv_def)
  then have "td_post n td0 (td\<lparr>td_type := ?t\<rparr>)" using assms(4-6) by (simp add: td_post_def election_le_def)
  then show ?thesis unfolding update_rs_type_spec [OF assms(1)] by simp
qed

lemma td_wf_type: "td_wf td \<Longrightarrow> td_wf (td\<lparr>td_type := t\<rparr>)"
  by (erule td_wf_ctl) simp_all

lemma remove_mid:
  assumes "td_mid p sd td"
  shows "\<exists>td'. mongoc_topology_description_remove_server td p = Ret td' \<and> td_post n td td' \<and>
    td_frame td td' \<and> td_mem td' = (td_mem td)(p := None) \<and> td_max_server_id td' = td_max_server_id td"
proof -
  from assms have wf: "td_wf td" and p: "td_mem td p = Some sd" by (simp_all add: td_mid_def)
  obtain td' where td': "mongoc_topology_description_remove_server td p = Ret td'" "td_frame td td'"
    "td_mem td' = (td_mem td)(p := None)" "td_max_server_id td' = td_max_server_id td"
    using remove_server_spec [OF wf p] by blast
  have "td_inv td'" using assms td_frameD [OF td'(2)] td'(3) by (simp add: td_inv_def td_mid_def)
  with td' td_post_frame [OF td'(2)] show ?thesis by simp
qed

lemma remove_and_check_mid:
  assumes "td_mid p sd td" "td_type td = MONGOC_TOPOLOGY_RS_WITH_PRIMARY \<or>
    td_set_name td \<noteq> None \<and> td_type td \<in> {MONGOC_TOPOLOGY_UNKNOWN, MONGOC_TOPOLOGY_RS_NO_PRIMARY}"
  shows "\<exists>td'. cbind (mongoc_topology_description_remove_server td p) update_rs_type = Ret td' \<and> td_post n td td'"
proof -
  obtain td1 where td1: "mongoc_topology_description_remove_server td p = Ret td1" "td_post n td td1" "td_frame td td1"
    using remove_mid [OF assms(1)] by blast
  have "mem_ok MONGOC_TOPOLOGY_RS_WITH_PRIMARY (td_mem td1)"
    by (rule mem_ok_type [of "td_type td1"]) (use td1(2) assms(2) td_frameD(2) [OF td1(3)] in \<open>auto simp: td_post_def td_inv_def\<close>)
  moreover have "td_set_name td1 \<noteq> None" using assms td_frameD(3) [OF td1(3)] by (auto simp: td_mid_def)
  ultimately show ?thesis
    using update_rs_type_post [of td1 td n] td1 td_frameD [OF td1(3)]
    by (auto simp: td_post_def)
qed

lemma check_if_has_primary_mid:
  assumes "td_mid p sd td" "td_type td = MONGOC_TOPOLOGY_RS_WITH_PRIMARY" "sd_type sd \<in> {MONGOC_SERVER_UNKNOWN, MONGOC_SERVER_RS_GHOST}"
  shows "\<exists>td'. mongoc_topology_description_check_if_has_primary td p = Ret td' \<and> td_post n td td' \<and> td_mem td' = td_mem td"
proof -
  have "td_inv td" by (rule mid_inv [OF assms(1)]) (use assms(2,3) in auto)
  then show ?thesis
    using update_rs_type_post [of td td n] assms(2)
    by (simp add: mongoc_topology_description_check_if_has_primary_def td_inv_def election_le_same)
qed

lemma unknown_with_standalone_mid:
  assumes "td_mid p sd td" "td_type td = MONGOC_TOPOLOGY_UNKNOWN"
  shows "\<exists>td'. mongoc_topology_description_update_unknown_with_standalone td p = Ret td' \<and> td_post n td td'"
proof -
  from assms have wf: "td_wf td" and p: "td_mem td p = Some sd" by (simp_all add: td_mid_def)
  obtain k where k: "mongoc_topology_description_has_server td (sd_connection_address sd) = Ret (Some k)"
    using has_server_own [OF wf p] by blast
  show ?thesis
  proof (cases "items_len (td_servers td) > 1")
    case True
    with remove_mid [OF assms(1)] k p show ?thesis
      by (auto simp: mongoc_topology_description_update_unknown_with_standalone_def sd_get_eq)
  next
    case False
    have "length (td_ptrs td) \<le> 1" using False by simp
    then have one: "\<forall>p q. p \<in> dom (td_mem td) \<longrightarrow> q \<in> dom (td_mem td) \<longrightarrow> p = q"
      unfolding td_wfD(3) [OF wf] by (cases "td_ptrs td" rule: list.exhaust) auto
    have "mem_ok MONGOC_TOPOLOGY_SINGLE (td_mem td)"
    proof (rule mem_okI)
      show "td_allows MONGOC_TOPOLOGY_SINGLE (sd_type s) \<and> sd_copyable s" if "td_mem td q = Some s" for q s
      proof -
        have "q = p" using one that p by blast
        with that assms(1) show ?thesis by (simp add: td_mid_def)
      qed
      show "one_primary (td_mem td)" using one by (auto simp: one_primary_def dom_def)
    qed
    with one wf have "td_inv (td\<lparr>td_type := MONGOC_TOPOLOGY_SINGLE\<rparr>)"
      by (simp add: td_inv_def td_wf_type)
    then have "td_post n td (td\<lparr>td_type := MONGOC_TOPOLOGY_SINGLE\<rparr>)"
      by (simp add: td_post_def election_le_same)
    with False k p show ?thesis
      by (simp add: mongoc_topology_description_update_unknown_with_standalone_def sd_get_eq mongoc_topology_description_set_state_def)
  qed
qed

lemma to_sharded_mid:
  assumes "td_mid p sd td" "td_type td = MONGOC_TOPOLOGY_UNKNOWN" "sd_type sd = MONGOC_SERVER_MONGOS"
  shows "\<exists>td'. mongoc_topology_description_set_topology_type_to_sharded td p = Ret td' \<and> td_post n td td'"
proof -
  let ?td = "td\<lparr>td_type := MONGOC_TOPOLOGY_SHARDED\<rparr>"
  have "mem_ok MONGOC_TOPOLOGY_SHARDED ((td_mem td)(p := None))"
    by (rule mem_ok_type [of "td_type td"]) (use assms(1,2) in \<open>auto simp: td_mid_def\<close>)
  then have "td_mid p sd ?td" using assms by (simp add: td_mid_def td_wf_type)
  from mid_inv [OF this] assms(3) have "td_inv ?td" by simp
  then have "td_post n td ?td" by (simp add: td_post_def election_le_same)
  then show ?thesis
    by (simp add: mongoc_topology_description_set_topology_type_to_sharded_def mongoc_topology_description_set_state_def)
qed

lemma added_mid:
  assumes "td_mid p sd td" "td_added n td td'"
  shows "td_mid p sd td' \<or> td_type td = MONGOC_TOPOLOGY_SINGLE"
proof -
  have f: "td_frame td td'" and sub: "td_mem td \<subseteq>\<^sub>m td_mem td'"
    and new: "\<And>q s. td_mem td' q = Some s \<Longrightarrow> td_mem td q = Some s \<or> sd_fresh s"
    using assms(2) by (auto simp: td_added_def)
  have p: "td_mem td' p = Some sd" using sub assms(1) by (auto simp: td_mid_def map_le_def dom_def)
  have "mem_ok (td_type td) ((td_mem td')(p := None))"
  proof (rule mem_ok_added)
    show "mem_ok (td_type td) ((td_mem td)(p := None))" using assms(1) by (simp add: td_mid_def)
    show "(td_mem td)(p := None) \<subseteq>\<^sub>m (td_mem td')(p := None)" using sub by (auto simp: map_le_def)
    show "((td_mem td)(p := None)) q = Some s \<or> sd_fresh s" if "((td_mem td')(p := None)) q = Some s" for q s
      using new [of q s] that by (auto split: if_splits)
  qed
  then show ?thesis using assms(1) p td_frameD [OF f] by (simp add: td_mid_def)
qed

lemma label_mid:
  assumes "td_mid p sd td" "td_type td = MONGOC_TOPOLOGY_RS_NO_PRIMARY"
  shows "\<exists>td' sd'. mongoc_topology_description_label_unknown_member td (Some a) MONGOC_SERVER_POSSIBLE_PRIMARY = Ret td' \<and>
    td_frame td td' \<and> td_max_server_id td' = td_max_server_id td \<and> mem_ok (td_type td) ((td_mem td')(p := None)) \<and>
    td_mem td' p = Some sd' \<and> (sd' = sd \<or> sd' = sd\<lparr>sd_type := MONGOC_SERVER_POSSIBLE_PRIMARY\<rparr>)"
proof -
  from assms have wf: "td_wf td" and p: "td_mem td p = Some sd" and ok: "mem_ok (td_type td) ((td_mem td)(p := None))"
    by (simp_all add: td_mid_def)
  obtain td' where td': "mongoc_topology_description_label_unknown_member td (Some a) MONGOC_SERVER_POSSIBLE_PRIMARY = Ret td'"
    "td_frame td td'" "td_max_server_id td' = td_max_server_id td"
    and m: "td_mem td' = td_mem td \<or> (\<exists>q s. td_mem td q = Some s \<and> sd_type s = MONGOC_SERVER_UNKNOWN \<and>
      td_mem td' = (td_mem td)(q \<mapsto> s\<lparr>sd_type := MONGOC_SERVER_POSSIBLE_PRIMARY\<rparr>))"
    using label_unknown_member_spec [OF wf, of a MONGOC_SERVER_POSSIBLE_PRIMARY] by blast
  from m show ?thesis
  proof
    assume "td_mem td' = td_mem td"
    with td' p ok show ?thesis by auto
  next
    assume "\<exists>q s. td_mem td q = Some s \<and> sd_type s = MONGOC_SERVER_UNKNOWN \<and>
      td_mem td' = (td_mem td)(q \<mapsto> s\<lparr>sd_type := MONGOC_SERVER_POSSIBLE_PRIMARY\<rparr>)"
    then obtain q s where q: "td_mem td q = Some s" "td_mem td' = (td_mem td)(q \<mapsto> s\<lparr>sd_type := MONGOC_SERVER_POSSIBLE_PRIMARY\<rparr>)" by blast
    show ?thesis
    proof (cases "q = p")
      case True
      with q td' p ok show ?thesis by auto
    next
      case False
      have "mem_ok (td_type td) (((td_mem td)(p := None))(q \<mapsto> s\<lparr>sd_type := MONGOC_SERVER_POSSIBLE_PRIMARY\<rparr>))"
        by (rule mem_ok_relabel [OF ok]) (use q False assms(2) in auto)
      with q td' p False show ?thesis by (simp add: fun_upd_twist)
    qed
  qed
qed

lemma matches_me_Ret: "sd_connection_address sd \<noteq> None \<Longrightarrow> \<exists>b. mongoc_topology_description_matches_me sd = Ret b"
  by (auto simp: mongoc_topology_description_matches_me_def c_strcasecmp_0_def split: option.splits)

lemma without_primary_mid:
  assumes mid: "td_mid p sd td" and t: "td_type td = MONGOC_TOPOLOGY_RS_NO_PRIMARY"
    and sd: "sd_type sd \<in> {MONGOC_SERVER_RS_SECONDARY, MONGOC_SERVER_RS_ARBITER, MONGOC_SERVER_RS_OTHER}"
    and ok: "members_ok sd" "unat (td_max_server_id td) + member_count sd < 2 ^ 32"
  shows "\<exists>td'. mongoc_topology_description_update_rs_without_primary env td p = Ret td' \<and> td_post (member_count sd) td td'"
proof -
  from mid have wf: "td_wf td" and p: "td_mem td p = Some sd" by (simp_all add: td_mid_def)
  obtain k where k: "mongoc_topology_description_has_server td (sd_connection_address sd) = Ret (Some k)"
    using has_server_own [OF wf p] by blast
  show ?thesis
  proof (cases "sd_set_name sd \<noteq> None \<and> td_set_name td \<noteq> None \<and> td_set_name td \<noteq> sd_set_name sd")
    case True
    with remove_mid [OF mid] k p show ?thesis
      by (auto simp: mongoc_topology_description_update_rs_without_primary_def sd_get_eq)
  next
    case False
    define td1 where "td1 = (if sd_set_name sd \<noteq> None \<and> td_set_name td = None
                 then td\<lparr>td_set_name := sd_set_name sd\<rparr> else td)"
    have td1: "td_type td1 = td_type td" "td_mem td1 = td_mem td" "td_callbacks td1 = td_callbacks td"
      "td_max_server_id td1 = td_max_server_id td" "td_max_set_version td1 = td_max_set_version td"
      "td_max_election_id td1 = td_max_election_id td" "td_servers td1 = td_servers td" "td_brk td1 = td_brk td"
      by (simp_all add: td1_def)
    have wf1: "td_wf td1" using td_wf_ctl [OF wf] td1 by blast
    have mid1: "td_mid p sd td1" using mid t wf1 td1 by (simp add: td_mid_def)
    obtain td2 where td2: "mongoc_topology_description_add_new_servers env td1 p = Ret td2" "td_added (member_count sd) td1 td2"
      using add_new_servers_spec [OF wf1, of p sd env] p ok td1 by auto
    have f2: "td_frame td1 td2" and n2: "unat (td_max_server_id td2) \<le> unat (td_max_server_id td) + member_count sd"
      using td2(2) td1 by (auto simp: td_added_def)
    have mid2: "td_mid p sd td2" "td_type td2 = MONGOC_TOPOLOGY_RS_NO_PRIMARY"
      using added_mid [OF mid1 td2(2)] td_frameD [OF f2] t td1 by auto
    obtain td3 sd3 where td3: "(if sd_current_primary sd \<noteq> None
              then mongoc_topology_description_label_unknown_member td2 (sd_current_primary sd) MONGOC_SERVER_POSSIBLE_PRIMARY
              else Ret td2) = Ret td3" "td_frame td2 td3" "td_max_server_id td3 = td_max_server_id td2"
      "mem_ok (td_type td2) ((td_mem td3)(p := None))" "td_mem td3 p = Some sd3"
      "sd3 = sd \<or> sd3 = sd\<lparr>sd_type := MONGOC_SERVER_POSSIBLE_PRIMARY\<rparr>"
    proof (cases "sd_current_primary sd")
      case None
      show ?thesis by (rule that [of td2 sd]) (use mid2(1) None in \<open>simp_all add: td_frame_def td_mid_def\<close>)
    next
      case (Some a)
      with that label_mid [OF mid2, of a] show ?thesis by auto
    qed
    note f3 = td_frameD [OF td3(2)]
    have c3: "sd_copyable sd3" using td3(6) mid by (auto simp: td_mid_def copyable_relabel)
    have m3: "(td_mem td3)(p \<mapsto> sd3) = td_mem td3" using td3(5) by (simp add: fun_upd_idem)
    have "mem_ok (td_type td2) ((td_mem td3)(p \<mapsto> sd3))"
      by (rule mem_ok_put [OF td3(4)]) (use td3(6) c3 mid2 sd in auto)
    then have inv3: "td_inv td3" using f3 mid2 by (simp add: m3 td_inv_def)
    have post: "td_post (member_count sd) td td4"
      if "td_frame td3 td4" "td_inv td4" "td_max_server_id td4 = td_max_server_id td3" for td4
      using that td_frameD [OF that(1)] f3 td_frameD [OF f2] td1 n2 td3(3) by (simp add: td_post_def election_le_same)
    obtain me where me: "mongoc_topology_description_matches_me sd3 = Ret me"
      using matches_me_Ret td_wf_ptr(2) [OF f3(1) td3(5)] by blast
    have fin: "\<exists>td'. (if \<not> me then mongoc_topology_description_remove_server td3 p else Ret td3) = Ret td' \<and>
        td_post (member_count sd) td td'"
    proof (cases me)
      case True
      with post [of td3] inv3 f3 show ?thesis by (simp add: td_frame_def)
    next
      case False
      obtain td4 where td4: "mongoc_topology_description_remove_server td3 p = Ret td4" "td_frame td3 td4"
        "td_mem td4 = (td_mem td3)(p := None)" "td_max_server_id td4 = td_max_server_id td3"
        using remove_server_spec [OF f3(1) td3(5)] by blast
      have "td_inv td4" using td_frameD [OF td4(2)] f3 td3(4) mid2 td4(3) by (simp add: td_inv_def)
      with post [of td4] td4 False show ?thesis by simp
    qed
    show ?thesis
      unfolding mongoc_topology_description_update_rs_without_primary_def
      using fin by (simp only: sd_get_eq [OF p] sd_get_eq [OF td3(5)] cbind.simps k option.distinct if_False if_not_P [OF False]
          Let_def td1_def [symmetric] td2(1) td3(1) me)
  qed
qed

lemma from_member_mid:
  assumes mid: "td_mid p sd td" and t: "td_type td = MONGOC_TOPOLOGY_RS_WITH_PRIMARY"
    and sd: "sd_type sd \<in> {MONGOC_SERVER_RS_SECONDARY, MONGOC_SERVER_RS_ARBITER, MONGOC_SERVER_RS_OTHER}"
  shows "\<exists>td'. mongoc_topology_description_update_rs_with_primary_from_member td p = Ret td' \<and> td_post n td td'"
proof -
  from mid have wf: "td_wf td" and p: "td_mem td p = Some sd" by (simp_all add: td_mid_def)
  obtain k where k: "mongoc_topology_description_has_server td (sd_connection_address sd) = Ret (Some k)"
    using has_server_own [OF wf p] by blast
  obtain a b where ab: "td_set_name td = Some a" "sd_set_name sd = Some b"
    using mid t sd by (auto simp: td_mid_def sd_named_def)
  obtain me where me: "mongoc_topology_description_matches_me sd = Ret me"
    using matches_me_Ret td_wf_ptr(2) [OF wf p] by blast
  obtain prim where prim: "mongoc_topology_description_has_primary td = Ret prim"
    "prim \<noteq> None \<longleftrightarrow> (\<exists>p sd. td_mem td p = Some sd \<and> sd_type sd \<in> {MONGOC_SERVER_RS_PRIMARY, MONGOC_SERVER_STANDALONE})"
    using has_primary_spec [OF wf] by blast
  note step = mongoc_topology_description_update_rs_with_primary_from_member_def sd_get_eq [OF p] k ab me prim(1)
  have inv: "td_inv td" by (rule mid_inv [OF mid]) (use t sd in auto)
  consider "a \<noteq> b" | "a = b" "\<not> me" | "a = b" me "\<not> (prim = None \<and> sd_current_primary sd \<noteq> None)"
    | c where "a = b" me "prim = None" "sd_current_primary sd = Some c"
    by blast
  then show ?thesis
  proof cases
    case 1
    with remove_and_check_mid [OF mid] t show ?thesis by (simp add: step)
  next
    case 2
    with remove_mid [OF mid] show ?thesis by (auto simp: step)
  next
    case 3
    have "td_post n td td" using inv by (simp add: td_post_def election_le_same)
    with 3 show ?thesis by (auto simp: step)
  next
    case 4
    let ?td = "td\<lparr>td_type := MONGOC_TOPOLOGY_RS_NO_PRIMARY\<rparr>"
    have ok: "mem_ok MONGOC_TOPOLOGY_RS_NO_PRIMARY (td_mem td)"
      by (rule mem_ok_type [of "td_type td"]) (use inv t prim(2) 4(3) in \<open>auto simp: td_inv_def\<close>)
    obtain td' where td': "mongoc_topology_description_label_unknown_member ?td (Some c) MONGOC_SERVER_POSSIBLE_PRIMARY = Ret td'"
      "td_frame ?td td'" "td_max_server_id td' = td_max_server_id ?td"
      and m: "td_mem td' = td_mem ?td \<or> (\<exists>q s. td_mem ?td q = Some s \<and> sd_type s = MONGOC_SERVER_UNKNOWN \<and>
        td_mem td' = (td_mem ?td)(q \<mapsto> s\<lparr>sd_type := MONGOC_SERVER_POSSIBLE_PRIMARY\<rparr>))"
      using label_unknown_member_spec [OF td_wf_type [OF wf], of MONGOC_TOPOLOGY_RS_NO_PRIMARY c MONGOC_SERVER_POSSIBLE_PRIMARY] by blast
    have "mem_ok MONGOC_TOPOLOGY_RS_NO_PRIMARY (td_mem td')"
      using m ok mem_ok_relabel [OF ok, of _ _ MONGOC_SERVER_POSSIBLE_PRIMARY] by auto
    then have "td_post n td td'" using td_frameD [OF td'(2)] td'(3) by (simp add: td_post_def td_inv_def election_le_same)
    with td'(1) 4 show ?thesis by (simp add: step mongoc_topology_description_set_state_def)
  qed
qed

section \<open>Losing a server\<close>

lemma session_timeout_spec:
  assumes "td_wf td"
  shows "\<exists>n. mongoc_topology_description_update_session_timeout td = Ret (td\<lparr>td_session_timeout := n\<rparr>)"
  using td_server_list_spec [OF assms] by (auto simp: mongoc_topology_description_update_session_timeout_def)

lemma check_compatible_spec:
  assumes "td_wf td"
  shows "\<exists>e. mongoc_topology_description_check_compatible td = Ret (td\<lparr>td_compat_error := e\<rparr>)"
  using td_server_list_spec [OF assms] by (auto simp: mongoc_topology_description_check_compatible_def)

text \<open>The steps before and after the transition.\<close>

lemma prev_td_spec:
  assumes "td_wf td" "\<forall>sd\<in>ran (td_mem td). sd_copyable sd"
  shows "\<exists>c. (if cb_topology_changed (td_callbacks td)
      then cbind (mongoc_topology_description_copy env td) (\<lambda>c. Ret (Some c)) else Ret None) = Ret c \<and>
    (cb_topology_changed (td_callbacks td) \<longrightarrow> c \<noteq> None)"
proof -
  have "\<exists>c. mongoc_topology_description_copy env td = Ret c" by (rule topology_copy_spec [OF assms(1)]) (use assms(2) in \<open>auto simp: ran_def\<close>)
  then show ?thesis by auto
qed

lemma prev_sd_spec:
  assumes "sd_copyable sd"
  shows "\<exists>c. (if cb_server_changed (td_callbacks td)
      then cbind (mongoc_server_description_new_copy env sd) (\<lambda>c. Ret (Some c)) else Ret None) = Ret c \<and>
    (cb_server_changed (td_callbacks td) \<longrightarrow> c \<noteq> None)"
  using new_copy_spec [OF assms, where env = env] by auto

text \<open>Two descriptions that differ at most in the events, the cluster time, the session timeout and the
  compatibility error.\<close>

definition td_like :: "topology_description \<Rightarrow> topology_description \<Rightarrow> bool" where
  "td_like td td' \<longleftrightarrow> td_servers td' = td_servers td \<and> td_mem td' = td_mem td \<and> td_brk td' = td_brk td \<and>
     td_max_server_id td' = td_max_server_id td \<and> td_ctl td' = td_ctl td"

lemma td_like_trans: "td_like td td' \<Longrightarrow> td_like td' td'' \<Longrightarrow> td_like td td''"
  by (simp add: td_like_def)

lemma td_like_wf: "td_like td td' \<Longrightarrow> td_wf td \<Longrightarrow> td_wf td'"
  unfolding td_like_def by (blast intro: td_wf_ctl)

lemma td_like_ctl:
  assumes "td_like td td'"
  shows "td_mem td' = td_mem td" "td_type td' = td_type td" "td_set_name td' = td_set_name td"
    "td_max_set_version td' = td_max_set_version td" "td_max_election_id td' = td_max_election_id td"
    "td_callbacks td' = td_callbacks td" "td_max_server_id td' = td_max_server_id td"
  using assms by (auto simp: td_like_def td_ctl_def)

lemma monitor_server_changed_like:
  assumes "td_mem td p = Some sd" "cb_server_changed (td_callbacks td) \<longrightarrow> c \<noteq> None"
  shows "\<exists>td'. monitor_server_changed td c p = Ret td' \<and> td_like td td'"
  using assms by (auto simp: monitor_server_changed_def sd_get_eq td_like_def)

lemma monitor_changed_like:
  assumes "td_wf td" "cb_topology_changed (td_callbacks td) \<longrightarrow> c \<noteq> None"
  shows "\<exists>td'. monitor_changed c td = Ret td' \<and> td_like td td'"
  using assms td_server_list_spec [OF assms(1)] by (auto simp: monitor_changed_def td_like_def)

lemma after_transition:
  assumes "td_wf td" "cb_topology_changed (td_callbacks td) \<longrightarrow> c \<noteq> None"
  shows "\<exists>td'. cbind (mongoc_topology_description_update_session_timeout td) (\<lambda>td.
      cbind (if b then mongoc_topology_description_check_compatible td else Ret td) (monitor_changed c)) = Ret td' \<and> td_like td td'"
proof -
  obtain n where n: "mongoc_topology_description_update_session_timeout td = Ret (td\<lparr>td_session_timeout := n\<rparr>)"
    using session_timeout_spec [OF assms(1)] by blast
  define td1 where "td1 = td\<lparr>td_session_timeout := n\<rparr>"
  have l1: "td_like td td1" by (simp add: td1_def td_like_def td_ctl_def)
  have "\<exists>td2. (if b then mongoc_topology_description_check_compatible td1 else Ret td1) = Ret td2 \<and> td_like td1 td2"
    using check_compatible_spec [OF td_like_wf [OF l1 assms(1)]] by (auto simp: td_like_def td_ctl_def)
  then obtain td2 where td2: "(if b then mongoc_topology_description_check_compatible td1 else Ret td1) = Ret td2" "td_like td1 td2" by blast
  have l2: "td_like td td2" using td_like_trans [OF l1 td2(2)] .
  from monitor_changed_like [OF td_like_wf [OF l2 assms(1)], of c] td_like_ctl(6) [OF l2] assms(2)
  obtain td3 where "monitor_changed c td2 = Ret td3" "td_like td2 td3" by auto
  with n td2 td_like_trans [OF l2] show ?thesis by (auto simp: td1_def)
qed

text \<open>The handler up to the transition.\<close>

lemma handle_ismaster_steps:
  assumes wf: "td_wf td" and p: "td_mem td p = Some sd0" and c: "\<forall>sd\<in>ran (td_mem td). sd_copyable sd"
    and h: "mongoc_server_description_handle_ismaster env sd0 reply rtt error = Ret sd"
    and ct: "mongoc_topology_description_update_cluster_time (sd_put p sd td) reply = Ret tdc" "td_like (sd_put p sd td) tdc"
  shows "\<exists>td1. td_like (sd_put p sd td) td1 \<and> (\<forall>td2.
    (case gSDAMTransitionTable env
         (\<lambda>td server_id e. handle_ismaster_depth depth env td server_id None 0 (Some e)) (sd_type sd) (td_type td) of
       None \<Rightarrow> Ret td1 | Some transition \<Rightarrow> transition td1 p) = Ret td2 \<longrightarrow> td_wf td2 \<longrightarrow> td_callbacks td2 = td_callbacks td \<longrightarrow>
    (\<exists>td3. handle_ismaster_depth (Suc depth) env td (sd_id sd0) reply rtt error = Ret td3 \<and> td_like td2 td3))"
proof -
  have get: "mongoc_topology_description_server_by_id td (sd_id sd0) = Some p"
    using td_wf_lookup [OF wf p] set_get_lookup [of "td_servers td" "sd_id sd0"] td_wf_set [OF wf]
    by (simp add: mongoc_topology_description_server_by_id_def)
  obtain ptd where ptd: "(if cb_topology_changed (td_callbacks td)
      then cbind (mongoc_topology_description_copy env td) (\<lambda>c. Ret (Some c)) else Ret None) = Ret ptd"
    "cb_topology_changed (td_callbacks td) \<longrightarrow> ptd \<noteq> None"
    using prev_td_spec [OF wf c] by blast
  obtain psd where psd: "(if cb_server_changed (td_callbacks td)
      then cbind (mongoc_server_description_new_copy env sd0) (\<lambda>c. Ret (Some c)) else Ret None) = Ret psd"
    "cb_server_changed (td_callbacks td) \<longrightarrow> psd \<noteq> None"
    using prev_sd_spec [of sd0 td env] c p by (auto simp: ran_def)
  have ctl: "td_callbacks tdc = td_callbacks td" "td_mem tdc p = Some sd" "td_type tdc = td_type td"
    using td_like_ctl [OF ct(2)] by (simp_all add: sd_put_def)
  obtain td1 where td1: "monitor_server_changed tdc psd p = Ret td1" "td_like tdc td1"
    using monitor_server_changed_like [OF ctl(2), of psd] ctl psd(2) by auto
  have l1: "td_like (sd_put p sd td) td1" using td_like_trans [OF ct(2) td1(2)] .
  have t1: "td_type td1 = td_type td" using td_like_ctl(2) [OF td1(2)] ctl by simp
  have "\<exists>td3. handle_ismaster_depth (Suc depth) env td (sd_id sd0) reply rtt error = Ret td3 \<and> td_like td2 td3"
    if tr: "(case gSDAMTransitionTable env
         (\<lambda>td server_id e. handle_ismaster_depth depth env td server_id None 0 (Some e)) (sd_type sd) (td_type td) of
       None \<Rightarrow> Ret td1 | Some transition \<Rightarrow> transition td1 p) = Ret td2" and "td_wf td2" "td_callbacks td2 = td_callbacks td" for td2
  proof -
    define b where "b \<longleftrightarrow> reply \<noteq> None \<and> (case error of None \<Rightarrow> True | Some e \<Rightarrow> err_code e = 0)"
    obtain td3 where td3: "cbind (mongoc_topology_description_update_session_timeout td2) (\<lambda>td.
      cbind (if b then mongoc_topology_description_check_compatible td else Ret td) (monitor_changed ptd)) = Ret td3" "td_like td2 td3"
      using after_transition [OF \<open>td_wf td2\<close>, of ptd b] ptd(2) \<open>td_callbacks td2 = td_callbacks td\<close> by auto
    have "handle_ismaster_depth (Suc depth) env td (sd_id sd0) reply rtt error = Ret td3"
      unfolding handle_ismaster_depth.simps get option.case ptd(1) cbind.simps sd_get_eq [OF p] psd(1) h ct(1) td1(1) t1 tr
      using td3(1) td_wf_ptr(3) [OF wf p] by (simp only: b_def c_assert_True simp_thms)
    with td3(2) show ?thesis by blast
  qed
  with l1 show ?thesis by blast
qed

text \<open>\<open>mongoc_topology_description_invalidate_server\<close> makes the server unknown.\<close>

lemma invalidate_spec:
  assumes wf: "td_wf td" and p: "td_mem td p = Some sd0" and c: "\<forall>sd\<in>ran (td_mem td). sd_copyable sd"
  shows "\<exists>td' sd t. handle_ismaster_depth (Suc d) env td (sd_id sd0) None 0 (Some e) = Ret td' \<and> td_wf td' \<and>
    td_mem td' = (td_mem td)(p \<mapsto> sd) \<and> sd_type sd = MONGOC_SERVER_UNKNOWN \<and> sd_copyable sd \<and>
    td_ctl td' = td_ctl (td\<lparr>td_type := t\<rparr>) \<and> td_max_server_id td' = td_max_server_id td"
proof -
  obtain sd where h: "mongoc_server_description_handle_ismaster env sd0 None 0 (Some e) = Ret sd"
    by (auto simp: mongoc_server_description_handle_ismaster_def Let_def)
  have sd: "sd_type sd = MONGOC_SERVER_UNKNOWN" "sd_same sd0 sd" "sd_copyable sd"
    using endsD [OF handle_ismaster_named h] endsD [OF handle_ismaster_same h] handle_ismaster_copyable [OF h] by simp_all
  have wfp: "td_wf (sd_put p sd td)"
    using td_wf_put [OF wf p, of sd] sd(2) td_wf_ptr(2) [OF wf p] by (simp add: sd_same_def)
  obtain td1 where td1: "td_like (sd_put p sd td) td1"
    and step: "\<forall>td2. (case gSDAMTransitionTable env
         (\<lambda>td server_id e. handle_ismaster_depth d env td server_id None 0 (Some e)) (sd_type sd) (td_type td) of
       None \<Rightarrow> Ret td1 | Some transition \<Rightarrow> transition td1 p) = Ret td2 \<longrightarrow> td_wf td2 \<longrightarrow> td_callbacks td2 = td_callbacks td \<longrightarrow>
      (\<exists>td3. handle_ismaster_depth (Suc d) env td (sd_id sd0) None 0 (Some e) = Ret td3 \<and> td_like td2 td3)"
    using handle_ismaster_steps [OF wf p c h, of "sd_put p sd td" d]
    by (auto simp: mongoc_topology_description_update_cluster_time_def td_like_def)
  have wf1: "td_wf td1" using td_like_wf [OF td1 wfp] .
  obtain t where td2: "(case gSDAMTransitionTable env
         (\<lambda>td server_id e. handle_ismaster_depth d env td server_id None 0 (Some e)) (sd_type sd) (td_type td) of
       None \<Rightarrow> Ret td1 | Some transition \<Rightarrow> transition td1 p) = Ret (td1\<lparr>td_type := t\<rparr>)"
    using update_rs_type_spec [OF wf1] that [of "td_type td1"]
    by (cases "td_type td") (auto simp: gSDAMTransitionTable_def Let_def sd(1) mongoc_topology_description_check_if_has_primary_def)
  have "td_callbacks (td1\<lparr>td_type := t\<rparr>) = td_callbacks td" using td_like_ctl(6) [OF td1] by (simp add: sd_put_def)
  with step td2 td_wf_type [OF wf1, of t] obtain td3
    where td3: "handle_ismaster_depth (Suc d) env td (sd_id sd0) None 0 (Some e) = Ret td3" "td_like (td1\<lparr>td_type := t\<rparr>) td3" by blast
  have "td_wf td3" using td_like_wf [OF td3(2) td_wf_type [OF wf1]] .
  moreover have "td_mem td3 = (td_mem td)(p \<mapsto> sd)" "td_ctl td3 = td_ctl (td\<lparr>td_type := t\<rparr>)" "td_max_server_id td3 = td_max_server_id td"
    using td_like_ctl [OF td3(2)] td_like_ctl [OF td1] by (simp_all add: sd_put_def td_ctl_def)
  ultimately show ?thesis using td3(1) sd by blast
qed

section \<open>A reply of the primary\<close>

lemma invalidated_mem_ok:
  assumes "mem_ok t (mem(p := None))" "sd_copyable sd" "sd_type sd = MONGOC_SERVER_UNKNOWN"
  shows "mem_ok t (mem(p \<mapsto> sd))"
proof (rule mem_ok_put [OF assms(1)])
  show "td_allows t (sd_type sd)" using assms(3) by (cases t) auto
qed (use assms in auto)

lemma demoted_mem_ok:
  assumes "mem_ok MONGOC_TOPOLOGY_RS_WITH_PRIMARY (mem(p := None))" "mem p = Some sd" "sd_copyable sd"
    "sd_type sd = MONGOC_SERVER_RS_PRIMARY"
  shows "mem_ok MONGOC_TOPOLOGY_RS_WITH_PRIMARY (\<lambda>q. if q = p then mem q else map_option demote (mem q))"
proof (rule mem_okI)
  let ?m = "\<lambda>q. if q = p then mem q else map_option demote (mem q)"
  show "td_allows MONGOC_TOPOLOGY_RS_WITH_PRIMARY (sd_type s) \<and> sd_copyable s" if s: "?m q = Some s" for q s
  proof (cases "q = p")
    case True
    with s assms show ?thesis by simp
  next
    case False
    with s obtain s0 where s0: "mem q = Some s0" "s = demote s0" by auto
    then have "(mem(p := None)) q = Some s0" using False by simp
    with assms(1) have "td_allows MONGOC_TOPOLOGY_RS_WITH_PRIMARY (sd_type s0)" "sd_copyable s0" unfolding mem_ok_def by blast+
    with s0(2) show ?thesis by (auto simp: sd_copyable_def)
  qed
  show "one_primary ?m" by (auto simp: one_primary_def split: if_splits)
qed

definition seen_election :: "server_description \<Rightarrow> topology_description \<Rightarrow> topology_description" where
  "seen_election sd td =
     (let both = (mongoc_server_description_has_set_version sd \<and> mongoc_server_description_has_election_id sd);
          td = (if both then mongoc_topology_description_set_max_election_id td sd else td) in
      if mongoc_server_description_has_set_version sd \<and>
         (\<not> mongoc_topology_description_has_set_version td \<or> sd_set_version sd > td_max_set_version td)
      then mongoc_topology_description_set_max_set_version td sd else td)"

lemma seen_election_keeps:
  "td_servers (seen_election sd td) = td_servers td" "td_mem (seen_election sd td) = td_mem td"
  "td_brk (seen_election sd td) = td_brk td" "td_max_server_id (seen_election sd td) = td_max_server_id td"
  "td_type (seen_election sd td) = td_type td" "td_set_name (seen_election sd td) = td_set_name td"
  "td_callbacks (seen_election sd td) = td_callbacks td"
  by (simp_all add: seen_election_def Let_def mongoc_topology_description_set_max_election_id_def
      mongoc_topology_description_set_max_set_version_def)

lemma seen_election_le:
  assumes "\<not> (mongoc_server_description_has_set_version sd \<and> mongoc_server_description_has_election_id sd \<and>
    mongoc_topology_description_later_election td sd)"
  shows "election_le td (seen_election sd td)"
  using assms
  by (auto simp: seen_election_def Let_def election_le_def mongoc_topology_description_set_max_election_id_def
      mongoc_topology_description_set_max_set_version_def mongoc_topology_description_later_election_def
      mongoc_topology_description_has_set_version_def mongoc_server_description_has_set_version_def)

lemma accept_primary:
  assumes wf: "td_wf td" and p: "td_mem td p = Some sd" and t: "sd_type sd = MONGOC_SERVER_RS_PRIMARY"
    and ok: "mem_ok MONGOC_TOPOLOGY_RS_WITH_PRIMARY ((td_mem td)(p := None))" "sd_copyable sd" "td_set_name td \<noteq> None"
    and m: "members_ok sd" "unat (td_max_server_id td) + member_count sd < 2 ^ 32"
    and td0: "td_callbacks td = td_callbacks td0" "election_le td0 td" "td_max_server_id td = td_max_server_id td0"
  shows "\<exists>td'. cbind (mongoc_set_for_each (td_servers td) (invalidate_primaries_cb p) td) (\<lambda>td.
         cbind (mongoc_topology_description_add_new_servers env td p) (\<lambda>td.
         cbind (mongoc_topology_description_remove_unreported_servers td p) update_rs_type)) = Ret td' \<and>
    td_post (member_count sd) td0 td'"
proof -
  obtain td1 where td1: "mongoc_set_for_each (td_servers td) (invalidate_primaries_cb p) td = Ret td1" "td_frame td td1"
    "td_max_server_id td1 = td_max_server_id td" "td_mem td1 = (\<lambda>q. if q = p then td_mem td q else map_option demote (td_mem td q))"
    using invalidate_primaries_spec [OF wf p] by blast
  note f1 = td_frameD [OF td1(2)]
  have p1: "td_mem td1 p = Some sd" using p by (simp add: td1(4))
  have ok1: "mem_ok MONGOC_TOPOLOGY_RS_WITH_PRIMARY (td_mem td1)" unfolding td1(4) by (rule demoted_mem_ok [OF ok(1) p ok(2) t])
  obtain td2 where td2: "mongoc_topology_description_add_new_servers env td1 p = Ret td2" "td_added (member_count sd) td1 td2"
    using add_new_servers_spec [OF f1(1) p1 m(1), of env] m(2) td1(3) by auto
  have fr2: "td_frame td1 td2" and sub: "td_mem td1 \<subseteq>\<^sub>m td_mem td2"
    and new: "\<And>q s. td_mem td2 q = Some s \<Longrightarrow> td_mem td1 q = Some s \<or> sd_fresh s"
    and n2: "unat (td_max_server_id td2) \<le> unat (td_max_server_id td1) + member_count sd"
    using td2(2) by (auto simp: td_added_def)
  note f2 = td_frameD [OF fr2]
  have p2: "td_mem td2 p = Some sd" using sub p1 by (auto simp: map_le_def dom_def)
  have ok2: "mem_ok MONGOC_TOPOLOGY_RS_WITH_PRIMARY (td_mem td2)" by (rule mem_ok_added [OF ok1 sub new])
  obtain td3 ns where td3: "mongoc_topology_description_remove_unreported_servers td2 p = Ret td3" "td_frame td2 td3"
    "td_mem td3 = td_mem td2 |` (- ns)" "td_max_server_id td3 = td_max_server_id td2"
    using remove_unreported_spec [OF f2(1) p2 _ m(1)] t by auto
  note f3 = td_frameD [OF td3(2)]
  have ok3: "mem_ok MONGOC_TOPOLOGY_RS_WITH_PRIMARY (td_mem td3)"
    unfolding td3(3) by (rule mem_ok_sub [OF ok2]) (auto simp: map_le_def restrict_map_def)
  have "\<exists>td'. update_rs_type td3 = Ret td' \<and> td_post (member_count sd) td0 td' \<and> td_mem td' = td_mem td3"
    by (rule update_rs_type_post [OF f3(1) ok3])
      (use f1 f2 f3 ok(3) td0 td1(3) td3(4) n2 in \<open>simp_all add: election_le_def\<close>)
  then show ?thesis using td1(1) td2(1) td3(1) by auto
qed

lemma reject_primary:
  assumes wf: "td_wf td" and p: "td_mem td p = Some sd" and ok: "mem_ok MONGOC_TOPOLOGY_RS_WITH_PRIMARY ((td_mem td)(p := None))"
    and c: "sd_copyable sd" and name: "td_set_name td \<noteq> None"
    and td0: "td_callbacks td = td_callbacks td0" "election_le td0 td" "td_max_server_id td = td_max_server_id td0"
  shows "\<exists>td' sd'. cbind (handle_ismaster_depth (Suc d) env td (sd_id sd) None 0
        (Some \<lparr>err_domain = MONGOC_ERROR_STREAM, err_code = MONGOC_ERROR_STREAM_CONNECT\<rparr>)) update_rs_type = Ret td' \<and>
    td_post n td0 td' \<and> td_mem td' = (td_mem td)(p \<mapsto> sd') \<and> sd_type sd' = MONGOC_SERVER_UNKNOWN \<and>
    td_max_set_version td' = td_max_set_version td \<and> td_max_election_id td' = td_max_election_id td"
proof -
  let ?e = "\<lparr>err_domain = MONGOC_ERROR_STREAM, err_code = MONGOC_ERROR_STREAM_CONNECT\<rparr>"
  have "\<forall>s\<in>ran (td_mem td). sd_copyable s" using ok c p unfolding mem_ok_def ran_def by (auto split: if_splits) (metis option.inject)
  from invalidate_spec [OF wf p this, of d env ?e] obtain td2 sd2 t2
    where td2: "handle_ismaster_depth (Suc d) env td (sd_id sd) None 0 (Some ?e) = Ret td2" "td_wf td2"
      "td_mem td2 = (td_mem td)(p \<mapsto> sd2)" "sd_type sd2 = MONGOC_SERVER_UNKNOWN" "sd_copyable sd2"
      "td_ctl td2 = td_ctl (td\<lparr>td_type := t2\<rparr>)" "td_max_server_id td2 = td_max_server_id td" by blast
  have "mem_ok MONGOC_TOPOLOGY_RS_WITH_PRIMARY (td_mem td2)"
    unfolding td2(3) by (rule invalidated_mem_ok [OF ok td2(5,4)])
  then have "\<exists>td'. update_rs_type td2 = Ret td' \<and> td_post n td0 td' \<and> td_mem td' = td_mem td2"
    by (rule update_rs_type_post [OF td2(2)]) (use td2(6,7) td0 name in \<open>auto simp: td_ctl_def election_le_def\<close>)
  then show ?thesis
    using td2 update_rs_type_spec [OF td2(2)] by (auto simp: td_ctl_def)
qed

definition named_td :: "server_description \<Rightarrow> topology_description \<Rightarrow> topology_description" where
  "named_td sd td = (if sd_set_name sd \<noteq> None \<and> td_set_name td = None then td\<lparr>td_set_name := sd_set_name sd\<rparr> else td)"

lemma named_td_keeps:
  "td_type (named_td sd td) = td_type td" "td_mem (named_td sd td) = td_mem td" "td_callbacks (named_td sd td) = td_callbacks td"
  "td_max_server_id (named_td sd td) = td_max_server_id td" "td_max_set_version (named_td sd td) = td_max_set_version td"
  "td_max_election_id (named_td sd td) = td_max_election_id td" "td_servers (named_td sd td) = td_servers td"
  "td_brk (named_td sd td) = td_brk td"
  by (simp_all add: named_td_def)

lemma named_td_mid:
  assumes mid: "td_mid p sd td" and sd: "sd_type sd = MONGOC_SERVER_RS_PRIMARY"
    and t: "td_type td \<in> {MONGOC_TOPOLOGY_UNKNOWN, MONGOC_TOPOLOGY_RS_NO_PRIMARY, MONGOC_TOPOLOGY_RS_WITH_PRIMARY}"
  shows "td_wf (named_td sd td)" "td_mem (named_td sd td) p = Some sd" "td_set_name (named_td sd td) \<noteq> None"
    "mem_ok MONGOC_TOPOLOGY_RS_WITH_PRIMARY ((td_mem (named_td sd td))(p := None))" "sd_copyable sd" "election_le td (named_td sd td)"
proof -
  show "td_wf (named_td sd td)"
    by (rule td_wf_ctl [of td]) (use mid in \<open>simp_all add: named_td_keeps td_mid_def\<close>)
  show "td_mem (named_td sd td) p = Some sd" "sd_copyable sd" using mid by (simp_all add: named_td_keeps td_mid_def)
  show "td_set_name (named_td sd td) \<noteq> None" using mid sd by (simp add: named_td_def td_mid_def sd_named_def)
  show "mem_ok MONGOC_TOPOLOGY_RS_WITH_PRIMARY ((td_mem (named_td sd td))(p := None))"
    by (rule mem_ok_type [of "td_type td"]) (use mid t in \<open>auto simp: named_td_keeps td_mid_def\<close>)
  show "election_le td (named_td sd td)" by (simp add: election_le_same named_td_keeps)
qed

lemma from_primary_found:
  assumes "td_mid p sd td" "\<not> (sd_set_name sd \<noteq> None \<and> td_set_name td \<noteq> None \<and> td_set_name td \<noteq> sd_set_name sd)"
  shows "mongoc_topology_description_update_rs_from_primary env invalidate td p =
    (if mongoc_server_description_has_set_version sd \<and> mongoc_server_description_has_election_id sd \<and>
        mongoc_topology_description_later_election (named_td sd td) sd
     then cbind (invalidate (named_td sd td) (sd_id sd)
       \<lparr>err_domain = MONGOC_ERROR_STREAM, err_code = MONGOC_ERROR_STREAM_CONNECT\<rparr>) update_rs_type
     else let td = seen_election sd (named_td sd td) in
       cbind (mongoc_set_for_each (td_servers td) (invalidate_primaries_cb p) td) (\<lambda>td.
       cbind (mongoc_topology_description_add_new_servers env td p) (\<lambda>td.
       cbind (mongoc_topology_description_remove_unreported_servers td p) update_rs_type)))"
proof -
  from assms(1) have wf: "td_wf td" and p: "td_mem td p = Some sd" by (simp_all add: td_mid_def)
  obtain k where k: "mongoc_topology_description_has_server td (sd_connection_address sd) = Ret (Some k)"
    using has_server_own [OF wf p] by blast
  show ?thesis
    unfolding mongoc_topology_description_update_rs_from_primary_def sd_get_eq [OF p] cbind.simps k if_not_P [OF assms(2)]
      named_td_def [symmetric] seen_election_def Let_def conj_assoc
    by simp
qed

lemma from_stale_primary:
  assumes mid: "td_mid p sd td" and sd: "sd_type sd = MONGOC_SERVER_RS_PRIMARY"
    and t: "td_type td \<in> {MONGOC_TOPOLOGY_UNKNOWN, MONGOC_TOPOLOGY_RS_NO_PRIMARY, MONGOC_TOPOLOGY_RS_WITH_PRIMARY}"
    and name: "td_set_name td = None \<or> td_set_name td = sd_set_name sd"
    and stale: "mongoc_server_description_has_set_version sd" "mongoc_server_description_has_election_id sd"
      "mongoc_topology_description_later_election td sd"
  shows "\<exists>td' sd'. mongoc_topology_description_update_rs_from_primary env
      (\<lambda>td server_id e. handle_ismaster_depth (Suc d) env td server_id None 0 (Some e)) td p = Ret td' \<and>
    td_post 0 td td' \<and> td_mem td' = (td_mem td)(p \<mapsto> sd') \<and> sd_type sd' = MONGOC_SERVER_UNKNOWN \<and>
    td_max_set_version td' = td_max_set_version td \<and> td_max_election_id td' = td_max_election_id td"
proof -
  note n = named_td_mid [OF mid sd t]
  have later: "mongoc_server_description_has_set_version sd \<and> mongoc_server_description_has_election_id sd \<and>
      mongoc_topology_description_later_election (named_td sd td) sd"
    using stale by (simp add: mongoc_topology_description_later_election_def named_td_keeps)
  have same: "\<not> (sd_set_name sd \<noteq> None \<and> td_set_name td \<noteq> None \<and> td_set_name td \<noteq> sd_set_name sd)" using name by auto
  from reject_primary [OF n(1,2,4,5,3) named_td_keeps(3) n(6) named_td_keeps(4), of d env 0] show ?thesis
    unfolding from_primary_found [OF mid same] if_P [OF later] named_td_keeps by blast
qed

lemma from_primary_mid:
  assumes mid: "td_mid p sd td" and sd: "sd_type sd = MONGOC_SERVER_RS_PRIMARY"
    and t: "td_type td \<in> {MONGOC_TOPOLOGY_UNKNOWN, MONGOC_TOPOLOGY_RS_NO_PRIMARY, MONGOC_TOPOLOGY_RS_WITH_PRIMARY}"
    and m: "members_ok sd" "unat (td_max_server_id td) + member_count sd < 2 ^ 32"
  shows "\<exists>td'. mongoc_topology_description_update_rs_from_primary env
      (\<lambda>td server_id e. handle_ismaster_depth (Suc d) env td server_id None 0 (Some e)) td p = Ret td' \<and>
    td_post (member_count sd) td td'"
proof (cases "sd_set_name sd \<noteq> None \<and> td_set_name td \<noteq> None \<and> td_set_name td \<noteq> sd_set_name sd")
  case True
  from mid have wf: "td_wf td" and p: "td_mem td p = Some sd" by (simp_all add: td_mid_def)
  obtain k where k: "mongoc_topology_description_has_server td (sd_connection_address sd) = Ret (Some k)"
    using has_server_own [OF wf p] by blast
  have "\<exists>td'. cbind (mongoc_topology_description_remove_server td p) update_rs_type = Ret td' \<and> td_post (member_count sd) td td'"
    using remove_and_check_mid [OF mid] t True by blast
  then show ?thesis
    unfolding mongoc_topology_description_update_rs_from_primary_def sd_get_eq [OF p] cbind.simps k if_P [OF True] by simp
next
  case False
  note n = named_td_mid [OF mid sd t]
  show ?thesis
  proof (cases "mongoc_server_description_has_set_version sd \<and> mongoc_server_description_has_election_id sd \<and>
      mongoc_topology_description_later_election (named_td sd td) sd")
    case True
    show ?thesis
      unfolding from_primary_found [OF mid False] if_P [OF True]
      using reject_primary [OF n(1,2,4,5,3) named_td_keeps(3) n(6) named_td_keeps(4), of d env "member_count sd"]
      by (auto simp del: handle_ismaster_depth.simps)
  next
    case fresh: False
    let ?td = "seen_election sd (named_td sd td)"
    have "election_le (named_td sd td) ?td" by (rule seen_election_le [OF fresh])
    then have "election_le td ?td" by (simp add: election_le_def named_td_keeps)
    moreover have "td_wf ?td" using td_wf_ctl [OF n(1)] seen_election_keeps by blast
    ultimately show ?thesis
      unfolding from_primary_found [OF mid False] if_not_P [OF fresh] Let_def
      by (intro accept_primary) (use sd n m in \<open>simp_all add: seen_election_keeps named_td_keeps\<close>)
  qed
qed

section \<open>Any reply\<close>

lemma update_cluster_time_only:
  "ends (\<lambda>td'. \<exists>c. td' = td\<lparr>td_cluster_time := c\<rparr>) (mongoc_topology_description_update_cluster_time td reply)"
proof -
  have "\<exists>c. td = td\<lparr>td_cluster_time := c\<rparr>" by (intro exI [of _ "td_cluster_time td"]) simp
  then show ?thesis unfolding mongoc_topology_description_update_cluster_time_def
    by (intro ends_intro) auto
qed

lemma update_cluster_time_Ret:
  assumes "mongoc_topology_description_update_cluster_time td reply = Ret tdc" "td_cluster_time td' = td_cluster_time td"
  shows "\<exists>c. mongoc_topology_description_update_cluster_time td' reply = Ret (td'\<lparr>td_cluster_time := c\<rparr>)"
proof -
  have k: "\<exists>y. cbind m k' = Ret y" if "cbind m k = Ret x" "\<And>a x. k a = Ret x \<Longrightarrow> \<exists>y. k' a = Ret y" for m k k' and x :: topology_description
    using that by (cases m) auto
  have "\<exists>y. mongoc_topology_description_update_cluster_time td' reply = Ret y"
    using assms(1) unfolding mongoc_topology_description_update_cluster_time_def assms(2)
    by (cases reply) (auto split: prod.splits if_splits option.splits elim!: k)
  then show ?thesis using endsD [OF update_cluster_time_only] by blast
qed

text \<open>Replica set members list hosts that can be read.\<close>

definition reply_ok :: "server_description \<Rightarrow> bool" where
  "reply_ok sd \<longleftrightarrow> (sd_type sd \<in> {MONGOC_SERVER_RS_PRIMARY, MONGOC_SERVER_RS_SECONDARY, MONGOC_SERVER_RS_ARBITER,
     MONGOC_SERVER_RS_OTHER} \<longrightarrow> members_ok sd)"

lemma unknown_to_no_primary_mid:
  assumes "td_mid p sd td" "td_type td = MONGOC_TOPOLOGY_UNKNOWN"
    and "sd_type sd \<in> {MONGOC_SERVER_RS_SECONDARY, MONGOC_SERVER_RS_ARBITER, MONGOC_SERVER_RS_OTHER}"
    and "members_ok sd" "unat (td_max_server_id td) + member_count sd < 2 ^ 32"
  shows "\<exists>td'. mongoc_topology_description_transition_unknown_to_rs_no_primary env td p = Ret td' \<and> td_post (member_count sd) td td'"
proof -
  let ?td = "td\<lparr>td_type := MONGOC_TOPOLOGY_RS_NO_PRIMARY\<rparr>"
  have "mem_ok MONGOC_TOPOLOGY_RS_NO_PRIMARY ((td_mem td)(p := None))"
    by (rule mem_ok_type [of "td_type td"]) (use assms(1,2) in \<open>auto simp: td_mid_def\<close>)
  then have "td_mid p sd ?td" using assms by (simp add: td_mid_def td_wf_type)
  from without_primary_mid [OF this _ assms(3,4), of env] assms(5) show ?thesis
    by (simp add: mongoc_topology_description_transition_unknown_to_rs_no_primary_def
        mongoc_topology_description_set_state_def td_post_def election_le_def)
qed

lemma transition_mid:
  assumes mid: "td_mid p sd td" and ok: "reply_ok sd" "unat (td_max_server_id td) + member_count sd < 2 ^ 32"
  shows "\<exists>td'. (case gSDAMTransitionTable env
       (\<lambda>td server_id e. handle_ismaster_depth (Suc d) env td server_id None 0 (Some e)) (sd_type sd) (td_type td) of
       None \<Rightarrow> Ret td | Some transition \<Rightarrow> transition td p) = Ret td' \<and> td_post (member_count sd) td td'"
    (is "\<exists>td'. ?m = Ret td' \<and> _")
proof -
  have stay: "\<exists>td'. Ret td = Ret td' \<and> td_post (member_count sd) td td'"
    if "td_allows (td_type td) (sd_type sd)" "sd_type sd = MONGOC_SERVER_RS_PRIMARY \<longrightarrow> td_type td = MONGOC_TOPOLOGY_SINGLE"
    using mid_inv [OF mid that(1)] that(2) by (simp add: td_post_def election_le_same)
  have rm: "\<exists>td'. mongoc_topology_description_remove_server td p = Ret td' \<and> td_post (member_count sd) td td'"
    using remove_mid [OF mid] by blast
  have rmc: "td_type td = MONGOC_TOPOLOGY_RS_WITH_PRIMARY \<Longrightarrow>
     \<exists>td'. mongoc_topology_description_remove_and_check_primary td p = Ret td' \<and> td_post (member_count sd) td td'"
    using remove_and_check_mid [OF mid] by (simp add: mongoc_topology_description_remove_and_check_primary_def)
  have chk: "td_type td = MONGOC_TOPOLOGY_RS_WITH_PRIMARY \<Longrightarrow> sd_type sd \<in> {MONGOC_SERVER_UNKNOWN, MONGOC_SERVER_RS_GHOST} \<Longrightarrow>
     \<exists>td'. mongoc_topology_description_check_if_has_primary td p = Ret td' \<and> td_post (member_count sd) td td'"
    using check_if_has_primary_mid [OF mid] by blast
  have np: "sd_type sd \<noteq> MONGOC_SERVER_POSSIBLE_PRIMARY" using mid by (simp add: td_mid_def)
  have mem: "members_ok sd" if "sd_type sd \<in> {MONGOC_SERVER_RS_PRIMARY, MONGOC_SERVER_RS_SECONDARY, MONGOC_SERVER_RS_ARBITER, MONGOC_SERVER_RS_OTHER}"
    using ok(1) that unfolding reply_ok_def by blast
  have member: ?thesis if m: "sd_type sd \<in> {MONGOC_SERVER_RS_SECONDARY, MONGOC_SERVER_RS_ARBITER, MONGOC_SERVER_RS_OTHER}"
    using m mem ok(2) rm stay unknown_to_no_primary_mid [OF mid _ m, of env] without_primary_mid [OF mid _ m, of env]
      from_member_mid [OF mid _ m]
    by (cases "td_type td"; elim insertE emptyE) (auto simp: gSDAMTransitionTable_def Let_def)
  show ?thesis
    using member np stay rm rmc chk mem ok(2) unknown_with_standalone_mid [OF mid] to_sharded_mid [OF mid]
      from_primary_mid [OF mid, of env d]
    by (cases "sd_type sd"; cases "td_type td") (simp_all add: gSDAMTransitionTable_def Let_def)
qed

lemma handle_ismaster_mid:
  assumes inv: "td_inv td" and p: "td_mem td p = Some sd0"
    and h: "mongoc_server_description_handle_ismaster env sd0 reply rtt error = Ret sd"
    and ct: "mongoc_topology_description_update_cluster_time td reply = Ret tdc"
  shows "\<exists>td1. td_like (sd_put p sd td) td1 \<and> td_mid p sd td1 \<and> (\<forall>td2.
    (case gSDAMTransitionTable env
         (\<lambda>td server_id e. handle_ismaster_depth 1 env td server_id None 0 (Some e)) (sd_type sd) (td_type td) of
       None \<Rightarrow> Ret td1 | Some transition \<Rightarrow> transition td1 p) = Ret td2 \<longrightarrow> td_wf td2 \<longrightarrow> td_callbacks td2 = td_callbacks td \<longrightarrow>
    (\<exists>td3. mongoc_topology_description_handle_ismaster env td (sd_id sd0) reply rtt error = Ret td3 \<and> td_like td2 td3))"
proof -
  have wf: "td_wf td" and mo: "mem_ok (td_type td) (td_mem td)" using inv by (simp_all add: td_inv_def)
  have c: "\<forall>sd\<in>ran (td_mem td). sd_copyable sd" using mo by (auto simp: mem_ok_def ran_def)
  have sd: "sd_named sd" "sd_type sd \<noteq> MONGOC_SERVER_POSSIBLE_PRIMARY" "sd_same sd0 sd" "sd_copyable sd"
    using endsD [OF handle_ismaster_named h] endsD [OF handle_ismaster_same h] handle_ismaster_copyable [OF h] by simp_all
  obtain c' where c': "mongoc_topology_description_update_cluster_time (sd_put p sd td) reply = Ret ((sd_put p sd td)\<lparr>td_cluster_time := c'\<rparr>)"
    using update_cluster_time_Ret [OF ct, of "sd_put p sd td"] by (auto simp: sd_put_def)
  have like: "td_like (sd_put p sd td) ((sd_put p sd td)\<lparr>td_cluster_time := c'\<rparr>)" by (simp add: td_like_def td_ctl_def)
  obtain td1 where td1: "td_like (sd_put p sd td) td1"
    and step: "\<forall>td2. (case gSDAMTransitionTable env
         (\<lambda>td server_id e. handle_ismaster_depth 1 env td server_id None 0 (Some e)) (sd_type sd) (td_type td) of
       None \<Rightarrow> Ret td1 | Some transition \<Rightarrow> transition td1 p) = Ret td2 \<longrightarrow> td_wf td2 \<longrightarrow> td_callbacks td2 = td_callbacks td \<longrightarrow>
      (\<exists>td3. handle_ismaster_depth (Suc 1) env td (sd_id sd0) reply rtt error = Ret td3 \<and> td_like td2 td3)"
    using handle_ismaster_steps [OF wf p c h c' like, of 1] by blast
  note l1 = td_like_ctl [OF td1, unfolded sd_put_def, simplified]
  have wfp: "td_wf (sd_put p sd td)"
    using td_wf_put [OF wf p, of sd] sd(3) td_wf_ptr(2) [OF wf p] by (simp add: sd_same_def)
  have "mem_ok (td_type td) ((td_mem td)(p := None))" using mem_ok_sub [OF mo] by (simp add: map_le_def)
  then have "td_mid p sd td1"
    using td_like_wf [OF td1 wfp] l1 sd inv p unfolding td_inv_def by (auto simp: td_mid_def insert_absorb domI)
  with td1 step show ?thesis unfolding mongoc_topology_description_handle_ismaster_def numeral_2_eq_2 One_nat_def
    by blast
qed

lemma handle_ismaster_post:
  assumes inv: "td_inv td" and p: "td_mem td p = Some sd0"
    and h: "mongoc_server_description_handle_ismaster env sd0 reply rtt error = Ret sd"
    and ct: "mongoc_topology_description_update_cluster_time td reply = Ret tdc"
    and ok: "reply_ok sd" "unat (td_max_server_id td) + member_count sd < 2 ^ 32"
  shows "\<exists>td'. mongoc_topology_description_handle_ismaster env td (sd_id sd0) reply rtt error = Ret td' \<and>
    td_post (member_count sd) td td'"
proof -
  obtain td1 where td1: "td_like (sd_put p sd td) td1" "td_mid p sd td1"
    and step: "\<forall>td2. (case gSDAMTransitionTable env
         (\<lambda>td server_id e. handle_ismaster_depth 1 env td server_id None 0 (Some e)) (sd_type sd) (td_type td) of
       None \<Rightarrow> Ret td1 | Some transition \<Rightarrow> transition td1 p) = Ret td2 \<longrightarrow> td_wf td2 \<longrightarrow> td_callbacks td2 = td_callbacks td \<longrightarrow>
      (\<exists>td3. mongoc_topology_description_handle_ismaster env td (sd_id sd0) reply rtt error = Ret td3 \<and> td_like td2 td3)"
    using handle_ismaster_mid [OF inv p h ct] by blast
  note l1 = td_like_ctl [OF td1(1), unfolded sd_put_def, simplified]
  from transition_mid [OF td1(2) ok(1), of env 0] ok(2) l1 obtain td2
    where td2: "(case gSDAMTransitionTable env
         (\<lambda>td server_id e. handle_ismaster_depth 1 env td server_id None 0 (Some e)) (sd_type sd) (td_type td) of
       None \<Rightarrow> Ret td1 | Some transition \<Rightarrow> transition td1 p) = Ret td2" "td_post (member_count sd) td1 td2" by auto
  then have w2: "td_wf td2" "td_callbacks td2 = td_callbacks td" using l1 by (auto simp: td_post_def td_inv_def)
  with step td2(1) obtain td3 where td3: "mongoc_topology_description_handle_ismaster env td (sd_id sd0) reply rtt error = Ret td3"
    "td_like td2 td3" by blast
  note l3 = td_like_ctl [OF td3(2)]
  have "td_post (member_count sd) td td3"
    using td2(2) l1 l3 td_like_wf [OF td3(2) w2(1)] by (auto simp: td_post_def td_inv_def election_le_def)
  then show ?thesis using td3(1) by blast
qed

end
