(* ===== verification/Mongoc_Sdam.thy ===== *)
theory Mongoc_Sdam
  imports Mongoc_Topology_Inv
begin

text \<open>
  Server discovery and monitoring as a state machine. \<open>sdam_reachable\<close> holds of the topology descriptions
  that \<open>mongoc_topology_new\<close> sets up and of all that follow from them by \<open>ismaster\<close> replies, lost servers and
  changes of the callbacks. The properties are about these: they are consistent, the handler returns,
  elections do not go back and stale primaries are not believed. The examples at the end of the
  definitions are replies in bytes; the handler is evaluated on them.
\<close>

section \<open>The topologies that replies lead to\<close>

definition seeds_ok :: "mongoc_host_list list \<Rightarrow> bool" where
  "seeds_ok hl \<longleftrightarrow> list_all (\<lambda>h. host_ok (Some (hl_host_and_port h))) hl \<and> int (length hl) < 4294967296"

text \<open>
  What the handler needs of a reply: it and its \<open>$clusterTime\<close> can be read, the members that it
  lists are host names, and there are ids left for them.
\<close>

definition reply_fits ::
  "sdam_env \<Rightarrow> topology_description \<Rightarrow> u32 \<Rightarrow> bson_view option \<Rightarrow> int \<Rightarrow> bson_error option \<Rightarrow> bool" where
  "reply_fits env td server_id reply rtt error \<longleftrightarrow> server_id \<noteq> 0 \<and>
     (case mongoc_topology_description_server_by_id td server_id of None \<Rightarrow> True | Some p \<Rightarrow>
       (case td_mem td p of None \<Rightarrow> False | Some sd0 \<Rightarrow>
         (case mongoc_server_description_handle_ismaster env sd0 reply rtt error of
            Ret sd \<Rightarrow> reply_ok sd \<and> uint (td_max_server_id td) + int (member_count sd) < 4294967296
          | _ \<Rightarrow> False) \<and>
         (case mongoc_topology_description_update_cluster_time td reply of Ret _ \<Rightarrow> True | _ \<Rightarrow> False)))"

inductive sdam_step :: "topology_description \<Rightarrow> topology_description \<Rightarrow> bool" where
  sdam_reply: "reply_fits env td server_id reply rtt error \<Longrightarrow>
    mongoc_topology_description_handle_ismaster env td server_id reply rtt error = Ret td' \<Longrightarrow> sdam_step td td'"
| sdam_callbacks: "sdam_step td (mongoc_topology_set_apm_callbacks td callbacks)"

inductive sdam_reachable :: "topology_description \<Rightarrow> bool" where
  sdam_start: "mongoc_topology_new_description env heartbeat service has_dc dc uri_set replica_set valid hl = Ret td \<Longrightarrow>
    seeds_ok hl \<Longrightarrow> (has_dc \<and> dc \<longrightarrow> length hl \<le> 1) \<Longrightarrow> sdam_reachable td"
| sdam_next: "sdam_reachable td \<Longrightarrow> sdam_step td td' \<Longrightarrow> sdam_reachable td'"

inductive_cases sdam_stepE: "sdam_step td td'"

lemma add_seeds_spec:
  assumes "td_wf td" "list_all (\<lambda>h. host_ok (Some (hl_host_and_port h))) hl"
    "unat (td_max_server_id td) + length hl < 2 ^ 32"
  shows "\<exists>td'. mongoc_topology_add_seeds env hl td = Ret td' \<and> td_added (length hl) td td'"
  using assms
proof (induction hl arbitrary: td)
  case (Cons h hl)
  then obtain k td1 where td1: "mongoc_topology_description_add_server env td (Some (hl_host_and_port h)) = Ret (k, td1)" "td_added 1 td td1"
    using add_server_spec [of td "Some (hl_host_and_port h)" env] by auto
  then have "td_wf td1" "unat (td_max_server_id td1) + length hl < 2 ^ 32"
    using Cons.prems by (auto simp: td_added_def td_frame_def)
  then obtain td2 where "mongoc_topology_add_seeds env hl td1 = Ret td2" "td_added (length hl) td1 td2"
    using Cons.IH [of td1] Cons.prems by auto
  with td1 td_added_trans [OF td1(2), of "length hl" td2] show ?case by auto
qed (auto simp: td_added_refl)

lemma init_wf: "td_wf ((mongoc_topology_description_init heartbeat c)\<lparr>td_set_name := s, td_type := t\<rparr>)"
  by (rule td_wfI) (auto simp: mongoc_topology_description_init_def mongoc_set_new_def set_inv_dtor_def set_inv_def)

lemma card_le_1: "finite A \<Longrightarrow> card A \<le> 1 \<Longrightarrow> p \<in> A \<Longrightarrow> q \<in> A \<Longrightarrow> p = q"
  using card_le_Suc0_iff_eq [of A] by auto

lemma start_inv:
  assumes "seeds_ok hl" "has_dc \<and> dc \<longrightarrow> length hl \<le> 1"
  shows "\<exists>td. mongoc_topology_new_description env heartbeat service has_dc dc uri_set replica_set valid hl = Ret td \<and> td_inv td"
proof -
  let ?t = "mongoc_topology_init_type service has_dc dc replica_set hl"
  define td0 where "td0 = (mongoc_topology_description_init heartbeat no_callbacks)\<lparr>td_set_name := uri_set, td_type := ?t\<rparr>"
  have td0: "td_wf td0" "td_mem td0 = Map.empty" "td_type td0 = ?t" "td_max_server_id td0 = 0"
    using init_wf by (simp_all add: td0_def mongoc_topology_description_init_def)
  have t: "?t \<noteq> MONGOC_TOPOLOGY_RS_WITH_PRIMARY" "?t = MONGOC_TOPOLOGY_SINGLE \<longrightarrow> length hl \<le> 1"
    using assms(2) by (auto simp: mongoc_topology_init_type_def)
  have e: "mem_ok t Map.empty" for t by (simp add: mem_ok_def one_primary_def)
  have "td_inv td0" using td0 t e by (simp add: td_inv_def)
  moreover obtain td' where td': "mongoc_topology_add_seeds env hl td0 = Ret td'" "td_added (length hl) td0 td'"
    using add_seeds_spec [OF td0(1), of hl env] assms(1) td0(4) by (auto simp: seeds_ok_def)
  moreover have "td_inv td'"
  proof -
    have f: "td_frame td0 td'" and n: "card (dom (td_mem td')) \<le> length hl"
      and new: "\<And>p sd. td_mem td' p = Some sd \<Longrightarrow> Map.empty p = Some sd \<or> sd_fresh sd"
      using td'(2) td0(2) by (auto simp: td_added_def)
    have fin: "finite (dom (td_mem td'))" using td_wfD(3) [OF td_frameD(1) [OF f]] by simp
    have "mem_ok ?t (td_mem td')" by (rule mem_ok_added [OF e [of ?t] _ new]) auto
    moreover have "\<forall>p q. p \<in> dom (td_mem td') \<longrightarrow> q \<in> dom (td_mem td') \<longrightarrow> p = q" if "?t = MONGOC_TOPOLOGY_SINGLE"
      using card_le_1 [OF fin] n t(2) that by auto
    ultimately show ?thesis using td_frameD [OF f] td0(3) t by (simp add: td_inv_def)
  qed
  ultimately show ?thesis
    by (auto simp: mongoc_topology_new_description_def Let_def td0_def [symmetric])
qed

lemma callbacks_inv: "td_inv td \<Longrightarrow> td_inv (mongoc_topology_set_apm_callbacks td c)"
  unfolding td_inv_def using td_wf_ctl [of td "mongoc_topology_set_apm_callbacks td c"]
  by (simp add: mongoc_topology_set_apm_callbacks_def)

lemma server_by_id_mem:
  assumes "td_wf td" "mongoc_topology_description_server_by_id td server_id = Some p"
  shows "\<exists>sd. td_mem td p = Some sd \<and> sd_id sd = server_id"
  using td_wf_mem [OF assms(1)] td_wf_set [OF assms(1)] set_get_lookup [of "td_servers td"] assms(2)
  by (simp add: mongoc_topology_description_server_by_id_def)

lemma reply_fits_post:
  assumes "td_inv td" "reply_fits env td server_id reply rtt error"
  shows "\<exists>td' n. mongoc_topology_description_handle_ismaster env td server_id reply rtt error = Ret td' \<and> td_post n td td'"
proof (cases "mongoc_topology_description_server_by_id td server_id")
  case None
  with assms have "mongoc_topology_description_handle_ismaster env td server_id reply rtt error = Ret td"
    by (simp add: mongoc_topology_description_handle_ismaster_def numeral_2_eq_2 reply_fits_def)
  moreover have "td_post 0 td td" using assms(1) by (simp add: td_post_def election_le_same)
  ultimately show ?thesis by blast
next
  case (Some p)
  with assms(2) obtain sd0 sd tdc where sd0: "td_mem td p = Some sd0"
    and h: "mongoc_server_description_handle_ismaster env sd0 reply rtt error = Ret sd" "reply_ok sd"
    and ct: "mongoc_topology_description_update_cluster_time td reply = Ret tdc"
    and n: "uint (td_max_server_id td) + int (member_count sd) < 4294967296"
    by (auto simp: reply_fits_def split: option.splits outcome.splits)
  have wf: "td_wf td" using assms(1) by (simp add: td_inv_def)
  have id: "server_id = sd_id sd0" using server_by_id_mem [OF wf Some] sd0 by auto
  have "int (unat (td_max_server_id td) + member_count sd) < int 4294967296" using n by simp
  then have "unat (td_max_server_id td) + member_count sd < 2 ^ 32" by (simp only: of_nat_less_iff) simp
  with handle_ismaster_post [OF assms(1) sd0 h(1) ct h(2)] obtain td'
    where "mongoc_topology_description_handle_ismaster env td (sd_id sd0) reply rtt error = Ret td'" "td_post (member_count sd) td td'"
    by blast
  then show ?thesis unfolding id by blast
qed

lemma step_inv: "td_inv td \<Longrightarrow> sdam_step td td' \<Longrightarrow> td_inv td' \<and> election_le td td'"
proof (erule sdam_stepE)
  fix env server_id reply rtt error
  assume "td_inv td" "reply_fits env td server_id reply rtt error"
    and "mongoc_topology_description_handle_ismaster env td server_id reply rtt error = Ret td'"
  with reply_fits_post [of td] show ?thesis by (fastforce simp: td_post_def)
next
  fix c
  assume "td_inv td" "td' = mongoc_topology_set_apm_callbacks td c"
  moreover have "election_le td (mongoc_topology_set_apm_callbacks td c)"
    by (simp add: mongoc_topology_set_apm_callbacks_def election_le_same)
  ultimately show ?thesis by (simp add: callbacks_inv)
qed

lemma reachable_inv: "sdam_reachable td \<Longrightarrow> td_inv td"
proof (induction rule: sdam_reachable.induct)
  case (sdam_start env heartbeat service has_dc dc uri_set replica_set valid hl td)
  with start_inv [of hl has_dc dc env heartbeat service uri_set replica_set valid] show ?case by auto
next
  case (sdam_next td td')
  then show ?case using step_inv by blast
qed

lemma filter_at_most_one:
  "distinct xs \<Longrightarrow> (\<And>x y. x \<in> set xs \<Longrightarrow> y \<in> set xs \<Longrightarrow> P x \<Longrightarrow> P y \<Longrightarrow> x = y) \<Longrightarrow> length (filter P xs) \<le> 1"
proof -
  assume "distinct xs" and one: "\<And>x y. x \<in> set xs \<Longrightarrow> y \<in> set xs \<Longrightarrow> P x \<Longrightarrow> P y \<Longrightarrow> x = y"
  then have "card (set (filter P xs)) = length (filter P xs)" by (intro distinct_card distinct_filter)
  moreover have "card (set (filter P xs)) \<le> 1"
    using card_le_Suc0_iff_eq [of "set (filter P xs)"] one by auto
  ultimately show ?thesis by simp
qed

section \<open>Properties\<close>

text \<open>An example: a replica set \<open>rs\<close> with the seed \<open>a:1\<close>, and replies of its only member.\<close>

definition elem_bytes :: "byte \<Rightarrow> string \<Rightarrow> byte list \<Rightarrow> byte list" where
  "elem_bytes t k v = t # cs k @ [0] @ v"

definition small_doc :: "byte list \<Rightarrow> byte list" where
  "small_doc es = [word_of_nat (length es + 5), 0, 0, 0] @ es @ [0]"

definition small_str :: "string \<Rightarrow> byte list" where
  "small_str s = [word_of_nat (length s + 1), 0, 0, 0] @ cs s @ [0]"

definition small_reply :: "byte list \<Rightarrow> bson_view option" where
  "small_reply es = Some \<lparr>bv_data = small_doc es, bv_len = word_of_nat (length (small_doc es))\<rparr>"

definition rs_env :: sdam_env where
  "rs_env = \<lparr>env_now = 0, env_average = (\<lambda>a b. a)\<rparr>"

definition rs_seeds :: "mongoc_host_list list" where
  "rs_seeds = [snd (mongoc_host_list_from_string (sd_host sd_zero) (cs ''a:1''))]"

definition rs_start :: "topology_description outcome" where
  "rs_start = mongoc_topology_new_description rs_env 10000 False False False (Some (cs ''rs'')) (Some (cs ''rs'')) True rs_seeds"

definition set_name_field :: "byte list" where
  "set_name_field = elem_bytes 2 ''setName'' (small_str ''rs'')"

definition primary_reply :: "bson_view option" where
  "primary_reply = small_reply (elem_bytes 8 ''ismaster'' [1] @ set_name_field @
     elem_bytes 4 ''hosts'' (small_doc (elem_bytes 2 ''0'' (small_str ''a:1''))))"

definition secondary_reply :: "bson_view option" where
  "secondary_reply = small_reply (elem_bytes 8 ''secondary'' [1] @ set_name_field)"

definition bad_host_reply :: "bson_view option" where
  "bad_host_reply = small_reply (elem_bytes 8 ''ismaster'' [1] @ set_name_field @
     elem_bytes 4 ''hosts'' (small_doc (elem_bytes 2 ''0'' (small_str '':1'') @ elem_bytes 2 ''1'' (small_str ''a:1''))))"

definition int_host_reply :: "bson_view option" where
  "int_host_reply = small_reply (elem_bytes 8 ''secondary'' [1] @ set_name_field @
     elem_bytes 4 ''hosts'' (small_doc (elem_bytes 16 ''0'' [1, 0, 0, 0])))"

definition primary_reply_of :: "byte list \<Rightarrow> byte \<Rightarrow> byte \<Rightarrow> bson_view option" where
  "primary_reply_of hosts version election = small_reply (elem_bytes 8 ''ismaster'' [1] @ set_name_field @
     elem_bytes 4 ''hosts'' (small_doc hosts) @ elem_bytes 16 ''setVersion'' [version, 0, 0, 0] @
     elem_bytes 7 ''electionId'' (replicate 11 0 @ [election]))"

primrec sdam_run :: "sdam_env \<Rightarrow> (u32 \<times> bson_view option) list \<Rightarrow> topology_description \<Rightarrow> topology_description outcome" where
  "sdam_run env [] td = Ret td"
| "sdam_run env (r # rs) td = cbind (mongoc_topology_description_handle_ismaster env td (fst r) (snd r) 5 None) (sdam_run env rs)"

primrec run_fits :: "sdam_env \<Rightarrow> (u32 \<times> bson_view option) list \<Rightarrow> topology_description \<Rightarrow> bool" where
  "run_fits env [] td = True"
| "run_fits env (r # rs) td \<longleftrightarrow> reply_fits env td (fst r) (snd r) 5 None \<and>
     (case mongoc_topology_description_handle_ismaster env td (fst r) (snd r) 5 None of Ret td \<Rightarrow> run_fits env rs td | _ \<Rightarrow> False)"

lemma run_reachable: "sdam_reachable td \<Longrightarrow> run_fits env rs td \<Longrightarrow> \<exists>td'. sdam_run env rs td = Ret td' \<and> sdam_reachable td'"
proof (induction rs arbitrary: td)
  case (Cons r rs)
  then obtain td1 where td1: "mongoc_topology_description_handle_ismaster env td (fst r) (snd r) 5 None = Ret td1" "run_fits env rs td1"
    by (auto split: outcome.splits)
  then have "sdam_reachable td1" using sdam_next [OF Cons.prems(1) sdam_reply [OF _ td1(1)]] Cons.prems(2) by simp
  from Cons.IH [OF this td1(2)] td1(1) show ?case by simp
qed simp

definition rs_run :: "(u32 \<times> bson_view option) list \<Rightarrow> topology_description outcome" where
  "rs_run rs = cbind rs_start (sdam_run rs_env rs)"

definition rs_run_ok :: "(u32 \<times> bson_view option) list \<Rightarrow> bool" where
  "rs_run_ok rs \<longleftrightarrow> (case rs_start of Ret td \<Rightarrow> run_fits rs_env rs td | _ \<Rightarrow> False)"

lemma rs_seeds_ok: "seeds_ok rs_seeds"
  by code_simp

lemma rs_start_reachable: "rs_start = Ret td \<Longrightarrow> sdam_reachable td"
  unfolding rs_start_def using sdam_start [OF _ rs_seeds_ok, of _ _ _ False False] by blast

lemma rs_run_reachable:
  assumes "rs_run_ok rs"
  shows "\<exists>td. rs_run rs = Ret td \<and> sdam_reachable td"
proof -
  obtain td where td: "rs_start = Ret td" "run_fits rs_env rs td"
    using assms by (auto simp: rs_run_ok_def split: outcome.splits)
  from run_reachable [OF rs_start_reachable [OF td(1)] td(2)] show ?thesis
    unfolding rs_run_def td(1) cbind.simps .
qed

lemma rs_primary_ok: "rs_run_ok [(1, primary_reply)]"
  by code_simp

lemma rs_primary_type:
  assumes "rs_run [(1, primary_reply)] = Ret td"
  shows "td_type td = MONGOC_TOPOLOGY_RS_WITH_PRIMARY"
proof -
  have "(case rs_run [(1, primary_reply)] of Ret td \<Rightarrow> td_type td = MONGOC_TOPOLOGY_RS_WITH_PRIMARY | _ \<Rightarrow> False)"
    by code_simp
  then show ?thesis by (simp add: assms)
qed

text \<open>C4. Whatever replies the servers of a topology send, the description stays consistent: every server in
  the set can be read, their types are among those that the type of the topology allows (a sharded
  topology has no replica set members, a topology without primary has no primary), at most one
  server is a primary, a topology with a primary has a set name (so that comparing it with the name
  of a member is no null dereference), and a single topology has at most one server.\<close>

theorem topology_invariant:
  assumes "sdam_reachable td"
  shows "\<exists>sds. td_server_list td = Ret sds \<and> list_all (\<lambda>sd. td_allows (td_type td) (sd_type sd)) sds \<and>
    length (filter (\<lambda>sd. sd_type sd = MONGOC_SERVER_RS_PRIMARY) sds) \<le> 1 \<and>
    (td_type td = MONGOC_TOPOLOGY_RS_WITH_PRIMARY \<longrightarrow> td_set_name td \<noteq> None) \<and>
    (td_type td = MONGOC_TOPOLOGY_SINGLE \<longrightarrow> length sds \<le> 1)"
proof -
  have inv: "td_inv td" using reachable_inv [OF assms] .
  then have wf: "td_wf td" and ok: "mem_ok (td_type td) (td_mem td)" by (simp_all add: td_inv_def)
  define sds where "sds = map (\<lambda>p. the (td_mem td p)) (td_ptrs td)"
  have list: "td_server_list td = Ret sds" using td_server_list_eq [OF wf] by (simp add: sds_def)
  have mem: "td_mem td p = Some (the (td_mem td p))" if "p \<in> set (td_ptrs td)" for p
    using td_wf_get [OF wf that] by auto
  have "list_all (\<lambda>sd. td_allows (td_type td) (sd_type sd)) sds"
    unfolding sds_def list.pred_set set_map using ok mem by (auto simp: mem_ok_def)
  moreover have "length (filter (\<lambda>sd. sd_type sd = MONGOC_SERVER_RS_PRIMARY) sds) \<le> 1"
  proof -
    have "length (filter (\<lambda>p. sd_type (the (td_mem td p)) = MONGOC_SERVER_RS_PRIMARY) (td_ptrs td)) \<le> 1"
      by (rule filter_at_most_one [OF td_wfD(2) [OF wf]]) (use ok mem in \<open>unfold mem_ok_def one_primary_def, blast\<close>)
    then show ?thesis by (simp add: sds_def length_filter_map comp_def)
  qed
  moreover have "length sds \<le> 1" if "td_type td = MONGOC_TOPOLOGY_SINGLE"
  proof -
    have "length (filter (\<lambda>p. True) (td_ptrs td)) \<le> 1"
      by (rule filter_at_most_one [OF td_wfD(2) [OF wf]]) (use inv that td_wfD(3) [OF wf] in \<open>auto simp: td_inv_def simp del: set_map\<close>)
    then show ?thesis by (simp add: sds_def)
  qed
  ultimately show ?thesis using list inv by (auto simp: td_inv_def)
qed

theorem topology_invariant_witness:
  "\<exists>td sds. rs_run [(1, primary_reply)] = Ret td \<and> td_server_list td = Ret sds \<and>
    list_all (\<lambda>sd. td_allows MONGOC_TOPOLOGY_RS_WITH_PRIMARY (sd_type sd)) sds \<and>
    length (filter (\<lambda>sd. sd_type sd = MONGOC_SERVER_RS_PRIMARY) sds) \<le> 1 \<and> td_set_name td \<noteq> None"
  using rs_run_reachable [OF rs_primary_ok] topology_invariant rs_primary_type by metis



text \<open>C12. The pair of the highest set version and election id that the topology has seen never goes back,
  in the order that compares the set version first, whatever replies come in (once a set version was
  seen).\<close>

theorem elections_never_go_back:
  assumes "sdam_reachable td" "sdam_step td td'" "mongoc_topology_description_has_set_version td"
  shows "mongoc_topology_description_has_set_version td' \<and>
    (td_max_set_version td < td_max_set_version td' \<or>
     td_max_set_version td = td_max_set_version td' \<and> bson_oid_compare (td_max_election_id td) (td_max_election_id td') \<le> 0)"
  using step_inv [OF reachable_inv [OF assms(1)] assms(2)] assms(3)
  by (simp add: election_le_def mongoc_topology_description_has_set_version_def)

abbreviation host_a :: "byte list" where
  "host_a \<equiv> elem_bytes 2 ''0'' (small_str ''a:1'')"

lemma rs_election_ok: "rs_run_ok [(1, primary_reply_of host_a 2 7)]"
  by code_simp

lemma rs_election_version:
  assumes "rs_run [(1, primary_reply_of host_a 2 7)] = Ret td"
  shows "td_max_set_version td = 2" "reply_fits rs_env td 1 (primary_reply_of host_a 1 9) 5 None"
proof -
  have "(case rs_run [(1, primary_reply_of host_a 2 7)] of
      Ret td \<Rightarrow> td_max_set_version td = 2 \<and> reply_fits rs_env td 1 (primary_reply_of host_a 1 9) 5 None | _ \<Rightarrow> False)"
    by code_simp
  then show "td_max_set_version td = 2" "reply_fits rs_env td 1 (primary_reply_of host_a 1 9) 5 None" by (simp_all add: assms)
qed

theorem elections_never_go_back_witness:
  "\<exists>td td'. rs_run [(1, primary_reply_of host_a 2 7)] = Ret td \<and> td_max_set_version td = 2 \<and>
    mongoc_topology_description_handle_ismaster rs_env td 1 (primary_reply_of host_a 1 9) 5 None = Ret td' \<and>
    2 \<le> td_max_set_version td'"
proof -
  obtain td where td: "rs_run [(1, primary_reply_of host_a 2 7)] = Ret td" "sdam_reachable td"
    using rs_run_reachable [OF rs_election_ok] by blast
  note f = rs_election_version [OF td(1)]
  obtain td' where td': "mongoc_topology_description_handle_ismaster rs_env td 1 (primary_reply_of host_a 1 9) 5 None = Ret td'"
    using reply_fits_post [OF reachable_inv [OF td(2)] f(2)] by blast
  from elections_never_go_back [OF td(2) sdam_reply [OF f(2) td']] f(1) td(1) td' show ?thesis
    by (auto simp: mongoc_topology_description_has_set_version_def MONGOC_NO_SET_VERSION_def)
qed


lemma rs_stale_ok:
  "(case rs_run [(1, primary_reply_of host_a 2 7)] of Ret td \<Rightarrow>
      td_type td = MONGOC_TOPOLOGY_RS_WITH_PRIMARY \<and>
      (case mongoc_topology_description_server_by_id td 1 of None \<Rightarrow> False | Some p \<Rightarrow>
       (case td_mem td p of None \<Rightarrow> False | Some sd0 \<Rightarrow>
        sd_type sd0 = MONGOC_SERVER_RS_PRIMARY \<and>
        (case mongoc_server_description_handle_ismaster rs_env sd0 (primary_reply_of host_a 1 9) 5 None of
           Ret sd \<Rightarrow> sd_type sd = MONGOC_SERVER_RS_PRIMARY \<and> td_set_name td = sd_set_name sd \<and>
             mongoc_server_description_has_set_version sd \<and> mongoc_server_description_has_election_id sd \<and>
             mongoc_topology_description_later_election td sd
         | _ \<Rightarrow> False)))
    | _ \<Rightarrow> False)"
  by code_simp


text \<open>The session timeout of the topology is the smallest session timeout of its data-bearing servers,
  and there are no sessions when one of these has no session timeout or when there is none of them.\<close>

theorem session_timeout_is_minimum:
  "mongoc_topology_description_update_session_timeout td = cbind (td_server_list td) (\<lambda>sds.
     let ts = map sd_session_timeout (filter is_data_node sds) in
     Ret (td\<lparr>td_session_timeout :=
       (if ts = [] \<or> MONGOC_NO_SESSIONS \<in> set ts then MONGOC_NO_SESSIONS else Min (set ts))\<rparr>))"
proof -
  have none: "session_timeout_loop sds t = MONGOC_NO_SESSIONS"
    if "MONGOC_NO_SESSIONS \<in> set (map sd_session_timeout (filter is_data_node sds))" for sds t
    using that by (induction sds t rule: session_timeout_loop.induct) (auto split: if_splits)
  have all: "session_timeout_loop sds t = fold min (map sd_session_timeout (filter is_data_node sds)) t"
    if "MONGOC_NO_SESSIONS \<notin> set (map sd_session_timeout (filter is_data_node sds))" "t \<noteq> MONGOC_NO_SESSIONS" for sds t
    using that by (induction sds t rule: session_timeout_loop.induct) (auto simp: min_def split: if_splits)
  have "session_timeout_loop sds MONGOC_NO_SESSIONS =
      (let ts = map sd_session_timeout (filter is_data_node sds) in
       if ts = [] \<or> MONGOC_NO_SESSIONS \<in> set ts then MONGOC_NO_SESSIONS else Min (set ts))" for sds
  proof (induction sds)
    case (Cons sd sds)
    define ts where "ts = map sd_session_timeout (filter is_data_node sds)"
    consider "\<not> is_data_node sd" | "is_data_node sd" "sd_session_timeout sd = MONGOC_NO_SESSIONS"
      | "is_data_node sd" "sd_session_timeout sd \<noteq> MONGOC_NO_SESSIONS" "MONGOC_NO_SESSIONS \<in> set ts"
      | "is_data_node sd" "sd_session_timeout sd \<noteq> MONGOC_NO_SESSIONS" "MONGOC_NO_SESSIONS \<notin> set ts" by blast
    then show ?case
    proof cases
      case 4
      have "Min (set (sd_session_timeout sd # ts)) = fold min ts (sd_session_timeout sd)" by (rule Min.set_eq_fold)
      with 4 all [of sds "sd_session_timeout sd"] show ?thesis by (simp add: ts_def)
    qed (use Cons none [of sds] in \<open>simp_all add: ts_def Let_def\<close>)
  qed simp
  then show ?thesis
    unfolding mongoc_topology_description_update_session_timeout_def by (simp add: Let_def)
qed



end
