(* ===== verification/Mongoc_Select.thy ===== *)
theory Mongoc_Select
  imports Mongoc_Sdam Bson_Document
begin

text \<open>
  Server selection: read preferences (\<open>mongoc/mongoc-read-prefs.c\<close>), the suitable servers of a topology and
  the choice of one of them (\<open>mongoc/mongoc-topology-description.c\<close>), and the filters by staleness and by
  tags (\<open>mongoc/mongoc-server-description.c\<close>). Servers are the pointers of \<open>Mongoc_Topology\<close>, an entry of the
  array of candidates that was set to \<open>NULL\<close> is \<open>None\<close>. The number that \<open>_mongoc_rand_simple\<close> gives is an
  argument. Times are \<open>int\<close>; the latency window is compared in 64-bit unsigned arithmetic, as the
  \<open>size_t\<close> of the threshold makes the C expression.
\<close>

section \<open>Read preferences\<close>

datatype read_mode =
    MONGOC_READ_PRIMARY | MONGOC_READ_SECONDARY | MONGOC_READ_PRIMARY_PREFERRED
  | MONGOC_READ_SECONDARY_PREFERRED | MONGOC_READ_NEAREST

record read_prefs =
  rp_mode :: read_mode
  rp_tags :: bson_view
  rp_max_staleness_seconds :: int

definition MONGOC_NO_MAX_STALENESS :: int where "MONGOC_NO_MAX_STALENESS = - 1"
definition MONGOC_SMALLEST_MAX_STALENESS_SECONDS :: int where "MONGOC_SMALLEST_MAX_STALENESS_SECONDS = 90"
definition MONGOC_IDLE_WRITE_PERIOD_MS :: int where "MONGOC_IDLE_WRITE_PERIOD_MS = 10 * 1000"
definition WIRE_VERSION_MAX_STALENESS :: int where "WIRE_VERSION_MAX_STALENESS = 5"
definition MONGOC_ERROR_COMMAND :: nat where "MONGOC_ERROR_COMMAND = 11"
definition MONGOC_ERROR_COMMAND_INVALID_ARG :: nat where "MONGOC_ERROR_COMMAND_INVALID_ARG = 22"

definition mongoc_read_prefs_new :: "read_mode \<Rightarrow> read_prefs" where
  "mongoc_read_prefs_new mode =
     \<lparr>rp_mode = mode, rp_tags = bson_empty_view, rp_max_staleness_seconds = MONGOC_NO_MAX_STALENESS\<rparr>"

definition mongoc_read_prefs_get_mode :: "read_prefs option \<Rightarrow> read_mode" where
  "mongoc_read_prefs_get_mode rp = (case rp of None \<Rightarrow> MONGOC_READ_PRIMARY | Some rp \<Rightarrow> rp_mode rp)"

definition mongoc_read_prefs_set_mode :: "read_prefs \<Rightarrow> read_mode \<Rightarrow> read_prefs" where
  "mongoc_read_prefs_set_mode rp mode = rp\<lparr>rp_mode := mode\<rparr>"

definition mongoc_read_prefs_set_tags :: "read_prefs \<Rightarrow> bson_view option \<Rightarrow> read_prefs outcome" where
  "mongoc_read_prefs_set_tags rp tags = (case tags of
       None \<Rightarrow> Ret (rp\<lparr>rp_tags := bson_empty_view\<rparr>)
     | Some t \<Rightarrow> cbind (bson_view_copy t) (\<lambda>c. Ret (rp\<lparr>rp_tags := c\<rparr>)))"

definition mongoc_read_prefs_set_max_staleness_seconds :: "read_prefs \<Rightarrow> int \<Rightarrow> read_prefs" where
  "mongoc_read_prefs_set_max_staleness_seconds rp n = rp\<lparr>rp_max_staleness_seconds := n\<rparr>"

definition mongoc_read_prefs_is_valid :: "read_prefs \<Rightarrow> bool outcome" where
  "mongoc_read_prefs_is_valid rp =
     cbind (if rp_mode rp = MONGOC_READ_PRIMARY then
              cbind (bson_view_empty (rp_tags rp)) (\<lambda>e.
              Ret (e \<and> rp_max_staleness_seconds rp = MONGOC_NO_MAX_STALENESS))
            else Ret True) (\<lambda>ok.
     Ret (ok \<and> \<not> (rp_max_staleness_seconds rp \<noteq> MONGOC_NO_MAX_STALENESS \<and> rp_max_staleness_seconds rp \<le> 0)))"

definition mongoc_read_prefs_copy :: "read_prefs \<Rightarrow> read_prefs outcome" where
  "mongoc_read_prefs_copy rp = cbind (bson_view_copy (rp_tags rp)) (\<lambda>c.
     Ret ((mongoc_read_prefs_new (rp_mode rp))\<lparr>rp_tags := c, rp_max_staleness_seconds := rp_max_staleness_seconds rp\<rparr>))"

definition mongoc_read_prefs_validate :: "read_prefs option \<Rightarrow> bson_error option outcome" where
  "mongoc_read_prefs_validate rp = (case rp of None \<Rightarrow> Ret None
     | Some rp \<Rightarrow> cbind (mongoc_read_prefs_is_valid rp) (\<lambda>ok. Ret (if ok then None
         else Some \<lparr>err_domain = MONGOC_ERROR_COMMAND, err_code = MONGOC_ERROR_COMMAND_INVALID_ARG\<rparr>)))"

section \<open>Filters\<close>

type_synonym candidates = "nat option list"

definition is_secondary :: "server_description \<Rightarrow> bool" where
  "is_secondary sd \<longleftrightarrow> sd_type sd = MONGOC_SERVER_RS_SECONDARY"

primrec filter_candidates :: "topology_description \<Rightarrow> (server_description \<Rightarrow> bool) \<Rightarrow> candidates \<Rightarrow> candidates outcome" where
  "filter_candidates td keep [] = Ret []"
| "filter_candidates td keep (c # rest) =
     cbind (case c of None \<Rightarrow> Ret None
            | Some p \<Rightarrow> cbind (sd_get td p) (\<lambda>sd. Ret (if keep sd then Some p else None))) (\<lambda>c.
     cbind (filter_candidates td keep rest) (\<lambda>rest. Ret (c # rest)))"

primrec max_last_write :: "topology_description \<Rightarrow> candidates \<Rightarrow> int \<Rightarrow> int outcome" where
  "max_last_write td [] m = Ret m"
| "max_last_write td (c # rest) m = (case c of None \<Rightarrow> max_last_write td rest m
     | Some p \<Rightarrow> cbind (sd_get td p) (\<lambda>sd.
         max_last_write td rest (if is_secondary sd then max m (sd_last_write_date_ms sd * 1000) else m)))"

definition mongoc_server_description_filter_stale ::
  "topology_description \<Rightarrow> candidates \<Rightarrow> nat option \<Rightarrow> int \<Rightarrow> read_prefs option \<Rightarrow> candidates outcome" where
  "mongoc_server_description_filter_stale td sds primary heartbeat_frequency_ms rp = (case rp of
       None \<Rightarrow> Ret sds
     | Some rp \<Rightarrow>
         let max_staleness_seconds = rp_max_staleness_seconds rp in
         if max_staleness_seconds = MONGOC_NO_MAX_STALENESS then Ret sds
         else c_assert (max_staleness_seconds > 0)
           (let max_staleness_usec = max_staleness_seconds * 1000 * 1000;
                heartbeat_frequency_usec = heartbeat_frequency_ms * 1000 in
            case primary of
              Some p \<Rightarrow> cbind (sd_get td p) (\<lambda>primary.
                filter_candidates td (\<lambda>sd. \<not> is_secondary sd \<or>
                  sd_last_write_date_ms primary * 1000 + (sd_last_update sd - sd_last_update primary) -
                  sd_last_write_date_ms sd * 1000 + heartbeat_frequency_usec \<le> max_staleness_usec) sds)
            | None \<Rightarrow> cbind (max_last_write td sds 0) (\<lambda>max_last_write_date_usec.
                filter_candidates td (\<lambda>sd. \<not> is_secondary sd \<or>
                  max_last_write_date_usec - sd_last_write_date_ms sd * 1000 + heartbeat_frequency_usec
                    \<le> max_staleness_usec) sds)))"

text \<open>\<open>memcmp\<close> of two values; with length 0 no memory is read.\<close>

definition same_value :: "cptr \<Rightarrow> cptr \<Rightarrow> u32 \<Rightarrow> bool outcome" where
  "same_value a b n = (if n = 0 then Ret True
     else cbind (cptr_mem a) (\<lambda>a. cbind (cptr_mem b) (\<lambda>b.
       cbind (rdn a 0 (unat n)) (\<lambda>x. cbind (rdn b 0 (unat n)) (\<lambda>y. Ret (c_memcmp x y = 0))))))"

definition match_tag_body :: "server_description \<Rightarrow> bson_iter \<Rightarrow> unit \<Rightarrow> (bool \<times> unit) outcome" where
  "match_tag_body sd it u =
     cbind (bson_iter_key it) (\<lambda>kp. cbind (cptr_mem kp) (\<lambda>read_pref_tag.
     cbind (bson_iter_utf8 it) (\<lambda>(read_pref_val, read_pref_tag_len).
     cbind (bson_iter_init_find (sd_tags sd) read_pref_tag) (\<lambda>(found, sd_iter).
     if found then
       cbind (bson_iter_utf8 sd_iter) (\<lambda>(server_val, sd_len).
       if sd_len \<noteq> read_pref_tag_len then Ret (False, u)
       else cbind (same_value read_pref_val server_val read_pref_tag_len) (\<lambda>eq. Ret (eq, u)))
     else Ret (False, u)))))"

definition match_tag_set :: "server_description \<Rightarrow> bson_iter \<Rightarrow> bool outcome" where
  "match_tag_set sd tag_set_iter =
     cbind (iter_while (iter_fuel tag_set_iter) (match_tag_body sd) tag_set_iter ()) (\<lambda>(all, _). Ret all)"

primrec match_candidates :: "topology_description \<Rightarrow> bson_iter \<Rightarrow> candidates \<Rightarrow> bool list outcome" where
  "match_candidates td it [] = Ret []"
| "match_candidates td it (c # rest) =
     cbind (case c of None \<Rightarrow> Ret False
            | Some p \<Rightarrow> cbind (bson_iter_recurse it) (\<lambda>child. case child of
                None \<Rightarrow> Abort
              | Some tag_set_iter \<Rightarrow> cbind (sd_get td p) (\<lambda>sd. match_tag_set sd tag_set_iter))) (\<lambda>m.
     cbind (match_candidates td it rest) (\<lambda>ms. Ret (m # ms)))"

text \<open>The loop over the tag sets; the state is \<open>sd_matched\<close>.\<close>

definition filter_tags_body :: "topology_description \<Rightarrow> candidates \<Rightarrow> bson_iter \<Rightarrow> bool list \<Rightarrow> (bool \<times> bool list) outcome" where
  "filter_tags_body td descriptions it sd_matched =
     cbind (match_candidates td it descriptions) (\<lambda>ms. Ret (\<not> list_ex (\<lambda>m. m) ms, ms))"

definition mongoc_server_description_filter_tags ::
  "topology_description \<Rightarrow> candidates \<Rightarrow> read_prefs option \<Rightarrow> candidates outcome" where
  "mongoc_server_description_filter_tags td descriptions rp = (case rp of
       None \<Rightarrow> Ret descriptions
     | Some rp \<Rightarrow> cbind (bson_count_keys (rp_tags rp)) (\<lambda>n.
         if n = 0 then Ret descriptions
         else (case bson_iter_init (rp_tags rp) of (_, it) \<Rightarrow>
           cbind (iter_while (iter_fuel it) (filter_tags_body td descriptions) it
             (replicate (length descriptions) False)) (\<lambda>(_, sd_matched).
           Ret (map2 (\<lambda>m d. if m then d else None) sd_matched descriptions)))))"

section \<open>Suitable servers\<close>

definition mongoc_topology_description_server_is_candidate :: "sd_type \<Rightarrow> read_mode \<Rightarrow> td_type \<Rightarrow> bool" where
  "mongoc_topology_description_server_is_candidate desc_type read_mode topology_type = (case topology_type of
       MONGOC_TOPOLOGY_SINGLE \<Rightarrow> desc_type = MONGOC_SERVER_STANDALONE
     | MONGOC_TOPOLOGY_SHARDED \<Rightarrow> desc_type = MONGOC_SERVER_MONGOS
     | MONGOC_TOPOLOGY_UNKNOWN \<Rightarrow> False
     | _ \<Rightarrow> (case read_mode of
         MONGOC_READ_PRIMARY \<Rightarrow> desc_type = MONGOC_SERVER_RS_PRIMARY
       | MONGOC_READ_SECONDARY \<Rightarrow> desc_type = MONGOC_SERVER_RS_SECONDARY
       | _ \<Rightarrow> desc_type = MONGOC_SERVER_RS_PRIMARY \<or> desc_type = MONGOC_SERVER_RS_SECONDARY))"

record suitable_data =
  sud_primary :: "nat option"
  sud_candidates :: candidates
  sud_has_secondary :: bool

definition mongoc_replica_set_read_suitable_cb ::
  "topology_description \<Rightarrow> read_mode \<Rightarrow> nat \<Rightarrow> suitable_data \<Rightarrow> (bool \<times> suitable_data) outcome" where
  "mongoc_replica_set_read_suitable_cb td read_mode p data = cbind (sd_get td p) (\<lambda>server.
     let data = (if sd_type server = MONGOC_SERVER_RS_PRIMARY then data\<lparr>sud_primary := Some p\<rparr> else data) in
     if mongoc_topology_description_server_is_candidate (sd_type server) read_mode (td_type td) then
       if sd_type server = MONGOC_SERVER_RS_PRIMARY \<and>
          (read_mode = MONGOC_READ_PRIMARY \<or> read_mode = MONGOC_READ_PRIMARY_PREFERRED)
       then Ret (False, data)
       else
         let data = (if sd_type server = MONGOC_SERVER_RS_SECONDARY then data\<lparr>sud_has_secondary := True\<rparr> else data) in
         Ret (True, data\<lparr>sud_candidates := sud_candidates data @ [Some p]\<rparr>)
     else Ret (True, data))"

definition mongoc_find_suitable_mongos_cb ::
  "topology_description \<Rightarrow> read_mode \<Rightarrow> nat \<Rightarrow> suitable_data \<Rightarrow> (bool \<times> suitable_data) outcome" where
  "mongoc_find_suitable_mongos_cb td read_mode p data = cbind (sd_get td p) (\<lambda>server.
     if mongoc_topology_description_server_is_candidate (sd_type server) read_mode (td_type td)
     then Ret (True, data\<lparr>sud_candidates := sud_candidates data @ [Some p]\<rparr>) else Ret (True, data))"

text \<open>The two loops over the candidates: the lowest round trip time, then those in the window.\<close>

primrec nearest_loop :: "topology_description \<Rightarrow> candidates \<Rightarrow> int \<Rightarrow> int outcome" where
  "nearest_loop td [] nearest = Ret nearest"
| "nearest_loop td (c # rest) nearest = (case c of None \<Rightarrow> nearest_loop td rest nearest
     | Some p \<Rightarrow> cbind (sd_get td p) (\<lambda>sd.
         nearest_loop td rest (if nearest = - 1 \<or> nearest > sd_rtt sd then sd_rtt sd else nearest)))"

primrec window_loop :: "topology_description \<Rightarrow> candidates \<Rightarrow> u64 \<Rightarrow> nat list outcome" where
  "window_loop td [] limit = Ret []"
| "window_loop td (c # rest) limit = (case c of None \<Rightarrow> window_loop td rest limit
     | Some p \<Rightarrow> cbind (sd_get td p) (\<lambda>sd. cbind (window_loop td rest limit) (\<lambda>set.
         Ret (if word_of_int (sd_rtt sd) \<le> limit then p # set else set))))"

definition suitable_window :: "topology_description \<Rightarrow> candidates \<Rightarrow> u64 \<Rightarrow> nat list outcome" where
  "suitable_window td candidates local_threshold_ms = cbind (nearest_loop td candidates (- 1)) (\<lambda>nearest.
     window_loop td candidates (word_of_int nearest + local_threshold_ms))"

datatype ss_optype = MONGOC_SS_READ | MONGOC_SS_WRITE

text \<open>
  With mode \<open>SECONDARY_PREFERRED\<close> the function calls itself with mode \<open>SECONDARY\<close>
  (\<open>_mongoc_try_mode_secondary\<close>); the first argument bounds the depth of the calls.
\<close>

primrec suitable_servers_depth ::
  "nat \<Rightarrow> ss_optype \<Rightarrow> topology_description \<Rightarrow> read_prefs option \<Rightarrow> u64 \<Rightarrow> nat list outcome" where
  "suitable_servers_depth 0 optype td rp local_threshold_ms = Timeout"
| "suitable_servers_depth (Suc depth) optype td rp local_threshold_ms =
     (let read_mode = mongoc_read_prefs_get_mode rp;
          data = \<lparr>sud_primary = None, sud_candidates = [], sud_has_secondary = False\<rparr> in
      case td_type td of
        MONGOC_TOPOLOGY_SINGLE \<Rightarrow>
          cbind (mongoc_set_get_item (td_servers td) 0) (\<lambda>p. cbind (sd_get td p) (\<lambda>server.
          Ret (if mongoc_topology_description_server_is_candidate (sd_type server) read_mode (td_type td) then [p] else [])))
      | MONGOC_TOPOLOGY_UNKNOWN \<Rightarrow> suitable_window td [] local_threshold_ms
      | MONGOC_TOPOLOGY_SHARDED \<Rightarrow>
          cbind (mongoc_set_for_each (td_servers td) (mongoc_find_suitable_mongos_cb td read_mode) data) (\<lambda>data.
          suitable_window td (sud_candidates data) local_threshold_ms)
      | _ \<Rightarrow>
          if optype = MONGOC_SS_READ then
            cbind (mongoc_set_for_each (td_servers td) (mongoc_replica_set_read_suitable_cb td read_mode) data) (\<lambda>data.
            let primary = (case sud_primary data of None \<Rightarrow> [] | Some p \<Rightarrow> [p]) in
            if read_mode = MONGOC_READ_PRIMARY then Ret primary
            else if read_mode = MONGOC_READ_PRIMARY_PREFERRED \<and> primary \<noteq> [] then Ret primary
            else if read_mode = MONGOC_READ_SECONDARY_PREFERRED then
              (case rp of None \<Rightarrow> Fault
               | Some rp \<Rightarrow> cbind (mongoc_read_prefs_copy rp) (\<lambda>secondary.
                   cbind (suitable_servers_depth depth MONGOC_SS_READ td
                     (Some (mongoc_read_prefs_set_mode secondary MONGOC_READ_SECONDARY)) local_threshold_ms) (\<lambda>set.
                   Ret (if set = [] then primary else set))))
            else
              cbind (if read_mode = MONGOC_READ_SECONDARY
                     then filter_candidates td is_secondary (sud_candidates data) else Ret (sud_candidates data)) (\<lambda>candidates.
              cbind (mongoc_server_description_filter_stale td candidates (sud_primary data) (td_heartbeat_msec td) rp) (\<lambda>candidates.
              cbind (mongoc_server_description_filter_tags td candidates rp) (\<lambda>candidates.
              suitable_window td candidates local_threshold_ms))))
          else if td_type td = MONGOC_TOPOLOGY_RS_WITH_PRIMARY then
            cbind (mongoc_topology_description_has_primary td) (\<lambda>primary. case primary of
              Some p \<Rightarrow> Ret [p] | None \<Rightarrow> suitable_window td [] local_threshold_ms)
          else suitable_window td [] local_threshold_ms)"

definition mongoc_topology_description_suitable_servers ::
  "ss_optype \<Rightarrow> topology_description \<Rightarrow> read_prefs option \<Rightarrow> u64 \<Rightarrow> nat list outcome" where
  "mongoc_topology_description_suitable_servers = suitable_servers_depth 2"

definition mongoc_topology_description_has_data_node :: "topology_description \<Rightarrow> bool outcome" where
  "mongoc_topology_description_has_data_node td = cbind (td_server_list td) (\<lambda>sds. Ret (list_ex is_data_node sds))"

definition mongoc_topology_description_select ::
  "nat \<Rightarrow> topology_description \<Rightarrow> ss_optype \<Rightarrow> read_prefs option \<Rightarrow> u64 \<Rightarrow> nat option outcome" where
  "mongoc_topology_description_select rand_n td optype rp local_threshold_ms =
     (if td_type td = MONGOC_TOPOLOGY_SINGLE then
        cbind (mongoc_set_get_item (td_servers td) 0) (\<lambda>p. cbind (sd_get td p) (\<lambda>sd.
        Ret (if sd_has_is_master sd then Some p else None)))
      else cbind (mongoc_topology_description_suitable_servers optype td rp local_threshold_ms) (\<lambda>set.
        Ret (if set \<noteq> [] then Some (set ! (rand_n mod length set)) else None)))"

section \<open>Compatibility\<close>

fun lowest_max_wire_loop :: "server_description list \<Rightarrow> int \<Rightarrow> int" where
  "lowest_max_wire_loop [] ret = ret"
| "lowest_max_wire_loop (sd # sds) ret = lowest_max_wire_loop sds
     (if sd_type sd \<noteq> MONGOC_SERVER_UNKNOWN \<and> sd_max_wire_version sd < ret then sd_max_wire_version sd else ret)"

definition mongoc_topology_description_lowest_max_wire_version :: "topology_description \<Rightarrow> int outcome" where
  "mongoc_topology_description_lowest_max_wire_version td = cbind (td_server_list td) (\<lambda>sds.
     Ret (lowest_max_wire_loop sds 2147483647))"

definition mongoc_topology_description_all_sds_have_write_date :: "topology_description \<Rightarrow> bool outcome" where
  "mongoc_topology_description_all_sds_have_write_date td = cbind (td_server_list td) (\<lambda>sds.
     Ret (\<not> list_ex (\<lambda>sd. sd_last_write_date_ms sd \<le> 0 \<and>
       (sd_type sd = MONGOC_SERVER_RS_PRIMARY \<or> sd_type sd = MONGOC_SERVER_RS_SECONDARY)) sds))"

definition mongoc_topology_description_validate_max_staleness ::
  "topology_description \<Rightarrow> int \<Rightarrow> bson_error option" where
  "mongoc_topology_description_validate_max_staleness td max_staleness_seconds =
     (if td_type td \<noteq> MONGOC_TOPOLOGY_RS_WITH_PRIMARY \<and> td_type td \<noteq> MONGOC_TOPOLOGY_RS_NO_PRIMARY then None
      else if max_staleness_seconds * 1000 < td_heartbeat_msec td + MONGOC_IDLE_WRITE_PERIOD_MS then
        Some \<lparr>err_domain = MONGOC_ERROR_COMMAND, err_code = MONGOC_ERROR_COMMAND_INVALID_ARG\<rparr>
      else if max_staleness_seconds < MONGOC_SMALLEST_MAX_STALENESS_SECONDS then
        Some \<lparr>err_domain = MONGOC_ERROR_COMMAND, err_code = MONGOC_ERROR_COMMAND_INVALID_ARG\<rparr>
      else None)"

definition mongoc_topology_compatible :: "topology_description \<Rightarrow> read_prefs option \<Rightarrow> bson_error option outcome" where
  "mongoc_topology_compatible td rp =
     (if err_code (td_compat_error td) \<noteq> 0 then Ret (Some (td_compat_error td))
      else case rp of
        None \<Rightarrow> Ret None
      | Some rp \<Rightarrow>
          let max_staleness_seconds = rp_max_staleness_seconds rp;
              bad = \<lparr>err_domain = MONGOC_ERROR_COMMAND, err_code = MONGOC_ERROR_PROTOCOL_BAD_WIRE_VERSION\<rparr> in
          if max_staleness_seconds \<noteq> MONGOC_NO_MAX_STALENESS then
            cbind (mongoc_topology_description_lowest_max_wire_version td) (\<lambda>max_wire_version.
            if max_wire_version < WIRE_VERSION_MAX_STALENESS then Ret (Some bad)
            else cbind (mongoc_topology_description_all_sds_have_write_date td) (\<lambda>ok.
              if \<not> ok then Ret (Some bad)
              else Ret (mongoc_topology_description_validate_max_staleness td max_staleness_seconds)))
          else Ret None)"

definition mongoc_topology_description_has_readable_server ::
  "nat \<Rightarrow> topology_description \<Rightarrow> read_prefs option \<Rightarrow> bool outcome" where
  "mongoc_topology_description_has_readable_server rand_n td prefs =
     cbind (mongoc_topology_compatible td None) (\<lambda>e.
     if e \<noteq> None then Ret False
     else cbind (mongoc_topology_description_select rand_n td MONGOC_SS_READ prefs 0) (\<lambda>s. Ret (s \<noteq> None)))"

definition mongoc_topology_description_has_writable_server :: "nat \<Rightarrow> topology_description \<Rightarrow> bool outcome" where
  "mongoc_topology_description_has_writable_server rand_n td =
     cbind (mongoc_topology_compatible td None) (\<lambda>e.
     if e \<noteq> None then Ret False
     else cbind (mongoc_topology_description_select rand_n td MONGOC_SS_WRITE None 0) (\<lambda>s. Ret (s \<noteq> None)))"

definition mongoc_topology_description_get_servers :: "sdam_env \<Rightarrow> topology_description \<Rightarrow> server_description list outcome" where
  "mongoc_topology_description_get_servers env td = cbind (td_server_list td) (\<lambda>sds.
     copy_servers env (filter (\<lambda>sd. sd_type sd \<noteq> MONGOC_SERVER_UNKNOWN) sds))"

end
