(* ===== verification/Mongoc_Select_Props.thy ===== *)
theory Mongoc_Select_Props
  imports Mongoc_Select
begin

text \<open>
  Server selection follows the selection rules: the loops over the candidates compute filters of the
  list of servers (\<open>selection_rules\<close>), and the 64-bit comparison of the latency window is the comparison of
  the integers for round trip times and thresholds below \<open>2 ^ 62\<close>. The property is about the topologies
  that replies lead to (\<open>sdam_reachable\<close>), whose invariant is needed for writes and for the mode \<open>primary\<close>.
\<close>

section \<open>The loops over the candidates\<close>

abbreviation live :: "candidates \<Rightarrow> nat list" where
  "live cands \<equiv> List.map_filter (\<lambda>c. c) cands"

abbreviation sd_at :: "topology_description \<Rightarrow> nat \<Rightarrow> server_description" where
  "sd_at td p \<equiv> the (td_mem td p)"

lemma live_simps [simp]:
  "live [] = []" "live (None # cands) = live cands" "live (Some p # cands) = p # live cands"
  by (simp_all add: List.map_filter_def)

lemma live_map_Some [simp]: "live (map Some ps) = ps"
  by (induction ps) auto

lemma filter_candidates_spec:
  assumes "set (live cands) \<subseteq> dom (td_mem td)"
  shows "\<exists>cands'. filter_candidates td keep cands = Ret cands' \<and> length cands' = length cands \<and>
    live cands' = filter (\<lambda>p. keep (sd_at td p)) (live cands)"
  using assms
proof (induction cands)
  case (Cons c cands)
  then show ?case by (cases c) (auto simp: sd_get_eq)
qed simp

lemma max_last_write_spec:
  assumes "set (live cands) \<subseteq> dom (td_mem td)"
  shows "max_last_write td cands m =
    Ret (fold (\<lambda>sd m. if is_secondary sd then max m (sd_last_write_date_ms sd * 1000) else m) (map (sd_at td) (live cands)) m)"
  using assms
proof (induction cands arbitrary: m)
  case (Cons c cands)
  then show ?case by (cases c) (auto simp: sd_get_eq)
qed simp

lemma window_loop_spec:
  assumes "set (live cands) \<subseteq> dom (td_mem td)"
  shows "window_loop td cands limit = Ret (filter (\<lambda>p. word_of_int (sd_rtt (sd_at td p)) \<le> limit) (live cands))"
  using assms
proof (induction cands)
  case (Cons c cands)
  then show ?case by (cases c) (auto simp: sd_get_eq)
qed simp

lemma nearest_loop_spec:
  assumes "set (live cands) \<subseteq> dom (td_mem td)" "\<forall>p\<in>set (live cands). 0 \<le> sd_rtt (sd_at td p)" "0 \<le> n"
  shows "nearest_loop td cands n = Ret (fold min (map (\<lambda>p. sd_rtt (sd_at td p)) (live cands)) n)"
  using assms
proof (induction cands arbitrary: n)
  case (Cons c cands)
  then show ?case by (cases c) (auto simp: sd_get_eq min_def)
qed simp

lemma nearest_loop_start:
  assumes "set (live cands) \<subseteq> dom (td_mem td)" "\<forall>p\<in>set (live cands). 0 \<le> sd_rtt (sd_at td p)"
  shows "nearest_loop td cands (- 1) =
    Ret (if live cands = [] then - 1 else Min ((\<lambda>p. sd_rtt (sd_at td p)) ` set (live cands)))"
  using assms
proof (induction cands)
  case (Cons c cands)
  show ?case
  proof (cases c)
    case (Some p)
    with Cons.prems have "nearest_loop td (c # cands) (- 1) =
        Ret (fold min (map (\<lambda>p. sd_rtt (sd_at td p)) (live cands)) (sd_rtt (sd_at td p)))"
      using nearest_loop_spec [of cands td "sd_rtt (sd_at td p)"] by (auto simp: sd_get_eq)
    moreover have "Min ((\<lambda>p. sd_rtt (sd_at td p)) ` set (live (c # cands))) =
        Min (set (map (\<lambda>p. sd_rtt (sd_at td p)) (p # live cands)))" using Some by simp
    ultimately show ?thesis using Some by (simp only: list.map Min.set_eq_fold) simp
  qed (use Cons in auto)
qed simp

text \<open>The latency window: everything that is at most \<open>threshold\<close> slower than the fastest.\<close>

lemma suitable_window_spec:
  fixes threshold :: u64
  assumes "set (live cands) \<subseteq> dom (td_mem td)"
    and rtt: "\<forall>p\<in>set (live cands). 0 \<le> sd_rtt (sd_at td p) \<and> sd_rtt (sd_at td p) < 2 ^ 62" and t: "threshold < 2 ^ 62"
  shows "suitable_window td cands threshold =
    Ret (filter (\<lambda>p. \<forall>q\<in>set (live cands). sd_rtt (sd_at td p) \<le> sd_rtt (sd_at td q) + uint threshold) (live cands))"
proof (cases "live cands = []")
  case True
  with assms show ?thesis
    by (simp add: suitable_window_def nearest_loop_start window_loop_spec)
next
  case False
  let ?r = "\<lambda>p. sd_rtt (sd_at td p)"
  define m where "m = Min (?r ` set (live cands))"
  have m: "m \<in> ?r ` set (live cands)" "\<And>q. q \<in> set (live cands) \<Longrightarrow> m \<le> ?r q"
    using False by (auto simp: m_def)
  then have mb: "0 \<le> m" "m < 2 ^ 62" using rtt by auto
  have tb: "uint threshold < 2 ^ 62" using t by (simp add: word_less_def)
  have ui: "uint (word_of_int x :: u64) = x" if "0 \<le> x" "x < 2 ^ 62" for x
    using that by (simp add: uint_word_of_int)
  have lim: "uint (word_of_int m + threshold) = m + uint threshold"
    using mb tb ui [OF mb] by (simp add: uint_add_lem [THEN iffD1])
  have "word_of_int (?r p) \<le> word_of_int m + threshold \<longleftrightarrow> (\<forall>q\<in>set (live cands). ?r p \<le> ?r q + uint threshold)"
    if "p \<in> set (live cands)" for p
  proof -
    have "word_of_int (?r p) \<le> word_of_int m + threshold \<longleftrightarrow> ?r p \<le> m + uint threshold"
      unfolding word_le_def lim using ui [of "?r p"] rtt that by simp
    also have "\<dots> \<longleftrightarrow> (\<forall>q\<in>set (live cands). ?r p \<le> ?r q + uint threshold)" using m by fastforce
    finally show ?thesis .
  qed
  moreover have "suitable_window td cands threshold = Ret (filter (\<lambda>p. word_of_int (?r p) \<le> word_of_int m + threshold) (live cands))"
    using False assms(1) rtt by (simp add: suitable_window_def nearest_loop_start window_loop_spec m_def)
  ultimately show ?thesis by (simp cong: filter_cong)
qed

section \<open>Staleness\<close>

text \<open>The estimate of the staleness of a secondary, in microseconds.\<close>

definition staleness :: "topology_description \<Rightarrow> nat option \<Rightarrow> nat list \<Rightarrow> server_description \<Rightarrow> int" where
  "staleness td primary ps sd = (case primary of
       Some q \<Rightarrow> (sd_last_update sd - sd_last_write_date_ms sd * 1000) -
         (sd_last_update (sd_at td q) - sd_last_write_date_ms (sd_at td q) * 1000) + td_heartbeat_msec td * 1000
     | None \<Rightarrow> Max (set (0 # map (\<lambda>q. sd_last_write_date_ms (sd_at td q) * 1000) (filter (\<lambda>q. is_secondary (sd_at td q)) ps))) -
         sd_last_write_date_ms sd * 1000 + td_heartbeat_msec td * 1000)"

definition fresh_enough :: "topology_description \<Rightarrow> read_prefs \<Rightarrow> nat option \<Rightarrow> nat list \<Rightarrow> server_description \<Rightarrow> bool" where
  "fresh_enough td rp primary ps sd \<longleftrightarrow> rp_max_staleness_seconds rp = MONGOC_NO_MAX_STALENESS \<or> \<not> is_secondary sd \<or>
     staleness td primary ps sd \<le> 1000000 * rp_max_staleness_seconds rp"

lemma fold_max_secondary:
  "fold (\<lambda>sd m. if is_secondary sd then max m (sd_last_write_date_ms sd * 1000) else m) (map (sd_at td) ps) m =
    Max (set (m # map (\<lambda>q. sd_last_write_date_ms (sd_at td q) * 1000) (filter (\<lambda>q. is_secondary (sd_at td q)) ps)))"
proof -
  have "fold (\<lambda>sd m. if is_secondary sd then max m (sd_last_write_date_ms sd * 1000) else m) (map (sd_at td) ps) m =
      fold max (map (\<lambda>q. sd_last_write_date_ms (sd_at td q) * 1000) (filter (\<lambda>q. is_secondary (sd_at td q)) ps)) m"
    by (induction ps arbitrary: m) (auto simp: max.commute)
  then show ?thesis by (simp only: Max.set_eq_fold)
qed

lemma filter_stale_spec:
  assumes "set (live cands) \<subseteq> dom (td_mem td)" "\<And>q. primary = Some q \<Longrightarrow> q \<in> dom (td_mem td)"
    and rp: "rp_max_staleness_seconds rp = MONGOC_NO_MAX_STALENESS \<or> 0 < rp_max_staleness_seconds rp"
  shows "\<exists>cands'. mongoc_server_description_filter_stale td cands primary (td_heartbeat_msec td) (Some rp) = Ret cands' \<and>
    length cands' = length cands \<and> live cands' = filter (\<lambda>p. fresh_enough td rp primary (live cands) (sd_at td p)) (live cands)"
proof (cases "rp_max_staleness_seconds rp = MONGOC_NO_MAX_STALENESS")
  case True
  then show ?thesis by (simp add: mongoc_server_description_filter_stale_def fresh_enough_def)
next
  case False
  with rp have pos: "0 < rp_max_staleness_seconds rp" by blast
  show ?thesis
  proof (cases primary)
    case None
    show ?thesis
      using filter_candidates_spec [OF assms(1)] False pos None
      by (simp add: mongoc_server_description_filter_stale_def Let_def fresh_enough_def staleness_def
          max_last_write_spec [OF assms(1)] fold_max_secondary del: set_simps)
  next
    case (Some q)
    then obtain sq where "td_mem td q = Some sq" using assms(2) by blast
    then show ?thesis
      using filter_candidates_spec [OF assms(1)] False pos Some
      by (simp add: mongoc_server_description_filter_stale_def Let_def fresh_enough_def staleness_def sd_get_eq algebra_simps)
  qed
qed

section \<open>Tags\<close>

text \<open>Whether a server matches the tag set at the iterator, when this can be read.\<close>

definition tag_match :: "topology_description \<Rightarrow> bson_iter \<Rightarrow> nat \<Rightarrow> bool outcome" where
  "tag_match td it p = cbind (bson_iter_recurse it) (\<lambda>child. case child of
     None \<Rightarrow> Abort | Some tag_set_iter \<Rightarrow> match_tag_set (sd_at td p) tag_set_iter)"

definition tag_sets :: "read_prefs \<Rightarrow> bson_iter list outcome" where
  "tag_sets rp = (case bson_iter_init (rp_tags rp) of (_, it) \<Rightarrow>
     cbind (iter_while (iter_fuel it) (\<lambda>it its. Ret (True, its @ [it])) it []) (\<lambda>(_, its). Ret its))"

definition matches :: "topology_description \<Rightarrow> bson_iter \<Rightarrow> nat \<Rightarrow> bool" where
  "matches td it p \<longleftrightarrow> (case tag_match td it p of Ret b \<Rightarrow> b | _ \<Rightarrow> False)"

definition readable :: "topology_description \<Rightarrow> bson_iter \<Rightarrow> nat \<Rightarrow> bool" where
  "readable td it p \<longleftrightarrow> (case tag_match td it p of Ret b \<Rightarrow> True | _ \<Rightarrow> False)"

text \<open>The tag sets of the read preference can be read and matched with all servers of the topology.\<close>

definition tags_ok :: "topology_description \<Rightarrow> read_prefs \<Rightarrow> bool" where
  "tags_ok td rp \<longleftrightarrow> (case bson_count_keys (rp_tags rp) of
       Ret n \<Rightarrow> n \<noteq> 0 \<longrightarrow> (case tag_sets rp of
         Ret its \<Rightarrow> list_all (\<lambda>it. list_all (readable td it) (td_ptrs td)) its | _ \<Rightarrow> False)
     | _ \<Rightarrow> False)"

text \<open>The first tag set that some server of the list matches decides.\<close>

definition tagged :: "topology_description \<Rightarrow> read_prefs \<Rightarrow> nat list \<Rightarrow> nat \<Rightarrow> bool" where
  "tagged td rp ps p \<longleftrightarrow> (case bson_count_keys (rp_tags rp) of
       Ret n \<Rightarrow> n \<noteq> 0 \<longrightarrow> (case tag_sets rp of
         Ret its \<Rightarrow> (case find (\<lambda>it. list_ex (matches td it) ps) its of None \<Rightarrow> False | Some it \<Rightarrow> matches td it p) | _ \<Rightarrow> False)
     | _ \<Rightarrow> False)"

lemma tag_sets_mode [simp]: "tag_sets (rp\<lparr>rp_mode := m\<rparr>) = tag_sets rp"
  by (simp add: tag_sets_def)

lemma tags_ok_mode [simp]: "tags_ok td (rp\<lparr>rp_mode := m\<rparr>) = tags_ok td rp"
  unfolding tags_ok_def tag_sets_mode by simp

lemma match_candidates_spec:
  assumes "set (live cands) \<subseteq> dom (td_mem td)" "\<forall>p\<in>set (live cands). readable td it p"
  shows "match_candidates td it cands = Ret (map (\<lambda>c. case c of None \<Rightarrow> False | Some p \<Rightarrow> matches td it p) cands)"
  using assms
proof (induction cands)
  case (Cons c cands)
  show ?case
  proof (cases c)
    case (Some p)
    with Cons.prems obtain sd b where sd: "td_mem td p = Some sd" and b: "tag_match td it p = Ret b"
      by (auto simp: readable_def split: outcome.splits)
    then have "cbind (bson_iter_recurse it) (\<lambda>child. case child of
        None \<Rightarrow> Abort | Some tag_set_iter \<Rightarrow> cbind (sd_get td p) (\<lambda>sd. match_tag_set sd tag_set_iter)) = Ret b"
      unfolding tag_match_def sd_get_eq [OF sd] cbind.simps by (simp only: sd option.sel)
    with Some b Cons show ?thesis by (simp add: matches_def)
  qed (use Cons in auto)
qed simp

lemma iter_while_list:
  assumes "iter_while fuel (\<lambda>it its. Ret (True, its @ [it])) it acc = Ret (r, ys)"
  shows "\<exists>its. ys = acc @ its \<and>
    ((\<forall>x\<in>set its. \<forall>s. body x s = Ret (\<not> P x, f x)) \<longrightarrow>
     iter_while fuel body it s = Ret (case find P its of Some x \<Rightarrow> (False, f x) | None \<Rightarrow> (True, if its = [] then s else f (last its))))"
  using assms
proof (induction fuel arbitrary: it acc s)
  case (Suc fuel)
  from Suc.prems obtain r' it' where n: "bson_iter_next it = Ret (r', it')" by (auto split: prod.splits)
  show ?case
  proof (cases r')
    case True
    with Suc.prems n have rest: "iter_while fuel (\<lambda>it its. Ret (True, its @ [it])) it' (acc @ [it']) = Ret (r, ys)" by simp
    obtain its where its: "ys = (acc @ [it']) @ its" using Suc.IH [OF rest] by blast
    have ih: "iter_while fuel body it' s' = Ret (case find P its of Some x \<Rightarrow> (False, f x) | None \<Rightarrow> (True, if its = [] then s' else f (last its)))"
      if "\<forall>x\<in>set its. \<forall>s. body x s = Ret (\<not> P x, f x)" for s'
      using Suc.IH [OF rest, of s'] its that by auto
    have "ys = acc @ (it' # its) \<and> ((\<forall>x\<in>set (it' # its). \<forall>s. body x s = Ret (\<not> P x, f x)) \<longrightarrow>
      iter_while (Suc fuel) body it s =
        Ret (case find P (it' # its) of Some x \<Rightarrow> (False, f x) | None \<Rightarrow> (True, if it' # its = [] then s else f (last (it' # its)))))"
      using its n True ih by (auto split: option.splits)
    then show ?thesis by blast
  next
    case False
    with Suc.prems n show ?thesis by (auto intro: exI [of _ "[]"])
  qed
qed simp

lemma live_map2:
  "live (map2 (\<lambda>m d. if m then d else None) (map (\<lambda>c. case c of None \<Rightarrow> False | Some p \<Rightarrow> P p) cands) cands) = filter P (live cands)"
proof (induction cands)
  case (Cons c cands)
  then show ?case by (cases c) auto
qed simp

lemma filter_tags_spec:
  assumes "set (live cands) \<subseteq> set (td_ptrs td)" "td_wf td" "tags_ok td rp"
  shows "\<exists>cands'. mongoc_server_description_filter_tags td cands (Some rp) = Ret cands' \<and>
    live cands' = filter (tagged td rp (live cands)) (live cands)"
proof -
  obtain n where n: "bson_count_keys (rp_tags rp) = Ret n" using assms(3) by (auto simp: tags_ok_def split: outcome.splits)
  show ?thesis
  proof (cases "n = 0")
    case True
    with n show ?thesis by (simp add: mongoc_server_description_filter_tags_def tagged_def)
  next
    case False
    obtain its where its: "tag_sets rp = Ret its" "\<forall>it\<in>set its. \<forall>p\<in>set (td_ptrs td). readable td it p"
      using assms(3) n False by (auto simp: tags_ok_def list.pred_set split: outcome.splits)
    obtain r0 it0 where it0: "bson_iter_init (rp_tags rp) = (r0, it0)" by fastforce
    then obtain r where run: "iter_while (iter_fuel it0) (\<lambda>it its. Ret (True, its @ [it])) it0 [] = Ret (r, its)"
      using its(1) by (auto simp: tag_sets_def)
    let ?f = "\<lambda>it. map (\<lambda>c. case c of None \<Rightarrow> False | Some p \<Rightarrow> matches td it p) cands"
    let ?P = "\<lambda>it. list_ex (matches td it) (live cands)"
    have ex: "list_ex (\<lambda>m. m) (?f it) = ?P it" for it
    proof (induction cands)
      case (Cons c cands)
      then show ?case by (cases c) auto
    qed simp
    have dom: "set (live cands) \<subseteq> dom (td_mem td)" using assms(1) td_wfD(3) [OF assms(2)] by simp
    have body: "filter_tags_body td cands it s = Ret (\<not> ?P it, ?f it)" if "it \<in> set its" for it s
    proof -
      have r: "\<forall>p\<in>set (live cands). readable td it p" using its(2) that assms(1) by blast
      show ?thesis unfolding filter_tags_body_def match_candidates_spec [OF dom r] cbind.simps ex ..
    qed
    have loop: "iter_while (iter_fuel it0) (filter_tags_body td cands) it0 s =
        Ret (case find ?P its of Some x \<Rightarrow> (False, ?f x) | None \<Rightarrow> (True, if its = [] then s else ?f (last its)))" for s
      using iter_while_list [OF run, of "filter_tags_body td cands" ?P ?f s] body by auto
    show ?thesis
    proof (cases "find ?P its")
      case (Some it)
      then have "tagged td rp (live cands) = matches td it" using n False its(1) by (simp add: fun_eq_iff tagged_def)
      with Some show ?thesis
        using n False it0 loop live_map2 [of "matches td it" cands]
        by (simp add: mongoc_server_description_filter_tags_def)
    next
      case None
      define ms where "ms = (if its = [] then replicate (length cands) False else ?f (last its))"
      have "\<not> list_ex (\<lambda>m. m) ms"
        using None ex [of "last its"] by (auto simp: ms_def find_None_iff list_ex_iff)
      then have "live (map2 (\<lambda>m d. if m then d else None) ms cands) = []"
      proof (induction ms arbitrary: cands)
        case (Cons m ms)
        then show ?case by (cases cands) auto
      qed simp
      moreover have "tagged td rp (live cands) = (\<lambda>p. False)" using n False its(1) None by (simp add: fun_eq_iff tagged_def)
      ultimately show ?thesis
        using n False it0 loop [of "replicate (length cands) False"] None
        by (simp add: mongoc_server_description_filter_tags_def ms_def)
    qed
  qed
qed

section \<open>The candidates of a replica set\<close>

lemma find_SomeD: "find P xs = Some x \<Longrightarrow> P x \<and> x \<in> set xs"
  by (induction xs) (auto split: if_splits)

lemma find_append: "find P (xs @ ys) = (case find P xs of None \<Rightarrow> find P ys | Some x \<Rightarrow> Some x)"
  by (induction xs) auto

lemma read_suitable_spec:
  assumes wf: "td_wf td" and mode: "mode \<noteq> MONGOC_READ_PRIMARY" "mode \<noteq> MONGOC_READ_PRIMARY_PREFERRED"
  shows "\<exists>b. mongoc_set_for_each (td_servers td) (mongoc_replica_set_read_suitable_cb td mode)
      \<lparr>sud_primary = None, sud_candidates = [], sud_has_secondary = False\<rparr> =
    Ret \<lparr>sud_primary = find (\<lambda>p. sd_type (sd_at td p) = MONGOC_SERVER_RS_PRIMARY) (rev (td_ptrs td)),
         sud_candidates = map Some (filter (\<lambda>p.
           mongoc_topology_description_server_is_candidate (sd_type (sd_at td p)) mode (td_type td)) (td_ptrs td)),
         sud_has_secondary = b\<rparr>"
proof -
  let ?prim = "\<lambda>p. sd_type (sd_at td p) = MONGOC_SERVER_RS_PRIMARY"
  let ?cand = "\<lambda>p. mongoc_topology_description_server_is_candidate (sd_type (sd_at td p)) mode (td_type td)"
  have "\<exists>b'. each_while (mongoc_replica_set_read_suitable_cb td mode) ps \<lparr>sud_primary = q, sud_candidates = cands, sud_has_secondary = b\<rparr> =
    Ret \<lparr>sud_primary = (case find ?prim (rev ps) of None \<Rightarrow> q | Some p \<Rightarrow> Some p),
         sud_candidates = cands @ map Some (filter ?cand ps), sud_has_secondary = b'\<rparr>"
    if "set ps \<subseteq> set (td_ptrs td)" for ps q cands b
    using that
  proof (induction ps arbitrary: q cands b)
    case (Cons p ps)
    then obtain sd where sd: "td_mem td p = Some sd" using td_wf_get [OF wf, of p] by auto
    have step: "\<exists>b'. mongoc_replica_set_read_suitable_cb td mode p \<lparr>sud_primary = q, sud_candidates = cands, sud_has_secondary = b\<rparr> =
      Ret (True, \<lparr>sud_primary = (if ?prim p then Some p else q),
        sud_candidates = cands @ (if ?cand p then [Some p] else []), sud_has_secondary = b'\<rparr>)"
      using mode by (auto simp: mongoc_replica_set_read_suitable_cb_def sd_get_eq [OF sd] sd Let_def)
    then obtain b' where b': "mongoc_replica_set_read_suitable_cb td mode p \<lparr>sud_primary = q, sud_candidates = cands, sud_has_secondary = b\<rparr> =
      Ret (True, \<lparr>sud_primary = (if ?prim p then Some p else q),
        sud_candidates = cands @ (if ?cand p then [Some p] else []), sud_has_secondary = b'\<rparr>)" by blast
    have "set ps \<subseteq> set (td_ptrs td)" using Cons.prems by simp
    from Cons.IH [OF this, of "if ?prim p then Some p else q" "cands @ (if ?cand p then [Some p] else [])" b'] show ?case
      unfolding each_while.simps b' by (auto simp: find_append split: option.splits)
  qed simp
  from this [OF subset_refl, of None "[]" False] show ?thesis unfolding for_each_while by (auto split: option.splits)
qed

section \<open>Properties\<close>

text \<open>
  The selection rules as filters on the list of servers: those of a type that the read mode allows,
  of these the ones that are not too stale, of these the ones with the tags, and of these the ones
  in the latency window.
\<close>

abbreviation primary_of :: "topology_description \<Rightarrow> nat option" where
  "primary_of td \<equiv> find (\<lambda>p. sd_type (sd_at td p) = MONGOC_SERVER_RS_PRIMARY) (rev (td_ptrs td))"

definition typed_servers :: "topology_description \<Rightarrow> read_prefs \<Rightarrow> nat list" where
  "typed_servers td rp = filter (\<lambda>p. sd_type (sd_at td p) = MONGOC_SERVER_RS_SECONDARY \<or>
     rp_mode rp = MONGOC_READ_NEAREST \<and> sd_type (sd_at td p) = MONGOC_SERVER_RS_PRIMARY) (td_ptrs td)"

definition selection_rules :: "topology_description \<Rightarrow> read_prefs \<Rightarrow> u64 \<Rightarrow> nat list" where
  "selection_rules td rp threshold =
     (let typed = typed_servers td rp;
          fresh = filter (\<lambda>p. fresh_enough td rp (primary_of td) typed (sd_at td p)) typed;
          tag = filter (tagged td rp fresh) fresh in
      filter (\<lambda>p. list_all (\<lambda>q. sd_rtt (sd_at td p) \<le> sd_rtt (sd_at td q) + uint threshold) tag) tag)"

text \<open>The round trip times are known and small, as the timeouts of the driver make them.\<close>

definition rtts_ok :: "topology_description \<Rightarrow> bool" where
  "rtts_ok td \<longleftrightarrow> list_all (\<lambda>p. sd_type (sd_at td p) \<in> {MONGOC_SERVER_RS_PRIMARY, MONGOC_SERVER_RS_SECONDARY} \<longrightarrow>
     0 \<le> sd_rtt (sd_at td p) \<and> sd_rtt (sd_at td p) < 2 ^ 62) (td_ptrs td)"

lemma rules_pipeline:
  assumes wf: "td_wf td" and c1: "live c1 = typed_servers td rp"
    and rp: "rp_max_staleness_seconds rp = MONGOC_NO_MAX_STALENESS \<or> 0 < rp_max_staleness_seconds rp"
    and tags: "tags_ok td rp" and rtt: "rtts_ok td" and th: "threshold < 2 ^ 62"
  shows "cbind (mongoc_server_description_filter_stale td c1 (primary_of td) (td_heartbeat_msec td) (Some rp)) (\<lambda>candidates.
     cbind (mongoc_server_description_filter_tags td candidates (Some rp)) (\<lambda>candidates.
     suitable_window td candidates threshold)) = Ret (selection_rules td rp threshold)"
proof -
  define fresh where "fresh = filter (\<lambda>p. fresh_enough td rp (primary_of td) (typed_servers td rp) (sd_at td p)) (typed_servers td rp)"
  define tag where "tag = filter (tagged td rp fresh) fresh"
  have sub: "set (typed_servers td rp) \<subseteq> set (td_ptrs td)" "set fresh \<subseteq> set (typed_servers td rp)" "set tag \<subseteq> set fresh"
    unfolding typed_servers_def fresh_def tag_def by auto
  note dom = td_wfD(3) [OF wf]
  have prim: "q \<in> dom (td_mem td)" if "primary_of td = Some q" for q
    using find_SomeD [OF that] dom by simp
  have "set (live c1) \<subseteq> dom (td_mem td)" using sub(1) dom c1 by simp
  from filter_stale_spec [OF this prim rp] obtain c2
    where c2: "mongoc_server_description_filter_stale td c1 (primary_of td) (td_heartbeat_msec td) (Some rp) = Ret c2"
      "live c2 = fresh" unfolding c1 fresh_def by blast
  have "set (live c2) \<subseteq> set (td_ptrs td)" using sub c2(2) by blast
  from filter_tags_spec [OF this wf tags] obtain c3
    where c3: "mongoc_server_description_filter_tags td c2 (Some rp) = Ret c3" "live c3 = tag" unfolding c2(2) tag_def by blast
  have live3: "set (live c3) \<subseteq> dom (td_mem td)" using sub dom c3(2) by blast
  have "\<forall>p\<in>set (live c3). 0 \<le> sd_rtt (sd_at td p) \<and> sd_rtt (sd_at td p) < 2 ^ 62"
    using rtt sub unfolding c3(2) rtts_ok_def list.pred_set typed_servers_def by fastforce
  from suitable_window_spec [OF live3 this th]
  have w: "suitable_window td c3 threshold = Ret (selection_rules td rp threshold)"
    by (simp only: c3(2) selection_rules_def Let_def list.pred_set fresh_def [symmetric] tag_def [symmetric])
  show ?thesis by (simp only: cbind.simps c2(1) c3(1) w)
qed

lemma suitable_by_rules:
  assumes wf: "td_wf td" and t: "td_type td \<in> {MONGOC_TOPOLOGY_RS_NO_PRIMARY, MONGOC_TOPOLOGY_RS_WITH_PRIMARY}"
    and mode: "rp_mode rp \<in> {MONGOC_READ_SECONDARY, MONGOC_READ_NEAREST}"
    and rp: "rp_max_staleness_seconds rp = MONGOC_NO_MAX_STALENESS \<or> 0 < rp_max_staleness_seconds rp"
    and tags: "tags_ok td rp" and rtt: "rtts_ok td" and th: "threshold < 2 ^ 62"
  shows "suitable_servers_depth (Suc d) MONGOC_SS_READ td (Some rp) threshold = Ret (selection_rules td rp threshold)"
proof -
  have m: "rp_mode rp \<noteq> MONGOC_READ_PRIMARY" "rp_mode rp \<noteq> MONGOC_READ_PRIMARY_PREFERRED" "rp_mode rp \<noteq> MONGOC_READ_SECONDARY_PREFERRED"
    using mode by auto
  have cand: "filter (\<lambda>p. mongoc_topology_description_server_is_candidate (sd_type (sd_at td p)) (rp_mode rp) (td_type td)) (td_ptrs td) =
      typed_servers td rp"
    unfolding typed_servers_def using t mode
    by (intro filter_cong refl) (auto simp: mongoc_topology_description_server_is_candidate_def)
  obtain b where for_each: "mongoc_set_for_each (td_servers td) (mongoc_replica_set_read_suitable_cb td (rp_mode rp))
      \<lparr>sud_primary = None, sud_candidates = [], sud_has_secondary = False\<rparr> =
    Ret \<lparr>sud_primary = primary_of td, sud_candidates = map Some (typed_servers td rp), sud_has_secondary = b\<rparr>"
    using read_suitable_spec [OF wf m(1,2)] unfolding cand by blast
  have "set (live (map Some (typed_servers td rp))) \<subseteq> dom (td_mem td)" using td_wfD(3) [OF wf] by (auto simp: typed_servers_def)
  from filter_candidates_spec [OF this, of is_secondary] obtain c1
    where c1: "(if rp_mode rp = MONGOC_READ_SECONDARY then filter_candidates td is_secondary (map Some (typed_servers td rp))
        else Ret (map Some (typed_servers td rp))) = Ret c1"
      "live c1 = (if rp_mode rp = MONGOC_READ_SECONDARY then filter (\<lambda>p. is_secondary (sd_at td p)) (typed_servers td rp) else typed_servers td rp)"
    by (cases "rp_mode rp = MONGOC_READ_SECONDARY") auto
  have live1: "live c1 = typed_servers td rp"
  proof (cases "rp_mode rp = MONGOC_READ_SECONDARY")
    case True
    with c1(2) show ?thesis by (auto simp: filter_id_conv typed_servers_def is_secondary_def)
  qed (use c1 in simp)
  have "suitable_servers_depth (Suc d) MONGOC_SS_READ td (Some rp) threshold =
     cbind (mongoc_set_for_each (td_servers td) (mongoc_replica_set_read_suitable_cb td (rp_mode rp))
      \<lparr>sud_primary = None, sud_candidates = [], sud_has_secondary = False\<rparr>) (\<lambda>data.
        cbind (if rp_mode rp = MONGOC_READ_SECONDARY
               then filter_candidates td is_secondary (sud_candidates data) else Ret (sud_candidates data)) (\<lambda>candidates.
        cbind (mongoc_server_description_filter_stale td candidates (sud_primary data) (td_heartbeat_msec td) (Some rp)) (\<lambda>candidates.
        cbind (mongoc_server_description_filter_tags td candidates (Some rp)) (\<lambda>candidates.
        suitable_window td candidates threshold))))"
    using t m by (auto simp: mongoc_read_prefs_get_mode_def Let_def)
  also have "\<dots> = Ret (selection_rules td rp threshold)"
    unfolding for_each cbind.simps suitable_data.simps c1(1) by (rule rules_pipeline [OF wf live1 rp tags rtt th])
  finally show ?thesis .
qed

abbreviation is_primary_at :: "topology_description \<Rightarrow> nat \<Rightarrow> bool" where
  "is_primary_at td p \<equiv> sd_type (sd_at td p) = MONGOC_SERVER_RS_PRIMARY"

definition primaries :: "topology_description \<Rightarrow> nat list" where
  "primaries td = filter (is_primary_at td) (td_ptrs td)"

lemma filter_find: "length (filter P xs) \<le> 1 \<Longrightarrow> filter P xs = (case find P xs of None \<Rightarrow> [] | Some x \<Rightarrow> [x])"
  by (induction xs) auto

lemma primaries_find:
  assumes "td_inv td"
  shows "primaries td = (case find (is_primary_at td) (td_ptrs td) of None \<Rightarrow> [] | Some p \<Rightarrow> [p])"
proof -
  have wf: "td_wf td" and ok: "one_primary (td_mem td)" using assms by (simp_all add: td_inv_def mem_ok_def)
  have mem: "td_mem td p = Some (sd_at td p)" if "p \<in> set (td_ptrs td)" for p
    using td_wf_get [OF wf that] by auto
  have "length (filter (is_primary_at td) (td_ptrs td)) \<le> 1"
    by (rule filter_at_most_one [OF td_wfD(2) [OF wf]]) (use ok mem in \<open>unfold one_primary_def, blast\<close>)
  from filter_find [OF this] show ?thesis by (simp add: primaries_def)
qed

lemma primaries_rev:
  assumes "td_inv td"
  shows "primaries td = (case primary_of td of None \<Rightarrow> [] | Some p \<Rightarrow> [p])"
proof -
  have "length (filter (is_primary_at td) (rev (td_ptrs td))) \<le> 1"
    using primaries_find [OF assms] by (simp add: primaries_def rev_filter [symmetric] split: option.splits)
  from filter_find [OF this] have "rev (primaries td) = (case primary_of td of None \<Rightarrow> [] | Some p \<Rightarrow> [p])"
    by (simp add: primaries_def rev_filter)
  then show ?thesis by (cases "primary_of td") (auto simp: rev_swap)
qed

text \<open>With a mode that wants the primary the loop stops at it.\<close>

lemma read_primary_spec:
  assumes wf: "td_wf td" and mode: "mode = MONGOC_READ_PRIMARY \<or> mode = MONGOC_READ_PRIMARY_PREFERRED"
    and t: "td_type td \<in> {MONGOC_TOPOLOGY_RS_NO_PRIMARY, MONGOC_TOPOLOGY_RS_WITH_PRIMARY}"
  shows "\<exists>data. mongoc_set_for_each (td_servers td) (mongoc_replica_set_read_suitable_cb td mode)
      \<lparr>sud_primary = None, sud_candidates = [], sud_has_secondary = False\<rparr> = Ret data \<and>
    sud_primary data = find (is_primary_at td) (td_ptrs td) \<and>
    (sud_primary data = None \<longrightarrow> mode = MONGOC_READ_PRIMARY_PREFERRED \<longrightarrow>
      sud_candidates data = map Some (filter (\<lambda>p. is_secondary (sd_at td p)) (td_ptrs td)))"
proof -
  have "\<exists>data. each_while (mongoc_replica_set_read_suitable_cb td mode) ps \<lparr>sud_primary = None, sud_candidates = cands, sud_has_secondary = b\<rparr> =
      Ret data \<and> sud_primary data = find (is_primary_at td) ps \<and>
    (sud_primary data = None \<longrightarrow> mode = MONGOC_READ_PRIMARY_PREFERRED \<longrightarrow>
      sud_candidates data = cands @ map Some (filter (\<lambda>p. is_secondary (sd_at td p)) ps))"
    if "set ps \<subseteq> set (td_ptrs td)" for ps cands b
    using that
  proof (induction ps arbitrary: cands b)
    case (Cons p ps)
    then obtain sd where sd: "td_mem td p = Some sd" using td_wf_get [OF wf, of p] by auto
    have sub: "set ps \<subseteq> set (td_ptrs td)" using Cons.prems by simp
    show ?case
    proof (cases "is_primary_at td p")
      case True
      with mode t show ?thesis
        by (auto simp: mongoc_replica_set_read_suitable_cb_def sd_get_eq [OF sd] sd Let_def
            mongoc_topology_description_server_is_candidate_def)
    next
      case False
      have "\<exists>cands' b'. mongoc_replica_set_read_suitable_cb td mode p \<lparr>sud_primary = None, sud_candidates = cands, sud_has_secondary = b\<rparr> =
        Ret (True, \<lparr>sud_primary = None, sud_candidates = cands', sud_has_secondary = b'\<rparr>) \<and>
        (mode = MONGOC_READ_PRIMARY_PREFERRED \<longrightarrow> cands' = cands @ (if is_secondary (sd_at td p) then [Some p] else []))"
        using False mode t
        by (auto simp: mongoc_replica_set_read_suitable_cb_def sd_get_eq [OF sd] sd Let_def is_secondary_def
            mongoc_topology_description_server_is_candidate_def)
      then obtain cands' b' where c: "mongoc_replica_set_read_suitable_cb td mode p \<lparr>sud_primary = None, sud_candidates = cands, sud_has_secondary = b\<rparr> =
        Ret (True, \<lparr>sud_primary = None, sud_candidates = cands', sud_has_secondary = b'\<rparr>)"
        "mode = MONGOC_READ_PRIMARY_PREFERRED \<longrightarrow> cands' = cands @ (if is_secondary (sd_at td p) then [Some p] else [])" by blast
      from Cons.IH [OF sub, of cands' b'] False c(2) show ?thesis unfolding each_while.simps c(1) by auto
    qed
  qed simp
  from this [OF subset_refl, of "[]" False] show ?thesis unfolding for_each_while by simp
qed

lemma has_primary_find:
  assumes "td_wf td"
  shows "mongoc_topology_description_has_primary td =
    Ret (find (\<lambda>p. sd_type (sd_at td p) \<in> {MONGOC_SERVER_RS_PRIMARY, MONGOC_SERVER_STANDALONE}) (td_ptrs td))"
proof -
  have "each_while (has_primary_cb td) ps None =
      Ret (find (\<lambda>p. sd_type (sd_at td p) \<in> {MONGOC_SERVER_RS_PRIMARY, MONGOC_SERVER_STANDALONE}) ps)"
    if "set ps \<subseteq> set (td_ptrs td)" for ps
    using that
  proof (induction ps)
    case (Cons p ps)
    then obtain sd where "td_mem td p = Some sd" "sd_get td p = Ret sd" using td_wf_get [OF assms, of p] by auto
    with Cons show ?case by (auto simp: has_primary_cb_def)
  qed simp
  from this [OF subset_refl] show ?thesis unfolding mongoc_topology_description_has_primary_def for_each_while .
qed

lemma preferred_primary:
  assumes inv: "td_inv td" and t: "td_type td \<in> {MONGOC_TOPOLOGY_RS_NO_PRIMARY, MONGOC_TOPOLOGY_RS_WITH_PRIMARY}"
    and mode: "rp_mode rp = MONGOC_READ_PRIMARY_PREFERRED"
    and rp: "rp_max_staleness_seconds rp = MONGOC_NO_MAX_STALENESS \<or> 0 < rp_max_staleness_seconds rp"
    and tags: "tags_ok td rp" and rtt: "rtts_ok td" and th: "threshold < 2 ^ 62"
  shows "suitable_servers_depth (Suc d) MONGOC_SS_READ td (Some rp) threshold =
    Ret (if primaries td \<noteq> [] then primaries td else selection_rules td (rp\<lparr>rp_mode := MONGOC_READ_SECONDARY\<rparr>) threshold)"
proof -
  let ?rp = "rp\<lparr>rp_mode := MONGOC_READ_SECONDARY\<rparr>"
  have wf: "td_wf td" using inv by (simp add: td_inv_def)
  obtain data where data: "mongoc_set_for_each (td_servers td) (mongoc_replica_set_read_suitable_cb td (rp_mode rp))
      \<lparr>sud_primary = None, sud_candidates = [], sud_has_secondary = False\<rparr> = Ret data"
    "sud_primary data = find (is_primary_at td) (td_ptrs td)"
    "sud_primary data = None \<longrightarrow> sud_candidates data = map Some (filter (\<lambda>p. is_secondary (sd_at td p)) (td_ptrs td))"
    using read_primary_spec [OF wf disjI2 [OF mode] t] mode by metis
  have "suitable_servers_depth (Suc d) MONGOC_SS_READ td (Some rp) threshold =
      (if primaries td \<noteq> [] then Ret (primaries td)
       else cbind (mongoc_server_description_filter_stale td (sud_candidates data) (sud_primary data) (td_heartbeat_msec td) (Some rp)) (\<lambda>candidates.
        cbind (mongoc_server_description_filter_tags td candidates (Some rp)) (\<lambda>candidates.
        suitable_window td candidates threshold)))"
    using t mode data(1,2) by (auto simp: mongoc_read_prefs_get_mode_def Let_def primaries_find [OF inv] split: option.splits)
  also have "\<dots> = Ret (if primaries td \<noteq> [] then primaries td else selection_rules td ?rp threshold)"
  proof (cases "primaries td = []")
    case True
    then have none: "sud_primary data = None" "\<forall>p\<in>set (td_ptrs td). \<not> is_primary_at td p"
      using data(2) primaries_find [OF inv] by (auto simp: primaries_def filter_empty_conv split: option.splits)
    then have np: "primary_of td = None" by (simp add: find_None_iff)
    have live: "live (sud_candidates data) = typed_servers td ?rp"
      using data(3) none by (simp add: typed_servers_def is_secondary_def)
    have eq: "mongoc_server_description_filter_stale td c q h (Some rp) = mongoc_server_description_filter_stale td c q h (Some ?rp)"
      "mongoc_server_description_filter_tags td c (Some rp) = mongoc_server_description_filter_tags td c (Some ?rp)" for c q h
      by (simp_all add: mongoc_server_description_filter_stale_def mongoc_server_description_filter_tags_def cong: if_cong)
    have "tags_ok td ?rp" using tags by simp
    from rules_pipeline [OF wf live _ this rtt th] rp True show ?thesis unfolding eq none(1) np by simp
  qed simp
  finally show ?thesis .
qed

lemma write_primaries:
  assumes inv: "td_inv td"
  shows "td_type td = MONGOC_TOPOLOGY_RS_NO_PRIMARY \<Longrightarrow> primaries td = []"
    and "td_type td = MONGOC_TOPOLOGY_RS_WITH_PRIMARY \<Longrightarrow> primaries td =
      (case find (\<lambda>p. sd_type (sd_at td p) \<in> {MONGOC_SERVER_RS_PRIMARY, MONGOC_SERVER_STANDALONE}) (td_ptrs td) of
         None \<Rightarrow> [] | Some p \<Rightarrow> [p])"
proof -
  have wf: "td_wf td" and ok: "mem_ok (td_type td) (td_mem td)" using inv by (simp_all add: td_inv_def)
  have allow: "td_allows (td_type td) (sd_type (sd_at td p))" if "p \<in> set (td_ptrs td)" for p
    using td_wf_get [OF wf that] ok by (auto simp: mem_ok_def)
  show "td_type td = MONGOC_TOPOLOGY_RS_NO_PRIMARY \<Longrightarrow> primaries td = []"
    unfolding primaries_def filter_empty_conv using allow by fastforce
  assume t: "td_type td = MONGOC_TOPOLOGY_RS_WITH_PRIMARY"
  have "find (\<lambda>p. sd_type (sd_at td p) \<in> {MONGOC_SERVER_RS_PRIMARY, MONGOC_SERVER_STANDALONE}) (td_ptrs td) =
      find (is_primary_at td) (td_ptrs td)"
    by (rule find_cong [OF refl]) (use allow t in fastforce)
  then show "primaries td =
      (case find (\<lambda>p. sd_type (sd_at td p) \<in> {MONGOC_SERVER_RS_PRIMARY, MONGOC_SERVER_STANDALONE}) (td_ptrs td) of
         None \<Rightarrow> [] | Some p \<Rightarrow> [p])"
    using primaries_find [OF inv] by simp
qed


lemma rs_select_ok:
  "(case rs_run [(1, primary_reply)] of Ret td \<Rightarrow>
      td_type td = MONGOC_TOPOLOGY_RS_WITH_PRIMARY \<and> rtts_ok td \<and> tags_ok td (mongoc_read_prefs_new MONGOC_READ_NEAREST) \<and>
      selection_rules td (mongoc_read_prefs_new MONGOC_READ_NEAREST) 15 = [0] \<and> primaries td = [0]
    | _ \<Rightarrow> False)"
  by code_simp


end
