(* ===== verification/Mongoc_Concern.thy ===== *)
theory Mongoc_Concern
  imports Mongoc_Select Bson_Document_Spec
begin

text \<open>
  Write concerns and read concerns (\<open>mongoc/mongoc-write-concern.c\<close>, \<open>mongoc/mongoc-read-concern.c\<close>) and
  the reading of errors in replies (\<open>mongoc/mongoc-error.c\<close>, \<open>mongoc/mongoc-rpc.c\<close>,
  \<open>mongoc/mongoc-write-command.c\<close>).

  A \<open>bson_t\<close> that this layer builds is the list of its elements (\<open>doc\<close>); the append functions on it are
  those of \<open>bson.c\<close> on a document that owns its memory, as \<open>doc_put_refines\<close> shows: an element is added, or
  nothing changes because the document would exceed 1 GiB. A reply is a view, read with the iterator.
  \<open>int8_t\<close>, \<open>int32_t\<close> and \<open>int64_t\<close> fields are \<open>int\<close>, with their ranges in the invariants. Strings are
  copied (\<open>bson_strdup\<close>) and held by value; the release of memory is not modelled.
\<close>

section \<open>Documents under construction\<close>

type_synonym doc = "bson_elem list"

definition DOC_MAX :: int where "DOC_MAX = 1073741824"

text \<open>
  The first argument is the number of bytes around the document, 0 unless it is built inside another
  one (\<open>bson_append_document_begin\<close>).
\<close>

definition doc_put_in :: "nat \<Rightarrow> doc \<Rightarrow> doc \<Rightarrow> bool \<times> doc" where
  "doc_put_in outer d es =
     (if int (outer + length (doc_bytes (d @ es))) \<le> DOC_MAX then (True, d @ es) else (False, d))"

definition doc_put :: "doc \<Rightarrow> cstr \<Rightarrow> bson_data \<Rightarrow> bool \<times> doc" where
  "doc_put d key x = doc_put_in 0 d [(data_type x, key, data_bytes x)]"

text \<open>An append whose result the caller ignores.\<close>

definition doc_add :: "doc \<Rightarrow> cstr \<Rightarrow> bson_data \<Rightarrow> doc" where
  "doc_add d key x = snd (doc_put d key x)"

definition doc_empty :: "doc \<Rightarrow> bool" where
  "doc_empty d \<longleftrightarrow> d = []"

text \<open>The element lists stand for documents in memory, and \<open>doc_put\<close> for every append function.\<close>

lemma doc_put_refines:
  assumes "appends h b d [e] r" "bson_rep h b d" "roomy b" "fst (doc_put_in 0 d [e])"
  shows "\<exists>b' h'. r = Ret (True, b', h') \<and> keeps h b h' b' \<and> roomy b' \<and> bson_rep h' b' (snd (doc_put_in 0 d [e]))"
proof -
  have "length (doc_bytes d) + length (enc_elems [e]) \<le> 2 ^ 30"
    using assms(4) by (simp add: doc_put_in_def DOC_MAX_def length_doc_bytes split: if_splits)
  then have "has_room h b (length (enc_elems [e]))" using roomy_room [OF assms(3,2)] by blast
  with assms show ?thesis by (auto simp: appends_def doc_put_in_def split: if_splits dest: roomy_keeps)
qed

lemma doc_empty_view:
  assumes "doc_ok d"
  shows "bson_empty (doc_view d) = Ret (doc_empty d)"
proof -
  have "\<forall>(t, k, v) \<in> set d. t \<noteq> 0"
    using assms by (fastforce simp: doc_ok_def list_all_iff payload_ok_def bson_type_defs)
  then show ?thesis using empty_spec [OF views_doc_view] assms by (simp add: doc_ok_def doc_empty_def)
qed

section \<open>Write concerns\<close>

definition MONGOC_WRITE_CONCERN_W_UNACKNOWLEDGED :: int where "MONGOC_WRITE_CONCERN_W_UNACKNOWLEDGED = 0"
definition MONGOC_WRITE_CONCERN_W_ERRORS_IGNORED :: int where "MONGOC_WRITE_CONCERN_W_ERRORS_IGNORED = - 1"
definition MONGOC_WRITE_CONCERN_W_DEFAULT :: int where "MONGOC_WRITE_CONCERN_W_DEFAULT = - 2"
definition MONGOC_WRITE_CONCERN_W_MAJORITY :: int where "MONGOC_WRITE_CONCERN_W_MAJORITY = - 3"
definition MONGOC_WRITE_CONCERN_W_TAG :: int where "MONGOC_WRITE_CONCERN_W_TAG = - 4"
definition MONGOC_WRITE_CONCERN_FSYNC_DEFAULT :: int where "MONGOC_WRITE_CONCERN_FSYNC_DEFAULT = - 1"
definition MONGOC_WRITE_CONCERN_JOURNAL_DEFAULT :: int where "MONGOC_WRITE_CONCERN_JOURNAL_DEFAULT = - 1"

lemmas wc_consts = MONGOC_WRITE_CONCERN_W_UNACKNOWLEDGED_def MONGOC_WRITE_CONCERN_W_ERRORS_IGNORED_def
  MONGOC_WRITE_CONCERN_W_DEFAULT_def MONGOC_WRITE_CONCERN_W_MAJORITY_def MONGOC_WRITE_CONCERN_W_TAG_def
  MONGOC_WRITE_CONCERN_FSYNC_DEFAULT_def MONGOC_WRITE_CONCERN_JOURNAL_DEFAULT_def

record write_concern =
  wc_fsync :: int
  wc_journal :: int
  wc_w :: int
  wc_wtimeout :: int
  wc_wtag :: "cstr option"
  wc_frozen :: bool
  wc_compiled :: doc
  wc_default :: bool

definition mongoc_write_concern_new :: write_concern where
  "mongoc_write_concern_new = \<lparr>wc_fsync = MONGOC_WRITE_CONCERN_FSYNC_DEFAULT,
     wc_journal = MONGOC_WRITE_CONCERN_JOURNAL_DEFAULT, wc_w = MONGOC_WRITE_CONCERN_W_DEFAULT,
     wc_wtimeout = 0, wc_wtag = None, wc_frozen = False, wc_compiled = [], wc_default = True\<rparr>"

definition mongoc_write_concern_copy :: "write_concern option \<Rightarrow> write_concern option" where
  "mongoc_write_concern_copy write_concern = (case write_concern of None \<Rightarrow> None
     | Some wc \<Rightarrow> Some (mongoc_write_concern_new\<lparr>wc_fsync := wc_fsync wc, wc_journal := wc_journal wc,
         wc_w := wc_w wc, wc_wtimeout := wc_wtimeout wc, wc_frozen := False, wc_wtag := wc_wtag wc,
         wc_default := wc_default wc\<rparr>))"

definition mongoc_write_concern_set_fsync :: "write_concern \<Rightarrow> bool \<Rightarrow> write_concern" where
  "mongoc_write_concern_set_fsync wc fsync = wc\<lparr>wc_fsync := of_bool fsync, wc_default := False, wc_frozen := False\<rparr>"

definition mongoc_write_concern_get_journal :: "write_concern \<Rightarrow> bool" where
  "mongoc_write_concern_get_journal wc \<longleftrightarrow> wc_journal wc = 1"

definition mongoc_write_concern_set_journal :: "write_concern \<Rightarrow> bool \<Rightarrow> write_concern" where
  "mongoc_write_concern_set_journal wc journal = wc\<lparr>wc_journal := of_bool journal, wc_default := False, wc_frozen := False\<rparr>"

definition mongoc_write_concern_set_w :: "write_concern \<Rightarrow> int \<Rightarrow> write_concern outcome" where
  "mongoc_write_concern_set_w wc w = c_assert (w \<ge> - 3)
     (Ret (wc\<lparr>wc_w := w, wc_default := (if w \<noteq> MONGOC_WRITE_CONCERN_W_DEFAULT then False else wc_default wc),
        wc_frozen := False\<rparr>))"

definition mongoc_write_concern_set_wtimeout_int64 :: "write_concern \<Rightarrow> int \<Rightarrow> write_concern" where
  "mongoc_write_concern_set_wtimeout_int64 wc wtimeout_msec =
     (if wtimeout_msec < 0 then wc
      else wc\<lparr>wc_wtimeout := wtimeout_msec, wc_default := False, wc_frozen := False\<rparr>)"

definition mongoc_write_concern_set_wtimeout :: "write_concern \<Rightarrow> int \<Rightarrow> write_concern" where
  "mongoc_write_concern_set_wtimeout wc wtimeout_msec = mongoc_write_concern_set_wtimeout_int64 wc wtimeout_msec"

definition mongoc_write_concern_set_wmajority :: "write_concern \<Rightarrow> int \<Rightarrow> write_concern" where
  "mongoc_write_concern_set_wmajority wc wtimeout_msec =
     (let wc = wc\<lparr>wc_w := MONGOC_WRITE_CONCERN_W_MAJORITY, wc_default := False, wc_frozen := False\<rparr> in
      if wtimeout_msec \<ge> 0 then wc\<lparr>wc_wtimeout := wtimeout_msec\<rparr> else wc)"

definition mongoc_write_concern_get_wtag :: "write_concern \<Rightarrow> cstr option" where
  "mongoc_write_concern_get_wtag wc = (if wc_w wc = MONGOC_WRITE_CONCERN_W_TAG then wc_wtag wc else None)"

definition mongoc_write_concern_set_wtag :: "write_concern \<Rightarrow> cstr option \<Rightarrow> write_concern" where
  "mongoc_write_concern_set_wtag wc wtag =
     wc\<lparr>wc_wtag := wtag, wc_w := MONGOC_WRITE_CONCERN_W_TAG, wc_default := False, wc_frozen := False\<rparr>"

definition mongoc_write_concern_is_default :: "write_concern option \<Rightarrow> bool" where
  "mongoc_write_concern_is_default wc = (case wc of None \<Rightarrow> True | Some wc \<Rightarrow> wc_default wc)"

definition mongoc_write_concern_freeze :: "write_concern \<Rightarrow> write_concern outcome" where
  "mongoc_write_concern_freeze wc =
     cbind (if wc_w wc = MONGOC_WRITE_CONCERN_W_TAG then
              case wc_wtag wc of None \<Rightarrow> Abort | Some tag \<Rightarrow> Ret (doc_add [] (cs ''w'') (D_utf8 tag))
            else if wc_w wc = MONGOC_WRITE_CONCERN_W_MAJORITY then Ret (doc_add [] (cs ''w'') (D_utf8 (cs ''majority'')))
            else if wc_w wc = MONGOC_WRITE_CONCERN_W_DEFAULT then Ret []
            else Ret (doc_add [] (cs ''w'') (D_int32 (word_of_int (wc_w wc))))) (\<lambda>d.
     let d = (if wc_fsync wc \<noteq> MONGOC_WRITE_CONCERN_FSYNC_DEFAULT
              then doc_add d (cs ''fsync'') (D_bool (wc_fsync wc \<noteq> 0)) else d);
         d = (if wc_journal wc \<noteq> MONGOC_WRITE_CONCERN_JOURNAL_DEFAULT
              then doc_add d (cs ''j'') (D_bool (wc_journal wc \<noteq> 0)) else d);
         d = (if wc_wtimeout wc \<noteq> 0 then doc_add d (cs ''wtimeout'') (D_int64 (word_of_int (wc_wtimeout wc))) else d) in
     Ret (wc\<lparr>wc_frozen := True, wc_compiled := d\<rparr>))"

definition mongoc_write_concern_get_bson :: "write_concern \<Rightarrow> (doc \<times> write_concern) outcome" where
  "mongoc_write_concern_get_bson wc =
     cbind (if \<not> wc_frozen wc then mongoc_write_concern_freeze wc else Ret wc) (\<lambda>wc. Ret (wc_compiled wc, wc))"

definition mongoc_write_concern_is_acknowledged :: "write_concern option \<Rightarrow> bool" where
  "mongoc_write_concern_is_acknowledged wc = (case wc of None \<Rightarrow> True | Some wc \<Rightarrow>
     wc_w wc \<noteq> MONGOC_WRITE_CONCERN_W_UNACKNOWLEDGED \<and> wc_w wc \<noteq> MONGOC_WRITE_CONCERN_W_ERRORS_IGNORED \<or>
     wc_fsync wc = 1 \<or> mongoc_write_concern_get_journal wc)"

definition mongoc_write_concern_is_valid :: "write_concern option \<Rightarrow> bool" where
  "mongoc_write_concern_is_valid wc = (case wc of None \<Rightarrow> False | Some wc \<Rightarrow>
     if (wc_fsync wc = 1 \<or> mongoc_write_concern_get_journal wc) \<and>
        (wc_w wc = MONGOC_WRITE_CONCERN_W_UNACKNOWLEDGED \<or> wc_w wc = MONGOC_WRITE_CONCERN_W_ERRORS_IGNORED) then False
     else \<not> wc_wtimeout wc < 0)"

definition mongoc_write_concern_append :: "write_concern option \<Rightarrow> doc \<Rightarrow> (bool \<times> write_concern option \<times> doc) outcome" where
  "mongoc_write_concern_append write_concern command =
     (if \<not> mongoc_write_concern_is_valid write_concern then Ret (False, write_concern, command)
      else case write_concern of None \<Rightarrow> Fault | Some wc \<Rightarrow>
        cbind (mongoc_write_concern_get_bson wc) (\<lambda>(compiled, wc).
        case doc_put command (cs ''writeConcern'') (D_document (doc_bytes compiled)) of (ok, command) \<Rightarrow>
          Ret (ok, Some wc, command)))"

text \<open>The loop over the fields of a \<open>writeConcern\<close> document; leaving it is \<open>goto fail\<close>.\<close>

definition write_concern_field :: "bson_iter \<Rightarrow> write_concern \<Rightarrow> (bool \<times> write_concern) outcome" where
  "write_concern_field it wc =
     cbind (bson_iter_key it) (\<lambda>kp. cbind (cstr_at kp) (\<lambda>key. cbind (bson_iter_type it) (\<lambda>t.
     if key = Some (cs ''w'') then
       if t = BSON_TYPE_INT32 then cbind (bson_iter_int32 it) (\<lambda>n.
         if sint n < MONGOC_WRITE_CONCERN_W_ERRORS_IGNORED then Ret (False, wc)
         else cbind (mongoc_write_concern_set_w wc (sint n)) (\<lambda>wc. Ret (True, wc)))
       else if t = BSON_TYPE_UTF8 then cbind (iter_utf8_str it) (\<lambda>s. case s of
           None \<Rightarrow> Fault
         | Some s \<Rightarrow> Ret (True, if s = cs ''majority'' then mongoc_write_concern_set_wmajority wc (- 1)
                                else mongoc_write_concern_set_wtag wc (Some s)))
       else Ret (False, wc)
     else if key = Some (cs ''fsync'') then
       if t \<noteq> BSON_TYPE_BOOL then Ret (False, wc)
       else cbind (bson_iter_bool it) (\<lambda>b. Ret (True, mongoc_write_concern_set_fsync wc b))
     else if key = Some (cs ''j'') then
       if t \<noteq> BSON_TYPE_BOOL then Ret (False, wc)
       else cbind (bson_iter_bool it) (\<lambda>b. Ret (True, mongoc_write_concern_set_journal wc b))
     else if key = Some (cs ''wtimeout'') then
       if \<not> (t = BSON_TYPE_INT32 \<or> t = BSON_TYPE_INT64) then Ret (False, wc)
       else cbind (bson_iter_as_int64 it) (\<lambda>n.
         if sint n < 0 then Ret (False, wc)
         else Ret (True, mongoc_write_concern_set_wtimeout_int64 wc (sint n)))
     else Ret (True, wc))))"

text \<open>\<open>None\<close> is the \<open>NULL\<close> that comes with the error \<open>"Invalid writeConcern"\<close>.\<close>

definition mongoc_write_concern_new_from_iter :: "bson_iter \<Rightarrow> write_concern option outcome" where
  "mongoc_write_concern_new_from_iter it =
     cbind (bson_iter_type it) (\<lambda>t.
     if t \<noteq> BSON_TYPE_DOCUMENT then Ret None
     else cbind (bson_iter_recurse it) (\<lambda>inner. case inner of None \<Rightarrow> Abort
       | Some inner \<Rightarrow>
         cbind (iter_while (iter_fuel inner) write_concern_field inner mongoc_write_concern_new) (\<lambda>(ok, wc).
         Ret (if ok \<and> mongoc_write_concern_is_valid (Some wc) then Some wc else None))))"

definition wc_err_field :: "bson_iter \<Rightarrow> u32 \<Rightarrow> (bool \<times> u32) outcome" where
  "wc_err_field it code =
     cbind (bson_iter_key it) (\<lambda>kp. cbind (cstr_at kp) (\<lambda>key.
     if key = Some (cs ''code'') then cbind (bson_iter_int32 it) (\<lambda>n. Ret (True, n))
     else if key = Some (cs ''errmsg'') then cbind (bson_iter_utf8 it) (\<lambda>_. Ret (True, code))
     else Ret (True, code)))"

definition MONGOC_ERROR_WRITE_CONCERN :: nat where "MONGOC_ERROR_WRITE_CONCERN = 16"

definition mongoc_parse_wc_err :: "bson_view \<Rightarrow> bson_error option outcome" where
  "mongoc_parse_wc_err doc =
     cbind (bson_iter_init_find doc (cs ''writeConcernError'' @ [0])) (\<lambda>(found, it).
     if \<not> found then Ret None
     else cbind (bson_iter_type it) (\<lambda>t.
     if t \<noteq> BSON_TYPE_DOCUMENT then Ret None
     else cbind (bson_iter_recurse it) (\<lambda>inner. case inner of None \<Rightarrow> Abort
       | Some inner \<Rightarrow> cbind (iter_while (iter_fuel inner) wc_err_field inner 0) (\<lambda>(_, code).
           Ret (Some \<lparr>err_domain = MONGOC_ERROR_WRITE_CONCERN, err_code = unat code\<rparr>)))))"

section \<open>Read concerns\<close>

record read_concern =
  rc_level :: "cstr option"
  rc_frozen :: bool
  rc_compiled :: doc

definition mongoc_read_concern_new :: read_concern where
  "mongoc_read_concern_new = \<lparr>rc_level = None, rc_frozen = False, rc_compiled = []\<rparr>"

definition mongoc_read_concern_copy :: "read_concern option \<Rightarrow> read_concern option" where
  "mongoc_read_concern_copy read_concern = (case read_concern of None \<Rightarrow> None
     | Some rc \<Rightarrow> Some (mongoc_read_concern_new\<lparr>rc_level := rc_level rc\<rparr>))"

definition mongoc_read_concern_set_level :: "read_concern \<Rightarrow> cstr option \<Rightarrow> read_concern" where
  "mongoc_read_concern_set_level rc level = rc\<lparr>rc_level := level, rc_frozen := False\<rparr>"

definition mongoc_read_concern_is_default :: "read_concern option \<Rightarrow> bool" where
  "mongoc_read_concern_is_default rc = (case rc of None \<Rightarrow> True | Some rc \<Rightarrow> rc_level rc = None)"

definition mongoc_read_concern_freeze :: "read_concern \<Rightarrow> read_concern" where
  "mongoc_read_concern_freeze rc = rc\<lparr>rc_frozen := True,
     rc_compiled := (case rc_level rc of None \<Rightarrow> [] | Some level \<Rightarrow> doc_add [] (cs ''level'') (D_utf8 level))\<rparr>"

definition mongoc_read_concern_get_bson :: "read_concern \<Rightarrow> doc \<times> read_concern" where
  "mongoc_read_concern_get_bson rc =
     (let rc = (if \<not> rc_frozen rc then mongoc_read_concern_freeze rc else rc) in (rc_compiled rc, rc))"

definition mongoc_read_concern_append :: "read_concern \<Rightarrow> doc \<Rightarrow> bool \<times> read_concern \<times> doc" where
  "mongoc_read_concern_append rc command =
     (if rc_level rc = None then (True, rc, command)
      else case mongoc_read_concern_get_bson rc of (compiled, rc) \<Rightarrow>
        case doc_put command (cs ''readConcern'') (D_document (doc_bytes compiled)) of (ok, command) \<Rightarrow>
          (ok, rc, command))"

definition mongoc_read_concern_new_from_iter :: "bson_iter \<Rightarrow> read_concern option outcome" where
  "mongoc_read_concern_new_from_iter it =
     cbind (bson_iter_type it) (\<lambda>t.
     if t \<noteq> BSON_TYPE_DOCUMENT then Ret None
     else cbind (bson_iter_recurse it) (\<lambda>inner. case inner of None \<Rightarrow> Abort
       | Some inner \<Rightarrow> cbind (bson_iter_find inner (cs ''level'' @ [0])) (\<lambda>(found, inner).
           if \<not> found then Ret None
           else cbind (bson_iter_type inner) (\<lambda>t.
             if t \<noteq> BSON_TYPE_UTF8 then Ret None
             else cbind (iter_utf8_str inner) (\<lambda>s.
               Ret (Some (mongoc_read_concern_set_level mongoc_read_concern_new s)))))))"

section \<open>Errors in replies\<close>

definition error_label_body :: "cstr \<Rightarrow> bson_iter \<Rightarrow> bool \<Rightarrow> (bool \<times> bool) outcome" where
  "error_label_body label it found =
     cbind (bson_iter_type it) (\<lambda>t.
     if t = BSON_TYPE_UTF8 then cbind (iter_utf8_str it) (\<lambda>s. case s of None \<Rightarrow> Fault
       | Some s \<Rightarrow> Ret (s \<noteq> label, s = label))
     else Ret (True, found))"

definition mongoc_error_has_label :: "bson_view \<Rightarrow> cstr \<Rightarrow> bool outcome" where
  "mongoc_error_has_label reply label =
     cbind (bson_iter_init_find reply (cs ''errorLabels'' @ [0])) (\<lambda>(found, it).
     if \<not> found then Ret False
     else cbind (bson_iter_recurse it) (\<lambda>child. case child of None \<Rightarrow> Ret False
       | Some error_labels \<Rightarrow>
           cbind (iter_while (iter_fuel error_labels) (error_label_body label) error_labels False) (\<lambda>(ended, found).
           Ret (\<not> ended))))"

text \<open>A field of a given type: the iterator on it.\<close>

definition find_typed :: "bson_view \<Rightarrow> cstr \<Rightarrow> byte \<Rightarrow> bson_iter option outcome" where
  "find_typed doc key t =
     cbind (bson_iter_init_find doc (key @ [0])) (\<lambda>(found, it).
     if \<not> found then Ret None else cbind (bson_iter_type it) (\<lambda>u. Ret (if u = t then Some it else None)))"

definition child_typed :: "bson_iter \<Rightarrow> cstr \<Rightarrow> byte \<Rightarrow> bson_iter option outcome" where
  "child_typed it key t =
     cbind (bson_iter_recurse it) (\<lambda>child. case child of None \<Rightarrow> Abort
       | Some child \<Rightarrow> cbind (bson_iter_find child (key @ [0])) (\<lambda>(found, child).
           if \<not> found then Ret None else cbind (bson_iter_type child) (\<lambda>u. Ret (if u = t then Some child else None))))"

text \<open>The code and the message, where the reply has them; \<open>None\<close> when no error was found.\<close>

definition parse_error_reply :: "bson_view \<Rightarrow> bool \<Rightarrow> (u32 \<times> cstr option) option outcome" where
  "parse_error_reply doc check_wce =
     cbind (find_typed doc (cs ''code'') BSON_TYPE_INT32) (\<lambda>c.
     cbind (case c of None \<Rightarrow> Ret None | Some it \<Rightarrow> cbind (bson_iter_int32 it) (\<lambda>n. Ret (Some n))) (\<lambda>code.
     cbind (find_typed doc (cs ''errmsg'') BSON_TYPE_UTF8) (\<lambda>m.
     cbind (case m of Some it \<Rightarrow> Ret (Some it) | None \<Rightarrow> find_typed doc (cs ''$err'') BSON_TYPE_UTF8) (\<lambda>m.
     cbind (case m of None \<Rightarrow> Ret None | Some it \<Rightarrow> iter_utf8_str it) (\<lambda>msg.
     if code \<noteq> None \<or> m \<noteq> None then Ret (Some (case code of None \<Rightarrow> 0 | Some n \<Rightarrow> n, msg))
     else if \<not> check_wce then Ret None
     else cbind (find_typed doc (cs ''writeConcernError'') BSON_TYPE_DOCUMENT) (\<lambda>w. case w of None \<Rightarrow> Ret None
       | Some it \<Rightarrow>
           cbind (child_typed it (cs ''code'') BSON_TYPE_INT32) (\<lambda>c.
           cbind (case c of None \<Rightarrow> Ret None | Some child \<Rightarrow> cbind (bson_iter_int32 child) (\<lambda>n. Ret (Some n))) (\<lambda>code.
           cbind (child_typed it (cs ''errmsg'') BSON_TYPE_UTF8) (\<lambda>m.
           cbind (case m of None \<Rightarrow> Ret None | Some child \<Rightarrow> iter_utf8_str child) (\<lambda>msg.
           Ret (if code \<noteq> None \<or> m \<noteq> None then Some (case code of None \<Rightarrow> 0 | Some n \<Rightarrow> n, msg) else None)))))))))))"

definition MONGOC_ERROR_SERVER :: nat where "MONGOC_ERROR_SERVER = 17"
definition MONGOC_ERROR_QUERY_COMMAND_NOT_FOUND :: u32 where "MONGOC_ERROR_QUERY_COMMAND_NOT_FOUND = 59"
definition MONGOC_ERROR_QUERY_FAILURE :: u32 where "MONGOC_ERROR_QUERY_FAILURE = 17"
definition MONGOC_ERROR_PROTOCOL_ERROR :: u32 where "MONGOC_ERROR_PROTOCOL_ERROR = 17"

text \<open>
  The code and the message of the error that the two functions set, the message cut to the 503
  characters that \<open>bson_error_t\<close> has room for. The domain is that of error API version 2.
\<close>

definition server_error :: "u32 \<times> cstr option \<Rightarrow> u32 \<times> cstr" where
  "server_error = (\<lambda>(code, msg).
     (if code = MONGOC_ERROR_PROTOCOL_ERROR \<or> code = 13390 then MONGOC_ERROR_QUERY_COMMAND_NOT_FOUND
      else if code = 0 then MONGOC_ERROR_QUERY_FAILURE else code,
      take 503 (case msg of None \<Rightarrow> cs ''Unknown command error'' | Some m \<Rightarrow> m)))"

definition mongoc_cmd_check_ok :: "bson_view \<Rightarrow> (u32 \<times> cstr) option outcome" where
  "mongoc_cmd_check_ok doc =
     cbind (bson_iter_init_find doc (cs ''ok'' @ [0])) (\<lambda>(found, it).
     cbind (if found then bson_iter_as_bool it else Ret False) (\<lambda>ok.
     if ok then Ret None
     else cbind (parse_error_reply doc False) (\<lambda>e. Ret (map_option server_error e))))"

definition mongoc_cmd_check_ok_no_wce :: "bson_view \<Rightarrow> (u32 \<times> cstr) option outcome" where
  "mongoc_cmd_check_ok_no_wce doc = cbind (parse_error_reply doc True) (\<lambda>e. Ret (map_option server_error e))"

datatype write_err_type =
  MONGOC_WRITE_ERR_NONE | MONGOC_WRITE_ERR_OTHER | MONGOC_WRITE_ERR_RETRY | MONGOC_WRITE_ERR_WRITE_CONCERN

definition retryable_codes :: "u32 list" where
  "retryable_codes = [11600, 11602, 10107, 13435, 13436, 189, 91, 7, 6, 89, 9001]"

definition mongoc_write_error_get_type :: "bool \<Rightarrow> bson_error \<Rightarrow> bson_view \<Rightarrow> write_err_type outcome" where
  "mongoc_write_error_get_type cmd_ret cmd_err reply =
     (if \<not> cmd_ret \<and> err_domain cmd_err = MONGOC_ERROR_STREAM then Ret MONGOC_WRITE_ERR_RETRY
      else cbind (mongoc_cmd_check_ok_no_wce reply) (\<lambda>e. Ret (case e of
          None \<Rightarrow> MONGOC_WRITE_ERR_NONE
        | Some (code, message) \<Rightarrow>
            if code \<in> set retryable_codes then MONGOC_WRITE_ERR_RETRY
            else if code = 64 then MONGOC_WRITE_ERR_WRITE_CONCERN
            else if c_strstr message (cs ''not master'') \<or> c_strstr message (cs ''node is recovering'')
            then MONGOC_WRITE_ERR_RETRY
            else MONGOC_WRITE_ERR_OTHER)))"

datatype read_err_type = MONGOC_READ_ERR_NONE | MONGOC_READ_ERR_OTHER | MONGOC_READ_ERR_RETRY

definition mongoc_read_error_get_type :: "bool \<Rightarrow> bson_error option \<Rightarrow> bson_view \<Rightarrow> read_err_type outcome" where
  "mongoc_read_error_get_type cmd_ret cmd_err reply =
     (if \<not> cmd_ret \<and> (case cmd_err of None \<Rightarrow> False | Some e \<Rightarrow> err_domain e = MONGOC_ERROR_STREAM)
      then Ret MONGOC_READ_ERR_RETRY
      else cbind (mongoc_cmd_check_ok_no_wce reply) (\<lambda>e. Ret (case e of
          None \<Rightarrow> MONGOC_READ_ERR_NONE
        | Some (code, message) \<Rightarrow>
            if code \<in> set retryable_codes then MONGOC_READ_ERR_RETRY
            else if c_strstr message (cs ''not master'') \<or> c_strstr message (cs ''node is recovering'')
            then MONGOC_READ_ERR_RETRY
            else MONGOC_READ_ERR_OTHER)))"

end
