(* ===== verification/Mongoc_Concern_Props.thy ===== *)
theory Mongoc_Concern_Props
  imports Mongoc_Concern
begin

text \<open>
  The document a write concern is sent as, and the way back: the compiled document of a write concern is
  exactly the one its fields call for, and reading it gives the write concern again. The first section
  has the loop over a document with known elements, for every reader of replies.
\<close>

section \<open>Reading a document of known elements\<close>

primrec elems_while :: "('a \<Rightarrow> 's \<Rightarrow> bool \<times> 's) \<Rightarrow> 'a list \<Rightarrow> 's \<Rightarrow> bool \<times> 's" where
  "elems_while f [] s = (True, s)"
| "elems_while f (x # xs) s = (case f x s of (go, s) \<Rightarrow> if go then elems_while f xs s else (False, s))"

lemma elems_while_all: "elems_while (\<lambda>x s. (True, f x s)) xs s = (True, fold f xs s)"
  by (induction xs arbitrary: s) simp_all

lemma iter_while_before:
  assumes "iter_before data len (map g xs) it" "unat len - unat (it_next_off it) < fuel"
    "\<And>it x s. x \<in> set xs \<Longrightarrow> iter_on data len (g x) it \<Longrightarrow> body it s = Ret (f x s)"
  shows "iter_while fuel body it s = Ret (elems_while f xs s)"
  using assms
proof (induction fuel arbitrary: it xs s)
  case (Suc fuel)
  show ?case
  proof (cases xs)
    case Nil
    with next_before [OF Suc.prems(1)] show ?thesis by auto
  next
    case (Cons x ys)
    with next_before [OF Suc.prems(1)] obtain it1 where n: "bson_iter_next it = Ret (True, it1)" "iter_on data len (g x) it1"
      "iter_before data len (map g ys) it1" "unat (it_next_off it) < unat (it_next_off it1)" "unat (it_next_off it1) < unat len" by auto
    have "iter_while fuel body it1 s' = Ret (elems_while f ys s')" for s'
      by (rule Suc.IH [OF n(3)]) (use n Suc.prems Cons in auto)
    with Cons n(1) Suc.prems(3) [OF _ n(2)] show ?thesis by (simp split: prod.split)
  qed
qed simp

lemma iter_while_start:
  assumes "doc_ok (map g xs)" "\<And>data len it x s. x \<in> set xs \<Longrightarrow> iter_on data len (g x) it \<Longrightarrow> body it s = Ret (f x s)"
  shows "iter_while (iter_fuel (iter_start (doc_bytes (map g xs) @ junk) (of_nat (length (doc_bytes (map g xs)))))) body
     (iter_start (doc_bytes (map g xs) @ junk) (of_nat (length (doc_bytes (map g xs))))) s = Ret (elems_while f xs s)"
proof -
  let ?it = "iter_start (doc_bytes (map g xs) @ junk) (of_nat (length (doc_bytes (map g xs))))"
  have len: "it_len ?it = of_nat (length (doc_bytes (map g xs)))" by (simp add: iter_start_def)
  show ?thesis
    by (rule iter_while_before [OF doc_start_before [OF assms(1)]]) (use iter_fuel_enough [of ?it] len assms(2) in auto)
qed

lemma on_key:
  assumes "iter_on data len (t, k, v) it" "0 \<notin> set k"
  shows "\<exists>m. bson_iter_key it = Ret (Some m) \<and> cstr_at (Some m) = Ret (Some k)" "bson_iter_type it = Ret t"
proof -
  from iter_on_memory [OF assms(1)] obtain rest where raw: "it_raw it = Some data" "it_len it \<noteq> 0"
    and d: "drop (unat (it_type it)) data = enc_elem (t, k, v) @ rest" and key: "unat (it_key it) = unat (it_type it) + 1"
    by metis
  have "drop (unat (it_type it) + 1) data = k @ 0 # (v @ rest)"
    using arg_cong [OF d, of "drop 1"] by (simp add: add.commute)
  then have "bson_iter_key it = Ret (Some (k @ 0 # (v @ rest)))"
    using raw key by (simp add: bson_iter_key_def iter_ptr_def iter_mem_def)
  moreover have "takeWhile (\<lambda>b. b \<noteq> 0) (k @ 0 # (v @ rest)) = k" using assms(2) by (induction k) auto
  ultimately show "\<exists>m. bson_iter_key it = Ret (Some m) \<and> cstr_at (Some m) = Ret (Some k)" by (simp add: cstr_at_def)
  show "bson_iter_type it = Ret t" using on_fixed(1) [OF assms(1)] raw by (simp add: bson_iter_type_def c_assert_def)
qed

lemma on_utf8_str:
  assumes "iter_on data len (data_type (D_utf8 s), k, data_bytes (D_utf8 s)) it" "0 \<notin> set s"
  shows "iter_utf8_str it = Ret (Some s)"
proof -
  obtain p n where p: "iter_string BSON_TYPE_UTF8 it = Ret (p, n)" "ptr_len p n s [0]"
    using on_string [of data len BSON_TYPE_UTF8 k s it] assms(1) by auto
  then obtain r where "p = Some (s @ 0 # r)" by (auto simp: ptr_len_def ptr_to_def)
  moreover have "takeWhile (\<lambda>b. b \<noteq> 0) (s @ 0 # r) = s" using assms(2) by (induction s) auto
  ultimately show ?thesis using p by (simp add: iter_utf8_str_def bson_iter_utf8_def cstr_at_def)
qed

lemma on_scalar:
  assumes "iter_on data len (data_type x, k, data_bytes x) it"
  shows "x = D_int32 i \<Longrightarrow> bson_iter_int32 it = Ret i" "x = D_int64 l \<Longrightarrow> bson_iter_int64 it = Ret l"
    "x = D_int64 l \<Longrightarrow> bson_iter_as_int64 it = Ret l" "x = D_bool b \<Longrightarrow> bson_iter_bool it = Ret b"
  using on_fixed [OF assms]
  by (auto simp: bson_iter_int32_def bson_iter_int64_def bson_iter_as_int64_def bson_iter_bool_def bson_type_defs)


section \<open>Encoding write concerns\<close>

text \<open>The fields of the \<open>writeConcern\<close> document that stands for a write concern.\<close>

definition wc_fields :: "write_concern \<Rightarrow> (byte list \<times> bson_data) list" where
  "wc_fields wc =
     (if wc_w wc = MONGOC_WRITE_CONCERN_W_TAG then [(cs ''w'', D_utf8 (the (wc_wtag wc)))]
      else if wc_w wc = MONGOC_WRITE_CONCERN_W_MAJORITY then [(cs ''w'', D_utf8 (cs ''majority''))]
      else if wc_w wc = MONGOC_WRITE_CONCERN_W_DEFAULT then []
      else [(cs ''w'', D_int32 (word_of_int (wc_w wc)))]) @
     (if wc_fsync wc \<noteq> - 1 then [(cs ''fsync'', D_bool (wc_fsync wc \<noteq> 0))] else []) @
     (if wc_journal wc \<noteq> - 1 then [(cs ''j'', D_bool (wc_journal wc \<noteq> 0))] else []) @
     (if wc_wtimeout wc \<noteq> 0 then [(cs ''wtimeout'', D_int64 (word_of_int (wc_wtimeout wc)))] else [])"

text \<open>
  The values the fields can have: those of their C types, a tag when one is used, and the compiled
  document up to date when the write concern is frozen.
\<close>

definition wc_ok :: "write_concern \<Rightarrow> bool" where
  "wc_ok wc \<longleftrightarrow> wc_fsync wc \<in> {- 1, 0, 1} \<and> wc_journal wc \<in> {- 1, 0, 1} \<and> - 4 \<le> wc_w wc \<and> wc_w wc < 2 ^ 31 \<and>
     0 \<le> wc_wtimeout wc \<and> wc_wtimeout wc < 2 ^ 63 \<and>
     (wc_w wc = MONGOC_WRITE_CONCERN_W_TAG \<longrightarrow> wc_wtag wc \<noteq> None) \<and>
     (case wc_wtag wc of None \<Rightarrow> True | Some t \<Rightarrow> 0 \<notin> set t \<and> length t \<le> 2 ^ 20) \<and>
     (wc_frozen wc \<longrightarrow> wc_compiled wc = map field (wc_fields wc))"

lemma doc_add_small:
  "int (length (doc_bytes (d @ [field (k, x)]))) \<le> DOC_MAX \<Longrightarrow> doc_add d k x = d @ [field (k, x)]"
  by (simp add: doc_add_def doc_put_def doc_put_in_def)

lemma wc_fields_length: "wc_ok wc \<Longrightarrow> length (doc_bytes (map field (wc_fields wc))) \<le> 2 ^ 20 + 64"
  by (auto simp: wc_ok_def wc_fields_def length_doc_bytes cs_def wc_consts enc_string_def split: option.splits)

lemma doc_add_if:
  assumes "int (length (doc_bytes (d @ map field (if c then [(k, x)] else []) @ rest))) \<le> DOC_MAX"
  shows "(if c then doc_add d k x else d) = d @ map field (if c then [(k, x)] else [])"
  using assms by (cases c) (simp_all add: doc_add_small length_doc_bytes)

lemma freeze_spec:
  assumes "wc_ok wc"
  shows "mongoc_write_concern_freeze wc = Ret (wc\<lparr>wc_frozen := True, wc_compiled := map field (wc_fields wc)\<rparr>)"
proof -
  define w where "w = (if wc_w wc = MONGOC_WRITE_CONCERN_W_TAG then [(cs ''w'', D_utf8 (the (wc_wtag wc)))]
      else if wc_w wc = MONGOC_WRITE_CONCERN_W_MAJORITY then [(cs ''w'', D_utf8 (cs ''majority''))]
      else if wc_w wc = MONGOC_WRITE_CONCERN_W_DEFAULT then []
      else [(cs ''w'', D_int32 (word_of_int (wc_w wc)))])"
  let ?f = "if wc_fsync wc \<noteq> - 1 then [(cs ''fsync'', D_bool (wc_fsync wc \<noteq> 0))] else []"
  let ?j = "if wc_journal wc \<noteq> - 1 then [(cs ''j'', D_bool (wc_journal wc \<noteq> 0))] else []"
  let ?t = "if wc_wtimeout wc \<noteq> 0 then [(cs ''wtimeout'', D_int64 (word_of_int (wc_wtimeout wc)))] else []"
  have fields: "wc_fields wc = w @ ?f @ ?j @ ?t" by (simp only: wc_fields_def w_def)
  have "int (length (doc_bytes (map field (wc_fields wc)))) \<le> DOC_MAX"
    using wc_fields_length [OF assms] by (simp add: DOC_MAX_def)
  then have len: "int (length (doc_bytes (map field w @ map field ?f @ map field ?j @ map field ?t))) \<le> DOC_MAX"
    unfolding fields by (simp only: map_append)
  have first: "(if wc_w wc = MONGOC_WRITE_CONCERN_W_TAG then
              case wc_wtag wc of None \<Rightarrow> Abort | Some tag \<Rightarrow> Ret (doc_add [] (cs ''w'') (D_utf8 tag))
            else if wc_w wc = MONGOC_WRITE_CONCERN_W_MAJORITY then Ret (doc_add [] (cs ''w'') (D_utf8 (cs ''majority'')))
            else if wc_w wc = MONGOC_WRITE_CONCERN_W_DEFAULT then Ret []
            else Ret (doc_add [] (cs ''w'') (D_int32 (word_of_int (wc_w wc))))) = Ret (map field w)"
    using assms len by (auto simp: wc_ok_def w_def wc_consts doc_add_small length_doc_bytes)
  have f: "(if wc_fsync wc \<noteq> - 1 then doc_add (map field w) (cs ''fsync'') (D_bool (wc_fsync wc \<noteq> 0)) else map field w) =
      map field w @ map field ?f"
    by (rule doc_add_if) (use len in simp)
  have j: "(if wc_journal wc \<noteq> - 1 then doc_add (map field w @ map field ?f) (cs ''j'') (D_bool (wc_journal wc \<noteq> 0))
      else map field w @ map field ?f) = (map field w @ map field ?f) @ map field ?j"
    by (rule doc_add_if) (use len in simp)
  have t: "(if wc_wtimeout wc \<noteq> 0 then doc_add ((map field w @ map field ?f) @ map field ?j) (cs ''wtimeout'')
      (D_int64 (word_of_int (wc_wtimeout wc))) else (map field w @ map field ?f) @ map field ?j) =
      ((map field w @ map field ?f) @ map field ?j) @ map field ?t"
    by (rule doc_add_if [where rest = "[]"]) (use len in simp)
  show ?thesis
    unfolding mongoc_write_concern_freeze_def first cbind.simps Let_def fields
      MONGOC_WRITE_CONCERN_FSYNC_DEFAULT_def MONGOC_WRITE_CONCERN_JOURNAL_DEFAULT_def f j t
    by (simp only: map_append append_assoc)
qed

lemma get_bson_spec:
  assumes "wc_ok wc"
  shows "mongoc_write_concern_get_bson wc =
    Ret (map field (wc_fields wc), wc\<lparr>wc_frozen := True, wc_compiled := map field (wc_fields wc)\<rparr>)"
  using assms by (auto simp: mongoc_write_concern_get_bson_def freeze_spec wc_ok_def)


section \<open>Reading write concerns back\<close>

definition wc_read :: "byte list \<times> bson_data \<Rightarrow> write_concern \<Rightarrow> write_concern" where
  "wc_read = (\<lambda>(k, x) wc. case x of
       D_utf8 s \<Rightarrow> if s = cs ''majority'' then mongoc_write_concern_set_wmajority wc (- 1)
                   else mongoc_write_concern_set_wtag wc (Some s)
     | D_int32 n \<Rightarrow> wc\<lparr>wc_w := sint n, wc_default := False, wc_frozen := False\<rparr>
     | D_bool b \<Rightarrow> if k = cs ''fsync'' then mongoc_write_concern_set_fsync wc b else mongoc_write_concern_set_journal wc b
     | D_int64 n \<Rightarrow> mongoc_write_concern_set_wtimeout_int64 wc (sint n)
     | _ \<Rightarrow> wc)"

lemma sint_word_of_int: "- (2 ^ 31) \<le> n \<Longrightarrow> n < 2 ^ 31 \<Longrightarrow> sint (word_of_int n :: u32) = n"
  "- (2 ^ 63) \<le> n \<Longrightarrow> n < 2 ^ 63 \<Longrightarrow> sint (word_of_int n :: u64) = n"
  by (simp_all add: signed_take_bit_int_eq_self sint_sbintrunc')

lemma cs_no_nul [simp]: "0 \<notin> set (cs ''w'')" "0 \<notin> set (cs ''fsync'')" "0 \<notin> set (cs ''j'')" "0 \<notin> set (cs ''wtimeout'')"
  "0 \<notin> set (cs ''majority'')" "0 \<notin> set (cs ''writeConcern'')"
  by (simp_all add: cs_def)

lemma wc_fields_ok: "wc_ok wc \<Longrightarrow> f \<in> set (wc_fields wc) \<Longrightarrow> field_ok f"
  by (auto simp: wc_fields_def wc_ok_def split: if_splits option.splits)

lemma wc_doc_ok:
  assumes "wc_ok wc"
  shows "doc_ok (map field (wc_fields wc))"
  using wc_fields_ok [OF assms] wc_fields_length [OF assms] field_elem_ok
  by (auto simp: doc_ok_def list_all_iff INT32_MAX_def)

lemma key_cases: "cs ''w'' \<noteq> cs ''fsync''" "cs ''w'' \<noteq> cs ''j''" "cs ''w'' \<noteq> cs ''wtimeout''" "cs ''fsync'' \<noteq> cs ''j''"
  "cs ''fsync'' \<noteq> cs ''wtimeout''" "cs ''j'' \<noteq> cs ''wtimeout''" "cs ''fsync'' \<noteq> cs ''w''" "cs ''j'' \<noteq> cs ''w''"
  "cs ''wtimeout'' \<noteq> cs ''w''" "cs ''j'' \<noteq> cs ''fsync''" "cs ''wtimeout'' \<noteq> cs ''fsync''" "cs ''wtimeout'' \<noteq> cs ''j''"
  by (simp_all add: cs_def)

lemma write_concern_field_on:
  assumes ok: "wc_ok wc" and f: "(k, x) \<in> set (wc_fields wc)" and on: "iter_on data len (field (k, x)) it"
  shows "write_concern_field it s = Ret (True, wc_read (k, x) s)"
proof -
  have on': "iter_on data len (data_type x, k, data_bytes x) it" using on by simp
  have k: "0 \<notin> set k" "data_ok x" using wc_fields_ok [OF ok f] by auto
  obtain m where key: "bson_iter_key it = Ret (Some m)" "cstr_at (Some m) = Ret (Some k)" "bson_iter_type it = Ret (data_type x)"
    using on_key [OF on' k(1)] by blast
  note rd = on_scalar [OF on']
  have w: "x = D_utf8 (the (wc_wtag wc)) \<and> k = cs ''w'' \<and> 0 \<notin> set (the (wc_wtag wc)) \<or>
      x = D_utf8 (cs ''majority'') \<and> k = cs ''w'' \<or> x = D_int32 (word_of_int (wc_w wc)) \<and> k = cs ''w'' \<and> - 1 \<le> wc_w wc \<or>
      x = D_bool (wc_fsync wc \<noteq> 0) \<and> k = cs ''fsync'' \<or> x = D_bool (wc_journal wc \<noteq> 0) \<and> k = cs ''j'' \<or>
      x = D_int64 (word_of_int (wc_wtimeout wc)) \<and> k = cs ''wtimeout''"
    using f ok unfolding wc_fields_def wc_ok_def wc_consts by (auto split: if_splits)
  have bnd: "wc_w wc < 2 ^ 31" "0 \<le> wc_wtimeout wc" "wc_wtimeout wc < 2 ^ 63" using ok by (simp_all add: wc_ok_def)
  consider (s) s where "x = D_utf8 s" "k = cs ''w''" "0 \<notin> set s"
    | (i) n where "x = D_int32 (word_of_int n)" "k = cs ''w''" "- 1 \<le> n" "n < 2 ^ 31"
    | (b) b where "x = D_bool b" "k = cs ''fsync'' \<or> k = cs ''j''"
    | (t) n where "x = D_int64 (word_of_int n)" "k = cs ''wtimeout''" "0 \<le> n" "n < 2 ^ 63"
    using w bnd cs_no_nul(5) by blast
  then show ?thesis
  proof cases
    case s
    with on_utf8_str [of data len s k it] on' key show ?thesis
      by (simp add: write_concern_field_def wc_read_def bson_type_defs)
  next
    case i
    with key rd(1) sint_word_of_int(1) [of n] show ?thesis
      by (auto simp: write_concern_field_def wc_read_def wc_consts mongoc_write_concern_set_w_def c_assert_def)
  next
    case b
    with key rd(4) show ?thesis by (auto simp: write_concern_field_def wc_read_def key_cases)
  next
    case t
    with key rd(3) sint_word_of_int(2) [of n] show ?thesis
      by (simp add: write_concern_field_def wc_read_def key_cases)
  qed
qed


text \<open>Two write concerns that ask the server for the same thing.\<close>

definition wc_same :: "write_concern \<Rightarrow> write_concern \<Rightarrow> bool" where
  "wc_same wc wc' \<longleftrightarrow> wc_w wc' = wc_w wc \<and> wc_fsync wc' = wc_fsync wc \<and> wc_journal wc' = wc_journal wc \<and>
     wc_wtimeout wc' = wc_wtimeout wc \<and> mongoc_write_concern_get_wtag wc' = mongoc_write_concern_get_wtag wc"

lemma wc_read_all:
  assumes "wc_ok wc" "wc_w wc = MONGOC_WRITE_CONCERN_W_TAG \<longrightarrow> wc_wtag wc \<noteq> Some (cs ''majority'')"
  shows "wc_same wc (fold wc_read (wc_fields wc) mongoc_write_concern_new)"
proof -
  have i: "sint (word_of_int (wc_w wc) :: u32) = wc_w wc" "sint (word_of_int (wc_wtimeout wc) :: u64) = wc_wtimeout wc"
    using assms(1) by (auto simp: wc_ok_def intro!: sint_word_of_int)
  have b: "wc_fsync wc = - 1 \<or> wc_fsync wc = of_bool (wc_fsync wc \<noteq> 0)" "wc_journal wc = - 1 \<or> wc_journal wc = of_bool (wc_journal wc \<noteq> 0)"
    "0 \<le> wc_wtimeout wc" "wc_w wc = - 4 \<Longrightarrow> \<exists>t. wc_wtag wc = Some t"
    using assms(1) by (auto simp: wc_ok_def wc_consts)
  note defs = wc_read_def mongoc_write_concern_set_wmajority_def mongoc_write_concern_set_wtag_def
    mongoc_write_concern_set_fsync_def mongoc_write_concern_set_journal_def mongoc_write_concern_set_wtimeout_int64_def
    mongoc_write_concern_new_def mongoc_write_concern_get_wtag_def wc_consts key_cases Let_def
  have w: "\<exists>m. fold wc_read (if wc_w wc = MONGOC_WRITE_CONCERN_W_TAG then [(cs ''w'', D_utf8 (the (wc_wtag wc)))]
      else if wc_w wc = MONGOC_WRITE_CONCERN_W_MAJORITY then [(cs ''w'', D_utf8 (cs ''majority''))]
      else if wc_w wc = MONGOC_WRITE_CONCERN_W_DEFAULT then []
      else [(cs ''w'', D_int32 (word_of_int (wc_w wc)))]) mongoc_write_concern_new = m \<and>
      wc_w m = wc_w wc \<and> mongoc_write_concern_get_wtag m = mongoc_write_concern_get_wtag wc \<and>
      wc_fsync m = - 1 \<and> wc_journal m = - 1 \<and> wc_wtimeout m = 0"
    using assms(2) i b(4) by (auto simp: defs)
  then obtain m where m: "fold wc_read (if wc_w wc = MONGOC_WRITE_CONCERN_W_TAG then [(cs ''w'', D_utf8 (the (wc_wtag wc)))]
      else if wc_w wc = MONGOC_WRITE_CONCERN_W_MAJORITY then [(cs ''w'', D_utf8 (cs ''majority''))]
      else if wc_w wc = MONGOC_WRITE_CONCERN_W_DEFAULT then []
      else [(cs ''w'', D_int32 (word_of_int (wc_w wc)))]) mongoc_write_concern_new = m"
      "wc_w m = wc_w wc" "mongoc_write_concern_get_wtag m = mongoc_write_concern_get_wtag wc"
      "wc_fsync m = - 1" "wc_journal m = - 1" "wc_wtimeout m = 0" by blast
  show ?thesis
    unfolding wc_fields_def fold_append o_def m(1) wc_same_def using m(2-) i(2) b(1-3)
    by (auto simp: wc_read_def mongoc_write_concern_set_fsync_def mongoc_write_concern_set_journal_def
        mongoc_write_concern_set_wtimeout_int64_def mongoc_write_concern_get_wtag_def key_cases)
qed

lemma new_from_iter_spec:
  assumes "wc_ok wc" "mongoc_write_concern_is_valid (Some wc)"
    "wc_w wc = MONGOC_WRITE_CONCERN_W_TAG \<longrightarrow> wc_wtag wc \<noteq> Some (cs ''majority'')"
    "iter_on data len (field (k, D_document (doc_bytes (map field (wc_fields wc))))) it"
  shows "\<exists>wc'. mongoc_write_concern_new_from_iter it = Ret (Some wc') \<and> wc_same wc wc'"
proof -
  let ?fs = "map field (wc_fields wc)" and ?wc' = "fold wc_read (wc_fields wc) mongoc_write_concern_new"
  have on: "iter_on data len (BSON_TYPE_DOCUMENT, k, doc_bytes ?fs) it" using assms(4) by simp
  obtain junk where rec: "bson_iter_type it = Ret BSON_TYPE_DOCUMENT"
    "bson_iter_recurse it = Ret (Some (iter_start (doc_bytes ?fs @ junk) (of_nat (length (doc_bytes ?fs)))))"
    using recurse_into [OF on _ wc_doc_ok [OF assms(1)]] by auto
  have "iter_while (iter_fuel (iter_start (doc_bytes ?fs @ junk) (of_nat (length (doc_bytes ?fs))))) write_concern_field
     (iter_start (doc_bytes ?fs @ junk) (of_nat (length (doc_bytes ?fs)))) mongoc_write_concern_new = Ret (True, ?wc')"
    by (subst iter_while_start [OF wc_doc_ok [OF assms(1)], where f = "\<lambda>x s. (True, wc_read x s)"])
      (auto simp: elems_while_all intro: write_concern_field_on [OF assms(1)])
  moreover have same: "wc_same wc ?wc'" by (rule wc_read_all [OF assms(1,3)])
  moreover have "mongoc_write_concern_is_valid (Some ?wc')"
    using assms(2) same by (auto simp: mongoc_write_concern_is_valid_def wc_same_def mongoc_write_concern_get_journal_def split: if_splits)
  ultimately show ?thesis using rec by (simp add: mongoc_write_concern_new_from_iter_def)
qed


lemma wc_append_spec:
  assumes "wc_ok wc" "mongoc_write_concern_is_valid (Some wc)" "length (doc_bytes d) \<le> 2 ^ 29"
  shows "mongoc_write_concern_append (Some wc) d =
    Ret (True, Some (wc\<lparr>wc_frozen := True, wc_compiled := map field (wc_fields wc)\<rparr>),
      d @ [field (cs ''writeConcern'', D_document (doc_bytes (map field (wc_fields wc))))])"
  using assms(2,3) wc_fields_length [OF assms(1)]
  by (simp add: mongoc_write_concern_append_def get_bson_spec [OF assms(1)] doc_put_def doc_put_in_def DOC_MAX_def
      length_doc_bytes cs_def)

text \<open>
  C38. A write concern survives the way to a command: \<open>mongoc_write_concern_append\<close> on a valid write
  concern adds a \<open>writeConcern\<close> document to the command, and \<open>_mongoc_write_concern_new_from_iter\<close> on what
  a lookup finds there gives a write concern with the same \<open>w\<close>, tag, \<open>fsync\<close>, \<open>journal\<close> and \<open>wtimeout\<close>.
  The exception is a tag that is the word \<open>majority\<close>.
\<close>

theorem write_concern_roundtrip:
  assumes "wc_ok wc" "mongoc_write_concern_is_valid (Some wc)"
    "wc_w wc = MONGOC_WRITE_CONCERN_W_TAG \<longrightarrow> wc_wtag wc \<noteq> Some (cs ''majority'')"
    "list_all elem_ok command" "\<forall>(t, k, v) \<in> set command. k \<noteq> cs ''writeConcern''" "length (doc_bytes command) \<le> 2 ^ 29"
  shows "\<exists>wc1 command' it wc2. mongoc_write_concern_append (Some wc) command = Ret (True, Some wc1, command') \<and>
    bson_iter_init_find (doc_view command') (cs ''writeConcern'' @ [0]) = Ret (True, it) \<and>
    mongoc_write_concern_new_from_iter it = Ret (Some wc2) \<and> wc_same wc wc2"
proof -
  let ?e = "field (cs ''writeConcern'', D_document (doc_bytes (map field (wc_fields wc))))"
  have sub: "sub_ok (doc_bytes (map field (wc_fields wc)))" by (simp add: sub_ok_def doc_bytes_def add.commute)
  then have "elem_ok ?e" using data_payload_ok [of "D_document (doc_bytes (map field (wc_fields wc)))"] by simp
  then have ok: "doc_ok (command @ [?e])"
    using assms(4,6) wc_fields_length [OF assms(1)] by (simp add: doc_ok_def length_doc_bytes INT32_MAX_def cs_def)
  have "find (\<lambda>(t, k, v). k = cs ''writeConcern'') command = None" using assms(5) by (auto simp: find_None_iff)
  then have f: "find (\<lambda>(t, k, v). k = cs ''writeConcern'') (command @ [?e]) = Some ?e" by (induction command) auto
  obtain it where "bson_iter_init_find (doc_view (command @ [?e])) (cs ''writeConcern'' @ [0]) = Ret (True, it)"
    "iter_on (doc_bytes (command @ [?e])) (of_nat (length (doc_bytes (command @ [?e])))) ?e it"
    using init_find_view [OF ok cs_no_nul(6), of "[]"] f by (auto simp: doc_view_def)
  with new_from_iter_spec [OF assms(1-3)] wc_append_spec [OF assms(1,2,6)] show ?thesis by blast
qed

definition example_wc :: write_concern where
  "example_wc = mongoc_write_concern_set_journal (mongoc_write_concern_set_wtimeout
     (mongoc_write_concern_set_wtag mongoc_write_concern_new (Some (cs ''dc''))) 250) True"

lemma example_wc_ok: "wc_ok example_wc" "mongoc_write_concern_is_valid (Some example_wc)" "wc_wtag example_wc = Some (cs ''dc'')"
  by (simp_all add: example_wc_def wc_ok_def mongoc_write_concern_new_def mongoc_write_concern_set_wtag_def wc_consts
      mongoc_write_concern_set_wtimeout_def mongoc_write_concern_set_wtimeout_int64_def mongoc_write_concern_set_journal_def
      mongoc_write_concern_is_valid_def mongoc_write_concern_get_journal_def cs_def)

theorem write_concern_roundtrip_witness:
  "\<exists>wc1 command' it wc2. mongoc_write_concern_append (Some example_wc) [field (cs ''insert'', D_int32 1)] = Ret (True, Some wc1, command') \<and>
    bson_iter_init_find (doc_view command') (cs ''writeConcern'' @ [0]) = Ret (True, it) \<and>
    mongoc_write_concern_new_from_iter it = Ret (Some wc2) \<and> wc_same example_wc wc2"
  by (rule write_concern_roundtrip)
    (simp_all add: example_wc_ok cs_def payload_ok_simps length_doc_bytes)



end
