(* ===== verification/Mongoc_Session.thy ===== *)
theory Mongoc_Session
  imports Mongoc_Concern_Props Bson_Keys
begin

text \<open>
  Client sessions and their transactions, \<open>mongoc/mongoc-client-session.c\<close>. A session is a record with the
  fields of \<open>struct _mongoc_client_session_t\<close>; its \<open>client\<close> is an argument of the functions that read the
  concerns of the client. What the session asks of the rest of the driver is an argument too: the server
  that \<open>mongoc_client_select_server\<close> found, the function \<open>run\<close> that stands for
  \<open>mongoc_client_write_command_with_opts\<close> on the database \<open>"admin"\<close> (it gets the session, the command and
  the options, and gives the result and the session it leaves behind, over a state \<open>'w\<close> of the outside
  world), and the monotonic clock. Commands and options are built as element lists; a reply is a view,
  and the reply that \<open>txn_commit\<close> puts together is built in memory with the functions of \<open>bson.c\<close>.
  \<open>txn_number\<close> is an \<open>int\<close>; incrementing the largest \<open>int64_t\<close> is a \<open>Fault\<close>.
\<close>

section \<open>State\<close>

datatype txn_state =
    MONGOC_INTERNAL_TRANSACTION_NONE | MONGOC_INTERNAL_TRANSACTION_STARTING
  | MONGOC_INTERNAL_TRANSACTION_IN_PROGRESS | MONGOC_INTERNAL_TRANSACTION_ENDING
  | MONGOC_INTERNAL_TRANSACTION_COMMITTED | MONGOC_INTERNAL_TRANSACTION_COMMITTED_EMPTY
  | MONGOC_INTERNAL_TRANSACTION_ABORTED

datatype public_txn_state =
  MONGOC_TRANSACTION_NONE | MONGOC_TRANSACTION_STARTING | MONGOC_TRANSACTION_IN_PROGRESS
  | MONGOC_TRANSACTION_COMMITTED | MONGOC_TRANSACTION_ABORTED

record txn_opts =
  to_read_concern :: "read_concern option"
  to_write_concern :: "write_concern option"
  to_read_prefs :: "read_prefs option"
  to_max_commit_time_ms :: int

record session_opts =
  so_flags :: u32
  so_default_txn_opts :: txn_opts

record server_session =
  ss_last_used_usec :: int
  ss_lsid :: bson_view
  ss_txn_number :: int
  ss_dirty :: bool

record client_session =
  cs_opts :: session_opts
  cs_server_session :: server_session
  cs_state :: txn_state
  cs_txn_opts :: txn_opts
  cs_client_session_id :: u32
  cs_cluster_time :: bson_view
  cs_operation_timestamp :: u32
  cs_operation_increment :: u32
  cs_client_generation :: u32
  cs_server_id :: u32
  cs_recovery_token :: "bson_view option"
  cs_with_txn_timeout_ms :: int
  cs_fail_commit_label :: "cstr option"

text \<open>What a session uses of its client.\<close>

record mongoc_client =
  cl_read_concern :: "read_concern option"
  cl_write_concern :: "write_concern option"
  cl_read_prefs :: "read_prefs option"
  cl_generation :: u32

definition DEFAULT_MAX_COMMIT_TIME_MS :: int where "DEFAULT_MAX_COMMIT_TIME_MS = 0"
definition MONGOC_SESSION_CAUSAL_CONSISTENCY :: u32 where "MONGOC_SESSION_CAUSAL_CONSISTENCY = 1"
definition SESSION_NEVER_USED :: int where "SESSION_NEVER_USED = - 1"
definition WITH_TXN_TIMEOUT_MS :: int where "WITH_TXN_TIMEOUT_MS = 120 * 1000"
definition MONGOC_DEFAULT_WTIMEOUT_FOR_COMMIT_RETRY :: int where "MONGOC_DEFAULT_WTIMEOUT_FOR_COMMIT_RETRY = 10000"
definition INT64_MAX :: int where "INT64_MAX = 9223372036854775807"
definition TRANSIENT_TXN_ERR :: cstr where "TRANSIENT_TXN_ERR = cs ''TransientTransactionError''"
definition UNKNOWN_COMMIT_RESULT :: cstr where "UNKNOWN_COMMIT_RESULT = cs ''UnknownTransactionCommitResult''"
definition MAX_TIME_MS_EXPIRED :: cstr where "MAX_TIME_MS_EXPIRED = cs ''MaxTimeMSExpired''"

definition MONGOC_ERROR_BSON :: nat where "MONGOC_ERROR_BSON = 8"
definition MONGOC_ERROR_SERVER_SELECTION :: nat where "MONGOC_ERROR_SERVER_SELECTION = 15"
definition MONGOC_ERROR_TRANSACTION :: nat where "MONGOC_ERROR_TRANSACTION = 18"
definition MONGOC_ERROR_BSON_INVALID :: nat where "MONGOC_ERROR_BSON_INVALID = 18"
definition MONGOC_ERROR_MAX_TIME_MS_EXPIRED :: nat where "MONGOC_ERROR_MAX_TIME_MS_EXPIRED = 50"
definition MONGOC_ERROR_TRANSACTION_INVALID_STATE :: nat where "MONGOC_ERROR_TRANSACTION_INVALID_STATE = 53"

definition invalid_state :: bson_error where
  "invalid_state = \<lparr>err_domain = MONGOC_ERROR_TRANSACTION, err_code = MONGOC_ERROR_TRANSACTION_INVALID_STATE\<rparr>"

definition invalid_arg :: bson_error where
  "invalid_arg = \<lparr>err_domain = MONGOC_ERROR_COMMAND, err_code = MONGOC_ERROR_COMMAND_INVALID_ARG\<rparr>"

section \<open>Options\<close>

definition mongoc_transaction_opts_new :: txn_opts where
  "mongoc_transaction_opts_new = \<lparr>to_read_concern = None, to_write_concern = None, to_read_prefs = None,
     to_max_commit_time_ms = DEFAULT_MAX_COMMIT_TIME_MS\<rparr>"

definition mongoc_transaction_opts_set_max_commit_time_ms :: "txn_opts \<Rightarrow> int \<Rightarrow> txn_opts" where
  "mongoc_transaction_opts_set_max_commit_time_ms opts n = opts\<lparr>to_max_commit_time_ms := n\<rparr>"

definition mongoc_transaction_opts_set_read_concern :: "txn_opts \<Rightarrow> read_concern option \<Rightarrow> txn_opts" where
  "mongoc_transaction_opts_set_read_concern opts rc = opts\<lparr>to_read_concern := mongoc_read_concern_copy rc\<rparr>"

definition mongoc_transaction_opts_set_write_concern :: "txn_opts \<Rightarrow> write_concern option \<Rightarrow> txn_opts" where
  "mongoc_transaction_opts_set_write_concern opts wc = opts\<lparr>to_write_concern := mongoc_write_concern_copy wc\<rparr>"

definition read_prefs_copy_opt :: "read_prefs option \<Rightarrow> read_prefs option outcome" where
  "read_prefs_copy_opt rp = (case rp of None \<Rightarrow> Ret None
     | Some rp \<Rightarrow> cbind (mongoc_read_prefs_copy rp) (\<lambda>rp. Ret (Some rp)))"

definition mongoc_transaction_opts_set_read_prefs :: "txn_opts \<Rightarrow> read_prefs option \<Rightarrow> txn_opts outcome" where
  "mongoc_transaction_opts_set_read_prefs opts rp =
     cbind (read_prefs_copy_opt rp) (\<lambda>rp. Ret (opts\<lparr>to_read_prefs := rp\<rparr>))"

definition txn_opts_set :: "txn_opts \<Rightarrow> read_concern option \<Rightarrow> write_concern option \<Rightarrow> read_prefs option \<Rightarrow> int \<Rightarrow> txn_opts outcome" where
  "txn_opts_set opts read_concern write_concern read_prefs max_commit_time_ms =
     (let opts = (if read_concern \<noteq> None then mongoc_transaction_opts_set_read_concern opts read_concern else opts);
          opts = (if write_concern \<noteq> None then mongoc_transaction_opts_set_write_concern opts write_concern else opts) in
      cbind (if read_prefs \<noteq> None then mongoc_transaction_opts_set_read_prefs opts read_prefs else Ret opts) (\<lambda>opts.
      Ret (if max_commit_time_ms \<noteq> DEFAULT_MAX_COMMIT_TIME_MS
           then mongoc_transaction_opts_set_max_commit_time_ms opts max_commit_time_ms else opts)))"

definition txn_opts_cleanup :: "txn_opts \<Rightarrow> txn_opts" where
  "txn_opts_cleanup opts = opts\<lparr>to_read_concern := None, to_write_concern := None, to_read_prefs := None,
     to_max_commit_time_ms := DEFAULT_MAX_COMMIT_TIME_MS\<rparr>"

definition txn_opts_copy :: "txn_opts \<Rightarrow> txn_opts \<Rightarrow> txn_opts outcome" where
  "txn_opts_copy src dst =
     (let dst = txn_opts_cleanup dst in
      cbind (read_prefs_copy_opt (to_read_prefs src)) (\<lambda>rp.
      Ret (dst\<lparr>to_read_concern := mongoc_read_concern_copy (to_read_concern src),
               to_write_concern := mongoc_write_concern_copy (to_write_concern src), to_read_prefs := rp,
               to_max_commit_time_ms := to_max_commit_time_ms src\<rparr>)))"

definition mongoc_transaction_opts_clone :: "txn_opts \<Rightarrow> txn_opts outcome" where
  "mongoc_transaction_opts_clone opts = txn_opts_copy opts mongoc_transaction_opts_new"

definition mongoc_session_opts_set_causal_consistency :: "session_opts \<Rightarrow> bool \<Rightarrow> session_opts" where
  "mongoc_session_opts_set_causal_consistency opts causal =
     opts\<lparr>so_flags := (if causal then so_flags opts OR MONGOC_SESSION_CAUSAL_CONSISTENCY
                       else so_flags opts AND NOT MONGOC_SESSION_CAUSAL_CONSISTENCY)\<rparr>"

definition mongoc_session_opts_get_causal_consistency :: "session_opts \<Rightarrow> bool" where
  "mongoc_session_opts_get_causal_consistency opts \<longleftrightarrow> so_flags opts AND MONGOC_SESSION_CAUSAL_CONSISTENCY \<noteq> 0"

definition mongoc_session_opts_new :: session_opts where
  "mongoc_session_opts_new = mongoc_session_opts_set_causal_consistency
     \<lparr>so_flags = 0, so_default_txn_opts = mongoc_transaction_opts_new\<rparr> True"

definition mongoc_session_opts_set_default_transaction_opts :: "session_opts \<Rightarrow> txn_opts \<Rightarrow> session_opts outcome" where
  "mongoc_session_opts_set_default_transaction_opts opts txn_opts =
     cbind (txn_opts_set (so_default_txn_opts opts) (to_read_concern txn_opts) (to_write_concern txn_opts)
       (to_read_prefs txn_opts) (to_max_commit_time_ms txn_opts)) (\<lambda>d. Ret (opts\<lparr>so_default_txn_opts := d\<rparr>))"

definition mongoc_session_opts_copy :: "session_opts \<Rightarrow> session_opts \<Rightarrow> session_opts outcome" where
  "mongoc_session_opts_copy src dst =
     cbind (txn_opts_copy (so_default_txn_opts src) (so_default_txn_opts dst)) (\<lambda>d.
     Ret (dst\<lparr>so_flags := so_flags src, so_default_txn_opts := d\<rparr>))"

definition mongoc_session_opts_clone :: "session_opts \<Rightarrow> session_opts outcome" where
  "mongoc_session_opts_clone opts =
     mongoc_session_opts_copy opts \<lparr>so_flags = 0, so_default_txn_opts = mongoc_transaction_opts_new\<rparr>"

section \<open>Server sessions and new sessions\<close>

text \<open>The 16 random bytes of \<open>_mongoc_rand_bytes\<close> are an argument.\<close>

definition mongoc_server_session_uuid :: "byte list \<Rightarrow> byte list" where
  "mongoc_server_session_uuid data =
     data[6 := 0x40 OR (data ! 6 AND 0xf), 8 := 0x80 OR (data ! 8 AND 0x3f)]"

definition mongoc_server_session_new :: "byte list \<Rightarrow> server_session" where
  "mongoc_server_session_new rand =
     \<lparr>ss_last_used_usec = SESSION_NEVER_USED,
      ss_lsid = doc_view (doc_add [] (cs ''id'') (D_binary 4 (mongoc_server_session_uuid rand))),
      ss_txn_number = 0, ss_dirty = False\<rparr>"

definition mongoc_server_session_timed_out :: "int \<Rightarrow> server_session \<Rightarrow> int \<Rightarrow> bool" where
  "mongoc_server_session_timed_out now server_session session_timeout_minutes =
     (let minute_to_usec = 60 * 1000 * 1000 in
      if session_timeout_minutes = MONGOC_NO_SESSIONS then False
      else if ss_last_used_usec server_session = SESSION_NEVER_USED then False
      else ss_last_used_usec server_session + session_timeout_minutes * minute_to_usec - now < 1 * minute_to_usec)"

definition mongoc_client_session_new ::
  "mongoc_client \<Rightarrow> server_session \<Rightarrow> session_opts option \<Rightarrow> u32 \<Rightarrow> client_session outcome" where
  "mongoc_client_session_new client server_session opts client_session_id =
     cbind (txn_opts_set mongoc_transaction_opts_new (cl_read_concern client) (cl_write_concern client)
       (cl_read_prefs client) DEFAULT_MAX_COMMIT_TIME_MS) (\<lambda>d.
     cbind (case opts of
         Some opts \<Rightarrow> cbind (txn_opts_set d (to_read_concern (so_default_txn_opts opts))
             (to_write_concern (so_default_txn_opts opts)) (to_read_prefs (so_default_txn_opts opts))
             (to_max_commit_time_ms (so_default_txn_opts opts))) (\<lambda>d. Ret \<lparr>so_flags = so_flags opts, so_default_txn_opts = d\<rparr>)
       | None \<Rightarrow> Ret \<lparr>so_flags = MONGOC_SESSION_CAUSAL_CONSISTENCY, so_default_txn_opts = d\<rparr>) (\<lambda>o'.
     Ret \<lparr>cs_opts = o', cs_server_session = server_session, cs_state = MONGOC_INTERNAL_TRANSACTION_NONE,
       cs_txn_opts = mongoc_transaction_opts_new, cs_client_session_id = client_session_id,
       cs_cluster_time = bson_empty_view, cs_operation_timestamp = 0, cs_operation_increment = 0,
       cs_client_generation = cl_generation client, cs_server_id = 0, cs_recovery_token = None,
       cs_with_txn_timeout_ms = 0, cs_fail_commit_label = None\<rparr>))"

section \<open>Cluster time, operation time and replies\<close>

definition mongoc_client_session_get_cluster_time :: "client_session \<Rightarrow> bson_view option outcome" where
  "mongoc_client_session_get_cluster_time session =
     cbind (bson_view_empty (cs_cluster_time session)) (\<lambda>e. Ret (if e then None else Some (cs_cluster_time session)))"

definition mongoc_client_session_advance_cluster_time :: "client_session \<Rightarrow> bson_view \<Rightarrow> client_session outcome" where
  "mongoc_client_session_advance_cluster_time session cluster_time =
     cbind (bson_view_empty (cs_cluster_time session)) (\<lambda>empty.
     cbind (if empty then mongoc_parse_cluster_time cluster_time else Ret None) (\<lambda>parsed.
     cbind (if parsed \<noteq> None then Ret True
            else mongoc_cluster_time_greater cluster_time (cs_cluster_time session)) (\<lambda>take_it.
     if take_it then cbind (bson_view_copy cluster_time) (\<lambda>c. Ret (session\<lparr>cs_cluster_time := c\<rparr>))
     else Ret session)))"

definition mongoc_client_session_advance_operation_time :: "client_session \<Rightarrow> u32 \<Rightarrow> u32 \<Rightarrow> client_session" where
  "mongoc_client_session_advance_operation_time session timestamp increment =
     (if timestamp > cs_operation_timestamp session \<or>
         timestamp = cs_operation_timestamp session \<and> increment > cs_operation_increment session
      then session\<lparr>cs_operation_timestamp := timestamp, cs_operation_increment := increment\<rparr> else session)"

definition mongoc_client_session_unpin :: "client_session \<Rightarrow> client_session" where
  "mongoc_client_session_unpin session = session\<lparr>cs_server_id := 0\<rparr>"

definition mongoc_client_session_pin :: "client_session \<Rightarrow> u32 \<Rightarrow> client_session" where
  "mongoc_client_session_pin session server_id = session\<lparr>cs_server_id := server_id\<rparr>"

definition handle_reply_field :: "bool \<Rightarrow> bson_iter \<Rightarrow> client_session \<Rightarrow> (bool \<times> client_session) outcome" where
  "handle_reply_field is_acknowledged it session =
     cbind (bson_iter_key it) (\<lambda>kp. cbind (cstr_at kp) (\<lambda>key. cbind (bson_iter_type it) (\<lambda>t.
     if key = Some (cs ''$clusterTime'') \<and> t = BSON_TYPE_DOCUMENT then
       cbind (bson_iter_document it) (\<lambda>(len, data). cbind (cptr_mem data) (\<lambda>m.
       cbind (bson_init_static m (unat len)) (\<lambda>v. case v of None \<Rightarrow> Abort
         | Some cluster_time \<Rightarrow> cbind (mongoc_client_session_advance_cluster_time session cluster_time) (\<lambda>s. Ret (True, s)))))
     else if key = Some (cs ''operationTime'') \<and> t = BSON_TYPE_TIMESTAMP \<and> is_acknowledged then
       cbind (bson_iter_timestamp it) (\<lambda>(t, i). Ret (True, mongoc_client_session_advance_operation_time session t i))
     else Ret (True, session))))"

definition mongoc_client_session_handle_reply :: "client_session \<Rightarrow> bool \<Rightarrow> bson_view option \<Rightarrow> client_session outcome" where
  "mongoc_client_session_handle_reply session is_acknowledged reply = (case reply of None \<Rightarrow> Ret session
     | Some reply \<Rightarrow> (case bson_iter_init reply of (r, it) \<Rightarrow>
         if \<not> r then Ret session
         else cbind (mongoc_error_has_label reply TRANSIENT_TXN_ERR) (\<lambda>transient.
           cbind (iter_while (iter_fuel it) (handle_reply_field is_acknowledged) it
             (if transient then session\<lparr>cs_server_id := 0\<rparr> else session)) (\<lambda>(_, session). Ret session))))"

section \<open>The state of the transaction\<close>

definition mongoc_client_session_in_txn :: "client_session option \<Rightarrow> bool" where
  "mongoc_client_session_in_txn session = (case session of None \<Rightarrow> False
     | Some s \<Rightarrow> cs_state s \<in> {MONGOC_INTERNAL_TRANSACTION_STARTING, MONGOC_INTERNAL_TRANSACTION_IN_PROGRESS})"

definition mongoc_client_session_in_txn_or_ending :: "client_session option \<Rightarrow> bool" where
  "mongoc_client_session_in_txn_or_ending session = (case session of None \<Rightarrow> False
     | Some s \<Rightarrow> cs_state s \<in> {MONGOC_INTERNAL_TRANSACTION_STARTING, MONGOC_INTERNAL_TRANSACTION_IN_PROGRESS,
         MONGOC_INTERNAL_TRANSACTION_ENDING})"

definition mongoc_client_session_txn_in_progress :: "client_session option \<Rightarrow> bool" where
  "mongoc_client_session_txn_in_progress session = (case session of None \<Rightarrow> False
     | Some s \<Rightarrow> cs_state s = MONGOC_INTERNAL_TRANSACTION_IN_PROGRESS)"

definition mongoc_client_session_get_transaction_state :: "client_session \<Rightarrow> public_txn_state outcome" where
  "mongoc_client_session_get_transaction_state session = (case cs_state session of
       MONGOC_INTERNAL_TRANSACTION_NONE \<Rightarrow> Ret MONGOC_TRANSACTION_NONE
     | MONGOC_INTERNAL_TRANSACTION_STARTING \<Rightarrow> Ret MONGOC_TRANSACTION_STARTING
     | MONGOC_INTERNAL_TRANSACTION_IN_PROGRESS \<Rightarrow> Ret MONGOC_TRANSACTION_IN_PROGRESS
     | MONGOC_INTERNAL_TRANSACTION_COMMITTED_EMPTY \<Rightarrow> Ret MONGOC_TRANSACTION_COMMITTED
     | MONGOC_INTERNAL_TRANSACTION_COMMITTED \<Rightarrow> Ret MONGOC_TRANSACTION_COMMITTED
     | MONGOC_INTERNAL_TRANSACTION_ABORTED \<Rightarrow> Ret MONGOC_TRANSACTION_ABORTED
     | MONGOC_INTERNAL_TRANSACTION_ENDING \<Rightarrow> Abort)"

definition mongoc_session_opts_get_transaction_opts :: "client_session \<Rightarrow> txn_opts option outcome" where
  "mongoc_session_opts_get_transaction_opts session =
     (if mongoc_client_session_in_txn (Some session)
      then cbind (mongoc_transaction_opts_clone (cs_txn_opts session)) (\<lambda>opts. Ret (Some opts))
      else Ret None)"

text \<open>The result is the error that is set, \<open>None\<close> when \<open>true\<close> is returned.\<close>

definition mongoc_client_session_start_transaction ::
  "bson_error + server_description \<Rightarrow> client_session \<Rightarrow> txn_opts option \<Rightarrow> (bson_error option \<times> client_session) outcome" where
  "mongoc_client_session_start_transaction selected session opts = (case selected of
       Inl e \<Rightarrow> Ret (Some e, session)
     | Inr sd \<Rightarrow>
         if sd_max_wire_version sd < 7 \<or> sd_max_wire_version sd < 8 \<and> sd_type sd = MONGOC_SERVER_MONGOS
         then Ret (Some invalid_state, session)
         else if cs_state session \<in> {MONGOC_INTERNAL_TRANSACTION_STARTING, MONGOC_INTERNAL_TRANSACTION_IN_PROGRESS}
         then Ret (Some invalid_state, session)
         else if cs_state session = MONGOC_INTERNAL_TRANSACTION_ENDING then Abort
         else if ss_txn_number (cs_server_session session) \<ge> INT64_MAX then Fault
         else
           let ss = (cs_server_session session)\<lparr>ss_txn_number := ss_txn_number (cs_server_session session) + 1\<rparr>;
               session = session\<lparr>cs_server_session := ss\<rparr>;
               d = so_default_txn_opts (cs_opts session) in
           cbind (txn_opts_set (cs_txn_opts session) (to_read_concern d) (to_write_concern d) (to_read_prefs d)
             (to_max_commit_time_ms d)) (\<lambda>o1.
           cbind (case opts of None \<Rightarrow> Ret o1
             | Some opts \<Rightarrow> txn_opts_set o1 (to_read_concern opts) (to_write_concern opts) (to_read_prefs opts)
                 (to_max_commit_time_ms opts)) (\<lambda>o2.
           let session = session\<lparr>cs_txn_opts := o2\<rparr> in
           if \<not> mongoc_write_concern_is_acknowledged (to_write_concern o2) then Ret (Some invalid_state, session)
           else Ret (None, (mongoc_client_session_unpin session)\<lparr>cs_state := MONGOC_INTERNAL_TRANSACTION_STARTING,
                  cs_recovery_token := None\<rparr>))))"

section \<open>Transaction fields of a command\<close>

definition mongoc_get_command_name :: "bson_view \<Rightarrow> cstr option outcome" where
  "mongoc_get_command_name command = (case bson_iter_init command of (r, it) \<Rightarrow>
     if \<not> r then Ret None
     else cbind (bson_iter_next it) (\<lambda>(r, it).
       if \<not> r then Ret None
       else cbind (bson_iter_key it) (\<lambda>kp. cbind (cstr_at kp) (\<lambda>name.
         let wrapper_name = (case name of None \<Rightarrow> None
               | Some s \<Rightarrow> if s \<noteq> [] \<and> hd s = 0x24 then Some (cs ''$query'')
                           else if s = cs ''query'' then Some (cs ''query'') else None) in
         case wrapper_name of None \<Rightarrow> Ret name
         | Some w \<Rightarrow> cbind (find_typed command w BSON_TYPE_DOCUMENT) (\<lambda>f. case f of None \<Rightarrow> Ret name
             | Some it \<Rightarrow> cbind (bson_iter_recurse it) (\<lambda>child. case child of None \<Rightarrow> Ret name
                 | Some child \<Rightarrow> cbind (bson_iter_next child) (\<lambda>(r, child).
                     if \<not> r then Ret name
                     else cbind (bson_iter_key child) cstr_at)))))))"

definition append_txn_number :: "client_session \<Rightarrow> doc \<Rightarrow> doc" where
  "append_txn_number session cmd =
     doc_add (doc_add cmd (cs ''txnNumber'') (D_int64 (word_of_int (ss_txn_number (cs_server_session session)))))
       (cs ''autocommit'') (D_bool False)"

definition mongoc_client_session_append_txn ::
  "client_session option \<Rightarrow> doc \<Rightarrow> (bson_error option \<times> client_session option \<times> doc) outcome" where
  "mongoc_client_session_append_txn session cmd = (case session of None \<Rightarrow> Ret (None, None, cmd)
     | Some s \<Rightarrow>
       if doc_empty cmd then Ret (Some invalid_arg, Some s, cmd)
       else
         let reset = s\<lparr>cs_txn_opts := txn_opts_cleanup (cs_txn_opts s), cs_state := MONGOC_INTERNAL_TRANSACTION_NONE,
               cs_recovery_token := None\<rparr> in
         case cs_state s of
           MONGOC_INTERNAL_TRANSACTION_STARTING \<Rightarrow>
             let s = s\<lparr>cs_state := MONGOC_INTERNAL_TRANSACTION_IN_PROGRESS\<rparr> in
             Ret (None, Some s, append_txn_number s (doc_add cmd (cs ''startTransaction'') (D_bool True)))
         | MONGOC_INTERNAL_TRANSACTION_IN_PROGRESS \<Rightarrow> Ret (None, Some s, append_txn_number s cmd)
         | MONGOC_INTERNAL_TRANSACTION_ENDING \<Rightarrow> Ret (None, Some s, append_txn_number s cmd)
         | MONGOC_INTERNAL_TRANSACTION_COMMITTED \<Rightarrow>
             cbind (mongoc_get_command_name (doc_view cmd)) (\<lambda>name. case name of None \<Rightarrow> Fault
               | Some name \<Rightarrow> if name = cs ''commitTransaction'' then Ret (None, Some s, append_txn_number s cmd)
                              else Ret (None, Some reset, cmd))
         | MONGOC_INTERNAL_TRANSACTION_COMMITTED_EMPTY \<Rightarrow> Ret (None, Some reset, cmd)
         | MONGOC_INTERNAL_TRANSACTION_ABORTED \<Rightarrow> Ret (None, Some reset, cmd)
         | MONGOC_INTERNAL_TRANSACTION_NONE \<Rightarrow> Ret (None, Some s, cmd))"

text \<open>
  \<open>bson_append_document_begin\<close> fails when there is no room for an empty document; the child that the
  caller goes on to use is then not initialised.
\<close>

definition mongoc_client_session_append_read_concern ::
  "client_session \<Rightarrow> doc option \<Rightarrow> bool \<Rightarrow> doc \<Rightarrow> doc outcome" where
  "mongoc_client_session_append_read_concern session rc is_read_command cmd =
     (if cs_state session = MONGOC_INTERNAL_TRANSACTION_IN_PROGRESS then Ret cmd
      else
        let starting = (cs_state session = MONGOC_INTERNAL_TRANSACTION_STARTING);
            txn_rc = to_read_concern (cs_txn_opts session);
            has_timestamp = ((starting \<or> is_read_command) \<and>
              mongoc_session_opts_get_causal_consistency (cs_opts session) \<and> cs_operation_timestamp session \<noteq> 0) in
        cbind (case rc of None \<Rightarrow> Ret False | Some rc \<Rightarrow> bson_has_field (doc_view rc) (cs ''level'' @ [0])) (\<lambda>user_rc_has_level.
        let txn_has_level = (starting \<and> \<not> mongoc_read_concern_is_default txn_rc) in
        if \<not> has_timestamp \<and> \<not> (user_rc_has_level \<or> txn_has_level) then Ret cmd
        else
          let outer = length (doc_bytes cmd) + length (cs ''readConcern'') + 2 in
          if \<not> fst (doc_put_in outer [] []) then Fault
          else
            let child = (case rc of None \<Rightarrow> [] | Some rc \<Rightarrow> snd (doc_put_in outer [] rc));
                child = (if starting \<and> txn_has_level \<and> \<not> user_rc_has_level
                         then snd (doc_put_in outer child [field (cs ''level'', D_utf8 (the (rc_level (the txn_rc))))]) else child);
                child = (if has_timestamp
                         then snd (doc_put_in outer child [field (cs ''afterClusterTime'',
                           D_timestamp (cs_operation_timestamp session) (cs_operation_increment session))]) else child) in
            Ret (cmd @ [field (cs ''readConcern'', D_document (doc_bytes child))])))"

definition mongoc_client_session_append :: "client_session \<Rightarrow> doc \<Rightarrow> bool \<times> doc" where
  "mongoc_client_session_append session opts =
     doc_put opts (cs ''sessionId'') (D_int64 (ucast (cs_client_session_id session)))"

section \<open>Commit and abort\<close>

record cmd_result =
  cr_ok :: bool
  cr_error :: bson_error
  cr_reply :: bson_view

type_synonym 'w run_command = "'w \<Rightarrow> client_session \<Rightarrow> doc \<Rightarrow> doc \<Rightarrow> (cmd_result \<times> client_session \<times> 'w) outcome"

definition append_recovery_token :: "client_session \<Rightarrow> doc \<Rightarrow> doc outcome" where
  "append_recovery_token session cmd = (case cs_recovery_token session of None \<Rightarrow> Ret cmd
     | Some t \<Rightarrow> cbind (rdn (bv_data t) 0 (unat (bv_len t))) (\<lambda>bytes. Ret (doc_add cmd (cs ''recoveryToken'') (D_document bytes))))"

definition txn_abort :: "'w run_command \<Rightarrow> 'w \<Rightarrow> client_session \<Rightarrow> (bool \<times> client_session \<times> 'w) outcome" where
  "txn_abort run w session = (case mongoc_client_session_append session [] of (ok, opts) \<Rightarrow>
     if \<not> ok then Ret (False, session, w)
     else
       cbind (if to_write_concern (cs_txn_opts session) \<noteq> None
              then mongoc_write_concern_append (to_write_concern (cs_txn_opts session)) opts
              else Ret (True, None, opts)) (\<lambda>(ok, wc, opts).
       let session = session\<lparr>cs_txn_opts := (cs_txn_opts session)\<lparr>to_write_concern := wc\<rparr>\<rparr> in
       if \<not> ok then Ret (False, session, w)
       else cbind (append_recovery_token session (doc_add [] (cs ''abortTransaction'') (D_int32 1))) (\<lambda>cmd.
         cbind (run w session cmd opts) (\<lambda>(res, session, w).
         cbind (mongoc_write_error_get_type (cr_ok res) (cr_error res) (cr_reply res)) (\<lambda>error_type.
         cbind (if error_type = MONGOC_WRITE_ERR_RETRY then run w (mongoc_client_session_unpin session) cmd opts
                else Ret (res, session, w)) (\<lambda>(res, session, w).
         Ret (cr_ok res, if \<not> cr_ok res then mongoc_client_session_unpin session else session, w)))))))"

definition create_commit_retry_wc :: "write_concern option \<Rightarrow> write_concern outcome" where
  "create_commit_retry_wc existing_wc =
     (let wc = (case mongoc_write_concern_copy existing_wc of Some wc \<Rightarrow> wc | None \<Rightarrow> mongoc_write_concern_new);
          wc = (if wc_wtimeout wc \<le> 0
                then mongoc_write_concern_set_wtimeout_int64 wc MONGOC_DEFAULT_WTIMEOUT_FOR_COMMIT_RETRY else wc) in
      mongoc_write_concern_set_w wc MONGOC_WRITE_CONCERN_W_MAJORITY)"

text \<open>
  One pass of \<open>txn_commit\<close> from the label \<open>retry\<close> to the classification of the error; \<open>None\<close> is
  \<open>goto done\<close> before anything was sent.
\<close>

definition txn_commit_pass ::
  "'w run_command \<Rightarrow> mongoc_client \<Rightarrow> doc \<Rightarrow> bool \<Rightarrow> write_concern option \<Rightarrow> 'w \<Rightarrow> client_session \<Rightarrow>
     ((cmd_result \<times> write_err_type) option \<times> write_concern option \<times> client_session \<times> 'w) outcome" where
  "txn_commit_pass run client cmd retrying retry_wc w session =
     (case mongoc_client_session_append session [] of (ok, opts) \<Rightarrow>
      if \<not> ok then Ret (None, retry_wc, session, w)
      else
        let max_time = to_max_commit_time_ms (cs_txn_opts session) in
        case (if max_time \<noteq> DEFAULT_MAX_COMMIT_TIME_MS
              then doc_put opts (cs ''maxTimeMS'') (D_int64 (word_of_int max_time)) else (True, opts)) of (ok, opts) \<Rightarrow>
        if \<not> ok then Ret (None, retry_wc, session, w)
        else
          let txn_wc = to_write_concern (cs_txn_opts session) in
          cbind (if retry_wc = None \<and> retrying
                 then cbind (create_commit_retry_wc (if txn_wc \<noteq> None then txn_wc else cl_write_concern client)) (\<lambda>wc. Ret (Some wc))
                 else Ret retry_wc) (\<lambda>retry_wc.
          cbind (if retry_wc \<noteq> None then mongoc_write_concern_append retry_wc opts
                 else if txn_wc \<noteq> None then mongoc_write_concern_append txn_wc opts
                 else Ret (True, None, opts)) (\<lambda>(ok, wc, opts).
          let session = (if retry_wc = None then session\<lparr>cs_txn_opts := (cs_txn_opts session)\<lparr>to_write_concern := wc\<rparr>\<rparr> else session);
              retry_wc = (if retry_wc \<noteq> None then wc else None) in
          if \<not> ok then Ret (None, retry_wc, session, w)
          else cbind (run w session cmd opts) (\<lambda>(res, session, w).
               cbind (mongoc_write_error_get_type (cr_ok res) (cr_error res) (cr_reply res)) (\<lambda>error_type.
               Ret (Some (res, error_type), retry_wc, session, w))))))"

definition fresh_heap :: bheap where
  "fresh_heap = \<lparr>h_cells = Map.empty, h_next = 0\<rparr>"

text \<open>\<open>i\<close>, the labels under construction and the memory are the state of the loop over the labels.\<close>

definition copy_label_body :: "bson_iter \<Rightarrow> u32 \<times> bson_t \<times> bheap \<Rightarrow> (bool \<times> u32 \<times> bson_t \<times> bheap) outcome" where
  "copy_label_body it = (\<lambda>(i, dst_labels, h).
     cbind (bson_iter_type it) (\<lambda>t.
     if t \<noteq> BSON_TYPE_UTF8 then Ret (False, i, dst_labels, h)
     else cbind (bson_iter_utf8 it) (\<lambda>(p, _). cbind (cstr_at p) (\<lambda>label. case label of None \<Rightarrow> Fault
       | Some label \<Rightarrow>
           if label \<noteq> UNKNOWN_COMMIT_RESULT then
             let key = cs (fst (bson_uint32_to_string (i + 1) 16)) in
             cbind (bson_append_utf8 h dst_labels (key @ [0]) (int (length key)) p (int (length label))) (\<lambda>(_, dst_labels, h).
             Ret (True, i + 1, dst_labels, h))
           else Ret (True, i, dst_labels, h)))))"

definition copy_labels_plus_unknown_commit_result :: "bheap \<Rightarrow> bson_view \<Rightarrow> bson_t \<Rightarrow> (bson_t \<times> bheap) outcome" where
  "copy_labels_plus_unknown_commit_result h src dst =
     cbind (bson_append_array_begin h dst (cs ''errorLabels'' @ [0]) 11) (\<lambda>(child, dst, h). case child of None \<Rightarrow> Fault
     | Some dst_labels \<Rightarrow>
         cbind (bson_append_utf8 h dst_labels [0x30, 0] 1 (Some (UNKNOWN_COMMIT_RESULT @ [0])) 30) (\<lambda>(_, dst_labels, h).
         cbind (bson_iter_init_find src (cs ''errorLabels'' @ [0])) (\<lambda>(found, it).
         cbind (if found then bson_iter_recurse it else Ret None) (\<lambda>src_label.
         cbind (case src_label of None \<Rightarrow> Ret (0, dst_labels, h)
           | Some it \<Rightarrow> cbind (iter_while (iter_fuel it) copy_label_body it (0, dst_labels, h)) (\<lambda>(_, s). Ret s)) (\<lambda>(i, dst_labels, h).
         cbind (bson_append_array_end h dst dst_labels) (\<lambda>(_, dst, h). Ret (dst, h)))))))"

text \<open>The reply for the caller of \<open>txn_commit\<close>, who has initialised it.\<close>

definition unknown_commit :: "cmd_result \<Rightarrow> write_err_type \<Rightarrow> bool" where
  "unknown_commit res error_type \<longleftrightarrow> \<not> cr_ok res \<and>
     (err_domain (cr_error res) = MONGOC_ERROR_SERVER_SELECTION \<or> error_type = MONGOC_WRITE_ERR_RETRY \<or>
      error_type = MONGOC_WRITE_ERR_WRITE_CONCERN \<or> err_code (cr_error res) = MONGOC_ERROR_MAX_TIME_MS_EXPIRED)"

definition txn_commit_reply :: "cmd_result \<Rightarrow> write_err_type \<Rightarrow> bson_view outcome" where
  "txn_commit_reply res error_type =
     (if unknown_commit res error_type then
        cbind (bson_copy_to_excluding_noinit fresh_heap (cr_reply res) bson_init [cs ''errorLabels'' @ [0]]) (\<lambda>(reply, h).
        cbind (copy_labels_plus_unknown_commit_result h (cr_reply res) reply) (\<lambda>(reply, h). bson_view_of h reply))
      else Ret (cr_reply res))"

text \<open>\<open>want_reply\<close> is whether the caller passed a \<open>reply\<close>; it comes back empty from the early exits.\<close>

definition txn_commit ::
  "'w run_command \<Rightarrow> mongoc_client \<Rightarrow> bool \<Rightarrow> bool \<Rightarrow> 'w \<Rightarrow> client_session \<Rightarrow> (bool \<times> bson_view \<times> client_session \<times> 'w) outcome" where
  "txn_commit run client explicitly_retrying want_reply w session =
     cbind (append_recovery_token session (doc_add [] (cs ''commitTransaction'') (D_int32 1))) (\<lambda>cmd.
     cbind (txn_commit_pass run client cmd explicitly_retrying None w session) (\<lambda>(sent, retry_wc, session, w).
     case sent of None \<Rightarrow> Ret (False, bson_empty_view, session, w)
     | Some (res, error_type) \<Rightarrow>
       cbind (if error_type = MONGOC_WRITE_ERR_RETRY
              then cbind (txn_commit_pass run client cmd True retry_wc w (mongoc_client_session_unpin session)) (\<lambda>(sent, _, session, w).
                   Ret (sent, session, w))
              else Ret (Some (res, error_type), session, w)) (\<lambda>(last, session, w).
       case last of None \<Rightarrow> Ret (cr_ok res, bson_empty_view, session, w)
       | Some (res, error_type) \<Rightarrow>
           let session = (if unknown_commit res error_type then mongoc_client_session_unpin session else session) in
           cbind (if want_reply then txn_commit_reply res error_type else Ret bson_empty_view) (\<lambda>reply.
           Ret (cr_ok res, reply, session, w)))))"

text \<open>
  The label with which tests make a commit fail goes into a reply of its own; the array of labels
  is begun and filled, but \<open>bson_append_array_end\<close> is not called. The wait for the test's time limit is left out.
\<close>

definition fail_commit_reply :: "cstr \<Rightarrow> bson_view outcome" where
  "fail_commit_reply label =
     cbind (bson_append_array_begin fresh_heap bson_init (cs ''errorLabels'' @ [0]) 11) (\<lambda>(child, reply, h). case child of None \<Rightarrow> Fault
     | Some labels \<Rightarrow> cbind (bson_append_utf8 h labels [0x30, 0] 1 (Some (label @ [0])) (int (length label))) (\<lambda>(_, labels, h).
         bson_view_of h reply))"

definition mongoc_client_session_commit_transaction ::
  "'w run_command \<Rightarrow> mongoc_client \<Rightarrow> bool \<Rightarrow> 'w \<Rightarrow> client_session \<Rightarrow> (bool \<times> bson_view \<times> client_session \<times> 'w) outcome" where
  "mongoc_client_session_commit_transaction run client want_reply w session = (case cs_fail_commit_label session of
       Some label \<Rightarrow> c_assert want_reply (cbind (fail_commit_reply label) (\<lambda>reply. Ret (False, reply, session, w)))
     | None \<Rightarrow>
       (case cs_state session of
          MONGOC_INTERNAL_TRANSACTION_NONE \<Rightarrow> Ret (False, bson_empty_view, session, w)
        | MONGOC_INTERNAL_TRANSACTION_STARTING \<Rightarrow>
            Ret (True, bson_empty_view, session\<lparr>cs_state := MONGOC_INTERNAL_TRANSACTION_COMMITTED_EMPTY\<rparr>, w)
        | MONGOC_INTERNAL_TRANSACTION_COMMITTED_EMPTY \<Rightarrow>
            Ret (True, bson_empty_view, session\<lparr>cs_state := MONGOC_INTERNAL_TRANSACTION_COMMITTED_EMPTY\<rparr>, w)
        | MONGOC_INTERNAL_TRANSACTION_ENDING \<Rightarrow> Abort
        | MONGOC_INTERNAL_TRANSACTION_ABORTED \<Rightarrow> Ret (False, bson_empty_view, session, w)
        | _ \<Rightarrow>
            let explicitly_retrying = (cs_state session = MONGOC_INTERNAL_TRANSACTION_COMMITTED) in
            cbind (txn_commit run client explicitly_retrying want_reply w
              (session\<lparr>cs_state := MONGOC_INTERNAL_TRANSACTION_ENDING\<rparr>)) (\<lambda>(r, reply, session, w).
            Ret (r, reply, session\<lparr>cs_state := MONGOC_INTERNAL_TRANSACTION_COMMITTED\<rparr>, w))))"

definition mongoc_client_session_abort_transaction ::
  "'w run_command \<Rightarrow> 'w \<Rightarrow> client_session \<Rightarrow> (bson_error option \<times> client_session \<times> 'w) outcome" where
  "mongoc_client_session_abort_transaction run w session = (case cs_state session of
       MONGOC_INTERNAL_TRANSACTION_STARTING \<Rightarrow>
         Ret (None, session\<lparr>cs_state := MONGOC_INTERNAL_TRANSACTION_ABORTED, cs_txn_opts := txn_opts_cleanup (cs_txn_opts session)\<rparr>, w)
     | MONGOC_INTERNAL_TRANSACTION_IN_PROGRESS \<Rightarrow>
         cbind (txn_abort run w (session\<lparr>cs_state := MONGOC_INTERNAL_TRANSACTION_ENDING\<rparr>)) (\<lambda>(_, session, w).
         Ret (None, session\<lparr>cs_state := MONGOC_INTERNAL_TRANSACTION_ABORTED\<rparr>, w))
     | MONGOC_INTERNAL_TRANSACTION_ENDING \<Rightarrow> Abort
     | _ \<Rightarrow> Ret (Some invalid_state, session, w))"

section \<open>Running a callback in a transaction\<close>

definition timeout_exceeded :: "int \<Rightarrow> int \<Rightarrow> bool" where
  "timeout_exceeded current_time expire_at \<longleftrightarrow> current_time \<ge> expire_at"

definition max_time_ms_failure :: "bson_view option \<Rightarrow> bool outcome" where
  "max_time_ms_failure reply = (case reply of None \<Rightarrow> Ret False
     | Some reply \<Rightarrow>
       cbind (find_typed reply (cs ''codeName'') BSON_TYPE_UTF8) (\<lambda>f.
       cbind (case f of None \<Rightarrow> Ret None | Some it \<Rightarrow> iter_utf8_str it) (\<lambda>name.
       if f \<noteq> None \<and> name = Some MAX_TIME_MS_EXPIRED then Ret True
       else cbind (bson_iter_find_descendant (snd (bson_iter_init reply)) (cs ''writeConcernError.codeName'' @ [0])) (\<lambda>f. case f of
           None \<Rightarrow> Ret False
         | Some descendant \<Rightarrow> cbind (bson_iter_type descendant) (\<lambda>t.
             if t \<noteq> BSON_TYPE_UTF8 then Ret False
             else cbind (iter_utf8_str descendant) (\<lambda>name. Ret (name = Some MAX_TIME_MS_EXPIRED)))))))"

text \<open>What the function uses: commands, the selection of a server, the monotonic clock (in microseconds) and the callback.\<close>

record 'w txn_env =
  te_run :: "'w run_command"
  te_select :: "'w \<Rightarrow> (bson_error + server_description) \<times> 'w"
  te_now :: "'w \<Rightarrow> int \<times> 'w"
  te_cb :: "'w \<Rightarrow> client_session \<Rightarrow> (bool \<times> bson_view option \<times> client_session \<times> 'w) outcome"

text \<open>\<open>mongoc_error_has_label (reply, label) && !timeout_exceeded (expire_at)\<close>, which reads the clock only when there is the label.\<close>

definition may_retry :: "'w txn_env \<Rightarrow> int \<Rightarrow> bson_view \<Rightarrow> cstr \<Rightarrow> 'w \<Rightarrow> (bool \<times> 'w) outcome" where
  "may_retry env expire_at reply label w =
     cbind (mongoc_error_has_label reply label) (\<lambda>has.
     Ret (if has then (case te_now env w of (t, w) \<Rightarrow> (\<not> timeout_exceeded t expire_at, w)) else (False, w)))"

text \<open>The inner loop, which retries the commit; \<open>None\<close> is the \<open>break\<close> to the outer loop. Out of fuel is \<open>Timeout\<close>.\<close>

fun with_txn_commit :: "nat \<Rightarrow> 'w txn_env \<Rightarrow> mongoc_client \<Rightarrow> int \<Rightarrow> 'w \<Rightarrow> client_session \<Rightarrow>
    ((bool \<times> bson_view) option \<times> client_session \<times> 'w) outcome" where
  "with_txn_commit 0 env client expire_at w session = Timeout"
| "with_txn_commit (Suc fuel) env client expire_at w session =
     cbind (mongoc_client_session_commit_transaction (te_run env) client True w session) (\<lambda>(res, reply, session, w).
     if res then Ret (Some (True, reply), session, w)
     else cbind (max_time_ms_failure (Some reply)) (\<lambda>expired.
       if expired then Ret (Some (False, reply), session, w)
       else cbind (may_retry env expire_at reply UNKNOWN_COMMIT_RESULT w) (\<lambda>(again, w).
         if again then with_txn_commit fuel env client expire_at w session
         else cbind (may_retry env expire_at reply TRANSIENT_TXN_ERR w) (\<lambda>(again, w).
           if again then Ret (None, session, w) else Ret (Some (False, reply), session, w)))))"

fun with_txn_loop :: "nat \<Rightarrow> 'w txn_env \<Rightarrow> mongoc_client \<Rightarrow> txn_opts option \<Rightarrow> int \<Rightarrow> 'w \<Rightarrow> client_session \<Rightarrow>
    (bool \<times> bson_view option \<times> client_session \<times> 'w) outcome" where
  "with_txn_loop 0 env client opts expire_at w session = Timeout"
| "with_txn_loop (Suc fuel) env client opts expire_at w session = (case te_select env w of (sel, w) \<Rightarrow>
     cbind (mongoc_client_session_start_transaction sel session opts) (\<lambda>(e, session).
     if e \<noteq> None then Ret (False, None, session, w)
     else cbind (te_cb env w session) (\<lambda>(res, reply, session, w).
       let state = cs_state session;
           active_reply = (case reply of None \<Rightarrow> bson_empty_view | Some r \<Rightarrow> r) in
       if \<not> res then
         cbind (if state \<in> {MONGOC_INTERNAL_TRANSACTION_STARTING, MONGOC_INTERNAL_TRANSACTION_IN_PROGRESS}
                then cbind (mongoc_client_session_abort_transaction (te_run env) w session) (\<lambda>(e, session, w).
                  c_assert (e = None) (Ret (session, w)))
                else Ret (session, w)) (\<lambda>(session, w).
         cbind (may_retry env expire_at active_reply TRANSIENT_TXN_ERR w) (\<lambda>(again, w).
         if again then with_txn_loop fuel env client opts expire_at w session
         else Ret (False, Some active_reply, session, w)))
       else if state \<in> {MONGOC_INTERNAL_TRANSACTION_ABORTED, MONGOC_INTERNAL_TRANSACTION_NONE,
                MONGOC_INTERNAL_TRANSACTION_COMMITTED, MONGOC_INTERNAL_TRANSACTION_COMMITTED_EMPTY}
       then Ret (True, Some active_reply, session, w)
       else cbind (with_txn_commit fuel env client expire_at w session) (\<lambda>(r, session, w). case r of
           Some (res, reply) \<Rightarrow> Ret (res, Some reply, session, w)
         | None \<Rightarrow> with_txn_loop fuel env client opts expire_at w session))))"

text \<open>The result, the reply (empty when none was set), the session and the world; a time that does not fit \<open>int64_t\<close> is a \<open>Fault\<close>.\<close>

definition mongoc_client_session_with_transaction :: "nat \<Rightarrow> 'w txn_env \<Rightarrow> mongoc_client \<Rightarrow> txn_opts option \<Rightarrow> 'w \<Rightarrow> client_session \<Rightarrow>
    (bool \<times> bson_view \<times> client_session \<times> 'w) outcome" where
  "mongoc_client_session_with_transaction fuel env client opts w session =
     (let timeout = (if cs_with_txn_timeout_ms session > 0 then cs_with_txn_timeout_ms session else WITH_TXN_TIMEOUT_MS) in
      case te_now env w of (now, w) \<Rightarrow>
      let expire_at = now + timeout * 1000 in
      if expire_at > INT64_MAX then Fault
      else cbind (with_txn_loop fuel env client opts expire_at w session) (\<lambda>(res, active_reply, session, w).
        cbind (case active_reply of None \<Rightarrow> Ret bson_empty_view | Some r \<Rightarrow> bson_view_copy r) (\<lambda>reply.
        Ret (res, reply, session, w))))"

definition mongoc_client_session_in_transaction :: "client_session \<Rightarrow> bool" where
  "mongoc_client_session_in_transaction session = mongoc_client_session_in_txn (Some session)"

text \<open>The lookup of a session of the client by its id (\<open>_mongoc_client_lookup_session\<close>) is an argument.\<close>

definition mongoc_client_session_from_iter ::
  "(u32 \<Rightarrow> bson_error + client_session) \<Rightarrow> bson_iter \<Rightarrow> (bson_error + client_session) outcome" where
  "mongoc_client_session_from_iter lookup it =
     cbind (bson_iter_type it) (\<lambda>t.
     cbind (if t = BSON_TYPE_INT64 then bson_iter_int64 it else Ret 0) (\<lambda>id.
     if t \<noteq> BSON_TYPE_INT64 \<or> sint id > 0xffffffff then Ret (Inl invalid_arg)
     else Ret (lookup (ucast id))))"

end
