(* ===== verification/Mongoc_Reply_Props.thy ===== *)
theory Mongoc_Reply_Props
  imports Mongoc_Session Bson_Document_Props
begin

text \<open>
  Replies of servers: a reply is a view of a document with known fields. Its error fields can be read, the
  error labels are those of the array \<open>errorLabels\<close>, and the reply that \<open>txn_commit\<close> makes has the label
  \<open>UnknownTransactionCommitResult\<close>, the other labels and the other fields.
\<close>

section \<open>Fields of a reply\<close>

text \<open>A value that is well formed one level down, where the driver looks into it.\<close>

definition nested :: "bson_data \<Rightarrow> bool" where
  "nested x \<longleftrightarrow> (\<forall>d. x = D_document d \<or> x = D_array d \<longrightarrow> (\<exists>gs. list_all field_ok gs \<and> d = doc_bytes (map field gs)))"

definition reply_fields :: "bson_view \<Rightarrow> (byte list \<times> bson_data) list \<Rightarrow> bool" where
  "reply_fields v fs \<longleftrightarrow> views v (map field fs) \<and> list_all field_ok fs \<and>
     (\<forall>(k, x) \<in> set fs. k = cs ''errorLabels'' \<or> k = cs ''writeConcernError'' \<longrightarrow> nested x)"

text \<open>The replies a driver gets: at most 64 MiB, where the largest message of a server is 48 MB.\<close>

definition reply_ok :: "bson_view \<Rightarrow> bool" where
  "reply_ok v \<longleftrightarrow> (\<exists>fs. reply_fields v fs \<and> length (doc_bytes (map field fs)) \<le> 2 ^ 26)"

lemma find_field: "find (\<lambda>(t, k, v). k = key) (map field fs) = map_option (\<lambda>x. field (key, x)) (map_of fs key)"
  by (induction fs) auto

lemma fields_doc_ok: "views v (map field fs) \<Longrightarrow> list_all field_ok fs \<Longrightarrow> doc_ok (map field fs)"
  by (auto simp: doc_ok_def views_def list_all_iff field_elem_ok)

lemma member_length: "(k, x) \<in> set fs \<Longrightarrow> length (data_bytes x) \<le> length (enc_elems (map field fs))"
  by (induction fs) auto

lemma find_on:
  assumes "views v (map field fs)" "list_all field_ok fs" "0 \<notin> set key"
  shows "\<exists>it. bson_iter_init_find v (key @ [0]) = Ret (map_of fs key \<noteq> None, it) \<and>
    (\<forall>x. map_of fs key = Some x \<longrightarrow> (\<exists>data len. iter_on data len (data_type x, key, data_bytes x) it))"
proof -
  have ok: "list_all elem_ok (map field fs)" using assms(2) by (auto simp: list_all_iff field_elem_ok)
  obtain junk where i: "bson_iter_init v = (True, iter_start (doc_bytes (map field fs) @ junk) (of_nat (length (doc_bytes (map field fs)))))"
    "doc_ok (map field fs)" by (rule views_init [OF assms(1) ok])
  from find_w_len_start [OF i(2) assms(3), of junk 0 "[]", unfolded find_field] assms(3) show ?thesis
    by (auto simp: bson_iter_init_find_def iter_init_and_def i(1) bson_iter_find_def bson_iter_find_w_len_def c_strlen_terminated)
      blast
qed

lemma find_typed_on:
  assumes "views v (map field fs)" "list_all field_ok fs" "0 \<notin> set key"
  shows "\<exists>r. find_typed v key t = Ret r \<and> (\<forall>it. r = Some it \<longrightarrow>
    (\<exists>x data len. map_of fs key = Some x \<and> data_type x = t \<and> iter_on data len (data_type x, key, data_bytes x) it))"
proof -
  obtain it where f: "bson_iter_init_find v (key @ [0]) = Ret (map_of fs key \<noteq> None, it)"
    "\<And>x. map_of fs key = Some x \<Longrightarrow> \<exists>data len. iter_on data len (data_type x, key, data_bytes x) it" using find_on [OF assms] by blast
  show ?thesis
  proof (cases "map_of fs key")
    case None
    then show ?thesis using f(1) by (simp add: find_typed_def)
  next
    case (Some x)
    from f(2) [OF Some] obtain data len where on: "iter_on data len (data_type x, key, data_bytes x) it" by blast
    with Some f(1) on_key(2) [OF on assms(3)] show ?thesis by (cases "data_type x = t") (auto simp: find_typed_def)
  qed
qed

lemma type_utf8: "data_type x = BSON_TYPE_UTF8 \<Longrightarrow> \<exists>s. x = D_utf8 s"
  and type_int32: "data_type x = BSON_TYPE_INT32 \<Longrightarrow> \<exists>i. x = D_int32 i"
  and type_document: "data_type x = BSON_TYPE_DOCUMENT \<Longrightarrow> \<exists>d. x = D_document d"
  by (cases x; simp add: bson_type_defs)+

lemma on_c_str:
  assumes "iter_on data len (data_type (D_utf8 s), k, data_bytes (D_utf8 s)) it"
  shows "iter_utf8_str it = Ret (Some (c_str s))"
    "\<exists>r n. bson_iter_utf8 it = Ret (Some (c_str s @ 0 # r), n)"
proof -
  obtain p n where p: "iter_string BSON_TYPE_UTF8 it = Ret (p, n)" "ptr_len p n s [0]"
    using on_string [of data len BSON_TYPE_UTF8 k s it] assms by auto
  then obtain r where r: "p = Some (s @ 0 # r)" by (auto simp: ptr_len_def ptr_to_def)
  with c_str_split [of s r] p show "\<exists>r n. bson_iter_utf8 it = Ret (Some (c_str s @ 0 # r), n)"
    by (auto simp: bson_iter_utf8_def)
  have "takeWhile (\<lambda>b. b \<noteq> 0) (s @ 0 # r) = c_str s" by (induction s) (auto simp: c_str_def)
  with p r show "iter_utf8_str it = Ret (Some (c_str s))" by (simp add: iter_utf8_str_def bson_iter_utf8_def cstr_at_def)
qed

lemma recurse_nested:
  assumes on: "iter_on data len (data_type x, k, data_bytes x) it" and x: "nested x" and small: "length (data_bytes x) \<le> INT32_MAX"
  shows "(\<nexists>d. x = D_document d \<or> x = D_array d) \<and> bson_iter_recurse it = Ret None \<or>
    (\<exists>gs junk. (x = D_document (doc_bytes (map field gs)) \<or> x = D_array (doc_bytes (map field gs))) \<and> list_all field_ok gs \<and> doc_ok (map field gs) \<and>
       bson_iter_recurse it = Ret (Some (iter_start (doc_bytes (map field gs) @ junk) (of_nat (length (doc_bytes (map field gs)))))))"
proof (cases "\<exists>d. x = D_document d \<or> x = D_array d")
  case False
  then have "data_type x \<noteq> BSON_TYPE_DOCUMENT" "data_type x \<noteq> BSON_TYPE_ARRAY" by (cases x; simp add: bson_type_defs)+
  then have "bson_iter_recurse it = Ret None" using on_fixed(1) [OF on] by (simp add: bson_iter_recurse_def)
  with False show ?thesis by blast
next
  case True
  then obtain d where d: "x = D_document d \<or> x = D_array d" by blast
  with x obtain gs where gs: "list_all field_ok gs" "d = doc_bytes (map field gs)" unfolding nested_def by blast
  have ok: "doc_ok (map field gs)" using gs d small by (auto simp: doc_ok_def list_all_iff field_elem_ok)
  have "data_type x \<in> {BSON_TYPE_DOCUMENT, BSON_TYPE_ARRAY}" "iter_on data len (data_type x, k, doc_bytes (map field gs)) it"
    using d gs(2) on by auto
  from recurse_into(2) [OF this(2,1) ok] gs ok d show ?thesis by blast
qed

section \<open>Error labels\<close>

text \<open>The labels in the elements of an array: its strings.\<close>

fun label_of :: "byte list \<times> bson_data \<Rightarrow> cstr option" where
  "label_of (k, D_utf8 s) = Some (c_str s)"
| "label_of (k, x) = None"

lemma label_of_type: "label_of (k, x) = None \<longleftrightarrow> data_type x \<noteq> BSON_TYPE_UTF8"
  by (cases x) (simp_all add: bson_type_defs)

definition labels_of :: "(byte list \<times> bson_data) list \<Rightarrow> cstr list" where
  "labels_of gs = List.map_filter label_of gs"

lemma labels_of_simps [simp]:
  "labels_of [] = []" "labels_of (g # gs) = (case label_of g of None \<Rightarrow> labels_of gs | Some l \<Rightarrow> l # labels_of gs)"
  by (simp_all add: labels_of_def map_filter_simps split: option.split)

lemma label_body_on:
  assumes "iter_on data len (field g) it" "field_ok g"
  shows "error_label_body label it found = Ret (case label_of g of None \<Rightarrow> (True, found) | Some l \<Rightarrow> (l \<noteq> label, l = label))"
proof -
  obtain k x where g: "g = (k, x)" by (cases g)
  have on: "iter_on data len (data_type x, k, data_bytes x) it" "0 \<notin> set k" using assms g by auto
  note t = on_key(2) [OF on]
  show ?thesis
  proof (cases "data_type x = BSON_TYPE_UTF8")
    case True
    then obtain s where "x = D_utf8 s" using type_utf8 by blast
    with on_c_str(1) [of data len s k it] on t g show ?thesis by (simp add: error_label_body_def)
  next
    case False
    with t g label_of_type [of k x] show ?thesis by (simp add: error_label_body_def)
  qed
qed

lemma labels_while:
  "elems_while (\<lambda>g found. case label_of g of None \<Rightarrow> (True, found) | Some l \<Rightarrow> (l \<noteq> label, l = label)) gs found =
     (label \<notin> set (labels_of gs), if label \<in> set (labels_of gs) then True else if labels_of gs = [] then found else False)"
  by (induction gs arbitrary: found) (auto split: option.splits)

definition no_labels :: "(byte list \<times> bson_data) list \<Rightarrow> bool" where
  "no_labels fs \<longleftrightarrow> (case map_of fs (cs ''errorLabels'') of None \<Rightarrow> True | Some x \<Rightarrow> \<nexists>d. x = D_document d \<or> x = D_array d)"

definition has_labels :: "(byte list \<times> bson_data) list \<Rightarrow> (byte list \<times> bson_data) list \<Rightarrow> bool" where
  "has_labels fs gs \<longleftrightarrow> list_all field_ok gs \<and> (map_of fs (cs ''errorLabels'') = Some (D_document (doc_bytes (map field gs))) \<or>
     map_of fs (cs ''errorLabels'') = Some (D_array (doc_bytes (map field gs))))"

lemma errorLabels_no_nul [simp]: "0 \<notin> set (cs ''errorLabels'')" "0 \<notin> set (cs ''writeConcernError'')"
  by (simp_all add: cs_def)

lemma reply_member:
  assumes "reply_fields v fs" "map_of fs k = Some x"
  shows "field_ok (k, x)" "length (data_bytes x) \<le> INT32_MAX" "k = cs ''errorLabels'' \<or> k = cs ''writeConcernError'' \<Longrightarrow> nested x"
  using assms map_of_SomeD [OF assms(2)] member_length [OF map_of_SomeD [OF assms(2)]]
  by (auto simp: reply_fields_def list_all_iff views_def length_doc_bytes)

text \<open>Where the search for the labels of a reply arrives.\<close>

lemma labels_found:
  assumes "reply_fields v fs" "has_labels fs gs"
  shows "\<exists>it junk. doc_ok (map field gs) \<and> bson_iter_init_find v (cs ''errorLabels'' @ [0]) = Ret (True, it) \<and>
    bson_iter_recurse it = Ret (Some (iter_start (doc_bytes (map field gs) @ junk) (of_nat (length (doc_bytes (map field gs))))))"
proof -
  have v: "views v (map field fs)" "list_all field_ok fs" using assms(1) by (auto simp: reply_fields_def)
  from assms(2) obtain x where x: "map_of fs (cs ''errorLabels'') = Some x" "list_all field_ok gs" "data_bytes x = doc_bytes (map field gs)"
    "data_type x \<in> {BSON_TYPE_DOCUMENT, BSON_TYPE_ARRAY}" by (auto simp: has_labels_def)
  obtain it data len where f: "bson_iter_init_find v (cs ''errorLabels'' @ [0]) = Ret (True, it)"
    "iter_on data len (data_type x, cs ''errorLabels'', doc_bytes (map field gs)) it"
    using find_on [OF v errorLabels_no_nul(1)] x(1,3) by auto
  have "doc_ok (map field gs)"
    using x(2) reply_member(2) [OF assms(1) x(1)] x(3) by (auto simp: doc_ok_def list_all_iff field_elem_ok)
  with recurse_into(2) [OF f(2) x(4) this] f(1) show ?thesis by blast
qed

lemma labels_missing:
  assumes "reply_fields v fs" "no_labels fs"
  shows "\<exists>it. bson_iter_init_find v (cs ''errorLabels'' @ [0]) = Ret (False, it) \<or>
    bson_iter_init_find v (cs ''errorLabels'' @ [0]) = Ret (True, it) \<and> bson_iter_recurse it = Ret None"
proof -
  have v: "views v (map field fs)" "list_all field_ok fs" using assms(1) by (auto simp: reply_fields_def)
  obtain it where f: "bson_iter_init_find v (cs ''errorLabels'' @ [0]) = Ret (map_of fs (cs ''errorLabels'') \<noteq> None, it)"
    "\<And>x. map_of fs (cs ''errorLabels'') = Some x \<Longrightarrow> \<exists>data len. iter_on data len (data_type x, cs ''errorLabels'', data_bytes x) it"
    using find_on [OF v errorLabels_no_nul(1)] by blast
  show ?thesis
  proof (cases "map_of fs (cs ''errorLabels'')")
    case (Some x)
    from f(2) [OF Some] obtain data len where "iter_on data len (data_type x, cs ''errorLabels'', data_bytes x) it" by blast
    from recurse_nested [OF this] reply_member [OF assms(1) Some] assms(2) f(1) Some show ?thesis by (auto simp: no_labels_def)
  qed (use f(1) in auto)
qed

definition labels_are :: "(byte list \<times> bson_data) list \<Rightarrow> (byte list \<times> bson_data) list \<Rightarrow> bool" where
  "labels_are fs gs \<longleftrightarrow> no_labels fs \<and> gs = [] \<or> has_labels fs gs"

lemma labels_are_some:
  assumes "reply_fields v fs"
  shows "\<exists>gs. labels_are fs gs"
proof (cases "no_labels fs")
  case False
  then obtain x d where x: "map_of fs (cs ''errorLabels'') = Some x" "x = D_document d \<or> x = D_array d"
    by (auto simp: no_labels_def split: option.splits)
  have "nested x" using reply_member(3) [OF assms x(1)] by simp
  with x(2) obtain gs where "list_all field_ok gs" "d = doc_bytes (map field gs)" unfolding nested_def by blast
  with x show ?thesis unfolding labels_are_def has_labels_def by blast
qed (auto simp: labels_are_def)

lemma has_label_of:
  assumes "reply_fields v fs" "has_labels fs gs"
  shows "mongoc_error_has_label v label = Ret (label \<in> set (labels_of gs))"
proof -
  from labels_found [OF assms] obtain it junk where l: "doc_ok (map field gs)"
    "bson_iter_init_find v (cs ''errorLabels'' @ [0]) = Ret (True, it)"
    "bson_iter_recurse it = Ret (Some (iter_start (doc_bytes (map field gs) @ junk) (of_nat (length (doc_bytes (map field gs))))))" by blast
  have "error_label_body label it' found = Ret (case label_of g of None \<Rightarrow> (True, found) | Some l \<Rightarrow> (l \<noteq> label, l = label))"
    if "g \<in> set gs" "iter_on data len (field g) it'" for data len it' g found
    using label_body_on [OF that(2)] assms(2) that(1) by (simp add: has_labels_def list_all_iff)
  note w = iter_while_start [OF l(1), where body = "error_label_body label" and s = False and junk = junk, OF this]
  from w l(2,3) show ?thesis by (simp add: mongoc_error_has_label_def labels_while)
qed

lemma has_label_Ret:
  assumes "reply_fields v fs"
  shows "\<exists>b. mongoc_error_has_label v label = Ret b"
proof -
  obtain gs where "labels_are fs gs" using labels_are_some [OF assms] by blast
  then consider "no_labels fs" | "has_labels fs gs" by (auto simp: labels_are_def)
  then show ?thesis
  proof cases
    case 1
    from labels_missing [OF assms this] show ?thesis by (auto simp: mongoc_error_has_label_def)
  next
    case 2
    from has_label_of [OF assms this] show ?thesis by blast
  qed
qed

section \<open>Reading errors\<close>

lemma find_string_Ret:
  assumes "views v (map field fs)" "list_all field_ok fs" "0 \<notin> set key"
  shows "\<exists>m msg. find_typed v key BSON_TYPE_UTF8 = Ret m \<and> (case m of None \<Rightarrow> Ret None | Some it \<Rightarrow> iter_utf8_str it) = Ret msg"
proof -
  obtain m where m: "find_typed v key BSON_TYPE_UTF8 = Ret m" "\<And>it. m = Some it \<Longrightarrow>
    \<exists>x data len. map_of fs key = Some x \<and> data_type x = BSON_TYPE_UTF8 \<and> iter_on data len (data_type x, key, data_bytes x) it"
    using find_typed_on [OF assms, of BSON_TYPE_UTF8] by blast
  show ?thesis
  proof (cases m)
    case (Some it)
    from m(2) [OF Some] type_utf8 obtain s data len where "iter_on data len (data_type (D_utf8 s), key, data_bytes (D_utf8 s)) it" by metis
    from on_c_str(1) [OF this] m(1) Some show ?thesis by simp
  qed (use m(1) in simp)
qed

lemma find_int32_Ret:
  assumes "views v (map field fs)" "list_all field_ok fs" "0 \<notin> set key"
  shows "\<exists>c code. find_typed v key BSON_TYPE_INT32 = Ret c \<and>
    (case c of None \<Rightarrow> Ret None | Some it \<Rightarrow> cbind (bson_iter_int32 it) (\<lambda>n. Ret (Some n))) = Ret code"
proof -
  obtain c where c: "find_typed v key BSON_TYPE_INT32 = Ret c" "\<And>it. c = Some it \<Longrightarrow>
    \<exists>x data len. map_of fs key = Some x \<and> data_type x = BSON_TYPE_INT32 \<and> iter_on data len (data_type x, key, data_bytes x) it"
    using find_typed_on [OF assms, of BSON_TYPE_INT32] by blast
  show ?thesis
  proof (cases c)
    case (Some it)
    from c(2) [OF Some] type_int32 obtain i data len where "iter_on data len (data_type (D_int32 i), key, data_bytes (D_int32 i)) it" by metis
    from on_scalar(1) [OF this] c(1) Some show ?thesis by simp
  qed (use c(1) in simp)
qed

text \<open>The same for the fields of the embedded document \<open>writeConcernError\<close>, seen as a view of its own.\<close>

lemma child_typed_view:
  assumes "bson_iter_recurse it = Ret (Some (iter_start (doc_bytes (map field gs) @ junk) (of_nat (length (doc_bytes (map field gs))))))"
    "doc_ok (map field gs)"
  shows "child_typed it key t = find_typed \<lparr>bv_data = doc_bytes (map field gs) @ junk, bv_len = of_nat (length (doc_bytes (map field gs)))\<rparr> key t"
    "views \<lparr>bv_data = doc_bytes (map field gs) @ junk, bv_len = of_nat (length (doc_bytes (map field gs)))\<rparr> (map field gs)"
proof -
  let ?v = "\<lparr>bv_data = doc_bytes (map field gs) @ junk, bv_len = of_nat (length (doc_bytes (map field gs)))\<rparr>"
  show v: "views ?v (map field gs)" using assms(2) by (simp add: views_def doc_ok_def)
  have "\<not> bv_len ?v < 5" using viewsD(1) [OF v] by (simp add: word_less_nat_alt length_doc_bytes)
  then show "child_typed it key t = find_typed ?v key t"
    by (simp add: child_typed_def find_typed_def assms(1) bson_iter_init_find_def iter_init_and_def bson_iter_init_def)
qed

lemma parse_error_Ret:
  assumes "reply_fields v fs"
  shows "\<exists>e. parse_error_reply v wce = Ret e"
proof -
  have v: "views v (map field fs)" "list_all field_ok fs" using assms by (auto simp: reply_fields_def)
  have nn: "0 \<notin> set (cs ''code'')" "0 \<notin> set (cs ''errmsg'')" "0 \<notin> set (cs ''$err'')" by (simp_all add: cs_def)
  obtain c code where c: "find_typed v (cs ''code'') BSON_TYPE_INT32 = Ret c"
    "(case c of None \<Rightarrow> Ret None | Some it \<Rightarrow> cbind (bson_iter_int32 it) (\<lambda>n. Ret (Some n))) = Ret code"
    using find_int32_Ret [OF v nn(1)] by blast
  obtain m msg where m: "find_typed v (cs ''errmsg'') BSON_TYPE_UTF8 = Ret m"
    "(case m of None \<Rightarrow> Ret None | Some it \<Rightarrow> iter_utf8_str it) = Ret msg" using find_string_Ret [OF v nn(2)] by blast
  obtain m' msg' where m': "find_typed v (cs ''$err'') BSON_TYPE_UTF8 = Ret m'"
    "(case m' of None \<Rightarrow> Ret None | Some it \<Rightarrow> iter_utf8_str it) = Ret msg'" using find_string_Ret [OF v nn(3)] by blast
  obtain w where w: "find_typed v (cs ''writeConcernError'') BSON_TYPE_DOCUMENT = Ret w" "\<And>it. w = Some it \<Longrightarrow>
    \<exists>x data len. map_of fs (cs ''writeConcernError'') = Some x \<and> data_type x = BSON_TYPE_DOCUMENT \<and>
      iter_on data len (data_type x, cs ''writeConcernError'', data_bytes x) it"
    using find_typed_on [OF v errorLabels_no_nul(2), of BSON_TYPE_DOCUMENT] by blast
  have inner: "\<exists>c code m msg. child_typed it (cs ''code'') BSON_TYPE_INT32 = Ret c \<and>
      (case c of None \<Rightarrow> Ret None | Some it \<Rightarrow> cbind (bson_iter_int32 it) (\<lambda>n. Ret (Some n))) = Ret code \<and>
      child_typed it (cs ''errmsg'') BSON_TYPE_UTF8 = Ret m \<and> (case m of None \<Rightarrow> Ret None | Some it \<Rightarrow> iter_utf8_str it) = Ret msg"
    if "w = Some it" for it
  proof -
    from w(2) [OF that] obtain x data len where x: "map_of fs (cs ''writeConcernError'') = Some x" "data_type x = BSON_TYPE_DOCUMENT"
      "iter_on data len (data_type x, cs ''writeConcernError'', data_bytes x) it" by blast
    note n = reply_member [OF assms x(1)]
    from recurse_nested [OF x(3) n(3,2)] type_document [OF x(2)] obtain gs junk where gs: "list_all field_ok gs" "doc_ok (map field gs)"
      "bson_iter_recurse it = Ret (Some (iter_start (doc_bytes (map field gs) @ junk) (of_nat (length (doc_bytes (map field gs))))))" by auto
    note cv = child_typed_view [OF gs(3,2)]
    from find_int32_Ret [OF cv(2) gs(1) nn(1)] find_string_Ret [OF cv(2) gs(1) nn(2)] show ?thesis unfolding cv(1) by blast
  qed
  obtain mm msgm where mm: "(case m of Some it \<Rightarrow> Ret (Some it) | None \<Rightarrow> Ret m') = Ret mm"
    "(case mm of None \<Rightarrow> Ret None | Some it \<Rightarrow> iter_utf8_str it) = Ret msgm" using m(2) m'(2) by (cases m) auto
  show ?thesis
    unfolding parse_error_reply_def c(1) cbind.simps c(2) m(1) m'(1) mm w(1)
    using inner by (cases w) (auto split: if_splits)
qed

lemma error_type_Ret: "reply_fields v fs \<Longrightarrow> \<exists>t. mongoc_write_error_get_type ok e v = Ret t"
  using parse_error_Ret [of v fs True] by (auto simp: mongoc_write_error_get_type_def mongoc_cmd_check_ok_no_wce_def)

section \<open>The reply of an uncertain commit\<close>

lemma iter_while_inv:
  assumes "iter_before data len (map g xs) it" "unat len - unat (it_next_off it) < fuel" "I xs s"
    "\<And>it x ys s. iter_on data len (g x) it \<Longrightarrow> I (x # ys) s \<Longrightarrow> \<exists>go s'. body it s = Ret (go, s') \<and> (if go then I ys s' else Q s')"
    "\<And>s. I [] s \<Longrightarrow> Q s"
  shows "\<exists>e s'. iter_while fuel body it s = Ret (e, s') \<and> Q s'"
  using assms(1-3)
proof (induction fuel arbitrary: it xs s)
  case (Suc fuel)
  show ?case
  proof (cases xs)
    case Nil
    with next_before [OF Suc.prems(1)] Suc.prems(3) assms(5) show ?thesis by auto
  next
    case (Cons x ys)
    with next_before [OF Suc.prems(1)] obtain it1 where n: "bson_iter_next it = Ret (True, it1)" "iter_on data len (g x) it1"
      "iter_before data len (map g ys) it1" "unat (it_next_off it) < unat (it_next_off it1)" "unat (it_next_off it1) < unat len" by auto
    obtain go s' where b: "body it1 s = Ret (go, s')" "if go then I ys s' else Q s'" using assms(4) [OF n(2)] Suc.prems(3) Cons by blast
    have "unat len - unat (it_next_off it1) < fuel" using n(4,5) Suc.prems(2) by linarith
    from Suc.IH [OF n(3) this] b n(1) show ?thesis by (cases go) auto
  qed
qed simp

text \<open>The labels that are copied: the strings up to the first element of another type, without the one that is added.\<close>

fun commit_labels :: "(byte list \<times> bson_data) list \<Rightarrow> cstr list" where
  "commit_labels [] = []"
| "commit_labels (g # gs) = (case label_of g of None \<Rightarrow> []
     | Some l \<Rightarrow> if l \<noteq> UNKNOWN_COMMIT_RESULT then l # commit_labels gs else commit_labels gs)"

definition label_fields :: "cstr list \<Rightarrow> (byte list \<times> bson_data) list" where
  "label_fields ls = map (\<lambda>(i, l). (cs (fmt_u i), D_utf8 l)) (List.enumerate 0 ls)"

lemma label_fields_snoc: "label_fields (ls @ [l]) = label_fields ls @ [(cs (fmt_u (length ls)), D_utf8 l)]"
  by (simp add: label_fields_def enumerate_append_eq)

lemma cs_fmt_u: "0 \<notin> set (cs (fmt_u n))" "n < 2 ^ 32 \<Longrightarrow> length (cs (fmt_u n)) \<le> 10"
proof -
  have "of_char (dec_digit d) \<noteq> (0 :: byte)" if "d < 10" for d
  proof -
    have "d = 0 \<or> d = 1 \<or> d = 2 \<or> d = 3 \<or> d = 4 \<or> d = 5 \<or> d = 6 \<or> d = 7 \<or> d = 8 \<or> d = 9" using that by arith
    then show ?thesis by (auto simp: dec_digit_simps)
  qed
  then show "0 \<notin> set (cs (fmt_u n))"
    by (induction n rule: fmt_u.induct) (subst fmt_u.simps, auto simp: cs_def eq_commute [of 0])
  show "n < 2 ^ 32 \<Longrightarrow> length (cs (fmt_u n)) \<le> 10" using length_fmt_u [of n 10] by (simp add: cs_def)
qed

lemma label_fields_ok: "list_all field_ok (label_fields ls)"
  by (auto simp: label_fields_def list_all_iff cs_fmt_u)

lemma fields_count: "length fs \<le> length (enc_elems (map field fs))"
  by (induction fs) auto

definition child_roomy :: "nat \<Rightarrow> bson_t \<Rightarrow> bool" where
  "child_roomy k b \<longleftrightarrow> \<not> has_flag b BSON_FLAG_INLINE \<and> b_realloc b \<and> unat (b_depth b) = 1 \<and> unat (b_offset b) = k"

lemma child_roomy_keeps: "child_roomy k b \<Longrightarrow> keeps h b h' b' \<Longrightarrow> child_roomy k b'"
  by (auto simp: child_roomy_def keeps_def has_flag_def)

lemma child_roomy_room:
  assumes "child_roomy k b" "bson_rep h b es" "k + length (enc_elems es) + n + 6 \<le> 2 ^ 30"
  shows "has_room h b n"
proof -
  have "unat (b_len b) = length (enc_elems es) + 5" using assms(2) by (auto simp: bson_rep_def bson_holds_def length_doc_bytes)
  with assms show ?thesis by (simp add: has_room_def child_roomy_def Let_def)
qed

lemma append_label:
  assumes "child_roomy k b" "bson_rep h b (map field (label_fields ls))" "length ls < 2 ^ 30" "0 \<notin> set l"
    "k + length (enc_elems (map field (label_fields ls))) + length l + 30 \<le> 2 ^ 30"
  shows "\<exists>b' h'. bson_append_utf8 h b (cs (fmt_u (length ls)) @ [0]) (int (length (cs (fmt_u (length ls))))) (Some (l @ 0 # r)) (int (length l)) =
      Ret (True, b', h') \<and> keeps h b h' b' \<and> bson_rep h' b' (map field (label_fields (ls @ [l]))) \<and>
    length (enc_elems (map field (label_fields (ls @ [l])))) \<le> length (enc_elems (map field (label_fields ls))) + length l + 17"
proof -
  let ?k = "cs (fmt_u (length ls))"
  have kl: "length ?k \<le> 10" by (rule cs_fmt_u(2)) (use assms(3) in simp)
  have "key_arg (?k @ [0]) (int (length ?k)) ?k" using kl by (simp add: key_arg_def INT32_MAX_def)
  moreover have "string_arg (Some (l @ 0 # r), int (length l), l)" using assms(5) by (auto simp: string_arg_def ptr_to_def INT32_MAX_def)
  moreover have "elem_small (BSON_TYPE_UTF8, ?k, enc_string l)" using assms(5) kl by (simp add: elem_small_def enc_string_def INT32_MAX_def)
  ultimately have "appends h b (map field (label_fields ls)) [(BSON_TYPE_UTF8, ?k, enc_string l)]
      (bson_append_utf8 h b (?k @ [0]) (int (length ?k)) (Some (l @ 0 # r)) (int (length l)))"
    using w_utf8.writes [OF assms(2), of "?k @ [0]" "int (length ?k)" ?k "(Some (l @ 0 # r), int (length l), l)"] by simp
  moreover have "has_room h b (length (enc_elems [(BSON_TYPE_UTF8, ?k, enc_string l)]))"
    by (rule child_roomy_room [OF assms(1,2)]) (use assms(5) kl in \<open>simp add: enc_string_def\<close>)
  ultimately show ?thesis using kl by (auto simp: appends_def label_fields_snoc enc_string_def)
qed

text \<open>The labels in the child \<open>dst\<close> of the reply under construction, while \<open>zs\<close> are still to be read.\<close>

definition labels_inv :: "bheap \<Rightarrow> bson_t \<Rightarrow> nat \<Rightarrow> cstr list \<Rightarrow> (byte list \<times> bson_data) list \<Rightarrow> u32 \<times> bson_t \<times> bheap \<Rightarrow> bool" where
  "labels_inv h0 c k all zs = (\<lambda>(i, dst, h). list_all field_ok zs \<and> (\<exists>ls. unat i = length ls \<and> ls @ commit_labels zs = all \<and>
     bson_rep h dst (map field (label_fields (UNKNOWN_COMMIT_RESULT # ls))) \<and> keeps h0 c h dst \<and> child_roomy k dst \<and>
     k + length (enc_elems (map field (label_fields (UNKNOWN_COMMIT_RESULT # ls)))) + 3 * length (enc_elems (map field zs)) + 30 \<le> 2 ^ 30))"

definition labels_post :: "bheap \<Rightarrow> bson_t \<Rightarrow> cstr list \<Rightarrow> u32 \<times> bson_t \<times> bheap \<Rightarrow> bool" where
  "labels_post h0 c all = (\<lambda>(i, dst, h). bson_rep h dst (map field (label_fields (UNKNOWN_COMMIT_RESULT # all))) \<and> keeps h0 c h dst)"

lemma labels_inv_Nil: "labels_inv h0 c k all [] s \<Longrightarrow> labels_post h0 c all s"
  by (auto simp: labels_inv_def labels_post_def)

lemma c_str_length: "length (c_str s) \<le> length s"
  by (simp add: c_str_def length_takeWhile_le)

lemma copy_label_step:
  assumes on: "iter_on data len (field g) it" and inv: "labels_inv h0 c k all (g # zs) s"
  shows "\<exists>go s'. copy_label_body it s = Ret (go, s') \<and> (if go then labels_inv h0 c k all zs s' else labels_post h0 c all s')"
proof -
  obtain i dst h where s: "s = (i, dst, h)" by (cases s)
  obtain key x where g: "g = (key, x)" by (cases g)
  from inv obtain ls where ls: "unat i = length ls" "ls @ commit_labels (g # zs) = all"
    "bson_rep h dst (map field (label_fields (UNKNOWN_COMMIT_RESULT # ls)))" "keeps h0 c h dst" "child_roomy k dst"
    "k + length (enc_elems (map field (label_fields (UNKNOWN_COMMIT_RESULT # ls)))) + 3 * length (enc_elems (map field (g # zs))) + 30 \<le> 2 ^ 30"
    and ok: "field_ok g" "list_all field_ok zs" by (auto simp: labels_inv_def s)
  have on': "iter_on data len (data_type x, key, data_bytes x) it" "0 \<notin> set key" using on g ok by auto
  note t = on_key(2) [OF on']
  show ?thesis
  proof (cases "label_of g")
    case None
    with t label_of_type [of key x] g ls show ?thesis by (auto simp: copy_label_body_def s labels_post_def)
  next
    case (Some l)
    with label_of_type [of key x] g have "data_type x = BSON_TYPE_UTF8" by auto
    then obtain str where str: "x = D_utf8 str" "l = c_str str" using type_utf8 Some g by fastforce
    obtain r n where u: "bson_iter_utf8 it = Ret (Some (l @ 0 # r), n)" using on_c_str(2) [of data len str key it] on'(1) str by auto
    have l0: "0 \<notin> set l" using str(2) c_str_no_nul by simp
    then have "takeWhile (\<lambda>b. b \<noteq> 0) (l @ 0 # r) = l" by (induction l) auto
    then have at: "cstr_at (Some (l @ 0 # r)) = Ret (Some l)" by (simp add: cstr_at_def)
    show ?thesis
    proof (cases "l = UNKNOWN_COMMIT_RESULT")
      case True
      have "labels_inv h0 c k all zs s" using ls ok Some True by (auto simp: labels_inv_def s intro!: exI [of _ ls])
      with True t str(1) u at show ?thesis by (auto simp: copy_label_body_def s)
    next
      case False
      let ?n = "length (enc_elems (map field (label_fields (UNKNOWN_COMMIT_RESULT # ls))))"
      have "length (label_fields (UNKNOWN_COMMIT_RESULT # ls)) \<le> ?n" by (rule fields_count)
      then have cnt: "length (UNKNOWN_COMMIT_RESULT # ls) < 2 ^ 30" using ls(6) by (simp add: label_fields_def)
      have i1: "unat (i + 1) = length (UNKNOWN_COMMIT_RESULT # ls)" using ls(1) cnt by (simp add: word_nat)
      have size: "length l + 7 \<le> length (enc_elem (field g))" using c_str_length [of str] str by (simp add: g enc_string_def)
      have "k + ?n + length l + 30 \<le> 2 ^ 30" using ls(6) size by simp
      from append_label [OF ls(5,3) cnt l0 this, of r] obtain dst' h' where
        a: "bson_append_utf8 h dst (cs (fmt_u (unat (i + 1))) @ [0]) (int (length (cs (fmt_u (unat (i + 1)))))) (Some (l @ 0 # r)) (int (length l)) =
          Ret (True, dst', h')" "keeps h dst h' dst'" "bson_rep h' dst' (map field (label_fields (UNKNOWN_COMMIT_RESULT # ls @ [l])))"
        "length (enc_elems (map field (label_fields (UNKNOWN_COMMIT_RESULT # ls @ [l])))) \<le> ?n + length l + 17" unfolding i1 by auto
      have "labels_inv h0 c k all zs (i + 1, dst', h')"
        unfolding labels_inv_def prod.case
        by (intro conjI exI [of _ "ls @ [l]"])
          (use ok ls i1 a Some False size keeps_trans [OF ls(4) a(2)] child_roomy_keeps [OF ls(5) a(2)] in auto)
      with False t str(1) u at a(1) show ?thesis
        by (auto simp: copy_label_body_def s Let_def uint32_to_string_fmt)
    qed
  qed
qed

lemma begin_labels:
  assumes "bson_rep h dst es" "roomy dst" "length (enc_elems es) \<le> 2 ^ 29"
  shows "\<exists>b1 h1. bson_append_array_begin h dst (cs ''errorLabels'' @ [0]) 11 = Ret (Some (child_of b1), suspended b1, h1) \<and>
    \<not> has_flag b1 BSON_FLAG_INLINE \<and> bson_rep h1 b1 (es @ [(BSON_TYPE_ARRAY, cs ''errorLabels'', doc_bytes [])]) \<and>
    child_roomy (length (enc_elems es) + 17) (child_of b1)"
proof -
  have key: "key_arg (cs ''errorLabels'' @ [0]) 11 (cs ''errorLabels'')" by (simp add: key_arg_def INT32_MAX_def cs_def)
  have small: "elem_small (BSON_TYPE_ARRAY, cs ''errorLabels'', doc_bytes [])"
    by (simp add: elem_small_def empty_doc INT32_MAX_def cs_def)
  have "has_room h1 b1 (length (enc_elem (BSON_TYPE_ARRAY, cs ''errorLabels'', doc_bytes [])))"
    if "keeps h dst h1 b1" "bson_rep h1 b1 es" for h1 b1
    by (rule roomy_room [OF roomy_keeps [OF assms(2) that(1)] that(2)])
      (use assms(3) in \<open>simp add: empty_doc length_doc_bytes cs_def\<close>)
  with begin_spec [OF assms(1) key _ small] obtain b1 h1 where
    b: "bson_append_bson_begin h dst (cs ''errorLabels'' @ [0]) 11 BSON_TYPE_ARRAY = Ret (Some (child_of b1), suspended b1, h1)"
    "keeps h dst h1 b1" "\<not> has_flag b1 BSON_FLAG_INLINE" "bson_rep h1 b1 (es @ [(BSON_TYPE_ARRAY, cs ''errorLabels'', doc_bytes [])])"
    by (metis insertCI)
  have r: "roomy b1" by (rule roomy_keeps [OF assms(2) b(2)])
  then have "b_depth b1 = 0" "b_realloc b1" "b_offset b1 = 0"
    using b(3,4) by (auto simp: roomy_def bson_rep_def bson_holds_def bson_mem_def)
  then have "child_roomy (length (enc_elems es) + 17) (child_of b1)"
    using child_position [OF b(4,3)] by (simp add: child_roomy_def length_front cs_def) (simp add: child_of_def)
  with b show ?thesis by (auto simp: bson_append_array_begin_def)
qed

lemma copy_labels_spec:
  assumes src: "reply_fields v fs" "length (doc_bytes (map field fs)) \<le> 2 ^ 26"
    and dst: "bson_rep h dst es" "roomy dst" "length (enc_elems es) \<le> 2 ^ 26"
    and lab: "labels_are fs gs"
  shows "\<exists>dst' h'. copy_labels_plus_unknown_commit_result h v dst = Ret (dst', h') \<and>
    bson_rep h' dst' (es @ [field (cs ''errorLabels'', D_array (doc_bytes (map field (label_fields (UNKNOWN_COMMIT_RESULT # commit_labels gs)))))])"
proof -
  obtain b1 h1 where b: "bson_append_array_begin h dst (cs ''errorLabels'' @ [0]) 11 = Ret (Some (child_of b1), suspended b1, h1)"
    "\<not> has_flag b1 BSON_FLAG_INLINE" "bson_rep h1 b1 (es @ [(BSON_TYPE_ARRAY, cs ''errorLabels'', doc_bytes [])])"
    "child_roomy (length (enc_elems es) + 17) (child_of b1)" using begin_labels [OF dst(1,2)] dst(3) by auto
  let ?c = "child_of b1" and ?k = "length (enc_elems es) + 17"
  have rep0: "bson_rep h1 ?c (map field (label_fields []))" using child_rep [OF b(3,2)] by (simp add: label_fields_def)
  have u: "0 \<notin> set UNKNOWN_COMMIT_RESULT" "length UNKNOWN_COMMIT_RESULT = 30" by (simp_all add: UNKNOWN_COMMIT_RESULT_def cs_def)
  have k0: "cs (fmt_u (length ([] :: cstr list))) = [0x30]" by (simp add: fmt_u.simps dec_digit_simps cs_def)
  from append_label [OF b(4) rep0 _ u(1), of "[]", unfolded k0] dst(3) u(2) obtain c1 h2 where
    a: "bson_append_utf8 h1 ?c [0x30, 0] 1 (Some (UNKNOWN_COMMIT_RESULT @ [0])) 30 = Ret (True, c1, h2)" "keeps h1 ?c h2 c1"
    "bson_rep h2 c1 (map field (label_fields [UNKNOWN_COMMIT_RESULT]))"
    "length (enc_elems (map field (label_fields [UNKNOWN_COMMIT_RESULT]))) \<le> 47" by (auto simp: label_fields_def)
  have finish: "\<exists>dst' h'. bson_append_array_end h3 (suspended b1) c2 = Ret (True, dst', h') \<and>
      bson_rep h' dst' (es @ [field (cs ''errorLabels'', D_array (doc_bytes (map field (label_fields (UNKNOWN_COMMIT_RESULT # ls)))))])"
    if "labels_post h1 ?c ls (i, c2, h3)" for ls i c2 h3
  proof -
    have "keeps h1 ?c h3 c2" "bson_rep h3 c2 (map field (label_fields (UNKNOWN_COMMIT_RESULT # ls)))" using that by (auto simp: labels_post_def)
    from end_spec [OF b(3,2) this] show ?thesis by (auto simp: bson_append_array_end_def)
  qed
  have start: "labels_inv h1 ?c ?k (commit_labels gs) gs (0, c1, h2)"
    if "list_all field_ok gs" "length (enc_elems (map field gs)) \<le> 2 ^ 26" for gs
    unfolding labels_inv_def prod.case
    by (intro conjI exI [of _ "[]"]) (use that a dst(3) child_roomy_keeps [OF b(4) a(2)] in auto)
  from lab consider (none) "no_labels fs" "gs = []" | (labels) "has_labels fs gs" by (auto simp: labels_are_def)
  then show ?thesis
  proof cases
    case none
    from labels_missing [OF src(1) none(1)] obtain it where n: "bson_iter_init_find v (cs ''errorLabels'' @ [0]) = Ret (False, it) \<or>
      bson_iter_init_find v (cs ''errorLabels'' @ [0]) = Ret (True, it) \<and> bson_iter_recurse it = Ret None" by blast
    have "labels_post h1 ?c [] (0 :: u32, c1, h2)" using a by (simp add: labels_post_def)
    from finish [OF this] b(1) a(1) n none show ?thesis
      by (auto simp: copy_labels_plus_unknown_commit_result_def)
  next
    case has: labels
    from labels_found [OF src(1) has] obtain it junk where l: "doc_ok (map field gs)"
      "bson_iter_init_find v (cs ''errorLabels'' @ [0]) = Ret (True, it)"
      "bson_iter_recurse it = Ret (Some (iter_start (doc_bytes (map field gs) @ junk) (of_nat (length (doc_bytes (map field gs))))))" by blast
    let ?it = "iter_start (doc_bytes (map field gs) @ junk) (of_nat (length (doc_bytes (map field gs))))"
    have "\<exists>x. map_of fs (cs ''errorLabels'') = Some x \<and> data_bytes x = doc_bytes (map field gs)" "list_all field_ok gs"
      using has by (auto simp: has_labels_def)
    then have gs: "list_all field_ok gs" "length (enc_elems (map field gs)) \<le> 2 ^ 26"
      using member_length [OF map_of_SomeD] src(2) by (fastforce simp: length_doc_bytes)+
    have fuel: "unat (of_nat (length (doc_bytes (map field gs))) :: u32) - unat (it_next_off ?it) < iter_fuel ?it"
      using iter_fuel_enough [of ?it] by (simp add: iter_start_def)
    have "\<exists>e s'. iter_while (iter_fuel ?it) copy_label_body ?it (0, c1, h2) = Ret (e, s') \<and> labels_post h1 ?c (commit_labels gs) s'"
      by (rule iter_while_inv [where I = "labels_inv h1 ?c ?k (commit_labels gs)", OF doc_start_before [OF l(1), of junk] fuel start [OF gs]])
        (rule copy_label_step labels_inv_Nil, assumption+)+
    then obtain e i c2 h3 where w: "iter_while (iter_fuel ?it) copy_label_body ?it (0, c1, h2) = Ret (e, i, c2, h3)"
      "labels_post h1 ?c (commit_labels gs) (i, c2, h3)" by auto
    from finish [OF w(2)] obtain dst' h' where f: "bson_append_array_end h3 (suspended b1) c2 = Ret (True, dst', h')"
      "bson_rep h' dst' (es @ [field (cs ''errorLabels'', D_array (doc_bytes (map field (label_fields (UNKNOWN_COMMIT_RESULT # commit_labels gs)))))])"
      by blast
    have "copy_labels_plus_unknown_commit_result h v dst = Ret (dst', h')"
      using b(1) a(1) l w(1) f(1) by (simp add: copy_labels_plus_unknown_commit_result_def)
    with f(2) has show ?thesis by blast
  qed
qed

definition kept_fields :: "(byte list \<times> bson_data) list \<Rightarrow> (byte list \<times> bson_data) list" where
  "kept_fields fs = map (\<lambda>(k, x). (k, copied x)) (filter (\<lambda>(k, x). k \<noteq> cs ''errorLabels'') fs)"

lemma kept_fields_eq: "kept [cs ''errorLabels''] fs = map field (kept_fields fs)"
  by (auto simp: kept_def kept_fields_def)

lemma kept_fields_ok: "list_all field_ok fs \<Longrightarrow> list_all field_ok (kept_fields fs)"
proof -
  have "closed (copied x) = closed x" for x by (cases x) simp_all
  then show "list_all field_ok fs \<Longrightarrow> list_all field_ok (kept_fields fs)"
    by (fastforce simp: list_all_iff kept_fields_def copied_ok)
qed

lemma nested_copied: "nested x \<Longrightarrow> nested (copied x)"
  by (cases x) (auto simp: nested_def)

definition commit_reply_fields :: "(byte list \<times> bson_data) list \<Rightarrow> (byte list \<times> bson_data) list \<Rightarrow> (byte list \<times> bson_data) list" where
  "commit_reply_fields fs gs = kept_fields fs @
     [(cs ''errorLabels'', D_array (doc_bytes (map field (label_fields (UNKNOWN_COMMIT_RESULT # commit_labels gs)))))]"

lemma commit_reply_spec:
  assumes "reply_fields (cr_reply res) fs" "length (doc_bytes (map field fs)) \<le> 2 ^ 26" "unknown_commit res t" "labels_are fs gs"
  shows "\<exists>v. txn_commit_reply res t = Ret v \<and> reply_fields v (commit_reply_fields fs gs)"
proof -
  let ?v = "cr_reply res"
  have v: "views ?v (map field fs)" "list_all field_ok fs" using assms(1) by (auto simp: reply_fields_def)
  have ok: "list_all elem_ok (map field fs)" using v(2) by (auto simp: list_all_iff field_elem_ok)
  have fresh: "heap_ok fresh_heap" by (simp add: heap_ok_def fresh_heap_def)
  obtain junk where i: "bson_iter_init ?v = (True, iter_start (doc_bytes (map field fs) @ junk) (of_nat (length (doc_bytes (map field fs)))))"
    "doc_ok (map field fs)" by (rule views_init [OF v(1) ok])
  let ?it = "iter_start (doc_bytes (map field fs) @ junk) (of_nat (length (doc_bytes (map field fs))))"
  have fuel: "unat (of_nat (length (doc_bytes (map field fs))) :: u32) - unat (it_next_off ?it) < iter_fuel ?it"
    using iter_fuel_enough [of ?it] by (simp add: iter_start_def)
  have "length (doc_bytes []) + length (enc_elems (map field fs)) \<le> 2 ^ 30" using assms(2) by (simp add: length_doc_bytes)
  from copy_excluding_loop_spec [OF doc_start_before [OF i(2), of junk] fuel v(2) _ init_rep [OF fresh] init_roomy this, of "[cs ''errorLabels'']"]
  obtain b1 h1 where c: "copy_excluding_loop (iter_fuel ?it) fresh_heap bson_init ?it [cs ''errorLabels'' @ [0]] = Ret (b1, h1)"
    "keeps fresh_heap bson_init h1 b1" "bson_rep h1 b1 (map field (kept_fields fs))" by (auto simp: kept_fields_eq)
  have "length (enc_elems (map field (kept_fields fs))) \<le> 2 ^ 26"
    using length_kept [of "[cs ''errorLabels'']" fs] assms(2) by (simp add: kept_fields_eq length_doc_bytes)
  from copy_labels_spec [OF assms(1,2) c(3) roomy_keeps [OF init_roomy c(2)] this assms(4)] obtain b2 h2 where
    l: "copy_labels_plus_unknown_commit_result h1 ?v b1 = Ret (b2, h2)" "bson_rep h2 b2 (map field (commit_reply_fields fs gs))" by (auto simp: commit_reply_fields_def)
  from views_of_rep [OF l(2)] obtain w where w: "bson_view_of h2 b2 = Ret w" "views w (map field (commit_reply_fields fs gs))" by blast
  let ?a = "doc_bytes (map field (label_fields (UNKNOWN_COMMIT_RESULT # commit_labels gs)))"
  have "sub_ok ?a" "last ?a = 0" by (simp_all add: sub_ok_def doc_bytes_def add.commute)
  then have "list_all field_ok (commit_reply_fields fs gs)" using kept_fields_ok [OF v(2)] by (simp add: commit_reply_fields_def)
  moreover have "nested (D_array ?a)" using label_fields_ok by (auto simp: nested_def)
  ultimately have "reply_fields w (commit_reply_fields fs gs)"
    using w(2) assms(1) nested_copied by (fastforce simp: reply_fields_def commit_reply_fields_def kept_fields_def)
  moreover have "txn_commit_reply res t = Ret w"
    using assms(3) c(1) l(1) w(1) i(1) by (simp add: txn_commit_reply_def bson_copy_to_excluding_noinit_def bson_copy_to_excluding_noinit_va_def)
  ultimately show ?thesis by blast
qed

lemma commit_reply_Ret:
  assumes "reply_ok (cr_reply res)"
  shows "\<exists>v fs. txn_commit_reply res t = Ret v \<and> reply_fields v fs"
proof -
  from assms obtain fs where fs: "reply_fields (cr_reply res) fs" "length (doc_bytes (map field fs)) \<le> 2 ^ 26" by (auto simp: reply_ok_def)
  show ?thesis
  proof (cases "unknown_commit res t")
    case True
    obtain gs where "labels_are fs gs" using labels_are_some [OF fs(1)] by blast
    from commit_reply_spec [OF fs True this] show ?thesis by blast
  qed (use fs(1) in \<open>auto simp: txn_commit_reply_def\<close>)
qed

lemma empty_reply: "reply_fields bson_empty_view []"
  by (simp add: reply_fields_def views_def bson_empty_view_def doc_bytes_def INT32_MAX_def le32_eq)

lemma labels_of_fields: "labels_of (label_fields ls) = map c_str ls"
proof (induction ls rule: rev_induct)
  case (snoc l ls)
  have "labels_of (xs @ ys) = labels_of xs @ labels_of ys" for xs ys by (induction xs) (auto split: option.split)
  with snoc show ?case by (simp add: label_fields_snoc)
qed (simp add: label_fields_def)

lemma commit_labels_set:
  assumes "\<forall>g \<in> set gs. label_of g \<noteq> None"
  shows "insert UNKNOWN_COMMIT_RESULT (c_str ` set (commit_labels gs)) = insert UNKNOWN_COMMIT_RESULT (set (labels_of gs))"
  using assms
proof (induction gs)
  case (Cons g gs)
  then obtain k s where g: "g = (k, D_utf8 s)" by (cases g rule: label_of.cases) auto
  have "c_str (c_str s) = c_str s" by (simp add: c_str_def)
  with Cons g show ?case by auto
qed simp


text \<open>A commit that timed out on the server, with a label of the server.\<close>

definition example_failure :: "(byte list \<times> bson_data) list" where
  "example_failure = [(cs ''code'', D_int32 50), (cs ''errorLabels'', D_array (doc_bytes (map field (label_fields [TRANSIENT_TXN_ERR]))))]"

lemma example_failure_ok:
  "reply_fields (doc_view (map field example_failure)) example_failure" "length (doc_bytes (map field example_failure)) \<le> 2 ^ 26"
  "labels_are example_failure (label_fields [TRANSIENT_TXN_ERR])"
proof -
  let ?a = "doc_bytes (map field (label_fields [TRANSIENT_TXN_ERR]))"
  have a: "sub_ok ?a" "last ?a = 0" by (simp_all add: sub_ok_def doc_bytes_def add.commute)
  have n: "nested (D_array ?a)" using label_fields_ok by (auto simp: nested_def)
  have ne: "cs ''code'' \<noteq> cs ''errorLabels''" "cs ''code'' \<noteq> cs ''writeConcernError''" "0 \<notin> set (cs ''code'')" by (simp_all add: cs_def)
  show len: "length (doc_bytes (map field example_failure)) \<le> 2 ^ 26"
    by (simp add: example_failure_def length_doc_bytes label_fields_def enc_string_def fmt_u.simps cs_def TRANSIENT_TXN_ERR_def)
  then have "views (doc_view (map field example_failure)) (map field example_failure)" by (intro views_doc_view) (simp add: INT32_MAX_def)
  with a n ne show "reply_fields (doc_view (map field example_failure)) example_failure"
    by (simp add: reply_fields_def) (simp add: example_failure_def)
  show "labels_are example_failure (label_fields [TRANSIENT_TXN_ERR])"
    using ne label_fields_ok by (simp add: labels_are_def has_labels_def example_failure_def)
qed


end
