(* ===== verification/Mongoc_Session_Props.thy ===== *)
theory Mongoc_Session_Props
  imports Mongoc_Reply_Props
begin

text \<open>
  Sessions keep their invariant, and the calls of an application on a session refine the state diagram
  of the Transactions Specification, an inductive relation on the states an application can see. What the
  calls need from the rest of the driver is the predicate \<open>run_ok\<close> on the function that runs a command.
\<close>

section \<open>Well-formed sessions\<close>

definition wc_opt_ok :: "write_concern option \<Rightarrow> bool" where
  "wc_opt_ok wc = (case wc of None \<Rightarrow> True | Some wc \<Rightarrow> wc_ok wc)"

definition rp_opt_ok :: "read_prefs option \<Rightarrow> bool" where
  "rp_opt_ok rp = (case rp of None \<Rightarrow> True
     | Some rp \<Rightarrow> unat (bv_len (rp_tags rp)) \<le> length (bv_data (rp_tags rp)))"

definition txn_opts_ok :: "txn_opts \<Rightarrow> bool" where
  "txn_opts_ok opts \<longleftrightarrow> wc_opt_ok (to_write_concern opts) \<and> rp_opt_ok (to_read_prefs opts)"

text \<open>The invariant of a session between two calls of the application.\<close>

definition session_ok :: "client_session \<Rightarrow> bool" where
  "session_ok s \<longleftrightarrow> cs_state s \<noteq> MONGOC_INTERNAL_TRANSACTION_ENDING \<and> txn_opts_ok (cs_txn_opts s) \<and>
     txn_opts_ok (so_default_txn_opts (cs_opts s)) \<and> cs_fail_commit_label s = None \<and>
     (case cs_recovery_token s of None \<Rightarrow> True | Some t \<Rightarrow> unat (bv_len t) \<le> length (bv_data t)) \<and>
     (cs_state s \<in> {MONGOC_INTERNAL_TRANSACTION_STARTING, MONGOC_INTERNAL_TRANSACTION_IN_PROGRESS} \<longrightarrow>
        0 < ss_txn_number (cs_server_session s) \<and> mongoc_write_concern_is_acknowledged (to_write_concern (cs_txn_opts s)))"

lemma wc_copy_ok: "wc_opt_ok wc \<Longrightarrow> wc_opt_ok (mongoc_write_concern_copy wc)"
  by (auto simp: wc_opt_ok_def mongoc_write_concern_copy_def mongoc_write_concern_new_def wc_ok_def split: option.splits)

lemma rp_copy_ok: "rp_opt_ok rp \<Longrightarrow> \<exists>rp'. read_prefs_copy_opt rp = Ret rp' \<and> rp_opt_ok rp' \<and> (rp' = None \<longleftrightarrow> rp = None)"
  by (auto simp: rp_opt_ok_def read_prefs_copy_opt_def mongoc_read_prefs_copy_def bson_view_copy_def rdn_def split: option.splits)

lemma txn_opts_set_ok:
  assumes "txn_opts_ok o1" "wc_opt_ok wc" "rp_opt_ok rp"
  shows "\<exists>o2. txn_opts_set o1 rc wc rp n = Ret o2 \<and> txn_opts_ok o2 \<and>
    to_max_commit_time_ms o2 = (if n = 0 then to_max_commit_time_ms o1 else n) \<and>
    to_write_concern o2 = (if wc = None then to_write_concern o1 else mongoc_write_concern_copy wc)"
  using assms rp_copy_ok [OF assms(3)] wc_copy_ok [OF assms(2)]
  by (auto simp: txn_opts_set_def txn_opts_ok_def Let_def mongoc_transaction_opts_set_read_concern_def
      mongoc_transaction_opts_set_write_concern_def mongoc_transaction_opts_set_read_prefs_def
      mongoc_transaction_opts_set_max_commit_time_ms_def DEFAULT_MAX_COMMIT_TIME_MS_def split: option.splits)

lemma cleanup_ok [simp]: "txn_opts_ok (txn_opts_cleanup opts)"
  by (simp add: txn_opts_cleanup_def txn_opts_ok_def wc_opt_ok_def rp_opt_ok_def)

definition client_ok :: "mongoc_client \<Rightarrow> bool" where
  "client_ok client \<longleftrightarrow> wc_opt_ok (cl_write_concern client) \<and> rp_opt_ok (cl_read_prefs client)"

lemma session_new_ok:
  assumes "client_ok client" "case opts of None \<Rightarrow> True | Some opts \<Rightarrow> txn_opts_ok (so_default_txn_opts opts)"
  shows "\<exists>s. mongoc_client_session_new client ss opts i = Ret s \<and> session_ok s \<and> cs_server_session s = ss \<and>
    cs_state s = MONGOC_INTERNAL_TRANSACTION_NONE"
proof -
  have new: "txn_opts_ok mongoc_transaction_opts_new"
    by (simp add: mongoc_transaction_opts_new_def txn_opts_ok_def wc_opt_ok_def rp_opt_ok_def)
  from assms(1) obtain o1 where o1: "txn_opts_set mongoc_transaction_opts_new (cl_read_concern client) (cl_write_concern client)
       (cl_read_prefs client) DEFAULT_MAX_COMMIT_TIME_MS = Ret o1" "txn_opts_ok o1"
    using txn_opts_set_ok [OF new, of "cl_write_concern client" "cl_read_prefs client"] unfolding client_ok_def by blast
  show ?thesis
  proof (cases opts)
    case None
    with o1 new show ?thesis by (simp add: mongoc_client_session_new_def session_ok_def)
  next
    case (Some so)
    with assms(2) have "wc_opt_ok (to_write_concern (so_default_txn_opts so))" "rp_opt_ok (to_read_prefs (so_default_txn_opts so))"
      by (auto simp: txn_opts_ok_def)
    from txn_opts_set_ok [OF o1(2) this] obtain o2 where
      "txn_opts_set o1 (to_read_concern (so_default_txn_opts so)) (to_write_concern (so_default_txn_opts so))
         (to_read_prefs (so_default_txn_opts so)) (to_max_commit_time_ms (so_default_txn_opts so)) = Ret o2" "txn_opts_ok o2" by blast
    with Some o1 new show ?thesis by (simp add: mongoc_client_session_new_def session_ok_def)
  qed
qed

section \<open>What a transaction promises\<close>

text \<open>The state diagram of the Transactions Specification, as the application sees it.\<close>

datatype txn_call = Start_call | Command_call | Commit_call | Abort_call

inductive txn_spec :: "txn_call \<Rightarrow> bool \<Rightarrow> public_txn_state \<Rightarrow> public_txn_state \<Rightarrow> bool" where
  start: "p \<notin> {MONGOC_TRANSACTION_STARTING, MONGOC_TRANSACTION_IN_PROGRESS} \<Longrightarrow> txn_spec Start_call True p MONGOC_TRANSACTION_STARTING"
| start_refused: "txn_spec Start_call False p p"
| first_command: "txn_spec Command_call True MONGOC_TRANSACTION_STARTING MONGOC_TRANSACTION_IN_PROGRESS"
| next_command: "txn_spec Command_call True MONGOC_TRANSACTION_IN_PROGRESS MONGOC_TRANSACTION_IN_PROGRESS"
| other_command: "p \<notin> {MONGOC_TRANSACTION_STARTING, MONGOC_TRANSACTION_IN_PROGRESS} \<Longrightarrow> txn_spec Command_call True p MONGOC_TRANSACTION_NONE"
| commit: "p \<in> {MONGOC_TRANSACTION_STARTING, MONGOC_TRANSACTION_IN_PROGRESS, MONGOC_TRANSACTION_COMMITTED} \<Longrightarrow>
    txn_spec Commit_call ok p MONGOC_TRANSACTION_COMMITTED"
| commit_refused: "p \<in> {MONGOC_TRANSACTION_NONE, MONGOC_TRANSACTION_ABORTED} \<Longrightarrow> txn_spec Commit_call False p p"
| abort: "p \<in> {MONGOC_TRANSACTION_STARTING, MONGOC_TRANSACTION_IN_PROGRESS} \<Longrightarrow> txn_spec Abort_call True p MONGOC_TRANSACTION_ABORTED"
| abort_refused: "p \<notin> {MONGOC_TRANSACTION_STARTING, MONGOC_TRANSACTION_IN_PROGRESS} \<Longrightarrow> txn_spec Abort_call False p p"

inductive_simps txn_spec_simps: "txn_spec c ok p q"

text \<open>The calls of an application on a session, with what they depend on.\<close>

datatype session_call =
    Start "bson_error + server_description" "txn_opts option"
  | Command doc
  | Commit bool
  | Abort_txn

fun call_of :: "session_call \<Rightarrow> txn_call" where
  "call_of (Start sel opts) = Start_call"
| "call_of (Command cmd) = Command_call"
| "call_of (Commit want) = Commit_call"
| "call_of Abort_txn = Abort_call"

fun session_do :: "'w run_command \<Rightarrow> mongoc_client \<Rightarrow> session_call \<Rightarrow> 'w \<times> client_session \<Rightarrow> (bool \<times> 'w \<times> client_session) outcome" where
  "session_do run client (Start sel opts) (w, s) =
     cbind (mongoc_client_session_start_transaction sel s opts) (\<lambda>(e, s). Ret (e = None, w, s))"
| "session_do run client (Command cmd) (w, s) =
     cbind (mongoc_client_session_append_txn (Some s) cmd) (\<lambda>(e, s', cmd'). Ret (e = None, w, the s'))"
| "session_do run client (Commit want) (w, s) =
     cbind (mongoc_client_session_commit_transaction run client want w s) (\<lambda>(r, reply, s, w). Ret (r, w, s))"
| "session_do run client Abort_txn (w, s) =
     cbind (mongoc_client_session_abort_transaction run w s) (\<lambda>(e, s, w). Ret (e = None, w, s))"

text \<open>
  What a call is assumed to get: well-formed options, a non-empty command, and from the rest of the
  driver an answer, with a reply whose error fields can be read and a session in which the transaction
  is what it was.
\<close>

fun call_ok :: "session_call \<Rightarrow> bool" where
  "call_ok (Start sel opts) = (case opts of None \<Rightarrow> True | Some opts \<Rightarrow> txn_opts_ok opts)"
| "call_ok (Command cmd) \<longleftrightarrow> cmd \<noteq> [] \<and> doc_ok cmd \<and> (\<exists>name. mongoc_get_command_name (doc_view cmd) = Ret (Some name) \<and>
     name \<noteq> cs ''commitTransaction'')"
| "call_ok (Commit want) = True"
| "call_ok Abort_txn = True"

definition session_kept :: "client_session \<Rightarrow> client_session \<Rightarrow> bool" where
  "session_kept s s' \<longleftrightarrow> cs_opts s' = cs_opts s \<and> cs_txn_opts s' = cs_txn_opts s \<and> cs_state s' = cs_state s \<and>
     ss_txn_number (cs_server_session s') = ss_txn_number (cs_server_session s) \<and>
     cs_client_session_id s' = cs_client_session_id s \<and> cs_fail_commit_label s' = cs_fail_commit_label s \<and>
     (case cs_recovery_token s' of None \<Rightarrow> True | Some t \<Rightarrow> unat (bv_len t) \<le> length (bv_data t))"

definition run_ok :: "'w run_command \<Rightarrow> bool" where
  "run_ok run \<longleftrightarrow> (\<forall>w s cmd opts. \<exists>res s' w'. run w s cmd opts = Ret (res, s', w') \<and> session_kept s s' \<and> reply_ok (cr_reply res))"

section \<open>Commit and abort return\<close>

definition session_after :: "client_session \<Rightarrow> client_session \<Rightarrow> bool" where
  "session_after s s' \<longleftrightarrow> cs_opts s' = cs_opts s \<and> txn_opts_ok (cs_txn_opts s') \<and> cs_state s' = cs_state s \<and>
     ss_txn_number (cs_server_session s') = ss_txn_number (cs_server_session s) \<and> cs_fail_commit_label s' = cs_fail_commit_label s \<and>
     (case cs_recovery_token s' of None \<Rightarrow> True | Some t \<Rightarrow> unat (bv_len t) \<le> length (bv_data t))"

lemma session_after_trans: "session_after s s' \<Longrightarrow> session_after s' s'' \<Longrightarrow> session_after s s''"
  by (simp add: session_after_def)

lemma session_kept_after: "session_kept s s' \<Longrightarrow> txn_opts_ok (cs_txn_opts s) \<Longrightarrow> session_after s s'"
  by (simp add: session_kept_def session_after_def)

lemma session_after_unpin [simp]:
  "session_after s (mongoc_client_session_unpin s') = session_after s s'" "session_after (mongoc_client_session_unpin s) s' = session_after s s'"
  by (simp_all add: mongoc_client_session_unpin_def session_after_def)

lemma unpin_simps [simp]:
  "cs_txn_opts (mongoc_client_session_unpin s) = cs_txn_opts s" "cs_recovery_token (mongoc_client_session_unpin s) = cs_recovery_token s"
  "cs_client_session_id (mongoc_client_session_unpin s) = cs_client_session_id s" "cs_state (mongoc_client_session_unpin s) = cs_state s"
  by (simp_all add: mongoc_client_session_unpin_def)

lemma wc_append_total:
  assumes "wc_ok wc"
  shows "\<exists>ok wc' d'. mongoc_write_concern_append (Some wc) d = Ret (ok, Some wc', d') \<and> wc_ok wc'"
proof -
  have "wc_fields (wc\<lparr>wc_frozen := f, wc_compiled := d\<rparr>) = wc_fields wc" for f d by (simp add: wc_fields_def)
  then have "wc_ok (wc\<lparr>wc_frozen := True, wc_compiled := map field (wc_fields wc)\<rparr>)" using assms by (simp add: wc_ok_def)
  then show ?thesis
    using assms by (auto simp: mongoc_write_concern_append_def get_bson_spec [OF assms] split: prod.splits)
qed

lemma retry_wc_spec:
  assumes "wc_opt_ok wc"
  shows "\<exists>wc'. create_commit_retry_wc wc = Ret wc' \<and> wc_ok wc' \<and> wc_w wc' = MONGOC_WRITE_CONCERN_W_MAJORITY \<and> 0 < wc_wtimeout wc' \<and>
    (\<forall>w. wc = Some w \<longrightarrow> wc_journal wc' = wc_journal w \<and> wc_fsync wc' = wc_fsync w \<and>
       (0 < wc_wtimeout w \<longrightarrow> wc_wtimeout wc' = wc_wtimeout w))"
  using assms
  by (auto simp: create_commit_retry_wc_def wc_opt_ok_def mongoc_write_concern_copy_def mongoc_write_concern_new_def wc_ok_def wc_consts
      mongoc_write_concern_set_w_def mongoc_write_concern_set_wtimeout_int64_def MONGOC_DEFAULT_WTIMEOUT_FOR_COMMIT_RETRY_def
      c_assert_def Let_def split: option.splits)

lemma run_okE:
  assumes "run_ok run" "txn_opts_ok (cs_txn_opts s)"
  obtains res s' w' t v fs where "run w s cmd opts = Ret (res, s', w')" "session_after s s'" "session_kept s s'"
    "mongoc_write_error_get_type (cr_ok res) (cr_error res) (cr_reply res) = Ret t" "txn_commit_reply res t = Ret v" "reply_fields v fs"
proof -
  obtain res s' w' where r: "run w s cmd opts = Ret (res, s', w')" "session_kept s s'" "reply_ok (cr_reply res)"
    using assms(1) unfolding run_ok_def by blast
  obtain fs where fs: "reply_fields (cr_reply res) fs" using r(3) by (auto simp: reply_ok_def)
  obtain t where t: "mongoc_write_error_get_type (cr_ok res) (cr_error res) (cr_reply res) = Ret t"
    using error_type_Ret [OF fs] by blast
  obtain v fs' where "txn_commit_reply res t = Ret v" "reply_fields v fs'" using commit_reply_Ret [OF r(3)] by blast
  with r t session_kept_after [OF r(2) assms(2)] that show thesis by blast
qed

lemma token_total:
  assumes "case cs_recovery_token s of None \<Rightarrow> True | Some t \<Rightarrow> unat (bv_len t) \<le> length (bv_data t)"
  shows "\<exists>cmd'. append_recovery_token s cmd = Ret cmd'"
  using assms by (auto simp: append_recovery_token_def rdn_def split: option.splits)

lemma commit_pass_ok:
  assumes run: "run_ok run" and s: "session_after s0 s" and wc: "wc_opt_ok (cl_write_concern client)" "wc_opt_ok retry"
  shows "\<exists>sent retry' s' w'. txn_commit_pass run client cmd retrying retry w s = Ret (sent, retry', s', w') \<and> wc_opt_ok retry' \<and>
    session_after s0 s' \<and> (\<forall>res t. sent = Some (res, t) \<longrightarrow> (\<exists>v fs. txn_commit_reply res t = Ret v \<and> reply_fields v fs))"
proof -
  let ?txn_wc = "to_write_concern (cs_txn_opts s)"
  have txn: "wc_opt_ok ?txn_wc" "txn_opts_ok (cs_txn_opts s)" using s by (auto simp: session_after_def txn_opts_ok_def)
  obtain ok1 opts1 where o1: "mongoc_client_session_append s [] = (ok1, opts1)" by fastforce
  obtain ok2 opts2 where o2: "(if to_max_commit_time_ms (cs_txn_opts s) \<noteq> DEFAULT_MAX_COMMIT_TIME_MS
     then doc_put opts1 (cs ''maxTimeMS'') (D_int64 (word_of_int (to_max_commit_time_ms (cs_txn_opts s)))) else (True, opts1)) = (ok2, opts2)"
    by fastforce
  obtain r1 where r1: "(if retry = None \<and> retrying
       then cbind (create_commit_retry_wc (if ?txn_wc \<noteq> None then ?txn_wc else cl_write_concern client)) (\<lambda>wc. Ret (Some wc))
       else Ret retry) = Ret r1" "wc_opt_ok r1"
    using retry_wc_spec [of "if ?txn_wc \<noteq> None then ?txn_wc else cl_write_concern client"] txn(1) wc
    by (cases "retry = None \<and> retrying"; cases ?txn_wc) (auto simp: wc_opt_ok_def)
  obtain ok3 wc3 opts3 where o3: "(if r1 \<noteq> None then mongoc_write_concern_append r1 opts2
       else if ?txn_wc \<noteq> None then mongoc_write_concern_append ?txn_wc opts2 else Ret (True, None, opts2)) = Ret (ok3, wc3, opts3)"
     "wc_opt_ok wc3"
    using wc_append_total [of "the r1" opts2] wc_append_total [of "the ?txn_wc" opts2] txn(1) r1(2)
    by (cases r1; cases ?txn_wc) (auto simp: wc_opt_ok_def)
  let ?s3 = "if r1 = None then s\<lparr>cs_txn_opts := (cs_txn_opts s)\<lparr>to_write_concern := wc3\<rparr>\<rparr> else s"
  have s3: "session_after s0 ?s3" "txn_opts_ok (cs_txn_opts ?s3)" using s o3(2) by (auto simp: session_after_def txn_opts_ok_def)
  obtain res s' w' t v fs where r: "run w ?s3 cmd opts3 = Ret (res, s', w')" "session_after ?s3 s'"
    "mongoc_write_error_get_type (cr_ok res) (cr_error res) (cr_reply res) = Ret t" "txn_commit_reply res t = Ret v" "reply_fields v fs"
    by (rule run_okE [OF run s3(2)])
  have s': "session_after s0 s'" by (rule session_after_trans [OF s3(1) r(2)])
  show ?thesis
    unfolding txn_commit_pass_def o1 prod.case Let_def o2 r1(1) cbind.simps o3(1) r(1) r(3)
    using s wc(2) s3(1) o3(2) s' r(4,5) by (auto simp: wc_opt_ok_def)
qed

lemma commit_ok:
  assumes run: "run_ok run" and s: "session_after s s" and wc: "wc_opt_ok (cl_write_concern client)"
  shows "\<exists>r v s' w'. txn_commit run client explicitly want w s = Ret (r, v, s', w') \<and> session_after s s' \<and> (\<exists>fs. reply_fields v fs)"
proof -
  have tok: "case cs_recovery_token s of None \<Rightarrow> True | Some t \<Rightarrow> unat (bv_len t) \<le> length (bv_data t)"
    using s by (simp add: session_after_def)
  obtain cmd where c: "append_recovery_token s (doc_add [] (cs ''commitTransaction'') (D_int32 1)) = Ret cmd"
    using token_total [OF tok] by blast
  obtain sent r1 s1 w1 where p: "txn_commit_pass run client cmd explicitly None w s = Ret (sent, r1, s1, w1)" "wc_opt_ok r1" "session_after s s1"
    "\<And>res t. sent = Some (res, t) \<Longrightarrow> \<exists>v fs. txn_commit_reply res t = Ret v \<and> reply_fields v fs"
    using commit_pass_ok [OF run s wc, of None cmd explicitly w] by (auto simp: wc_opt_ok_def)
  have "session_after s (mongoc_client_session_unpin s1)" using p(3) by simp
  from commit_pass_ok [OF run this wc p(2), of cmd True w1] obtain sent2 r2 s2 w2 where
    q: "txn_commit_pass run client cmd True r1 w1 (mongoc_client_session_unpin s1) = Ret (sent2, r2, s2, w2)" "session_after s s2"
    "\<And>res t. sent2 = Some (res, t) \<Longrightarrow> \<exists>v fs. txn_commit_reply res t = Ret v \<and> reply_fields v fs" by auto
  show ?thesis
  proof (cases sent)
    case None
    with c p show ?thesis using empty_reply by (auto simp: txn_commit_def)
  next
    case (Some a)
    obtain res t where a: "sent = Some (res, t)" using Some by (cases a) auto
    obtain v fs where v: "txn_commit_reply res t = Ret v" "reply_fields v fs" using p(4) [OF a] by blast
    show ?thesis
    proof (cases "t = MONGOC_WRITE_ERR_RETRY")
      case False
      with c p a v show ?thesis using empty_reply by (auto simp: txn_commit_def Let_def)
    next
      case True
      show ?thesis
      proof (cases sent2)
        case None
        with c p a q True show ?thesis using empty_reply by (auto simp: txn_commit_def)
      next
        case (Some b)
        obtain res2 t2 where b: "sent2 = Some (res2, t2)" using Some by (cases b) auto
        obtain v2 fs where "txn_commit_reply res2 t2 = Ret v2" "reply_fields v2 fs" using q(3) [OF b] by blast
        with c p a q b True show ?thesis using empty_reply by (auto simp: txn_commit_def Let_def)
      qed
    qed
  qed
qed

lemma abort_ok:
  assumes run: "run_ok run" and s: "session_after s s"
  shows "\<exists>r s' w'. txn_abort run w s = Ret (r, s', w') \<and> session_after s s'"
proof -
  let ?wc = "to_write_concern (cs_txn_opts s)"
  have txn: "wc_opt_ok ?wc" "txn_opts_ok (cs_txn_opts s)" using s by (auto simp: session_after_def txn_opts_ok_def)
  obtain ok1 opts1 where o1: "mongoc_client_session_append s [] = (ok1, opts1)" by fastforce
  obtain ok3 wc3 opts3 where o3: "(if ?wc \<noteq> None then mongoc_write_concern_append ?wc opts1 else Ret (True, None, opts1)) = Ret (ok3, wc3, opts3)"
     "wc_opt_ok wc3"
    using wc_append_total [of "the ?wc" opts1] txn(1) by (cases ?wc) (auto simp: wc_opt_ok_def)
  let ?s3 = "s\<lparr>cs_txn_opts := (cs_txn_opts s)\<lparr>to_write_concern := wc3\<rparr>\<rparr>"
  have s3: "session_after s ?s3" "txn_opts_ok (cs_txn_opts ?s3)" using s o3(2) by (auto simp: session_after_def txn_opts_ok_def)
  have tok: "case cs_recovery_token ?s3 of None \<Rightarrow> True | Some t \<Rightarrow> unat (bv_len t) \<le> length (bv_data t)"
    using s3(1) by (simp add: session_after_def)
  obtain cmd where c: "append_recovery_token ?s3 (doc_add [] (cs ''abortTransaction'') (D_int32 1)) = Ret cmd"
    using token_total [OF tok] by blast
  obtain res s1 w1 t where r: "run w ?s3 cmd opts3 = Ret (res, s1, w1)" "session_after ?s3 s1"
    "mongoc_write_error_get_type (cr_ok res) (cr_error res) (cr_reply res) = Ret t"
    by (rule run_okE [OF run s3(2)])
  have s1: "session_after s s1" by (rule session_after_trans [OF s3(1) r(2)])
  then have "txn_opts_ok (cs_txn_opts (mongoc_client_session_unpin s1))" by (simp add: session_after_def)
  then obtain res2 s2 w2 where r2: "run w1 (mongoc_client_session_unpin s1) cmd opts3 = Ret (res2, s2, w2)"
    "session_after (mongoc_client_session_unpin s1) s2" by (rule run_okE [OF run])
  then have s2: "session_after s s2" using session_after_trans [OF s1] by simp
  show ?thesis
    unfolding txn_abort_def o1 prod.case Let_def o3(1) cbind.simps c r(1) r(3)
    using s s3(1) s1 s2 r2(1) by (cases "t = MONGOC_WRITE_ERR_RETRY") auto
qed


section \<open>Every call refines the specification\<close>

lemma state_public: "session_ok s \<Longrightarrow> \<exists>p. mongoc_client_session_get_transaction_state s = Ret p"
  by (cases "cs_state s") (auto simp: session_ok_def mongoc_client_session_get_transaction_state_def)

lemma start_spec:
  assumes "session_ok s" "case opts of None \<Rightarrow> True | Some opts \<Rightarrow> txn_opts_ok opts"
    "0 \<le> ss_txn_number (cs_server_session s)" "ss_txn_number (cs_server_session s) < INT64_MAX"
  shows "\<exists>e s'. mongoc_client_session_start_transaction sel s opts = Ret (e, s') \<and> session_ok s' \<and>
    ss_txn_number (cs_server_session s') \<le> ss_txn_number (cs_server_session s) + 1 \<and>
    ss_txn_number (cs_server_session s) \<le> ss_txn_number (cs_server_session s') \<and>
    (if e = None then cs_state s \<notin> {MONGOC_INTERNAL_TRANSACTION_STARTING, MONGOC_INTERNAL_TRANSACTION_IN_PROGRESS} \<and>
       cs_state s' = MONGOC_INTERNAL_TRANSACTION_STARTING \<and>
       ss_txn_number (cs_server_session s') = ss_txn_number (cs_server_session s) + 1 \<and> cs_server_id s' = 0 \<and> cs_recovery_token s' = None
     else cs_state s' = cs_state s)"
proof -
  let ?d = "so_default_txn_opts (cs_opts s)"
  have d: "txn_opts_ok (cs_txn_opts s)" "wc_opt_ok (to_write_concern ?d)" "rp_opt_ok (to_read_prefs ?d)"
    using assms(1) by (auto simp: session_ok_def txn_opts_ok_def)
  obtain o1 where o1: "txn_opts_set (cs_txn_opts s) (to_read_concern ?d) (to_write_concern ?d) (to_read_prefs ?d)
      (to_max_commit_time_ms ?d) = Ret o1" "txn_opts_ok o1" using txn_opts_set_ok [OF d] by blast
  obtain o2 where o2: "(case opts of None \<Rightarrow> Ret o1 | Some opts \<Rightarrow> txn_opts_set o1 (to_read_concern opts) (to_write_concern opts)
      (to_read_prefs opts) (to_max_commit_time_ms opts)) = Ret o2" "txn_opts_ok o2"
    using txn_opts_set_ok [OF o1(2)] o1(2) assms(2) by (cases opts) (auto simp: txn_opts_ok_def, metis)
  show ?thesis
    using assms o1 o2
    by (cases "cs_state s"; cases sel)
      (auto simp: mongoc_client_session_start_transaction_def Let_def session_ok_def mongoc_client_session_unpin_def
        split: if_splits)
qed

lemma session_do_refines:
  assumes "session_ok s" "call_ok c" "run_ok run" "client_ok client"
    "0 \<le> ss_txn_number (cs_server_session s)" "ss_txn_number (cs_server_session s) < INT64_MAX"
  shows "\<exists>ok w' s' p p'. session_do run client c (w, s) = Ret (ok, w', s') \<and> session_ok s' \<and>
    mongoc_client_session_get_transaction_state s = Ret p \<and> mongoc_client_session_get_transaction_state s' = Ret p' \<and>
    txn_spec (call_of c) ok p p' \<and> ss_txn_number (cs_server_session s) \<le> ss_txn_number (cs_server_session s') \<and>
    ss_txn_number (cs_server_session s') \<le> ss_txn_number (cs_server_session s) + 1"
proof (cases c)
  case (Start sel opts)
  obtain p where p: "mongoc_client_session_get_transaction_state s = Ret p" using state_public [OF assms(1)] by blast
  obtain e s' where s': "mongoc_client_session_start_transaction sel s opts = Ret (e, s')" "session_ok s'"
    "ss_txn_number (cs_server_session s') \<le> ss_txn_number (cs_server_session s) + 1"
    "ss_txn_number (cs_server_session s) \<le> ss_txn_number (cs_server_session s')"
    "if e = None then cs_state s \<notin> {MONGOC_INTERNAL_TRANSACTION_STARTING, MONGOC_INTERNAL_TRANSACTION_IN_PROGRESS} \<and>
       cs_state s' = MONGOC_INTERNAL_TRANSACTION_STARTING else cs_state s' = cs_state s"
    using start_spec [OF assms(1) _ assms(5,6), of opts sel] assms(2) Start by (auto split: if_splits)
  then show ?thesis
    using p Start by (cases "cs_state s"; cases e)
      (auto simp: mongoc_client_session_get_transaction_state_def txn_spec_simps)
next
  case (Command cmd)
  then obtain name where name: "mongoc_get_command_name (doc_view cmd) = Ret (Some name)" "name \<noteq> cs ''commitTransaction''" "cmd \<noteq> []"
    using assms(2) by auto
  with assms(1) Command show ?thesis
    by (cases "cs_state s")
      (auto simp: mongoc_client_session_append_txn_def mongoc_client_session_get_transaction_state_def txn_spec_simps
        doc_empty_def Let_def session_ok_def)
next
  case (Commit want)
  let ?s = "s\<lparr>cs_state := MONGOC_INTERNAL_TRANSACTION_ENDING\<rparr>"
  have "session_after ?s ?s" using assms(1) by (simp add: session_ok_def session_after_def)
  then obtain r v s' w' where "txn_commit run client (cs_state s = MONGOC_INTERNAL_TRANSACTION_COMMITTED) want w ?s = Ret (r, v, s', w')"
      "session_after ?s s'"
    using commit_ok [OF assms(3)] assms(4) unfolding client_ok_def by meson
  then show ?thesis
    using assms(1) Commit
    by (cases "cs_state s")
      (auto simp: mongoc_client_session_commit_transaction_def mongoc_client_session_get_transaction_state_def txn_spec_simps
        Let_def session_ok_def session_after_def split: option.splits)
next
  case Abort_txn
  let ?s = "s\<lparr>cs_state := MONGOC_INTERNAL_TRANSACTION_ENDING\<rparr>"
  have "session_after ?s ?s" using assms(1) by (simp add: session_ok_def session_after_def)
  then obtain r s' w' where "txn_abort run w ?s = Ret (r, s', w')" "session_after ?s s'" using abort_ok [OF assms(3)] by blast
  then show ?thesis
    using assms(1) Abort_txn
    by (cases "cs_state s")
      (auto simp: mongoc_client_session_abort_transaction_def mongoc_client_session_get_transaction_state_def txn_spec_simps
        session_ok_def session_after_def)
qed


primrec session_run :: "'w run_command \<Rightarrow> mongoc_client \<Rightarrow> session_call list \<Rightarrow> 'w \<times> client_session \<Rightarrow>
    (bool list \<times> 'w \<times> client_session) outcome" where
  "session_run run client [] ws = Ret ([], ws)"
| "session_run run client (c # calls) ws =
     cbind (session_do run client c ws) (\<lambda>(ok, ws). cbind (session_run run client calls ws) (\<lambda>(oks, ws). Ret (ok # oks, ws)))"

inductive txn_path :: "(txn_call \<times> bool) list \<Rightarrow> public_txn_state \<Rightarrow> public_txn_state \<Rightarrow> bool" where
  stop: "txn_path [] p p"
| step: "txn_spec c ok p q \<Longrightarrow> txn_path calls q r \<Longrightarrow> txn_path ((c, ok) # calls) p r"

lemma session_run_refines:
  assumes "run_ok run" "client_ok client" "list_all call_ok calls" "session_ok s" "0 \<le> ss_txn_number (cs_server_session s)"
    "ss_txn_number (cs_server_session s) + int (length calls) \<le> INT64_MAX" "mongoc_client_session_get_transaction_state s = Ret p"
  shows "\<exists>oks w' s' p'. session_run run client calls (w, s) = Ret (oks, w', s') \<and> length oks = length calls \<and> session_ok s' \<and>
    mongoc_client_session_get_transaction_state s' = Ret p' \<and> txn_path (zip (map call_of calls) oks) p p'"
  using assms(3-)
proof (induction calls arbitrary: w s p)
  case Nil
  then show ?case by (auto intro: txn_path.stop)
next
  case (Cons c calls)
  have n: "ss_txn_number (cs_server_session s) < INT64_MAX" using Cons.prems(4) by simp
  obtain ok w1 s1 p1 where st: "session_do run client c (w, s) = Ret (ok, w1, s1)" "session_ok s1"
    "mongoc_client_session_get_transaction_state s1 = Ret p1" "txn_spec (call_of c) ok p p1"
    "ss_txn_number (cs_server_session s) \<le> ss_txn_number (cs_server_session s1)"
    "ss_txn_number (cs_server_session s1) \<le> ss_txn_number (cs_server_session s) + 1"
    using session_do_refines [OF Cons.prems(2) _ assms(1,2) Cons.prems(3) n, of c w] Cons.prems(1,5) by auto
  have "0 \<le> ss_txn_number (cs_server_session s1)" "ss_txn_number (cs_server_session s1) + int (length calls) \<le> INT64_MAX"
    using st(5,6) Cons.prems(3,4) by auto
  from Cons.IH [OF _ st(2) this st(3), of w1] Cons.prems(1) obtain oks w' s' p' where
    "session_run run client calls (w1, s1) = Ret (oks, w', s')" "length oks = length calls" "session_ok s'"
    "mongoc_client_session_get_transaction_state s' = Ret p'" "txn_path (zip (map call_of calls) oks) p1 p'" by auto
  with st(1,4) show ?case by (auto intro: txn_path.step)
qed

text \<open>
  C3. Transactions follow the state diagram of the specification: whatever start, command, commit and
  abort calls an application makes on a new session, and whatever the servers answer, every call returns
  (the transaction state \<open>ENDING\<close> is never visible, so none of the \<open>abort ()\<close> branches is reached), and
  the states that \<open>mongoc_client_session_get_transaction_state\<close> reports and the results of the calls are a
  path of the diagram \<open>txn_spec\<close>.
\<close>

theorem transactions_follow_spec:
  assumes "run_ok run" "client_ok client" "list_all call_ok calls"
    "case opts of None \<Rightarrow> True | Some opts \<Rightarrow> txn_opts_ok (so_default_txn_opts opts)"
    "0 \<le> ss_txn_number ss" "ss_txn_number ss + int (length calls) \<le> INT64_MAX"
  shows "\<exists>s oks w' s' p. mongoc_client_session_new client ss opts i = Ret s \<and>
    session_run run client calls (w, s) = Ret (oks, w', s') \<and> length oks = length calls \<and>
    mongoc_client_session_get_transaction_state s' = Ret p \<and> txn_path (zip (map call_of calls) oks) MONGOC_TRANSACTION_NONE p"
proof -
  obtain s where s: "mongoc_client_session_new client ss opts i = Ret s" "session_ok s" "cs_server_session s = ss"
    "cs_state s = MONGOC_INTERNAL_TRANSACTION_NONE" using session_new_ok [OF assms(2,4)] by blast
  then have "mongoc_client_session_get_transaction_state s = Ret MONGOC_TRANSACTION_NONE"
    by (simp add: mongoc_client_session_get_transaction_state_def)
  from session_run_refines [OF assms(1-3) s(2) _ _ this, of w] assms(5,6) s(1,3) show ?thesis by auto
qed

text \<open>A driver whose commands all succeed with the reply \<open>{ok: 1}\<close>, and a primary that supports transactions.\<close>

definition ok_reply :: bson_view where
  "ok_reply = doc_view [field (cs ''ok'', D_int32 1)]"

definition run_succeeds :: "nat run_command" where
  "run_succeeds w s cmd opts = Ret (\<lparr>cr_ok = True, cr_error = no_error, cr_reply = ok_reply\<rparr>, s\<lparr>cs_recovery_token := None\<rparr>, w + 1)"

definition example_primary :: server_description where
  "example_primary = sd_zero\<lparr>sd_type := MONGOC_SERVER_RS_PRIMARY, sd_max_wire_version := 8\<rparr>"

definition example_client :: mongoc_client where
  "example_client = \<lparr>cl_read_concern = Some mongoc_read_concern_new, cl_write_concern = Some mongoc_write_concern_new,
     cl_read_prefs = Some (mongoc_read_prefs_new MONGOC_READ_PRIMARY), cl_generation = 0\<rparr>"

definition example_calls :: "session_call list" where
  "example_calls = [Start (Inr example_primary) None, Command [field (cs ''insert'', D_int32 1)], Commit True, Abort_txn]"

lemma run_succeeds_ok: "run_ok run_succeeds"
proof -
  let ?fs = "[(cs ''ok'', D_int32 1)]"
  have ok: "length (doc_bytes (map field ?fs)) \<le> 2 ^ 26" "0 \<notin> set (cs ''ok'')" "cs ''ok'' \<noteq> cs ''errorLabels''" "cs ''ok'' \<noteq> cs ''writeConcernError''"
    by (simp_all add: length_doc_bytes cs_def)
  then have "views ok_reply (map field ?fs)" unfolding ok_reply_def using views_doc_view [of "map field ?fs"] by (simp add: INT32_MAX_def)
  with ok have "reply_fields ok_reply ?fs" by (simp add: reply_fields_def)
  with ok(1) have "reply_ok ok_reply" unfolding reply_ok_def by blast
  then show ?thesis by (auto simp: run_ok_def run_succeeds_def session_kept_def)
qed

lemma example_command_name: "mongoc_get_command_name (doc_view [field (cs ''insert'', D_int32 1)]) = Ret (Some (cs ''insert''))"
  by code_simp

lemma example_calls_ok: "list_all call_ok example_calls"
  using example_command_name by (simp add: example_calls_def doc_ok_def payload_ok_simps length_doc_bytes INT32_MAX_def) (simp add: cs_def)

lemma example_client_ok: "client_ok example_client"
  by (simp add: client_ok_def example_client_def wc_opt_ok_def wc_ok_def mongoc_write_concern_new_def wc_consts rp_opt_ok_def
      mongoc_read_prefs_new_def bson_empty_view_def)

theorem transactions_follow_spec_witness:
  "\<exists>s oks w' s' p. mongoc_client_session_new example_client (mongoc_server_session_new (replicate 16 0)) None 1 = Ret s \<and>
    session_run run_succeeds example_client example_calls (0, s) = Ret (oks, w', s') \<and> length oks = 4 \<and>
    mongoc_client_session_get_transaction_state s' = Ret p \<and> txn_path (zip (map call_of example_calls) oks) MONGOC_TRANSACTION_NONE p"
proof -
  have "ss_txn_number (mongoc_server_session_new (replicate 16 0)) = 0" "length example_calls = 4"
    by (simp_all add: mongoc_server_session_new_def example_calls_def)
  with transactions_follow_spec [OF run_succeeds_ok example_client_ok example_calls_ok, of None "mongoc_server_session_new (replicate 16 0)" 1 0]
  show ?thesis by (simp add: INT64_MAX_def)
qed

end
