(* ===== verification/Mongoc_Commit_Props.thy ===== *)
theory Mongoc_Commit_Props
  imports Mongoc_Session_Props
begin

text \<open>
  The commands that \<open>mongoc_client_session_commit_transaction\<close> sends: how often, with which options and
  with which write concern. The commands are observed by a \<open>run\<close> that keeps a record of its arguments and
  results. Then the time limit of a transaction, which the next transaction of the session inherits.
\<close>

section \<open>The commands of a commit\<close>

text \<open>\<open>run\<close> with a record of the commands and options it was given.\<close>

definition logged :: "'w run_command \<Rightarrow> ((doc \<times> doc \<times> cmd_result) list \<times> 'w) run_command" where
  "logged run = (\<lambda>(log, w) s cmd opts. cbind (run w s cmd opts) (\<lambda>(res, s, w). Ret (res, s, (log @ [(cmd, opts, res)], w))))"

definition commit_opts :: "client_session \<Rightarrow> write_concern option \<Rightarrow> doc" where
  "commit_opts s wc = map field ([(cs ''sessionId'', D_int64 (ucast (cs_client_session_id s)))] @
     (if to_max_commit_time_ms (cs_txn_opts s) \<noteq> 0
      then [(cs ''maxTimeMS'', D_int64 (word_of_int (to_max_commit_time_ms (cs_txn_opts s))))] else []) @
     (case wc of None \<Rightarrow> [] | Some wc \<Rightarrow> [(cs ''writeConcern'', D_document (doc_bytes (map field (wc_fields wc))))]))"

text \<open>The write concern of a retried commit: \<open>w: "majority"\<close> with a timeout, and otherwise that of the transaction or the client.\<close>

definition retry_of :: "write_concern option \<Rightarrow> write_concern \<Rightarrow> bool" where
  "retry_of base wc \<longleftrightarrow> wc_w wc = MONGOC_WRITE_CONCERN_W_MAJORITY \<and> 0 < wc_wtimeout wc \<and>
     (\<forall>b. base = Some b \<longrightarrow> wc_journal wc = wc_journal b \<and> wc_fsync wc = wc_fsync b \<and> (0 < wc_wtimeout b \<longrightarrow> wc_wtimeout wc = wc_wtimeout b))"

definition retry_base :: "mongoc_client \<Rightarrow> client_session \<Rightarrow> write_concern option" where
  "retry_base client s = (if to_write_concern (cs_txn_opts s) \<noteq> None then to_write_concern (cs_txn_opts s) else cl_write_concern client)"

definition wc_frozen_of :: "write_concern \<Rightarrow> write_concern" where
  "wc_frozen_of wc = wc\<lparr>wc_frozen := True, wc_compiled := map field (wc_fields wc)\<rparr>"

lemma frozen_of_simps [simp]:
  "wc_fields (wc_frozen_of wc) = wc_fields wc" "wc_ok wc \<Longrightarrow> wc_ok (wc_frozen_of wc)"
  "mongoc_write_concern_is_valid (Some (wc_frozen_of wc)) = mongoc_write_concern_is_valid (Some wc)"
  "retry_of base (wc_frozen_of wc) = retry_of base wc"
proof -
  show f: "wc_fields (wc_frozen_of wc) = wc_fields wc" by (simp add: wc_fields_def wc_frozen_of_def)
  then show "wc_ok wc \<Longrightarrow> wc_ok (wc_frozen_of wc)" by (simp add: wc_ok_def) (simp add: wc_frozen_of_def)
qed (simp_all add: wc_frozen_of_def mongoc_write_concern_is_valid_def mongoc_write_concern_get_journal_def retry_of_def)

lemma retry_valid: "retry_of base wc \<Longrightarrow> mongoc_write_concern_is_valid (Some wc)"
  by (simp add: retry_of_def mongoc_write_concern_is_valid_def wc_consts)

lemma commit_pass_sends:
  assumes run: "run_ok run" and txn: "txn_opts_ok (cs_txn_opts s)" "wc_opt_ok (cl_write_concern client)" "wc_opt_ok retry"
    and used: "used = (if retry \<noteq> None then retry else if retrying then Some rwc else to_write_concern (cs_txn_opts s))"
    and rwc: "create_commit_retry_wc (retry_base client s) = Ret rwc" "wc_ok rwc"
    and valid: "\<And>wc. used = Some wc \<Longrightarrow> mongoc_write_concern_is_valid (Some wc)"
  shows "\<exists>res t v s' w'. txn_commit_pass (logged run) client cmd retrying retry (log, w) s =
      Ret (Some (res, t), if retry \<noteq> None \<or> retrying then map_option wc_frozen_of used else None, s', (log @ [(cmd, commit_opts s used, res)], w')) \<and>
    mongoc_write_error_get_type (cr_ok res) (cr_error res) (cr_reply res) = Ret t \<and> txn_commit_reply res t = Ret v \<and>
    (\<forall>wc. commit_opts s' wc = commit_opts s wc) \<and> txn_opts_ok (cs_txn_opts s') \<and>
    to_write_concern (cs_txn_opts s') =
      (if retry \<noteq> None \<or> retrying then to_write_concern (cs_txn_opts s) else map_option wc_frozen_of used)"
proof -
  let ?twc = "to_write_concern (cs_txn_opts s)"
  let ?o1 = "[field (cs ''sessionId'', D_int64 (ucast (cs_client_session_id s)))]"
  let ?o2 = "?o1 @ (if to_max_commit_time_ms (cs_txn_opts s) \<noteq> 0
      then [field (cs ''maxTimeMS'', D_int64 (word_of_int (to_max_commit_time_ms (cs_txn_opts s))))] else [])"
  have o1: "mongoc_client_session_append s [] = (True, ?o1)"
    by (simp add: mongoc_client_session_append_def doc_put_def doc_put_in_def DOC_MAX_def length_doc_bytes cs_def)
  have o2: "(if to_max_commit_time_ms (cs_txn_opts s) \<noteq> DEFAULT_MAX_COMMIT_TIME_MS
     then doc_put ?o1 (cs ''maxTimeMS'') (D_int64 (word_of_int (to_max_commit_time_ms (cs_txn_opts s)))) else (True, ?o1)) = (True, ?o2)"
    by (simp add: doc_put_def doc_put_in_def DOC_MAX_def length_doc_bytes cs_def DEFAULT_MAX_COMMIT_TIME_MS_def)
  have small: "length (doc_bytes ?o2) \<le> 2 ^ 29" by (simp add: length_doc_bytes cs_def)
  let ?r = "if retry \<noteq> None then retry else if retrying then Some rwc else None"
  have r1: "(if retry = None \<and> retrying then cbind (create_commit_retry_wc (if ?twc \<noteq> None then ?twc else cl_write_concern client)) (\<lambda>wc. Ret (Some wc))
       else Ret retry) = Ret ?r" using rwc(1) unfolding retry_base_def by (cases "retry = None \<and> retrying") auto
  have ok: "wc_opt_ok used" using txn rwc(2) used by (auto simp: wc_opt_ok_def txn_opts_ok_def)
  have used': "used = (if ?r \<noteq> None then ?r else ?twc)" using used by auto
  have app: "(if ?r \<noteq> None then mongoc_write_concern_append ?r ?o2
       else if ?twc \<noteq> None then mongoc_write_concern_append ?twc ?o2 else Ret (True, None, ?o2)) =
     Ret (True, map_option wc_frozen_of used, commit_opts s used)"
  proof (cases used)
    case None
    then show ?thesis using used' by (auto simp: commit_opts_def split: if_splits)
  next
    case (Some wc)
    have "wc_ok wc" "mongoc_write_concern_is_valid (Some wc)" using ok valid Some by (auto simp: wc_opt_ok_def)
    from wc_append_spec [OF this small] have "mongoc_write_concern_append used ?o2 = Ret (True, map_option wc_frozen_of used, commit_opts s used)"
      by (simp add: Some wc_frozen_of_def commit_opts_def)
    then show ?thesis using used' Some by (auto split: if_splits)
  qed
  let ?s3 = "if ?r = None then s\<lparr>cs_txn_opts := (cs_txn_opts s)\<lparr>to_write_concern := map_option wc_frozen_of used\<rparr>\<rparr> else s"
  have fok: "wc_opt_ok (map_option wc_frozen_of used)" using ok by (auto simp: wc_opt_ok_def split: option.splits)
  then have s3: "txn_opts_ok (cs_txn_opts ?s3)" using txn(1) by (auto simp: txn_opts_ok_def)
  obtain res s' w' t v fs where r: "run w ?s3 cmd (commit_opts s used) = Ret (res, s', w')" "session_kept ?s3 s'"
    "mongoc_write_error_get_type (cr_ok res) (cr_error res) (cr_reply res) = Ret t" "txn_commit_reply res t = Ret v"
    by (rule run_okE [OF run s3])
  have l: "logged run (log, w) ?s3 cmd (commit_opts s used) = Ret (res, s', (log @ [(cmd, commit_opts s used, res)], w'))"
    using r(1) by (simp add: logged_def)
  have "txn_commit_pass (logged run) client cmd retrying retry (log, w) s =
      Ret (Some (res, t), if retry \<noteq> None \<or> retrying then map_option wc_frozen_of used else None, s', (log @ [(cmd, commit_opts s used, res)], w'))"
    unfolding txn_commit_pass_def o1 prod.case Let_def o2 r1 cbind.simps app l r(3) by auto
  moreover have "commit_opts s' wc = commit_opts s wc" for wc using r(2) by (auto simp: commit_opts_def session_kept_def)
  moreover have "txn_opts_ok (cs_txn_opts s')" using r(2) s3 by (simp add: session_kept_def)
  moreover have "to_write_concern (cs_txn_opts s') = (if retry \<noteq> None \<or> retrying then ?twc else map_option wc_frozen_of used)"
    using r(2) by (auto simp: session_kept_def)
  ultimately show ?thesis using r(3,4) by blast
qed

lemma commit_opts_simps [simp]:
  "commit_opts (mongoc_client_session_unpin s) wc = commit_opts s wc" "commit_opts (s\<lparr>cs_state := st\<rparr>) wc = commit_opts s wc"
  "commit_opts s (Some (wc_frozen_of wc')) = commit_opts s (Some wc')"
  by (simp_all add: commit_opts_def mongoc_client_session_unpin_def)

text \<open>One commit command, or two when the first fails with an error after which it may be sent again.\<close>

definition commit_trace :: "doc \<Rightarrow> client_session \<Rightarrow> write_concern option \<Rightarrow> write_concern \<Rightarrow> (doc \<times> doc \<times> cmd_result) list \<Rightarrow> bool \<Rightarrow> bool" where
  "commit_trace cmd s first second sent ok \<longleftrightarrow>
     (\<exists>res t. sent = [(cmd, commit_opts s first, res)] \<and> ok = cr_ok res \<and>
        mongoc_write_error_get_type (cr_ok res) (cr_error res) (cr_reply res) = Ret t \<and> t \<noteq> MONGOC_WRITE_ERR_RETRY) \<or>
     (\<exists>res1 res2. sent = [(cmd, commit_opts s first, res1), (cmd, commit_opts s (Some second), res2)] \<and> ok = cr_ok res2 \<and>
        mongoc_write_error_get_type (cr_ok res1) (cr_error res1) (cr_reply res1) = Ret MONGOC_WRITE_ERR_RETRY)"

lemma retry_wcE:
  assumes "txn_opts_ok (cs_txn_opts s)" "wc_opt_ok (cl_write_concern client)"
  obtains rwc where "create_commit_retry_wc (retry_base client s) = Ret rwc" "wc_ok rwc" "retry_of (retry_base client s) rwc"
proof -
  have "wc_opt_ok (retry_base client s)" using assms by (simp add: retry_base_def txn_opts_ok_def)
  from retry_wc_spec [OF this] that show thesis unfolding retry_of_def by blast
qed

lemma txn_commit_sends:
  assumes run: "run_ok run" and txn: "txn_opts_ok (cs_txn_opts s)" "wc_opt_ok (cl_write_concern client)"
    and valid: "mongoc_write_concern_is_valid (to_write_concern (cs_txn_opts s)) \<or> to_write_concern (cs_txn_opts s) = None"
    and cmd: "append_recovery_token s (doc_add [] (cs ''commitTransaction'') (D_int32 1)) = Ret cmd"
  shows "\<exists>rwc r v s' sent w'. retry_of (retry_base client s) rwc \<and>
    txn_commit (logged run) client explicitly want ([], w) s = Ret (r, v, s', (sent, w')) \<and>
    commit_trace cmd s (if explicitly then Some rwc else to_write_concern (cs_txn_opts s)) rwc sent r"
proof -
  obtain rwc where rwc: "create_commit_retry_wc (retry_base client s) = Ret rwc" "wc_ok rwc" "retry_of (retry_base client s) rwc"
    by (rule retry_wcE [OF txn])
  let ?used = "if explicitly then Some rwc else to_write_concern (cs_txn_opts s)"
  have none: "wc_opt_ok None" by (simp add: wc_opt_ok_def)
  have used: "?used = (if (None :: write_concern option) \<noteq> None then None else if explicitly then Some rwc else to_write_concern (cs_txn_opts s))" by simp
  have "?used = Some wc \<Longrightarrow> mongoc_write_concern_is_valid (Some wc)" for wc
    using retry_valid [OF rwc(3)] valid by (auto split: if_splits)
  from commit_pass_sends [OF run txn none used rwc(1,2) this, of cmd "[]" w]
  obtain res t v s1 w1 where p: "txn_commit_pass (logged run) client cmd explicitly None ([], w) s =
      Ret (Some (res, t), if explicitly then map_option wc_frozen_of ?used else None, s1, ([(cmd, commit_opts s ?used, res)], w1))"
    "mongoc_write_error_get_type (cr_ok res) (cr_error res) (cr_reply res) = Ret t" "txn_commit_reply res t = Ret v"
    "\<And>wc. commit_opts s1 wc = commit_opts s wc" "txn_opts_ok (cs_txn_opts s1)"
    "to_write_concern (cs_txn_opts s1) = (if explicitly then to_write_concern (cs_txn_opts s) else map_option wc_frozen_of ?used)"
    by auto
  let ?s1 = "mongoc_client_session_unpin s1"
  obtain rwc1 where rwc1: "create_commit_retry_wc (retry_base client ?s1) = Ret rwc1" "wc_ok rwc1" "retry_of (retry_base client ?s1) rwc1"
    using retry_wcE [OF _ txn(2), of ?s1] p(5) by auto
  let ?retry = "if explicitly then Some (wc_frozen_of rwc) else None"
  let ?used1 = "if explicitly then Some (wc_frozen_of rwc) else Some rwc1"
  have base1: "retry_of (retry_base client ?s1) rwc1 = retry_of (retry_base client s) rwc1"
    using p(6) by (cases "to_write_concern (cs_txn_opts s)") (auto simp: retry_base_def retry_of_def wc_frozen_of_def)
  have ok1: "txn_opts_ok (cs_txn_opts ?s1)" "wc_opt_ok ?retry" using p(5) rwc(2) by (simp_all add: wc_opt_ok_def)
  have used1: "?used1 = (if ?retry \<noteq> None then ?retry else if True then Some rwc1 else to_write_concern (cs_txn_opts ?s1))" by simp
  have "?used1 = Some wc \<Longrightarrow> mongoc_write_concern_is_valid (Some wc)" for wc
    using retry_valid [OF rwc(3)] retry_valid [OF rwc1(3)] by (auto split: if_splits)
  from commit_pass_sends [OF run ok1(1) txn(2) ok1(2) used1 rwc1(1,2) this, of cmd "[(cmd, commit_opts s ?used, res)]" w1]
  obtain res2 t2 v2 s2 w2 where q: "txn_commit_pass (logged run) client cmd True ?retry ([(cmd, commit_opts s ?used, res)], w1) ?s1 =
      Ret (Some (res2, t2), map_option wc_frozen_of ?used1, s2, ([(cmd, commit_opts s ?used, res), (cmd, commit_opts s ?used1, res2)], w2))"
    "txn_commit_reply res2 t2 = Ret v2"
    by (auto simp del: commit_opts_simps(3) simp: p(4))
  show ?thesis
  proof (cases "t = MONGOC_WRITE_ERR_RETRY")
    case False
    have "\<exists>v' s'. txn_commit (logged run) client explicitly want ([], w) s = Ret (cr_ok res, v', s', ([(cmd, commit_opts s ?used, res)], w1))"
      using False p(3) unfolding txn_commit_def cmd cbind.simps p(1) by (auto simp: Let_def)
    moreover have "commit_trace cmd s ?used rwc [(cmd, commit_opts s ?used, res)] (cr_ok res)" using False p(2) by (auto simp: commit_trace_def)
    ultimately show ?thesis using rwc(3) by blast
  next
    case True
    let ?sent = "[(cmd, commit_opts s ?used, res), (cmd, commit_opts s ?used1, res2)]"
    have pass1: "(if explicitly then map_option wc_frozen_of ?used else None) = ?retry" by simp
    have "\<exists>v' s'. txn_commit (logged run) client explicitly want ([], w) s = Ret (cr_ok res2, v', s', (?sent, w2))"
      using True q(2) unfolding txn_commit_def cmd cbind.simps p(1) prod.case option.case pass1 q(1) by (auto simp: Let_def)
    moreover have "commit_trace cmd s ?used (if explicitly then rwc else rwc1) ?sent (cr_ok res2)"
      using True p(2) by (cases explicitly) (simp_all add: commit_trace_def)
    moreover have "retry_of (retry_base client s) (if explicitly then rwc else rwc1)" using rwc(3) rwc1(3) base1 by simp
    ultimately show ?thesis by (cases explicitly) (simp_all, blast+)
  qed
qed

text \<open>
  C10. What a commit sends: for a transaction in progress, \<open>mongoc_client_session_commit_transaction\<close> sends the
  command \<open>commitTransaction\<close> (with the recovery token) with the session, the time limit and the write concern
  of the transaction, and for a transaction that was committed before with a write concern \<open>w: "majority"\<close>
  with a timeout, whose other fields are those of the transaction or the client. It sends the
  command exactly once more, with such a write concern, when the first error says that this is possible,
  and returns the result of the last command.
\<close>

theorem commit_commands:
  assumes "run_ok run" "client_ok client" "session_ok s" "to_write_concern (cs_txn_opts s) = Some wc" "mongoc_write_concern_is_valid (Some wc)"
    "cs_state s \<in> {MONGOC_INTERNAL_TRANSACTION_IN_PROGRESS, MONGOC_INTERNAL_TRANSACTION_COMMITTED}"
  shows "\<exists>cmd rwc r v s' sent w'. append_recovery_token s (doc_add [] (cs ''commitTransaction'') (D_int32 1)) = Ret cmd \<and>
    mongoc_client_session_commit_transaction (logged run) client want ([], w) s = Ret (r, v, s', (sent, w')) \<and>
    retry_of (Some wc) rwc \<and>
    commit_trace cmd s (Some (if cs_state s = MONGOC_INTERNAL_TRANSACTION_COMMITTED then rwc else wc)) rwc sent r"
proof -
  let ?s = "s\<lparr>cs_state := MONGOC_INTERNAL_TRANSACTION_ENDING\<rparr>"
  let ?explicitly = "cs_state s = MONGOC_INTERNAL_TRANSACTION_COMMITTED"
  have ok: "txn_opts_ok (cs_txn_opts ?s)" "wc_opt_ok (cl_write_concern client)"
    "case cs_recovery_token s of None \<Rightarrow> True | Some t \<Rightarrow> unat (bv_len t) \<le> length (bv_data t)"
    using assms(2,3) by (simp_all add: session_ok_def client_ok_def)
  obtain cmd where cmd: "append_recovery_token s (doc_add [] (cs ''commitTransaction'') (D_int32 1)) = Ret cmd"
    using token_total [OF ok(3)] by blast
  then have cmd': "append_recovery_token ?s (doc_add [] (cs ''commitTransaction'') (D_int32 1)) = Ret cmd"
    by (simp add: append_recovery_token_def)
  have base: "retry_base client ?s = Some wc" using assms(4) by (simp add: retry_base_def)
  have wc: "to_write_concern (cs_txn_opts ?s) = Some wc" using assms(4) by simp
  with assms(5) have "mongoc_write_concern_is_valid (to_write_concern (cs_txn_opts ?s)) \<or> to_write_concern (cs_txn_opts ?s) = None" by simp
  from txn_commit_sends [OF assms(1) ok(1,2) this cmd', of ?explicitly want w] obtain rwc r v s' sent w' where
    sends: "retry_of (Some wc) rwc" "txn_commit (logged run) client ?explicitly want ([], w) ?s = Ret (r, v, s', (sent, w'))"
    "commit_trace cmd ?s (if ?explicitly then Some rwc else Some wc) rwc sent r" unfolding base wc by blast
  then have "commit_trace cmd s (Some (if ?explicitly then rwc else wc)) rwc sent r" by (auto simp: commit_trace_def)
  moreover have "\<exists>s'. mongoc_client_session_commit_transaction (logged run) client want ([], w) s = Ret (r, v, s', (sent, w'))"
    using assms(3,6) sends(2) by (auto simp: mongoc_client_session_commit_transaction_def session_ok_def Let_def)
  ultimately show ?thesis using cmd sends(1) by blast
qed

text \<open>A transaction in progress with the write concern \<open>{w: 1}\<close> and a time limit.\<close>

definition example_session :: client_session where
  "example_session = \<lparr>cs_opts = mongoc_session_opts_new, cs_server_session = (mongoc_server_session_new (replicate 16 0))\<lparr>ss_txn_number := 1\<rparr>,
     cs_state = MONGOC_INTERNAL_TRANSACTION_IN_PROGRESS,
     cs_txn_opts = mongoc_transaction_opts_new\<lparr>to_write_concern := Some mongoc_write_concern_new, to_max_commit_time_ms := 500\<rparr>,
     cs_client_session_id = 1, cs_cluster_time = bson_empty_view, cs_operation_timestamp = 0, cs_operation_increment = 0,
     cs_client_generation = 0, cs_server_id = 0, cs_recovery_token = None, cs_with_txn_timeout_ms = 0, cs_fail_commit_label = None\<rparr>"

definition committed_session :: client_session where
  "committed_session = example_session\<lparr>cs_state := MONGOC_INTERNAL_TRANSACTION_COMMITTED\<rparr>"

lemma example_session_ok: "session_ok example_session"
  by (simp add: session_ok_def example_session_def mongoc_session_opts_new_def mongoc_session_opts_set_causal_consistency_def
      mongoc_transaction_opts_new_def txn_opts_ok_def wc_opt_ok_def rp_opt_ok_def wc_ok_def mongoc_write_concern_new_def wc_consts
      mongoc_write_concern_is_acknowledged_def)

theorem commit_commands_witness:
  "\<exists>cmd rwc r v s' sent w'. append_recovery_token example_session (doc_add [] (cs ''commitTransaction'') (D_int32 1)) = Ret cmd \<and>
    mongoc_client_session_commit_transaction (logged run_succeeds) example_client True ([], 0) example_session = Ret (r, v, s', (sent, w')) \<and>
    retry_of (Some mongoc_write_concern_new) rwc \<and> commit_trace cmd example_session (Some mongoc_write_concern_new) rwc sent r"
proof -
  have "to_write_concern (cs_txn_opts example_session) = Some mongoc_write_concern_new"
    "cs_state example_session = MONGOC_INTERNAL_TRANSACTION_IN_PROGRESS" by (simp_all add: example_session_def)
  moreover have "mongoc_write_concern_is_valid (Some mongoc_write_concern_new)"
    by (simp add: mongoc_write_concern_is_valid_def mongoc_write_concern_new_def wc_consts)
  ultimately show ?thesis
    using commit_commands [OF run_succeeds_ok example_client_ok example_session_ok, of mongoc_write_concern_new True 0] by simp
qed

text \<open>
  C40. The time limit of a commit outlives its transaction: a transaction that is started right after another
  one was committed, with default options and options that set no limit, keeps the limit of the
  transaction before it, and so do its commit commands; the options of that transaction are only cleared by a
  command in between.
\<close>

theorem stale_max_commit_time:
  assumes "session_ok s" "cs_state s = MONGOC_INTERNAL_TRANSACTION_COMMITTED"
    "to_max_commit_time_ms (so_default_txn_opts (cs_opts s)) = 0" "case opts of None \<Rightarrow> True | Some opts \<Rightarrow> txn_opts_ok opts \<and> to_max_commit_time_ms opts = 0"
    "0 \<le> ss_txn_number (cs_server_session s)" "ss_txn_number (cs_server_session s) < INT64_MAX"
    "mongoc_client_session_start_transaction sel s opts = Ret (None, s')"
  shows "to_max_commit_time_ms (cs_txn_opts s') = to_max_commit_time_ms (cs_txn_opts s)"
proof -
  have d: "txn_opts_ok (cs_txn_opts s)" "wc_opt_ok (to_write_concern (so_default_txn_opts (cs_opts s)))"
    "rp_opt_ok (to_read_prefs (so_default_txn_opts (cs_opts s)))" using assms(1) by (auto simp: session_ok_def txn_opts_ok_def)
  let ?d = "so_default_txn_opts (cs_opts s)"
  from txn_opts_set_ok [OF d, of "to_read_concern ?d" 0] obtain o1 where o1: "txn_opts_set (cs_txn_opts s) (to_read_concern ?d) (to_write_concern ?d) (to_read_prefs ?d) 0 = Ret o1"
    "txn_opts_ok o1" "to_max_commit_time_ms o1 = to_max_commit_time_ms (cs_txn_opts s)" by auto
  obtain o2 where o2: "(case opts of None \<Rightarrow> Ret o1 | Some opts \<Rightarrow> txn_opts_set o1 (to_read_concern opts) (to_write_concern opts)
      (to_read_prefs opts) (to_max_commit_time_ms opts)) = Ret o2" "to_max_commit_time_ms o2 = to_max_commit_time_ms (cs_txn_opts s)"
    using txn_opts_set_ok [OF o1(2)] o1(3) assms(4) by (cases opts) (auto simp: txn_opts_ok_def, metis)
  show ?thesis
    using assms o1(1) o2
    by (cases sel) (auto simp: mongoc_client_session_start_transaction_def Let_def mongoc_client_session_unpin_def split: if_splits)
qed

theorem stale_max_commit_time_witness:
  "\<exists>s'. mongoc_client_session_start_transaction (Inr example_primary) committed_session None = Ret (None, s') \<and>
     to_max_commit_time_ms (cs_txn_opts s') = 500"
proof -
  have ok: "session_ok committed_session" using example_session_ok by (simp add: session_ok_def committed_session_def)
  obtain s' where s': "mongoc_client_session_start_transaction (Inr example_primary) committed_session None = Ret (None, s')"
    by (auto simp: mongoc_client_session_start_transaction_def example_primary_def committed_session_def example_session_def
        mongoc_session_opts_new_def mongoc_session_opts_set_causal_consistency_def mongoc_transaction_opts_new_def txn_opts_set_def
        mongoc_server_session_new_def INT64_MAX_def DEFAULT_MAX_COMMIT_TIME_MS_def Let_def mongoc_write_concern_is_acknowledged_def
        mongoc_write_concern_new_def wc_consts)
  with stale_max_commit_time [OF ok _ _ _ _ _ s'] show ?thesis
    by (simp add: committed_session_def example_session_def mongoc_session_opts_new_def mongoc_session_opts_set_causal_consistency_def
        mongoc_transaction_opts_new_def INT64_MAX_def DEFAULT_MAX_COMMIT_TIME_MS_def)
qed

end
