(* ===== verification/Mongoc_With_Txn.thy ===== *)
theory Mongoc_With_Txn
  imports Mongoc_Commit_Props
begin

text \<open>
  \<open>mongoc_client_session_with_transaction\<close> comes back: the loop that retries the commit and the loop around it, which runs
  the callback again, each end when the time is used up. The time is a function of the state of the world that grows with
  every command and every callback; the fuel of the loops is the number of passes, for which the number of microseconds of the
  limit is enough.
\<close>

section \<open>Replies that can be read\<close>

definition reply_read :: "bson_view \<Rightarrow> bool" where
  "reply_read v \<longleftrightarrow> (\<exists>fs. reply_fields v fs)"

lemma view_copy_Ret: "reply_read v \<Longrightarrow> \<exists>v'. bson_view_copy v = Ret v'"
proof -
  assume "reply_read v"
  then obtain es where "views v es" by (auto simp: reply_read_def reply_fields_def)
  note this viewsD(1) [OF this]
  then have "unat (bv_len v) \<le> length (bv_data v)" by (auto simp: views_def)
  then show ?thesis by (simp add: bson_view_copy_def rdn_def)
qed

lemma has_label_empty: "mongoc_error_has_label bson_empty_view label = Ret False"
proof -
  have "no_labels []" by (simp add: no_labels_def)
  from labels_missing [OF empty_reply this] show ?thesis by (auto simp: mongoc_error_has_label_def)
qed

lemma string_on:
  assumes "iter_on data len (data_type x, key, data_bytes x) it" "0 \<notin> set key"
  shows "bson_iter_type it = Ret (data_type x)" "data_type x = BSON_TYPE_UTF8 \<Longrightarrow> \<exists>s. iter_utf8_str it = Ret s"
  using on_key(2) [OF assms] type_utf8 on_c_str(1) assms(1) by metis+

lemma codeName_Ret:
  assumes "list_all field_ok gs" "doc_ok (map field gs)"
  shows "\<exists>f. bson_iter_find_descendant (iter_start (doc_bytes (map field gs) @ junk) (of_nat (length (doc_bytes (map field gs)))))
      (cs ''codeName'' @ [0]) = Ret f \<and>
    (\<forall>it. f = Some it \<longrightarrow> (\<exists>x data len. iter_on data len (data_type x, cs ''codeName'', data_bytes x) it))"
proof -
  have k: "0 \<notin> set (cs ''codeName'')" "0x2E \<notin> set (cs ''codeName'')" by (simp_all add: cs_def)
  from find_w_len_start [OF assms(2) k(1), of junk 0 "[]", unfolded find_field]
  show ?thesis unfolding bson_iter_find_descendant.simps [of _ "cs ''codeName'' @ [0]"] dotkey_split_end [OF k]
    by (cases "map_of gs (cs ''codeName'')") (auto simp: bson_iter_find_w_len_def, blast)
qed

lemma max_time_Ret:
  assumes "reply_read v"
  shows "\<exists>b. max_time_ms_failure (Some v) = Ret b"
proof -
  from assms obtain fs where fs: "reply_fields v fs" by (auto simp: reply_read_def)
  then have v: "views v (map field fs)" "list_all field_ok fs" by (auto simp: reply_fields_def)
  have k: "0 \<notin> set (cs ''codeName'')" "0 \<notin> set (cs ''writeConcernError'')" "0x2E \<notin> set (cs ''writeConcernError'')" by (simp_all add: cs_def)
  have dotted: "cs ''writeConcernError.codeName'' @ [0] = cs ''writeConcernError'' @ 0x2E # (cs ''codeName'' @ [0])" by (simp add: cs_def)
  have ok: "list_all elem_ok (map field fs)" using v(2) by (auto simp: list_all_iff field_elem_ok)
  obtain junk where i: "bson_iter_init v = (True, iter_start (doc_bytes (map field fs) @ junk) (of_nat (length (doc_bytes (map field fs)))))"
    "doc_ok (map field fs)" by (rule views_init [OF v(1) ok])
  let ?it = "iter_start (doc_bytes (map field fs) @ junk) (of_nat (length (doc_bytes (map field fs))))"
  from find_w_len_start [OF i(2) k(2), of junk "0x2E" "cs ''codeName'' @ [0]", unfolded find_field] obtain it1 where
    w: "bson_iter_find_w_len ?it (cs ''writeConcernError.codeName'' @ [0]) (int (length (cs ''writeConcernError''))) =
        Ret (map_of fs (cs ''writeConcernError'') \<noteq> None, it1)"
      "\<And>x. map_of fs (cs ''writeConcernError'') = Some x \<Longrightarrow>
        iter_on (doc_bytes (map field fs) @ junk) (it_len ?it) (data_type x, cs ''writeConcernError'', data_bytes x) it1"
    unfolding dotted by (auto simp: bson_iter_find_w_len_def)
  have "\<exists>f. bson_iter_find_descendant ?it (cs ''writeConcernError.codeName'' @ [0]) = Ret f \<and>
      (\<forall>it. f = Some it \<longrightarrow> (\<exists>x data len. iter_on data len (data_type x, cs ''codeName'', data_bytes x) it))"
  proof (cases "map_of fs (cs ''writeConcernError'')")
    case None
    with w(1) show ?thesis unfolding dotted by (simp add: bson_iter_find_descendant.simps [of ?it] dotkey_split_dot [OF k(2,3)])
  next
    case (Some x)
    note on = w(2) [OF Some] and m = reply_member [OF fs Some]
    from recurse_nested [OF on m(3,2)] show ?thesis
      using w(1) Some on_key(2) [OF on k(2)] codeName_Ret unfolding dotted
      by (auto simp: bson_iter_find_descendant.simps [of ?it] dotkey_split_dot [OF k(2,3)])
  qed
  then obtain f where f: "bson_iter_find_descendant ?it (cs ''writeConcernError.codeName'' @ [0]) = Ret f"
    "\<And>it. f = Some it \<Longrightarrow> \<exists>x data len. iter_on data len (data_type x, cs ''codeName'', data_bytes x) it" by blast
  obtain c name where c: "find_typed v (cs ''codeName'') BSON_TYPE_UTF8 = Ret c"
    "(case c of None \<Rightarrow> Ret None | Some it \<Rightarrow> iter_utf8_str it) = Ret name" using find_string_Ret [OF v k(1)] by blast
  show ?thesis
  proof (cases f)
    case None
    with c f(1) i(1) show ?thesis by (auto simp: max_time_ms_failure_def)
  next
    case (Some it)
    from f(2) [OF Some] obtain x data len where "iter_on data len (data_type x, cs ''codeName'', data_bytes x) it" by blast
    note s = string_on [OF this k(1)]
    show ?thesis using c f(1) i(1) Some s by (cases "data_type x = BSON_TYPE_UTF8") (auto simp: max_time_ms_failure_def)
  qed
qed

section \<open>Time\<close>

text \<open>
  The clock that \<open>bson_get_monotonic_time\<close> reads: commands and callbacks take at least a microsecond, and nothing
  sets the clock back.
\<close>

definition timed :: "('w \<Rightarrow> int) \<Rightarrow> 'w txn_env \<Rightarrow> bool" where
  "timed clock env \<longleftrightarrow> (\<forall>w. te_now env w = (clock w, w)) \<and> (\<forall>w. clock w \<le> clock (snd (te_select env w))) \<and>
     (\<forall>w s cmd opts res s' w'. te_run env w s cmd opts = Ret (res, s', w') \<longrightarrow> clock w < clock w') \<and>
     (\<forall>w s res r s' w'. te_cb env w s = Ret (res, r, s', w') \<longrightarrow> clock w < clock w')"

lemma pass_time:
  assumes "timed clock env" "txn_commit_pass (te_run env) client cmd retrying retry w s = Ret (sent, retry', s', w')"
  shows "case sent of None \<Rightarrow> w' = w | Some _ \<Rightarrow> clock w < clock w'"
  using assms by (auto simp: txn_commit_pass_def Let_def timed_def split: prod.splits if_splits option.splits)

lemma commit_time:
  assumes "timed clock env" "cs_fail_commit_label s = None"
    "mongoc_client_session_commit_transaction (te_run env) client want w s = Ret (r, v, s', w')"
  shows "clock w \<le> clock w'" "r \<or> clock w < clock w' \<or> v = bson_empty_view"
proof -
  have commit: "clock w \<le> clock w' \<and> (r \<or> clock w < clock w' \<or> v = bson_empty_view)"
    if "txn_commit (te_run env) client explicitly want w s0 = Ret (r, v, s1, w')" for explicitly s0 s1
    using that
    by (auto simp: txn_commit_def Let_def split: prod.splits if_splits option.splits dest!: pass_time [OF assms(1)])
  show "clock w \<le> clock w'" "r \<or> clock w < clock w' \<or> v = bson_empty_view"
    using assms(2,3) commit by (auto simp: mongoc_client_session_commit_transaction_def Let_def split: txn_state.splits)
qed

lemma abort_time:
  assumes "timed clock env" "mongoc_client_session_abort_transaction (te_run env) w s = Ret (e, s', w')"
  shows "clock w \<le> clock w'"
proof -
  have run: "te_run env w s cmd opts = Ret (res, s', w') \<Longrightarrow> clock w < clock w'" for w s cmd opts res s' w'
    using assms(1) by (auto simp: timed_def)
  have "clock w \<le> clock w'" if "txn_abort (te_run env) w s0 = Ret (r, s1, w')" for s0 r s1
    using that by (auto simp: txn_abort_def Let_def split: prod.splits if_splits dest!: run)
  then show ?thesis using assms(2) by (auto simp: mongoc_client_session_abort_transaction_def split: txn_state.splits)
qed

section \<open>Calls that end a transaction\<close>

definition same_number :: "client_session \<Rightarrow> client_session \<Rightarrow> bool" where
  "same_number s s' \<longleftrightarrow> ss_txn_number (cs_server_session s') = ss_txn_number (cs_server_session s)"

lemma commit_call:
  assumes "run_ok run" "client_ok client" "session_ok s"
    "cs_state s \<in> {MONGOC_INTERNAL_TRANSACTION_STARTING, MONGOC_INTERNAL_TRANSACTION_IN_PROGRESS, MONGOC_INTERNAL_TRANSACTION_COMMITTED}"
  shows "\<exists>r v s' w'. mongoc_client_session_commit_transaction run client want w s = Ret (r, v, s', w') \<and> session_ok s' \<and> same_number s s' \<and>
    reply_read v \<and> cs_state s' \<in> {MONGOC_INTERNAL_TRANSACTION_COMMITTED, MONGOC_INTERNAL_TRANSACTION_COMMITTED_EMPTY} \<and>
    (\<not> r \<longrightarrow> cs_state s' = MONGOC_INTERNAL_TRANSACTION_COMMITTED)"
proof -
  let ?s = "s\<lparr>cs_state := MONGOC_INTERNAL_TRANSACTION_ENDING\<rparr>"
  have "session_after ?s ?s" using assms(3) by (simp add: session_ok_def session_after_def)
  moreover have "wc_opt_ok (cl_write_concern client)" using assms(2) by (simp add: client_ok_def)
  ultimately obtain r v s' w' fs where
    "txn_commit run client (cs_state s = MONGOC_INTERNAL_TRANSACTION_COMMITTED) want w ?s = Ret (r, v, s', w')" "session_after ?s s'" "reply_fields v fs"
    using commit_ok [OF assms(1)] by meson
  moreover then have "reply_read v" "reply_read bson_empty_view" using empty_reply by (auto simp: reply_read_def)
  ultimately show ?thesis
    using assms(3,4)
    by (auto simp: mongoc_client_session_commit_transaction_def Let_def session_ok_def session_after_def same_number_def)
qed

lemma abort_call:
  assumes "run_ok run" "session_ok s" "cs_state s \<in> {MONGOC_INTERNAL_TRANSACTION_STARTING, MONGOC_INTERNAL_TRANSACTION_IN_PROGRESS}"
  shows "\<exists>s' w'. mongoc_client_session_abort_transaction run w s = Ret (None, s', w') \<and> session_ok s' \<and> same_number s s' \<and>
    cs_state s' = MONGOC_INTERNAL_TRANSACTION_ABORTED"
proof -
  let ?s = "s\<lparr>cs_state := MONGOC_INTERNAL_TRANSACTION_ENDING\<rparr>"
  have "session_after ?s ?s" using assms(2) by (simp add: session_ok_def session_after_def)
  then obtain r s' w' where "txn_abort run w ?s = Ret (r, s', w')" "session_after ?s s'" using abort_ok [OF assms(1)] by blast
  then show ?thesis
    using assms(2,3)
    by (auto simp: mongoc_client_session_abort_transaction_def session_ok_def session_after_def same_number_def)
qed

lemma may_retry_Ret:
  assumes "timed clock env" "reply_read v"
  shows "\<exists>again. may_retry env expire v label w = Ret (again, w) \<and> (again \<longrightarrow> clock w < expire \<and> v \<noteq> bson_empty_view)"
proof -
  obtain b where b: "mongoc_error_has_label v label = Ret b" using assms(2) has_label_Ret unfolding reply_read_def by metis
  then show ?thesis
    using assms(1) has_label_empty [of label] by (cases b) (auto simp: may_retry_def timed_def timeout_exceeded_def)
qed

section \<open>The loops end\<close>

lemma commit_loop_ends:
  assumes env: "run_ok (te_run env)" "timed clock env" "client_ok client"
    and s: "session_ok s" "cs_state s \<in> {MONGOC_INTERNAL_TRANSACTION_STARTING, MONGOC_INTERNAL_TRANSACTION_IN_PROGRESS, MONGOC_INTERNAL_TRANSACTION_COMMITTED}"
    and fuel: "nat (expire - clock w) < fuel"
  shows "\<exists>r s' w'. with_txn_commit fuel env client expire w s = Ret (r, s', w') \<and> session_ok s' \<and> same_number s s' \<and>
    cs_state s' \<in> {MONGOC_INTERNAL_TRANSACTION_COMMITTED, MONGOC_INTERNAL_TRANSACTION_COMMITTED_EMPTY} \<and> clock w \<le> clock w' \<and>
    (case r of None \<Rightarrow> clock w' < expire | Some (ok, v) \<Rightarrow> reply_read v)"
  using s fuel
proof (induction fuel arbitrary: w s)
  case (Suc fuel)
  obtain r v s1 w1 where c: "mongoc_client_session_commit_transaction (te_run env) client True w s = Ret (r, v, s1, w1)" "session_ok s1"
    "same_number s s1" "reply_read v" "cs_state s1 \<in> {MONGOC_INTERNAL_TRANSACTION_COMMITTED, MONGOC_INTERNAL_TRANSACTION_COMMITTED_EMPTY}"
    "\<not> r \<longrightarrow> cs_state s1 = MONGOC_INTERNAL_TRANSACTION_COMMITTED" using commit_call [OF env(1,3) Suc.prems(1,2)] by blast
  have fl: "cs_fail_commit_label s = None" using Suc.prems(1) by (simp add: session_ok_def)
  note time = commit_time [OF env(2) fl c(1)]
  obtain expired where m: "max_time_ms_failure (Some v) = Ret expired" using max_time_Ret [OF c(4)] by blast
  obtain a1 where a1: "may_retry env expire v UNKNOWN_COMMIT_RESULT w1 = Ret (a1, w1)" "a1 \<longrightarrow> clock w1 < expire \<and> v \<noteq> bson_empty_view"
    using may_retry_Ret [OF env(2) c(4)] by blast
  obtain a2 where a2: "may_retry env expire v TRANSIENT_TXN_ERR w1 = Ret (a2, w1)" "a2 \<longrightarrow> clock w1 < expire \<and> v \<noteq> bson_empty_view"
    using may_retry_Ret [OF env(2) c(4)] by blast
  show ?case
  proof (cases "\<not> r \<and> \<not> expired \<and> a1")
    case True
    then have "clock w < clock w1" "clock w1 < expire" "cs_state s1 = MONGOC_INTERNAL_TRANSACTION_COMMITTED" using time(2) a1(2) c(6) by auto
    moreover then have "nat (expire - clock w1) < fuel" using Suc.prems(3) by linarith
    ultimately obtain r' s' w' where "with_txn_commit fuel env client expire w1 s1 = Ret (r', s', w')" "session_ok s'" "same_number s1 s'"
      "cs_state s' \<in> {MONGOC_INTERNAL_TRANSACTION_COMMITTED, MONGOC_INTERNAL_TRANSACTION_COMMITTED_EMPTY}" "clock w1 \<le> clock w'"
      "case r' of None \<Rightarrow> clock w' < expire | Some (ok, v) \<Rightarrow> reply_read v" using Suc.IH [OF c(2)] by blast
    with True c(1,3) m a1(1) time(1) show ?thesis by (auto simp: same_number_def)
  next
    case False
    with c m a1 a2 time(1) show ?thesis by auto
  qed
qed simp

text \<open>
  A callback that returns and leaves the session well formed; it may run commands, commit or abort, but does not
  start another transaction.
\<close>

definition cb_ok :: "'w txn_env \<Rightarrow> bool" where
  "cb_ok env \<longleftrightarrow> (\<forall>w s. session_ok s \<longrightarrow> (\<exists>res r s' w'. te_cb env w s = Ret (res, r, s', w') \<and> session_ok s' \<and> same_number s s' \<and>
     (\<forall>v. r = Some v \<longrightarrow> reply_read v)))"

definition not_in_txn :: "client_session \<Rightarrow> bool" where
  "not_in_txn s \<longleftrightarrow> \<not> mongoc_client_session_in_transaction s"

lemma not_in_txn_state:
  "not_in_txn s \<longleftrightarrow> cs_state s \<notin> {MONGOC_INTERNAL_TRANSACTION_STARTING, MONGOC_INTERNAL_TRANSACTION_IN_PROGRESS}"
  by (simp add: not_in_txn_def mongoc_client_session_in_transaction_def mongoc_client_session_in_txn_def)

text \<open>What follows a callback that failed, and one that succeeded.\<close>

lemma after_failure:
  assumes env: "run_ok (te_run env)" "timed clock env" and s: "session_ok s"
  shows "\<exists>s' w'. (if cs_state s \<in> {MONGOC_INTERNAL_TRANSACTION_STARTING, MONGOC_INTERNAL_TRANSACTION_IN_PROGRESS}
      then cbind (mongoc_client_session_abort_transaction (te_run env) w s) (\<lambda>(e, session, w). c_assert (e = None) (Ret (session, w)))
      else Ret (s, w)) = Ret (s', w') \<and> session_ok s' \<and> not_in_txn s' \<and> same_number s s' \<and> clock w \<le> clock w'"
proof (cases "not_in_txn s")
  case True
  with s show ?thesis by (simp add: not_in_txn_state same_number_def)
next
  case False
  then have "cs_state s \<in> {MONGOC_INTERNAL_TRANSACTION_STARTING, MONGOC_INTERNAL_TRANSACTION_IN_PROGRESS}" by (simp add: not_in_txn_state)
  from this abort_call [OF env(1) s this, of w] abort_time [OF env(2)] show ?thesis
    by (auto simp: not_in_txn_state c_assert_def)
qed

lemma after_success:
  assumes env: "run_ok (te_run env)" "timed clock env" "client_ok client" and s: "session_ok s" "\<not> not_in_txn s"
    and fuel: "nat (expire - clock w) < fuel"
  shows "\<exists>r s' w'. with_txn_commit fuel env client expire w s = Ret (r, s', w') \<and> session_ok s' \<and> not_in_txn s' \<and> same_number s s' \<and>
    clock w \<le> clock w' \<and> (case r of None \<Rightarrow> clock w' < expire | Some (ok, v) \<Rightarrow> reply_read v)"
proof -
  have "cs_state s \<in> {MONGOC_INTERNAL_TRANSACTION_STARTING, MONGOC_INTERNAL_TRANSACTION_IN_PROGRESS, MONGOC_INTERNAL_TRANSACTION_COMMITTED}"
    using s(2) by (auto simp: not_in_txn_state)
  from commit_loop_ends [OF env s(1) this fuel] show ?thesis by (auto simp: not_in_txn_state)
qed

text \<open>One pass of the outer loop: it returns, or goes back with less time left.\<close>

lemma txn_pass:
  assumes env: "run_ok (te_run env)" "timed clock env" "client_ok client" "cb_ok env"
    and opts: "case opts of None \<Rightarrow> True | Some opts \<Rightarrow> txn_opts_ok opts"
    and s: "session_ok s" "not_in_txn s" "0 \<le> ss_txn_number (cs_server_session s)" "ss_txn_number (cs_server_session s) < INT64_MAX"
      "nat (expire - clock w) < fuel"
  shows "(\<exists>ok r s' w'. with_txn_loop (Suc fuel) env client opts expire w s = Ret (ok, r, s', w') \<and> session_ok s' \<and> not_in_txn s' \<and>
      (\<forall>v. r = Some v \<longrightarrow> reply_read v)) \<or>
    (\<exists>s' w'. with_txn_loop (Suc fuel) env client opts expire w s = with_txn_loop fuel env client opts expire w' s' \<and> session_ok s' \<and> not_in_txn s' \<and>
      0 \<le> ss_txn_number (cs_server_session s') \<and> ss_txn_number (cs_server_session s') \<le> ss_txn_number (cs_server_session s) + 1 \<and>
      clock w < clock w' \<and> clock w' < expire)"
proof -
  obtain sel w0 where sel: "te_select env w = (sel, w0)" by fastforce
  then have t0: "clock w \<le> clock w0" using env(2) unfolding timed_def by (metis snd_conv)
  obtain e s1 where st: "mongoc_client_session_start_transaction sel s opts = Ret (e, s1)" "session_ok s1"
    "ss_txn_number (cs_server_session s1) \<le> ss_txn_number (cs_server_session s) + 1"
    "ss_txn_number (cs_server_session s) \<le> ss_txn_number (cs_server_session s1)" "e \<noteq> None \<Longrightarrow> cs_state s1 = cs_state s"
    using start_spec [OF s(1) opts s(3,4), of sel] by (auto split: if_splits)
  obtain res r s2 w2 where cb: "te_cb env w0 s1 = Ret (res, r, s2, w2)" "session_ok s2" "same_number s1 s2" "\<And>v. r = Some v \<Longrightarrow> reply_read v"
    using env(4) st(2) unfolding cb_ok_def by meson
  have t2: "clock w < clock w2" using env(2) cb(1) t0 unfolding timed_def by fastforce
  have num: "0 \<le> ss_txn_number (cs_server_session s')" "ss_txn_number (cs_server_session s') \<le> ss_txn_number (cs_server_session s) + 1"
    if "same_number s2 s'" for s' using that cb(3) st(3,4) s(3) by (auto simp: same_number_def)
  let ?active = "case r of None \<Rightarrow> bson_empty_view | Some r \<Rightarrow> r"
  have active: "reply_read ?active" using cb(4) empty_reply by (cases r) (auto simp: reply_read_def)
  consider (refused) "e \<noteq> None" | (failed) "e = None" "\<not> res" | (ended) "e = None" res "not_in_txn s2" | (pending) "e = None" res "\<not> not_in_txn s2"
    by blast
  then show ?thesis
  proof cases
    case refused
    with st s(2) sel show ?thesis by (auto simp: not_in_txn_state)
  next
    case failed
    from after_failure [OF env(1,2) cb(2), of w2] obtain s3 w3 where
      ab: "(if cs_state s2 \<in> {MONGOC_INTERNAL_TRANSACTION_STARTING, MONGOC_INTERNAL_TRANSACTION_IN_PROGRESS}
         then cbind (mongoc_client_session_abort_transaction (te_run env) w2 s2) (\<lambda>(e, session, w). c_assert (e = None) (Ret (session, w)))
         else Ret (s2, w2)) = Ret (s3, w3)" "session_ok s3" "not_in_txn s3" "same_number s2 s3" "clock w2 \<le> clock w3" by blast
    obtain a where a: "may_retry env expire ?active TRANSIENT_TXN_ERR w3 = Ret (a, w3)" "a \<longrightarrow> clock w3 < expire"
      using may_retry_Ret [OF env(2) active] by blast
    have "with_txn_loop (Suc fuel) env client opts expire w s =
        (if a then with_txn_loop fuel env client opts expire w3 s3 else Ret (False, Some ?active, s3, w3))"
      using sel st(1) cb(1) failed ab(1) a(1) by (simp add: Let_def)
    with ab(2-5) a(2) active num [OF ab(4)] t2 show ?thesis by (cases a) auto
  next
    case ended
    have "cs_state s2 \<noteq> MONGOC_INTERNAL_TRANSACTION_ENDING" using cb(2) by (simp add: session_ok_def)
    with ended sel st(1) cb(1) have "with_txn_loop (Suc fuel) env client opts expire w s = Ret (True, Some ?active, s2, w2)"
      by (cases "cs_state s2") (simp_all add: Let_def not_in_txn_state)
    with ended cb(2) active show ?thesis by blast
  next
    case pending
    have "nat (expire - clock w2) < fuel" using s(5) t2 by linarith
    from after_success [OF env(1-3) cb(2) pending(3) this] obtain r3 s3 w3 where
      c: "with_txn_commit fuel env client expire w2 s2 = Ret (r3, s3, w3)" "session_ok s3" "not_in_txn s3" "same_number s2 s3"
      "clock w2 \<le> clock w3" "case r3 of None \<Rightarrow> clock w3 < expire | Some (ok, v) \<Rightarrow> reply_read v" by blast
    have "with_txn_loop (Suc fuel) env client opts expire w s = (case r3 of Some (res, reply) \<Rightarrow> Ret (res, Some reply, s3, w3)
        | None \<Rightarrow> with_txn_loop fuel env client opts expire w3 s3)"
      using sel st(1) cb(1) pending c(1) by (auto simp: Let_def not_in_txn_state)
    with c(2-6) num [OF c(4)] t2 show ?thesis by (cases r3) auto
  qed
qed

lemma txn_loop_ends:
  assumes env: "run_ok (te_run env)" "timed clock env" "client_ok client" "cb_ok env"
    and opts: "case opts of None \<Rightarrow> True | Some opts \<Rightarrow> txn_opts_ok opts"
    and s: "session_ok s" "not_in_txn s" "0 \<le> ss_txn_number (cs_server_session s)"
      "ss_txn_number (cs_server_session s) + int fuel \<le> INT64_MAX" "nat (expire - clock w) + 1 < fuel"
  shows "\<exists>ok r s' w'. with_txn_loop fuel env client opts expire w s = Ret (ok, r, s', w') \<and> session_ok s' \<and> not_in_txn s' \<and>
    (\<forall>v. r = Some v \<longrightarrow> reply_read v)"
  using s
proof (induction fuel arbitrary: w s)
  case (Suc fuel)
  have n: "ss_txn_number (cs_server_session s) < INT64_MAX" "nat (expire - clock w) < fuel" using Suc.prems(4,5) by auto
  from txn_pass [OF env opts Suc.prems(1-3) n] show ?case
  proof
    assume "\<exists>s' w'. with_txn_loop (Suc fuel) env client opts expire w s = with_txn_loop fuel env client opts expire w' s' \<and>
      session_ok s' \<and> not_in_txn s' \<and> 0 \<le> ss_txn_number (cs_server_session s') \<and>
      ss_txn_number (cs_server_session s') \<le> ss_txn_number (cs_server_session s) + 1 \<and> clock w < clock w' \<and> clock w' < expire"
    then obtain s' w' where a: "with_txn_loop (Suc fuel) env client opts expire w s = with_txn_loop fuel env client opts expire w' s'"
      "session_ok s'" "not_in_txn s'" "0 \<le> ss_txn_number (cs_server_session s')"
      "ss_txn_number (cs_server_session s') \<le> ss_txn_number (cs_server_session s) + 1" "clock w < clock w'" "clock w' < expire" by blast
    have "ss_txn_number (cs_server_session s') + int fuel \<le> INT64_MAX" "nat (expire - clock w') + 1 < fuel" using a(5-7) Suc.prems(4,5) by auto
    from Suc.IH [OF a(2-4) this] a(1) show ?thesis by simp
  qed
qed simp


definition example_env :: "nat txn_env" where
  "example_env = \<lparr>te_run = run_succeeds, te_select = (\<lambda>w. (Inr example_primary, w)), te_now = (\<lambda>w. (int w, w)),
     te_cb = (\<lambda>w s. Ret (True, None, s, w + 1))\<rparr>"

lemma example_env_ok: "run_ok (te_run example_env)" "timed int example_env" "cb_ok example_env"
  using run_succeeds_ok by (auto simp: example_env_def timed_def cb_ok_def same_number_def run_succeeds_def)

definition idle_session :: client_session where
  "idle_session = example_session\<lparr>cs_state := MONGOC_INTERNAL_TRANSACTION_NONE, cs_with_txn_timeout_ms := 1\<rparr>"


end
