(* ===== verification/Spec2Isabelle.thy ===== *)
theory Spec2Isabelle
  imports Bson_Keys Bson_String Bson_Oid Bson_Document_Props Common_B64 Mongoc_Select_Props Mongoc_With_Txn
begin

text \<open>
  A verification development for the C library that the MongoDB Swift driver embeds,
  \<open>src/Sources/CLibMongoC\<close>: the BSON library (\<open>bson/\<close>) and, on top of it, the part of the driver
  (\<open>mongoc/\<close>) that keeps track of servers, selects one, and runs transactions.

  \<^bold>\<open>How the parts work together.\<close> Everything the driver exchanges with a server is a BSON document. The
  builder of \<open>bson.c\<close> writes documents, the iterator of \<open>bson-iter.c\<close> reads them. Replies to the \<open>ismaster\<close> command are
  read into server descriptions (\<open>mongoc-server-description.c\<close>), which make up the topology description
  (\<open>mongoc-topology-description.c\<close>), a set of items (\<open>mongoc-set.c\<close>) whose state machine follows the Server Discovery and
  Monitoring specification. Server selection filters the topology by a read preference. A client session
  (\<open>mongoc-client-session.c\<close>) runs transactions over selected servers, with the write and read concerns of
  \<open>mongoc-write-concern.c\<close> and \<open>mongoc-read-concern.c\<close>, and decides on retries by the errors in replies.

  \<^bold>\<open>Conventions.\<close> A C function is a HOL function of the same name (without a leading underscore). Its result
  is an \<open>outcome\<close>: \<open>Ret\<close> a value, \<open>Abort\<close> (a failed \<open>BSON_ASSERT\<close> or \<open>abort ()\<close>), \<open>Fault\<close> (undefined behaviour: an access
  outside a memory object or to freed memory, a null pointer, a signed overflow) or \<open>Timeout\<close> (out of fuel). A
  theorem that a function returns \<open>Ret\<close> therefore says that it is memory safe, reaches no assertion and terminates. Integers are words of
  their width where wrap-around matters and \<open>int\<close> with the range in an invariant elsewhere; structures are records,
  enumerations datatypes; state is passed and returned. Memory that a pointer gives access to is the list of the
  bytes readable from it on; the buffers of documents under construction are cells of an explicit heap (\<open>bheap\<close>), since
  a document and its embedded children share one.

  \<^bold>\<open>Theories, in the order of their imports.\<close>
  \<^item> \<open>Bson_Prelude\<close>: outcomes, byte memory, little-endian integers, lemma collections \<open>c_mem\<close> (evaluation of memory
    accesses) and \<open>word_nat\<close> (word arithmetic read as arithmetic on \<open>nat\<close>).
  \<^item> \<open>Bson_Types\<close>: type codes and the power-of-two helpers of \<open>bson-types.h\<close>.
  \<^item> \<open>Bson_Utf8\<close>: \<open>bson-utf8.c\<close>. Validation accepts exactly the shortest-form encodings of Unicode scalar values and stays
    in bounds.
  \<^item> \<open>Bson_String\<close>: \<open>bson-string.c\<close> and the escaping for JSON of \<open>bson-utf8.c\<close>; where the 32-bit size of a string wraps.
  \<^item> \<open>Bson_Keys\<close>: \<open>bson-keys.c\<close>, the decimal keys of arrays.
  \<^item> \<open>Bson_Oid\<close>: \<open>bson-oid.c\<close>, \<open>bson-oid.h\<close>, \<open>bson-context.c\<close>. Text round trip, order by time, and distinct ObjectIDs under every
    interleaving of threads.
  \<^item> \<open>Common_B64\<close>: \<open>common-b64.c\<close>. Round trip, and decoding of exactly the texts of RFC 4648.
  \<^item> \<open>Bson_Iter\<close>: \<open>bson-iter.c\<close> and \<open>bson-iter.h\<close>. \<open>Bson_Iter_Step\<close> reduces one step of the iterator from 32-bit offsets to
    sizes, \<open>Bson_Iter_Grammar\<close> states the layout of documents, \<open>Bson_Iter_Walk\<close> shows that a walk is safe, ends, and accepts
    exactly the documents of the grammar, and has the searches; \<open>Bson_Iter_Values\<close> has the typed accessors.
  \<^item> \<open>Bson_Builder\<close>: the storage and the append functions of \<open>bson.c\<close>. \<open>Bson_Builder_Store\<close> has the storage invariant and what
    growing keeps; \<open>Bson_Append\<close> states the contract of an append function as the locale \<open>element_writer\<close> and interprets it for
    all 22 append functions; \<open>Bson_Nested\<close> covers documents that are built inside their parent.
  \<^item> \<open>Bson_Document\<close>: creation, copies, transfer, comparison. \<open>Bson_Document_Spec\<close> says what they do on element lists, and
    \<open>Bson_Document_Props\<close> has the properties of builder and iterator together: any well-nested sequence of calls leaves the elements of
    the calls, which the iterator yields.
  \<^item> \<open>Mongoc_Set\<close>: \<open>mongoc-set.c\<close>. The locale \<open>id_map\<close> is what a client expects of a map from ids to items; its interpretation on
    the sorted array gives the refinement, which the topology description uses.
  \<^item> \<open>Mongoc_Host\<close>, \<open>Mongoc_Server\<close>: \<open>mongoc-host-list.c\<close> and \<open>mongoc-server-description.c\<close>, with \<open>ends_intro\<close> for
    partial-correctness steps.
  \<^item> \<open>Mongoc_Topology\<close>: \<open>mongoc-topology-description.c\<close> with its transition table and the events of
    \<open>mongoc-topology-description-apm.c\<close>. \<open>Mongoc_Topology_Ops\<close> says what each operation does on a well-formed description, \<open>Mongoc_Topology_Inv\<close> that
    every transition keeps the invariant, and \<open>Mongoc_Sdam\<close> states the invariants of the reachable descriptions (at
    most one primary, types that fit, elections that never go back) and that the handler of replies always returns.
  \<^item> \<open>Mongoc_Select\<close>, \<open>Mongoc_Select_Props\<close>: read preferences and server selection, equal to the selection rules written as
    filters.
  \<^item> \<open>Mongoc_Concern\<close>, \<open>Mongoc_Concern_Props\<close>: write concerns, read concerns and the errors in replies; the operations keep a write
    concern well formed, and what is sent is read back.
  \<^item> \<open>Mongoc_Session\<close>: \<open>mongoc-client-session.c\<close>. \<open>Mongoc_Reply_Props\<close> shows that replies can be read and what the reply of an
    uncertain commit is; \<open>Mongoc_Session_Props\<close> that the calls on a session refine the state diagram \<open>txn_spec\<close> of
    the Transactions specification; \<open>Mongoc_Commit_Props\<close> what a commit sends; \<open>Mongoc_With_Txn\<close> that
    \<open>mongoc_client_session_with_transaction\<close> returns.

  \<^bold>\<open>Fuel and bounds.\<close> Loops over a document run with \<open>iter_fuel\<close>, the length of the document plus one: every step
  of the iterator advances (\<open>iter_fuel_enough\<close>). The handler of \<open>ismaster\<close> replies calls itself at most once and the
  search for suitable servers at most once, so their depth is 2; \<open>Mongoc_Sdam\<close> and \<open>Mongoc_Select_Props\<close> show that this is enough. The
  loops of \<open>with_transaction\<close> need as many passes as their limit has microseconds, plus two. Documents of at most 1 GiB
  (\<open>DOC_MAX\<close>) always find room in a buffer of their own; the element lists of \<open>Mongoc_Concern\<close> stand for such documents
  (\<open>doc_put_refines\<close>). Replies are at most 64 MiB, more than the 48 MB of the largest message of a server.

  \<^bold>\<open>Parameters.\<close> What a component asks of code outside it is an argument: the function that runs a command
  (\<open>mongoc_client_write_command_with_opts\<close>), the server that was selected for a transaction, the callback of an application, the
  clock, random numbers, the process and host data of an ObjectID context, and the lookup of a session by its id. The
  properties of sessions assume of a command that it returns, with a reply that is a well-formed document (\<open>run_ok\<close>), and of a
  callback that it returns (\<open>cb_ok\<close>).

  \<^bold>\<open>Not modelled.\<close> Extended JSON (\<open>bson-json.c\<close> over the vendored tokenizer \<open>jsonsl.c\<close>) and the variadic \<open>bcon.c\<close>; sockets, TLS,
  compression and authentication, which call the platform; the wire messages, command monitoring, cursors, collections,
  bulk writes, change streams, GridFS and connection strings of \<open>mongoc/\<close>, which sit above or beside the components here; the
  release of memory in \<open>mongoc/\<close> (that of documents is in \<open>Bson_Document\<close>, that of server descriptions in
  \<open>Mongoc_Topology\<close>); locks around the topology, of which each function here is the part that holds the lock; and the Swift
  wrapper \<open>Sources/MongoSwift\<close>.
\<close>

end
